(* ===== verification/IX_Prelude.thy ===== *)
theory IX_Prelude imports Main "HOL-Library.Word" begin

text \<open>
  Shared vocabulary of the development: the machine integers of
  include/core/global/iglobal.h as words, the big-endian byte layout that
  htons/htonl followed by memcpy produces, and the generic lemmas on words,
  lists and option-valued parsers that the component theories share.
\<close>

unbundle bit_operations_syntax

section \<open>Machine integers\<close>

type_synonym xuint8 = "8 word"
type_synonym xuint16 = "16 word"
type_synonym xuint32 = "32 word"
type_synonym xuint64 = "64 word"
type_synonym xint32 = "32 word"
type_synonym xint64 = "64 word"
type_synonym bytes = "8 word list"

named_theorems codec_simps "layout and round-trip equations of the byte codecs"
named_theorems bound_simps "bounds on lengths and indices"

section \<open>Words as numbers\<close>

lemma unat_mask_mod: "unat (w AND mask n :: 'a::len word) = unat w mod 2 ^ n"
  by (simp only: take_bit_eq_mask [symmetric] unsigned_take_bit_eq) (simp add: take_bit_eq_mod)

lemma unat_and_mask_numeral:
  "unat (w AND 1 :: 'a::len word) = unat w mod 2"
  "unat (w AND 7 :: 'a::len word) = unat w mod 8"
  "unat (w AND 15 :: 'a::len word) = unat w mod 16"
  "unat (w AND 31 :: 'a::len word) = unat w mod 32"
  "unat (w AND 63 :: 'a::len word) = unat w mod 64"
  using unat_mask_mod [of w 1] unat_mask_mod [of w 3] unat_mask_mod [of w 4]
    unat_mask_mod [of w 5] unat_mask_mod [of w 6]
  by (simp_all add: mask_eq_exp_minus_1)

lemma unat_drop_bit: "unat (drop_bit n w :: 'a::len word) = unat w div 2 ^ n"
  unfolding unat_drop_bit_eq by (simp add: drop_bit_eq_div)


lemma or_disjoint_add:
  "x AND y = 0 \<Longrightarrow> x OR y = x + (y :: 'a::len word)"
  by (simp add: disjunctive_add_eq_or)

lemma unat_2p_mod: "unat (2 ^ n :: 'a::len word) = 2 ^ n mod 2 ^ LENGTH('a)"
  by (metis of_nat_numeral of_nat_power unat_of_nat)

lemma unat_push_or:
  assumes "unat (x :: 'a::len word) * 2 ^ n + unat y < 2 ^ LENGTH('a)" and "unat y < 2 ^ n"
  shows "unat (push_bit n x OR y) = unat x * 2 ^ n + unat y"
proof -
  have "x * 2 ^ n = push_bit n x" by (simp add: push_bit_eq_mult)
  have y: "take_bit n y = y" using assms(2)
    by (simp add: word_unat_eq_iff unsigned_take_bit_eq take_bit_nat_eq_self_iff)
  have "push_bit n x AND y = 0"
    by (subst y [symmetric], rule bit_word_eqI) (auto simp: bit_simps)
  then have "push_bit n x OR y = push_bit n x + y" by (rule or_disjoint_add)
  also have "unat \<dots> = unat x * 2 ^ n + unat y"
    using assms(1)
    by (simp only: push_bit_eq_mult unat_word_ariths unat_2p_mod mod_simps) simp
  finally show ?thesis .
qed

section \<open>Byte arithmetic\<close>

lemma unat_or_lead:
  "unat (x :: 8 word) < 64 \<Longrightarrow> unat (0x80 OR x) = 128 + unat x"
  "unat (x :: 8 word) < 32 \<Longrightarrow> unat (0xC0 OR x) = 192 + unat x"
  "unat (x :: 8 word) < 16 \<Longrightarrow> unat (0xE0 OR x) = 224 + unat x"
  "unat (x :: 8 word) < 8 \<Longrightarrow> unat (0xF0 OR x) = 240 + unat x"
  using unat_push_or [of "2 :: 8 word" 6 x] unat_push_or [of "6 :: 8 word" 5 x]
    unat_push_or [of "14 :: 8 word" 4 x] unat_push_or [of "30 :: 8 word" 3 x]
  by simp_all

lemma unat_or_cont:
  "unat (ucast (0x80 OR (v AND 0x3F) :: xuint16) :: 8 word) = 128 + unat v mod 64"
proof -
  have "unat (0x80 OR (v AND 0x3F)) = 128 + unat v mod 64"
    using unat_push_or [of "2 :: xuint16" 6 "v AND 0x3F"] by (simp add: unat_and_mask_numeral)
  then show ?thesis by (simp add: unsigned_ucast_eq take_bit_nat_def)
qed

lemma unat_ucast8: "unat (ucast (w :: 'a::len word) :: 8 word) = unat w mod 256"
  by (simp add: unsigned_ucast_eq take_bit_nat_def)

lemma unat_ucast16: "unat (ucast (w :: 'a::len word) :: 16 word) = unat w mod 65536"
  by (simp add: unsigned_ucast_eq take_bit_nat_def)

lemma unat_ucast32_16: "unat (ucast (w :: 16 word) :: 32 word) = unat w"
  by (simp add: unsigned_ucast_eq take_bit_nat_eq_self_iff order_less_le_trans [OF unsigned_less])

lemma unat_ucast32_8: "unat (ucast (w :: 8 word) :: 32 word) = unat w"
  by (simp add: unsigned_ucast_eq take_bit_nat_eq_self_iff order_less_le_trans [OF unsigned_less])

lemma unat_ucast64_32: "unat (ucast (w :: 32 word) :: 64 word) = unat w"
  by (simp add: unsigned_ucast_eq take_bit_nat_eq_self_iff order_less_le_trans [OF unsigned_less])

lemma unat_ucast32: "unat (ucast (w :: 'a::len word) :: 32 word) = unat w mod 2 ^ 32"
  by (simp add: unsigned_ucast_eq take_bit_nat_def)

lemma unat_or_middle:
  "unat (0x80 OR (ucast (drop_bit k (v :: 'a::len word)) AND 0x3F) :: 8 word) = 128 + unat v div 2 ^ k mod 64"
proof -
  have "unat (ucast (drop_bit k v) AND 0x3F :: 8 word) = unat v div 2 ^ k mod 256 mod 64"
    by (simp add: unat_and_mask_numeral unat_ucast8 unat_drop_bit)
  also have "\<dots> = unat v div 2 ^ k mod 64" by (simp add: mod_mod_cancel)
  finally show ?thesis by (subst unat_or_lead(1)) simp_all
qed


lemma push_drop_bit: "push_bit n (drop_bit n w) = w AND NOT (mask n :: 'a::len word)"
  by (rule bit_word_eqI) (auto simp: bit_simps)

lemma unat_and_not_mask: "unat (w AND NOT (mask n) :: 'a::len word) = unat w div 2 ^ n * 2 ^ n"
proof (cases "n < LENGTH('a)")
  case True
  have "unat w div 2 ^ n * 2 ^ n < 2 ^ LENGTH('a)"
    by (rule order_le_less_trans [OF div_times_less_eq_dividend unsigned_less])
  then show ?thesis using True
    by (simp add: push_drop_bit [symmetric] push_bit_eq_mult unat_word_ariths unat_drop_bit unat_2p_mod)
next
  case False
  then have "NOT (mask n) = (0 :: 'a word)" by (intro bit_word_eqI) (auto simp: bit_simps)
  moreover have "unat w < 2 ^ n"
    using False by (meson leI order_less_le_trans unsigned_less one_le_numeral power_increasing)
  ultimately show ?thesis by simp
qed

section \<open>Network byte order\<close>

text \<open>
  \<open>be_bytes k n\<close> is the k-byte big-endian layout of n (what htons/htonl and a
  memcpy of the result write on any host), \<open>be_val\<close> reads one back.
\<close>

fun be_bytes :: "nat \<Rightarrow> nat \<Rightarrow> bytes" where
  "be_bytes 0 n = []"
| "be_bytes (Suc k) n = be_bytes k (n div 256) @ [of_nat n]"

definition be_val :: "bytes \<Rightarrow> nat" where
  "be_val bs = foldl (\<lambda>a b. a * 256 + unat b) 0 bs"

lemma length_be_bytes [simp]: "length (be_bytes k n) = k"
  by (induction k arbitrary: n) auto

lemma be_val_snoc: "be_val (bs @ [b]) = be_val bs * 256 + unat b"
  by (simp add: be_val_def)

lemma be_val_be_bytes [codec_simps]: "be_val (be_bytes k n) = n mod 256 ^ k"
proof (induction k arbitrary: n)
  case 0
  show ?case by (simp add: be_val_def)
next
  case (Suc k)
  have "unat (of_nat n :: 8 word) = n mod 256" by (simp add: unat_of_nat)
  then show ?case using Suc
    by (simp add: be_val_snoc mod_mult2_eq [of n 256 "256 ^ k"] mult.commute)
qed

lemma be_bytes_numeral:
  "be_bytes (numeral k) n = be_bytes (pred_numeral k) (n div 256) @ [of_nat n]"
  by (subst numeral_eq_Suc) (rule be_bytes.simps)

definition be16 :: "xuint16 \<Rightarrow> bytes" where "be16 w = be_bytes 2 (unat w)"
definition be32 :: "xuint32 \<Rightarrow> bytes" where "be32 w = be_bytes 4 (unat w)"
definition be64 :: "xuint64 \<Rightarrow> bytes" where "be64 w = be_bytes 8 (unat w)"
definition of_be16 :: "bytes \<Rightarrow> xuint16" where "of_be16 bs = of_nat (be_val bs)"
definition of_be32 :: "bytes \<Rightarrow> xuint32" where "of_be32 bs = of_nat (be_val bs)"
definition of_be64 :: "bytes \<Rightarrow> xuint64" where "of_be64 bs = of_nat (be_val bs)"

lemma length_be [simp]: "length (be16 a) = 2" "length (be32 b) = 4" "length (be64 c) = 8"
  by (simp_all add: be16_def be32_def be64_def)

lemma be_nonempty [simp]: "be16 a \<noteq> []" "be32 b \<noteq> []" "be64 c \<noteq> []"
  by (auto dest: arg_cong [of _ _ length])

lemma of_be_be [simp, codec_simps]:
  "of_be16 (be16 a) = a" "of_be32 (be32 b) = b" "of_be64 (be64 c) = c"
proof -
  have "unat a < 256 ^ 2" "unat b < 256 ^ 4" "unat c < 256 ^ 8"
    using unsigned_less [of a, where ?'a = nat] unsigned_less [of b, where ?'a = nat]
      unsigned_less [of c, where ?'a = nat] by simp_all
  then show "of_be16 (be16 a) = a" "of_be32 (be32 b) = b" "of_be64 (be64 c) = c"
    by (simp_all add: be16_def be32_def be64_def of_be16_def of_be32_def of_be64_def
          be_val_be_bytes del: power_numeral)
qed

section \<open>Loops that may fail\<close>

text \<open>A loop over a list whose body can fail: the first failure ends it.\<close>

fun fold_opt :: "('i \<Rightarrow> 's \<Rightarrow> 's option) \<Rightarrow> 'i list \<Rightarrow> 's \<Rightarrow> 's option" where
  "fold_opt f [] s = Some s"
| "fold_opt f (x # xs) s = (case f x s of None \<Rightarrow> None | Some s' \<Rightarrow> fold_opt f xs s')"

lemma fold_opt_append:
  "fold_opt f (xs @ ys) s = (case fold_opt f xs s of None \<Rightarrow> None | Some s' \<Rightarrow> fold_opt f ys s')"
  by (induction xs arbitrary: s) (auto split: option.splits)

end
