(* ===== verification/Utf8_Codec.thy ===== *)
theory Utf8_Codec imports IX_Prelude begin

text \<open>
  The stateless UTF-8 codec of src/core/utils/istringconverter.cpp and
  istringconverter_p.h, with the surrogate arithmetic of include/core/utils/ichar.h.
  An iString is the list of its UTF-16 units, an iByteArray the list of its bytes.
  The template parameter Traits is instantiated in the sources by iUtf8BaseTraits,
  iUtf8BaseTraitsNoAscii and iUtf8NoOutputTraits: all have isTrusted = false and
  allowNonCharacters = true, so only skipAsciiHandling remains as an argument.
\<close>

type_synonym ustring = "16 word list"

section \<open>Surrogates (ichar.h)\<close>

definition isHighSurrogate :: "xuint32 \<Rightarrow> bool" where
  "isHighSurrogate u \<longleftrightarrow> u AND 0xFFFFFC00 = 0xD800"

definition isLowSurrogate :: "xuint32 \<Rightarrow> bool" where
  "isLowSurrogate u \<longleftrightarrow> u AND 0xFFFFFC00 = 0xDC00"

definition isSurrogate :: "xuint32 \<Rightarrow> bool" where
  "isSurrogate u \<longleftrightarrow> u - 0xD800 < 2048"

definition requiresSurrogates :: "xuint32 \<Rightarrow> bool" where
  "requiresSurrogates u \<longleftrightarrow> 0x10000 \<le> u"

definition surrogateToUcs4 :: "xuint16 \<Rightarrow> xuint16 \<Rightarrow> xuint32" where
  "surrogateToUcs4 high low = push_bit 10 (ucast high) + ucast low - 0x35FDC00"

definition highSurrogate :: "xuint32 \<Rightarrow> xuint16" where
  "highSurrogate u = ucast (drop_bit 10 u + 0xD7C0)"

definition lowSurrogate :: "xuint32 \<Rightarrow> xuint16" where
  "lowSurrogate u = ucast (u mod 0x400 + 0xDC00)"

section \<open>One code point (iUtf8Functions)\<close>

datatype utf8_status = Done nat | Error | EndOfString

text \<open>\<open>toUtf8 skipAscii u src\<close>: the status, the bytes appended to dst and the rest of src.\<close>

definition toUtf8 :: "bool \<Rightarrow> xuint16 \<Rightarrow> ustring \<Rightarrow> utf8_status \<times> bytes \<times> ustring" where
  "toUtf8 skipAscii u src =
     (if \<not> skipAscii \<and> u < 0x80 then (Done 0, [ucast u], src)
      else
        let lastByte = (\<lambda>v::xuint16. ucast (0x80 OR (v AND 0x3F)) :: 8 word);
            middleByte = (\<lambda>v::xuint16. 0x80 OR (ucast (drop_bit 6 v) AND 0x3F) :: 8 word)
        in if u < 0x0800 then (Done 0, [0xC0 OR ucast (drop_bit 6 u), lastByte u], src)
        else if \<not> isSurrogate (ucast u) then
          (Done 0, [0xE0 OR ucast (drop_bit 12 u), middleByte u, lastByte u], src)
        else (case src of
            [] \<Rightarrow> (EndOfString, [], src)
          | low # src' \<Rightarrow>
              if \<not> isHighSurrogate (ucast u) then (Error, [], src)
              else if \<not> isLowSurrogate (ucast low) then (Error, [], src)
              else
                let ucs4 = surrogateToUcs4 u low; v = ucast ucs4
                in (Done 0,
                    [0xF0 OR (ucast (drop_bit 18 ucs4) AND 0xF),
                     0x80 OR (ucast (drop_bit 12 ucs4) AND 0x3F), middleByte v, lastByte v],
                    src')))"

definition isContinuationByte :: "8 word \<Rightarrow> bool" where
  "isContinuationByte b \<longleftrightarrow> b AND 0xC0 = 0x80"

text \<open>The lead byte's sequence length, least code point and payload bits; None is an error.\<close>

definition utf8_lead :: "8 word \<Rightarrow> (nat \<times> xuint32 \<times> xuint32) option" where
  "utf8_lead b =
     (if b \<le> 0xC1 then None
      else if b < 0xE0 then Some (2, 0x80, ucast (b AND 0x1F))
      else if b < 0xF0 then Some (3, 0x800, ucast (b AND 0x0F))
      else if b < 0xF5 then Some (4, 0x10000, ucast (b AND 0x07))
      else None)"

text \<open>The continuation bytes, each checked and shifted in, in order.\<close>

fun utf8_continue :: "nat \<Rightarrow> xuint32 \<Rightarrow> bytes \<Rightarrow> xuint32 option" where
  "utf8_continue 0 uc src = Some uc"
| "utf8_continue (Suc n) uc [] = None"
| "utf8_continue (Suc n) uc (b # src) =
     (if \<not> isContinuationByte b then None
      else utf8_continue n (push_bit 6 uc OR ucast (b AND 0x3F)) src)"

text \<open>\<open>fromUtf8 skipAscii b src\<close>: the status, the units appended to dst and the rest of src.\<close>

definition fromUtf8 :: "bool \<Rightarrow> 8 word \<Rightarrow> bytes \<Rightarrow> utf8_status \<times> ustring \<times> bytes" where
  "fromUtf8 skipAscii b src =
     (if \<not> skipAscii \<and> b < 0x80 then (Done 1, [ucast b], src)
      else case utf8_lead b of
        None \<Rightarrow> (Error, [], src)
      | Some (charsNeeded, min_uc, uc0) \<Rightarrow>
          if length src < charsNeeded - 1 then
            (if length src > 0 \<and> \<not> isContinuationByte (src ! 0) then (Error, [], src)
             else if length src > 1 \<and> \<not> isContinuationByte (src ! 1) then (Error, [], src)
             else (EndOfString, [], src))
          else case utf8_continue (charsNeeded - 1) uc0 src of
            None \<Rightarrow> (Error, [], src)
          | Some uc \<Rightarrow>
              if uc < min_uc then (Error, [], src)
              else if isSurrogate uc \<or> uc > 0x10FFFF then (Error, [], src)
              else (Done charsNeeded,
                    (if \<not> requiresSurrogates uc then [ucast uc]
                     else [highSurrogate uc, lowSurrogate uc]),
                    drop (charsNeeded - 1) src))"

lemma toUtf8_rest: "toUtf8 sk u src = (r, bs, src') \<Longrightarrow> length src' \<le> length src"
  by (auto simp: toUtf8_def Let_def split: if_splits list.splits)

lemma fromUtf8_rest: "fromUtf8 sk b src = (r, us, src') \<Longrightarrow> length src' \<le> length src"
  by (auto simp: fromUtf8_def Let_def split: if_splits list.splits option.splits)

section \<open>Whole strings (iUtf8)\<close>

text \<open>
  The encoding loop. Utf8EncodingErrorFunctor takes its cursor by value, so the
  question mark it stores is past the cursor the loop goes on with: dst is unchanged.
\<close>

definition encodingErrorFunctor :: "bytes \<Rightarrow> xuint16 \<Rightarrow> utf8_status \<Rightarrow> bytes" where
  "encodingErrorFunctor dst u r = dst"

function convertFromUnicode_loop ::
  "(bytes \<Rightarrow> xuint16 \<Rightarrow> utf8_status \<Rightarrow> bytes) \<Rightarrow> bytes \<Rightarrow> ustring \<Rightarrow> bytes" where
  "convertFromUnicode_loop onError dst [] = dst"
| "convertFromUnicode_loop onError dst (u # src) =
     (case toUtf8 False u src of
        (Done n, bs, src') \<Rightarrow> convertFromUnicode_loop onError (dst @ bs) src'
      | (r, bs, src') \<Rightarrow> convertFromUnicode_loop onError (onError (dst @ bs) u r) src')"
  by pat_completeness auto
termination
  by (relation "measure (\<lambda>(f, dst, src). length src)")
     (auto dest!: sym [of _ "toUtf8 _ _ _"] toUtf8_rest)

definition convertFromUnicode :: "ustring \<Rightarrow> bytes" where
  "convertFromUnicode s = convertFromUnicode_loop encodingErrorFunctor [] s"

definition ReplacementCharacter :: xuint16 where "ReplacementCharacter = 0xFFFD"

function convertToUnicode_loop :: "ustring \<Rightarrow> bytes \<Rightarrow> ustring" where
  "convertToUnicode_loop dst [] = dst"
| "convertToUnicode_loop dst (b # src) =
     (case fromUtf8 False b src of
        (Done n, us, src') \<Rightarrow> convertToUnicode_loop (dst @ us) src'
      | (r, us, src') \<Rightarrow> convertToUnicode_loop (dst @ us @ [ReplacementCharacter]) src')"
  by pat_completeness auto
termination
  by (relation "measure (\<lambda>(dst, src). length src)")
     (auto dest!: sym [of _ "fromUtf8 _ _ _"] fromUtf8_rest)

definition utf8bom :: bytes where "utf8bom = [0xEF, 0xBB, 0xBF]"

definition convertToUnicode :: "bytes \<Rightarrow> ustring" where
  "convertToUnicode inp =
     convertToUnicode_loop []
       (if length inp \<ge> length utf8bom \<and> take (length utf8bom) inp = utf8bom
        then drop (length utf8bom) inp else inp)"

text \<open>isValidUtf8: the pair (isValidUtf8, isValidAscii).\<close>

function isValidUtf8_loop :: "bool \<Rightarrow> bytes \<Rightarrow> bool \<times> bool" where
  "isValidUtf8_loop ascii [] = (True, ascii)"
| "isValidUtf8_loop ascii (b # src) =
     (if b AND 0x80 = 0 then isValidUtf8_loop ascii src
      else case fromUtf8 True b src of
        (Done n, us, src') \<Rightarrow> isValidUtf8_loop False src'
      | _ \<Rightarrow> (False, False))"
  by pat_completeness auto
termination
  by (relation "measure (\<lambda>(a, src). length src)")
     (auto dest!: sym [of _ "fromUtf8 _ _ _"] fromUtf8_rest)

definition isValidUtf8 :: "bytes \<Rightarrow> bool \<times> bool" where
  "isValidUtf8 inp = isValidUtf8_loop True inp"

fun convertFromLatin1 :: "bytes \<Rightarrow> bytes" where
  "convertFromLatin1 [] = []"
| "convertFromLatin1 (ch # it) =
     (if ch < 128 then ch # convertFromLatin1 it
      else (0xC0 OR drop_bit 6 ch) # (0x80 OR (ch AND 0x3F)) # convertFromLatin1 it)"

section \<open>The codec in arithmetic\<close>

lemma isContinuationByte_iff: "isContinuationByte b \<longleftrightarrow> 128 \<le> unat b \<and> unat b < 192"
proof -
  have "unat (b AND 0xC0) = unat b div 64 * 64"
  proof -
    have "(0xC0 :: 8 word) = NOT (mask 6)" by (simp add: mask_eq_exp_minus_1)
    then show ?thesis using unat_and_not_mask [of b 6] by (simp only:) simp
  qed
  then have "isContinuationByte b \<longleftrightarrow> unat b div 64 * 64 = 128"
    unfolding isContinuationByte_def word_unat_eq_iff by simp
  then show ?thesis by auto
qed
lemma unat_high_mask: "unat (u AND 0xFFFFFC00 :: xuint32) = unat u div 1024 * 1024"
proof -
  have "(0xFFFFFC00 :: xuint32) = NOT (mask 10)" by (simp add: mask_eq_exp_minus_1)
  then show ?thesis using unat_and_not_mask [of u 10] by (simp only:) simp
qed

lemma surrogate_iffs:
  "isHighSurrogate u \<longleftrightarrow> 0xD800 \<le> unat u \<and> unat u < 0xDC00"
  "isLowSurrogate u \<longleftrightarrow> 0xDC00 \<le> unat u \<and> unat u < 0xE000"
  "isSurrogate u \<longleftrightarrow> 0xD800 \<le> unat u \<and> unat u < 0xE000"
  "requiresSurrogates u \<longleftrightarrow> 0x10000 \<le> unat u"
proof -
  show "isHighSurrogate u \<longleftrightarrow> 0xD800 \<le> unat u \<and> unat u < 0xDC00"
    unfolding isHighSurrogate_def word_unat_eq_iff unat_high_mask by auto
  show "isLowSurrogate u \<longleftrightarrow> 0xDC00 \<le> unat u \<and> unat u < 0xE000"
    unfolding isLowSurrogate_def word_unat_eq_iff unat_high_mask by auto
  have "unat u < 2 ^ 32" using unsigned_less [of u, where ?'a = nat] by simp
  then show "isSurrogate u \<longleftrightarrow> 0xD800 \<le> unat u \<and> unat u < 0xE000"
    unfolding isSurrogate_def word_less_nat_alt unat_sub_if' word_le_nat_alt by auto
  show "requiresSurrogates u \<longleftrightarrow> 0x10000 \<le> unat u"
    unfolding requiresSurrogates_def word_le_nat_alt by simp
qed

lemma unat_surrogateToUcs4:
  assumes "isHighSurrogate (ucast h)" and "isLowSurrogate (ucast l)"
  shows "unat (surrogateToUcs4 h l) = (unat h - 0xD800) * 1024 + (unat l - 0xDC00) + 0x10000"
proof -
  have h: "0xD800 \<le> unat h" "unat h < 0xDC00" and l: "0xDC00 \<le> unat l" "unat l < 0xE000"
    using assms by (simp_all add: surrogate_iffs unat_ucast32_16)
  have a: "unat (push_bit 10 (ucast h :: xuint32) + ucast l) = unat h * 1024 + unat l"
    using h l by (simp add: push_bit_eq_mult unat_word_ariths unat_ucast32_16)
  show ?thesis
    unfolding surrogateToUcs4_def unat_sub_if' a word_le_nat_alt using h l by simp
qed

lemma utf8_lead_cases:
  "unat b \<le> 0xC1 \<Longrightarrow> utf8_lead b = None"
  "0xC1 < unat b \<Longrightarrow> unat b < 0xE0 \<Longrightarrow> utf8_lead b = Some (2, 0x80, ucast (b AND 0x1F))"
  "0xE0 \<le> unat b \<Longrightarrow> unat b < 0xF0 \<Longrightarrow> utf8_lead b = Some (3, 0x800, ucast (b AND 0x0F))"
  "0xF0 \<le> unat b \<Longrightarrow> unat b < 0xF5 \<Longrightarrow> utf8_lead b = Some (4, 0x10000, ucast (b AND 0x07))"
  "0xF5 \<le> unat b \<Longrightarrow> utf8_lead b = None"
  by (simp_all add: utf8_lead_def word_le_nat_alt word_less_nat_alt)

lemma unat_continue:
  assumes "unat (uc :: xuint32) < 2 ^ 26"
  shows "unat (push_bit 6 uc OR ucast (b AND 0x3F :: 8 word)) = unat uc * 64 + unat b mod 64"
  using unat_push_or [of uc 6 "ucast (b AND 0x3F)"] assms
  by (simp add: unat_ucast32_8 unat_and_mask_numeral)

text \<open>A decoder call on exactly one sequence, in arithmetic.\<close>

lemma utf8_continue_Cons:
  assumes "128 \<le> unat b" and "unat b < 192" and "unat uc < 2 ^ 26"
  shows "\<exists>uc'. unat uc' = unat uc * 64 + unat b mod 64 \<and>
           utf8_continue (Suc n) uc (b # src) = utf8_continue n uc' src"
  using assms unat_continue [OF assms(3), of b] by (auto simp: isContinuationByte_iff)

lemma xuint16_eqI: "unat (uc :: xuint32) = unat u \<Longrightarrow> ucast uc = (u :: xuint16)"
  by (simp add: word_unat_eq_iff unat_ucast16 order_less_le_trans [OF unsigned_less])
lemma fromUtf8_ok:
  assumes "utf8_lead b = Some (Suc n, m, uc0)" and "length cs = n" and "128 \<le> unat b"
    and "utf8_continue n uc0 (cs @ rest) = Some uc" and "unat m \<le> unat uc"
    and "\<not> (0xD800 \<le> unat uc \<and> unat uc < 0xE000)" and "unat uc \<le> 0x10FFFF"
  shows "fromUtf8 sk b (cs @ rest) =
    (Done (Suc n), if unat uc < 0x10000 then [ucast uc] else [highSurrogate uc, lowSurrogate uc], rest)"
  using assms by (auto simp: fromUtf8_def surrogate_iffs word_less_nat_alt word_le_nat_alt)

declare utf8_continue.simps(3) [simp del]

lemma add_mult_mod_less: "k < m \<Longrightarrow> (q * m + k) mod m = (k :: nat)"
  by (simp only: mod_mult_self3 mod_less)

lemma lead_mods:
  "k < 32 \<Longrightarrow> (192 + k) mod 32 = (k :: nat)"
  "k < 16 \<Longrightarrow> (224 + k) mod 16 = (k :: nat)"
  "k < 8 \<Longrightarrow> (240 + k) mod 8 = (k :: nat)"
  "k < 64 \<Longrightarrow> (128 + k) mod 64 = (k :: nat)"
  using add_mult_mod_less [of k 32 6] add_mult_mod_less [of k 16 14]
    add_mult_mod_less [of k 8 30] add_mult_mod_less [of k 64 2] by simp_all

lemma utf8_continue_obtain:
  assumes "unat b = 128 + k" and "k < 64" and "unat uc = a" and "a \<le> w" and "w \<le> 0x10FFFF" and "m = Suc n"
  obtains uc' where "unat uc' = a * 64 + k"
    and "utf8_continue m uc (b # src) = utf8_continue n uc' src"
  using utf8_continue_Cons [of b uc n src] assms lead_mods(4) [of k] by fastforce

lemma decode2:
  assumes "unat b = 192 + v div 64" and "unat c = 128 + v mod 64" and "0x80 \<le> v" and "v < 0x800"
    and "v = unat (u :: xuint16)"
  shows "fromUtf8 sk b ([c] @ rest) = (Done 2, [u], rest)"
proof -
  have l: "utf8_lead b = Some (Suc 1, 0x80, ucast (b AND 0x1F))"
    using utf8_lead_cases(2) [of b] assms by (auto simp: numeral_2_eq_2)
  have 0: "unat (ucast (b AND 0x1F) :: xuint32) = v div 64"
    using assms lead_mods(1) [of "v div 64"] by (simp add: unat_ucast32_8 unat_and_mask_numeral)
  have hv: "v \<le> 0x10FFFF" using assms(4) by simp
  obtain uc where uc: "unat uc = v div 64 * 64 + v mod 64"
    and c: "utf8_continue 1 (ucast (b AND 0x1F)) ([c] @ rest) = Some uc"
    by (rule utf8_continue_obtain [OF assms(2) _ 0 div_le_dividend hv, of 1 0 rest]) auto
  have v: "unat uc = v" using uc by simp
  show ?thesis
    using fromUtf8_ok [OF l _ _ c, of sk] assms v xuint16_eqI [of uc u] by simp
qed

lemma decode3:
  assumes "unat b = 224 + v div 4096" and "unat c = 128 + v div 64 mod 64" and "unat d = 128 + v mod 64"
    and "0x800 \<le> v" and "\<not> (0xD800 \<le> v \<and> v < 0xE000)" and "v = unat (u :: xuint16)"
  shows "fromUtf8 sk b ([c, d] @ rest) = (Done 3, [u], rest)"
proof -
  have v16: "v < 65536" using assms(6) unsigned_less [of u, where ?'a = nat] by simp
  have l: "utf8_lead b = Some (Suc 2, 0x800, ucast (b AND 0x0F))"
    using utf8_lead_cases(3) [of b] assms v16 by (auto simp: numeral_3_eq_3 numeral_2_eq_2)
  have 0: "unat (ucast (b AND 0x0F) :: xuint32) = v div 4096"
    using assms v16 lead_mods(2) [of "v div 4096"] by (simp add: unat_ucast32_8 unat_and_mask_numeral)
  have hv: "v \<le> 0x10FFFF" using v16 by simp
  obtain uc1 where uc1: "unat uc1 = v div 4096 * 64 + v div 64 mod 64"
    and c: "utf8_continue 2 (ucast (b AND 0x0F)) ([c, d] @ rest) = utf8_continue 1 uc1 ([d] @ rest)"
    by (rule utf8_continue_obtain [OF assms(2) _ 0 div_le_dividend hv, of 2 1 "[d] @ rest"]) auto
  have e: "unat uc1 = v div 64" using uc1 by (simp add: div_mult2_eq [of v 64 64, simplified])
  obtain uc where uc: "unat uc = v div 64 * 64 + v mod 64"
    and d: "utf8_continue 1 uc1 ([d] @ rest) = Some uc"
    by (rule utf8_continue_obtain [OF assms(3) _ e div_le_dividend hv, of 1 0 rest]) auto
  have v: "unat uc = v" using uc by simp
  show ?thesis
    using fromUtf8_ok [OF l _ _ trans [OF c d], of sk] assms v v16 xuint16_eqI [of uc u]
    by (simp add: numeral_3_eq_3)
qed

lemma decode4:
  assumes "unat b = 240 + v div 262144" and "unat c = 128 + v div 4096 mod 64"
    and "unat d = 128 + v div 64 mod 64" and "unat e = 128 + v mod 64"
    and "0x10000 \<le> v" and "v \<le> 0x10FFFF"
  shows "\<exists>uc. unat uc = v \<and>
    fromUtf8 sk b ([c, d, e] @ rest) = (Done 4, [highSurrogate uc, lowSurrogate uc], rest)"
proof -
  have v5: "v div 262144 < 5" using assms(6) by linarith
  then have l: "utf8_lead b = Some (Suc 3, 0x10000, ucast (b AND 0x07))"
    using utf8_lead_cases(4) [of b] assms by simp
  have 0: "unat (ucast (b AND 0x07) :: xuint32) = v div 262144"
    using assms v5 lead_mods(3) [of "v div 262144"] by (simp add: unat_ucast32_8 unat_and_mask_numeral)
  have hv: "v \<le> 0x10FFFF" by (rule assms(6))
  obtain uc1 where uc1: "unat uc1 = v div 262144 * 64 + v div 4096 mod 64"
    and c: "utf8_continue 3 (ucast (b AND 0x07)) ([c, d, e] @ rest) = utf8_continue 2 uc1 ([d, e] @ rest)"
    by (rule utf8_continue_obtain [OF assms(2) _ 0 div_le_dividend hv, of 3 2 "[d, e] @ rest"]) auto
  have e1: "unat uc1 = v div 4096" using uc1 by (simp add: div_mult2_eq [of v 4096 64, simplified])
  obtain uc2 where uc2: "unat uc2 = v div 4096 * 64 + v div 64 mod 64"
    and d: "utf8_continue 2 uc1 ([d, e] @ rest) = utf8_continue 1 uc2 ([e] @ rest)"
    by (rule utf8_continue_obtain [OF assms(3) _ e1 div_le_dividend hv, of 2 1 "[e] @ rest"]) auto
  have e2: "unat uc2 = v div 64" using uc2 by (simp add: div_mult2_eq [of v 64 64, simplified])
  obtain uc where uc: "unat uc = v div 64 * 64 + v mod 64"
    and e: "utf8_continue 1 uc2 ([e] @ rest) = Some uc"
    by (rule utf8_continue_obtain [OF assms(4) _ e2 div_le_dividend hv, of 1 0 rest]) auto
  have v: "unat uc = v" using uc by simp
  show ?thesis
    using fromUtf8_ok [OF l _ _ trans [OF trans [OF c d] e], of sk] assms v by auto
qed

lemma surrogate_pair_inverse:
  assumes "unat uc = (unat h - 0xD800) * 1024 + (unat l - 0xDC00) + 0x10000"
    and "isHighSurrogate (ucast h)" and "isLowSurrogate (ucast l)"
  shows "highSurrogate uc = h" and "lowSurrogate uc = l"
proof -
  have h: "0xD800 \<le> unat h" "unat h < 0xDC00" and l: "0xDC00 \<le> unat l" "unat l < 0xE000"
    using assms by (simp_all add: surrogate_iffs unat_ucast32_16)
  define k r where "k = unat h - 0xD800 + 64" and "r = unat l - 0xDC00"
  have r: "r < 1024" and "unat uc = r + k * 1024" using assms(1) h l by (auto simp: k_def r_def)
  then have "unat uc div 1024 = k" and "unat uc mod 1024 = r"
    by simp_all
  then have "unat uc div 1024 = unat h - 0xD800 + 64" and m: "unat uc mod 1024 = unat l - 0xDC00"
    by (simp_all add: k_def r_def)
  then have "unat (drop_bit 10 uc + 0xD7C0) = unat h"
    using h by (simp add: unat_word_ariths unat_drop_bit)
  then show "highSurrogate uc = h" unfolding highSurrogate_def by (rule xuint16_eqI)
  have "unat (uc mod 0x400 + 0xDC00) = unat l"
    using m l by (simp add: unat_word_ariths unat_mod)
  then show "lowSurrogate uc = l" unfolding lowSurrogate_def by (rule xuint16_eqI)
qed

section \<open>Encoding then decoding\<close>

text \<open>What decoding must give back for the sequence that encodes the units \<open>us\<close>.\<close>

definition decodes_to :: "bytes \<Rightarrow> ustring \<Rightarrow> bool" where
  "decodes_to bs us \<longleftrightarrow> (\<exists>b cs. bs = b # cs \<and>
     (\<forall>sk rest. (sk \<longrightarrow> 128 \<le> unat b) \<longrightarrow> fromUtf8 sk b (cs @ rest) = (Done (length bs), us, rest)))"

lemma decodes_to1: "u < 0x80 \<Longrightarrow> decodes_to [ucast u] [u]"
proof -
  assume u: "u < 0x80"
  then have n: "unat u < 128" by (simp add: word_less_nat_alt)
  then have b: "unat (ucast u :: 8 word) = unat u" by (simp add: unat_ucast8)
  then have "ucast (ucast u :: 8 word) = u"
    unfolding word_unat_eq_iff unat_ucast16 b using n by simp
  with n b show ?thesis
    by (auto simp: decodes_to_def fromUtf8_def word_less_nat_alt)
qed

lemma decodes_to2:
  assumes "0x80 \<le> unat u" and "unat u < 0x800"
  shows "decodes_to [0xC0 OR ucast (drop_bit 6 u), ucast (0x80 OR (u AND 0x3F) :: xuint16)] [u]"
proof -
  have "unat (ucast (drop_bit 6 u) :: 8 word) = unat u div 64"
    using assms by (simp add: unat_ucast8 unat_drop_bit)
  then have "unat (0xC0 OR ucast (drop_bit 6 u) :: 8 word) = 192 + unat u div 64"
    using assms by (subst unat_or_lead(2)) simp_all
  from decode2 [OF this unat_or_cont assms(1,2) refl] show ?thesis
    by (auto simp: decodes_to_def)
qed

lemma decodes_to3:
  assumes "0x800 \<le> unat u" and "\<not> (0xD800 \<le> unat u \<and> unat u < 0xE000)"
  shows "decodes_to [0xE0 OR ucast (drop_bit 12 u), 0x80 OR (ucast (drop_bit 6 u) AND 0x3F),
           ucast (0x80 OR (u AND 0x3F) :: xuint16)] [u]"
proof -
  have u: "unat u < 65536" using unsigned_less [of u, where ?'a = nat] by simp
  have "unat (ucast (drop_bit 12 u) :: 8 word) = unat u div 4096"
    using u by (simp add: unat_ucast8 unat_drop_bit)
  then have b: "unat (0xE0 OR ucast (drop_bit 12 u) :: 8 word) = 224 + unat u div 4096"
    using u by (subst unat_or_lead(3)) simp_all
  have c: "unat (0x80 OR (ucast (drop_bit 6 u) AND 0x3F) :: 8 word) = 128 + unat u div 64 mod 64"
    using unat_or_middle [of 6 u] by simp
  from decode3 [OF b c unat_or_cont assms refl] show ?thesis
    by (auto simp: decodes_to_def)
qed

lemma decodes_to4:
  assumes "isHighSurrogate (ucast h)" and "isLowSurrogate (ucast l)" and "uc = surrogateToUcs4 h l"
  shows "decodes_to [0xF0 OR (ucast (drop_bit 18 uc) AND 0xF), 0x80 OR (ucast (drop_bit 12 uc) AND 0x3F),
           0x80 OR (ucast (drop_bit 6 (ucast uc :: xuint16)) AND 0x3F),
           ucast (0x80 OR (ucast uc AND 0x3F) :: xuint16)] [h, l]"
proof -
  note uc = unat_surrogateToUcs4 [OF assms(1,2), folded assms(3)]
  have r: "0x10000 \<le> unat uc" "unat uc \<le> 0x10FFFF"
    using uc assms(1,2) by (auto simp: surrogate_iffs unat_ucast32_16)
  have "unat (ucast (drop_bit 18 uc) AND 0xF :: 8 word) = unat uc div 262144"
    using r by (simp add: unat_ucast8 unat_drop_bit unat_and_mask_numeral)
  then have b: "unat (0xF0 OR (ucast (drop_bit 18 uc) AND 0xF) :: 8 word) = 240 + unat uc div 262144"
    using r by (subst unat_or_lead(4)) simp_all
  have c: "unat (0x80 OR (ucast (drop_bit 12 uc) AND 0x3F) :: 8 word) = 128 + unat uc div 4096 mod 64"
    using unat_or_middle [of 12 uc] by simp
  have m: "n mod 65536 div 64 mod 64 = n div 64 mod 64" "n mod 65536 mod 64 = n mod 64" for n :: nat
  proof -
    have "n mod 65536 = 64 * (n div 64 mod 1024) + n mod 64"
      using mod_mult2_eq [of n 64 1024] by simp
    then show "n mod 65536 div 64 mod 64 = n div 64 mod 64" by (simp add: mod_mod_cancel)
  qed (simp add: mod_mod_cancel)
  have d: "unat (0x80 OR (ucast (drop_bit 6 (ucast uc :: xuint16)) AND 0x3F) :: 8 word) =
      128 + unat uc div 64 mod 64"
    using unat_or_middle [of 6 "ucast uc :: xuint16"] by (simp add: unat_ucast16 m)
  have e: "unat (ucast (0x80 OR (ucast uc AND 0x3F) :: xuint16) :: 8 word) = 128 + unat uc mod 64"
    using unat_or_cont [of "ucast uc"] by (simp add: unat_ucast16 m)
  show ?thesis unfolding decodes_to_def
  proof (intro exI conjI allI impI)
    fix sk rest
    obtain uc' where v: "unat uc' = unat uc" and
      f: "fromUtf8 sk (0xF0 OR (ucast (drop_bit 18 uc) AND 0xF))
         ([0x80 OR (ucast (drop_bit 12 uc) AND 0x3F), 0x80 OR (ucast (drop_bit 6 (ucast uc :: xuint16)) AND 0x3F),
           ucast (0x80 OR (ucast uc AND 0x3F) :: xuint16)] @ rest) =
         (Done 4, [highSurrogate uc', lowSurrogate uc'], rest)"
      using decode4 [OF b c d e r, of sk rest] by blast
    have "uc' = uc" using v by (simp add: word_unat_eq_iff)
    with f surrogate_pair_inverse [OF uc assms(1,2)]
    show "fromUtf8 sk (0xF0 OR (ucast (drop_bit 18 uc) AND 0xF))
         ([0x80 OR (ucast (drop_bit 12 uc) AND 0x3F), 0x80 OR (ucast (drop_bit 6 (ucast uc :: xuint16)) AND 0x3F),
           ucast (0x80 OR (ucast uc AND 0x3F) :: xuint16)] @ rest) = (Done (length
        [0xF0 OR (ucast (drop_bit 18 uc) AND 0xF) :: 8 word, 0x80 OR (ucast (drop_bit 12 uc) AND 0x3F), 0x80 OR (ucast (drop_bit 6 (ucast uc :: xuint16)) AND 0x3F),
           ucast (0x80 OR (ucast uc AND 0x3F) :: xuint16)]), [h, l], rest)" by simp
  qed (rule refl)
qed

lemma toUtf8_decodes:
  assumes "toUtf8 False u src = (Done n, bs, src')"
  obtains us where "us @ src' = u # src" and "us \<noteq> []" and "decodes_to bs us"
  using assms decodes_to1 [of u] decodes_to2 [of u] decodes_to3 [of u] decodes_to4 [OF _ _ refl, of u]
  by (auto simp: toUtf8_def Let_def surrogate_iffs(3) unat_ucast32_16 word_less_nat_alt not_less
           split: if_splits list.splits)
text \<open>
  The units the encoder writes: every unpaired surrogate is left out, everything
  else kept in order.
\<close>

fun paired :: "ustring \<Rightarrow> ustring" where
  "paired [] = []"
| "paired [u] = (if isSurrogate (ucast u) then [] else [u])"
| "paired (u # l # s) =
     (if \<not> isSurrogate (ucast u) then u # paired (l # s)
      else if isHighSurrogate (ucast u) \<and> isLowSurrogate (ucast l) then u # l # paired s
      else paired (l # s))"

fun wf_utf16 :: "ustring \<Rightarrow> bool" where
  "wf_utf16 [] = True"
| "wf_utf16 [u] = (\<not> isSurrogate (ucast u))"
| "wf_utf16 (u # l # s) =
     (if \<not> isSurrogate (ucast u) then wf_utf16 (l # s)
      else isHighSurrogate (ucast u) \<and> isLowSurrogate (ucast l) \<and> wf_utf16 s)"

lemma paired_wf: "wf_utf16 s \<Longrightarrow> paired s = s"
  by (induction s rule: wf_utf16.induct) (auto split: if_splits)

lemma wf_utf16_plain: "\<not> isSurrogate (ucast u) \<Longrightarrow> wf_utf16 (u # s) = wf_utf16 s"
  by (cases s) auto

lemma wf_paired: "wf_utf16 (paired s)"
  by (induction s rule: paired.induct) (auto simp: wf_utf16_plain)

lemma paired_plain: "\<not> isSurrogate (ucast u) \<Longrightarrow> paired (u # s) = u # paired s"
  by (cases s) auto

lemma ucast_small_not_surrogate:
  "(u :: xuint16) < 0x800 \<Longrightarrow> \<not> isSurrogate (ucast u)"
  by (simp add: surrogate_iffs unat_ucast32_16 word_less_nat_alt)

text \<open>One round of the encoding loop, against \<open>paired\<close>.\<close>

lemma surrogate_not_small:
  "isSurrogate (ucast (u :: xuint16)) \<Longrightarrow> \<not> u < 0x80 \<and> \<not> u < 0x800"
  using ucast_small_not_surrogate [of u] by (auto simp: word_less_nat_alt)

lemma toUtf8_single:
  "\<not> isSurrogate (ucast u) \<Longrightarrow>
   \<exists>bs. toUtf8 False u src = (Done 0, bs, src) \<and> bs \<noteq> [] \<and> length bs \<le> 3"
  unfolding toUtf8_def Let_def by simp

lemma toUtf8_pair:
  "isSurrogate (ucast u) \<Longrightarrow> isHighSurrogate (ucast u) \<Longrightarrow> isLowSurrogate (ucast l) \<Longrightarrow>
   \<exists>bs. toUtf8 False u (l # src) = (Done 0, bs, src) \<and> length bs = 4"
  using surrogate_not_small [of u] unfolding toUtf8_def Let_def by simp

lemma toUtf8_bad:
  "isSurrogate (ucast u) \<Longrightarrow> toUtf8 False u [] = (EndOfString, [], [])"
  "isSurrogate (ucast u) \<Longrightarrow> \<not> (isHighSurrogate (ucast u) \<and> isLowSurrogate (ucast l)) \<Longrightarrow>
   toUtf8 False u (l # src) = (Error, [], l # src)"
  using surrogate_not_small [of u] unfolding toUtf8_def Let_def by simp_all

lemma toUtf8_cases:
  obtains (single) bs where "toUtf8 False u src = (Done 0, bs, src)" "paired (u # src) = u # paired src"
      "length bs \<le> 3" "bs \<noteq> []"
  | (pair) bs l src' where "toUtf8 False u src = (Done 0, bs, src')" "src = l # src'"
      "paired (u # src) = u # l # paired src'" "length bs = 4"
  | (bad) r where "toUtf8 False u src = (r, [], src)" "r = Error \<or> r = EndOfString"
      "paired (u # src) = paired src"
proof (cases "isSurrogate (ucast u)")
  case False
  then show ?thesis using single toUtf8_single [OF False, of src] paired_plain by blast
next
  case sur: True
  show ?thesis
  proof (cases src)
    case Nil
    then show ?thesis using bad toUtf8_bad(1) [OF sur] sur by simp
  next
    case (Cons l src')
    show ?thesis
    proof (cases "isHighSurrogate (ucast u) \<and> isLowSurrogate (ucast l)")
      case True
      then show ?thesis
        using pair toUtf8_pair [OF sur, of l src'] Cons sur by fastforce
    next
      case False
      then show ?thesis
        using bad [of Error] toUtf8_bad(2) [OF sur False, of src'] Cons sur by auto
    qed
  qed
qed

abbreviation encode_units :: "ustring \<Rightarrow> bytes" where
  "encode_units \<equiv> convertFromUnicode_loop encodingErrorFunctor []"

lemma encode_acc:
  "convertFromUnicode_loop encodingErrorFunctor dst s = dst @ encode_units s"
proof (induction "length s" arbitrary: dst s rule: less_induct)
  case less
  show ?case
  proof (cases s)
    case (Cons u src)
    have IH: "convertFromUnicode_loop encodingErrorFunctor d t = d @ encode_units t"
      if "length t \<le> length src" for d t
      using less [of t d] that Cons by simp
    have two: "convertFromUnicode_loop encodingErrorFunctor (dst @ d) t = dst @ convertFromUnicode_loop encodingErrorFunctor d t"
      if "length t \<le> length src" for d t
      using IH [OF that, of "dst @ d"] IH [OF that, of d] by simp
    show ?thesis
      by (cases rule: toUtf8_cases [of u src])
        (auto simp: Cons encodingErrorFunctor_def two two [where d = "[]", simplified])
  qed simp
qed
declare convertFromUnicode_loop.simps(2) [simp del] convertToUnicode_loop.simps(2) [simp del]
  paired.simps(3) [simp del]

lemma encode_step:
  obtains (single) bs where "encode_units (u # src) = bs @ encode_units src" "paired (u # src) = u # paired src"
      "length bs \<le> 3" "decodes_to bs [u]"
  | (pair) bs l src' where "encode_units (u # src) = bs @ encode_units src'" "src = l # src'"
      "paired (u # src) = u # l # paired src'" "length bs = 4" "decodes_to bs [u, l]"
  | (bad) "encode_units (u # src) = encode_units src" "paired (u # src) = paired src"
proof (cases rule: toUtf8_cases [of u src])
  case (single bs)
  from toUtf8_decodes [OF single(1)] obtain us where "us @ src = u # src" "decodes_to bs us" by blast
  moreover from this(1) have "us @ src = [u] @ src" by simp
  then have "us = [u]" by (simp only: append_same_eq)
  ultimately show ?thesis
    using single encode_acc [of bs src] that(1) by (simp add: convertFromUnicode_loop.simps(2))
next
  case (pair bs l src')
  from toUtf8_decodes [OF pair(1)] obtain us where "us @ src' = u # src" "decodes_to bs us" by blast
  moreover from this(1) have "us @ src' = [u, l] @ src'" by (simp add: pair(2))
  then have "us = [u, l]" by (simp only: append_same_eq)
  ultimately show ?thesis
    using pair encode_acc [of bs src'] that(2) by (simp add: convertFromUnicode_loop.simps(2))
next
  case (bad r)
  then show ?thesis using that(3) by (auto simp: encodingErrorFunctor_def convertFromUnicode_loop.simps(2))
qed

lemma encode_induct [case_names Nil single pair bad]:
  assumes "P []"
    and "\<And>u src bs. P src \<Longrightarrow> encode_units (u # src) = bs @ encode_units src \<Longrightarrow>
           paired (u # src) = u # paired src \<Longrightarrow> length bs \<le> 3 \<Longrightarrow> decodes_to bs [u] \<Longrightarrow> P (u # src)"
    and "\<And>u l src bs. P src \<Longrightarrow> encode_units (u # l # src) = bs @ encode_units src \<Longrightarrow>
           paired (u # l # src) = u # l # paired src \<Longrightarrow> length bs = 4 \<Longrightarrow> decodes_to bs [u, l] \<Longrightarrow>
           P (u # l # src)"
    and "\<And>u src. P src \<Longrightarrow> encode_units (u # src) = encode_units src \<Longrightarrow>
           paired (u # src) = paired src \<Longrightarrow> P (u # src)"
  shows "P s"
proof (induction "length s" arbitrary: s rule: less_induct)
  case less
  show ?case
  proof (cases s)
    case (Cons u src)
    have IH: "P t" if "length t \<le> length src" for t using less that Cons by simp
    show ?thesis unfolding Cons
    proof (cases rule: encode_step [of u src])
      case (pair bs l src')
      with IH [of src'] show "P (u # src)" by (auto intro: assms(3))
    qed (auto intro: assms IH)
  qed (simp add: assms)
qed

lemma convertToUnicode_loop_seq:
  "decodes_to bs us \<Longrightarrow> convertToUnicode_loop dst (bs @ rest) = convertToUnicode_loop (dst @ us) rest"
  by (auto simp: decodes_to_def convertToUnicode_loop.simps(2))

lemma convertToUnicode_loop_acc:
  "convertToUnicode_loop dst bs = dst @ convertToUnicode_loop [] bs"
proof (induction "length bs" arbitrary: dst bs rule: less_induct)
  case less
  show ?case
  proof (cases bs)
    case (Cons b src)
    obtain r us src' where f: "fromUtf8 False b src = (r, us, src')" by (cases "fromUtf8 False b src")
    have IH: "convertToUnicode_loop (d @ e) src' = d @ convertToUnicode_loop e src'" for d e
      using less [of src' "d @ e"] less [of src' e] fromUtf8_rest [OF f] Cons by simp
    show ?thesis using IH [of dst] IH [of dst "[]"]
      by (cases r) (simp_all add: Cons f convertToUnicode_loop.simps(2))
  qed simp
qed

lemma decode_encode: "convertToUnicode_loop dst (encode_units s) = dst @ paired s"
  by (induction s arbitrary: dst rule: encode_induct) (simp_all add: convertToUnicode_loop_seq)


lemma length_utf8bom: "length utf8bom = 3"
  by (simp add: utf8bom_def)

lemma encode_bom_unit: "encode_units (0xFEFF # src) = utf8bom @ encode_units src"
proof -
  have "toUtf8 False 0xFEFF src = (Done 0, utf8bom, src)"
    by (simp add: toUtf8_def isSurrogate_def utf8bom_def)
  then show ?thesis
    by (simp add: convertFromUnicode_loop.simps(2) encode_acc [of utf8bom])
qed

lemma encode_starts_with_bom:
  "paired s = 0xFEFF # t \<Longrightarrow> \<exists>r. encode_units s = utf8bom @ r"
proof (induction s rule: encode_induct)
  case (pair u l src bs)
  then have "u = 0xFEFF" by simp
  then show ?case using encode_bom_unit [of "l # src"] by blast
qed (auto simp: encode_bom_unit)

lemma decodes_to_bom: "decodes_to utf8bom [0xFEFF]"
  using decodes_to3 [of "0xFEFF"] by (simp add: utf8bom_def)

text \<open>
  The whole round trip: what comes back is the paired units, less a leading byte
  order mark, which the decoder always removes.
\<close>

lemma decode_encode_string:
  "convertToUnicode (convertFromUnicode s) =
     (case paired s of [] \<Rightarrow> [] | u # t \<Rightarrow> if u = 0xFEFF then t else u # t)"
proof (cases "take 3 (encode_units s) = utf8bom")
  case True
  then obtain r where r: "encode_units s = utf8bom @ r" by (metis append_take_drop_id)
  have "paired s = [0xFEFF] @ convertToUnicode_loop [] r"
    using decode_encode [of "[]" s] convertToUnicode_loop_seq [OF decodes_to_bom, of "[]" r]
      convertToUnicode_loop_acc [of "[0xFEFF]" r] by (simp add: r)
  then show ?thesis
    using r by (simp add: convertToUnicode_def convertFromUnicode_def length_utf8bom)
next
  case False
  then have "\<not> (\<exists>t. paired s = 0xFEFF # t)"
    using encode_starts_with_bom [of s] by (auto simp: length_utf8bom)
  then show ?thesis
    using False decode_encode [of "[]" s]
    by (auto simp: convertToUnicode_def convertFromUnicode_def length_utf8bom split: list.splits)
qed

corollary string_round_trip:
  "wf_utf16 s \<Longrightarrow> take 1 s \<noteq> [0xFEFF] \<Longrightarrow> convertToUnicode (convertFromUnicode s) = s"
  by (auto simp: decode_encode_string paired_wf split: list.splits)

section \<open>Buffer bounds\<close>

lemma encode_length: "length (convertFromUnicode s) \<le> 3 * length s"
  unfolding convertFromUnicode_def by (induction s rule: encode_induct) auto

lemma fromUtf8_length:
  "fromUtf8 sk b src = (r, us, src') \<Longrightarrow> length us + length src' \<le> Suc (length src) \<and> length src' \<le> length src"
  by (auto simp: fromUtf8_def utf8_lead_def split: if_splits option.splits)

lemma fromUtf8_error: "fromUtf8 sk b src = (r, us, src') \<Longrightarrow> r = Error \<or> r = EndOfString \<Longrightarrow> us = []"
  by (auto simp: fromUtf8_def split: if_splits option.splits)

lemma decode_loop_length: "length (convertToUnicode_loop dst bs) \<le> length dst + length bs"
proof (induction "length bs" arbitrary: dst bs rule: less_induct)
  case less
  show ?case
  proof (cases bs)
    case (Cons b src)
    obtain r us src' where f: "fromUtf8 False b src = (r, us, src')" by (cases "fromUtf8 False b src")
    note l = fromUtf8_length [OF f]
    have IH: "length (convertToUnicode_loop d src') \<le> length d + length src'" for d
      using less [of src' d] l Cons by simp
    show ?thesis
      using f l IH [of "dst @ us"] IH [of "dst @ us @ [ReplacementCharacter]"] fromUtf8_error [OF f]
      by (cases r) (auto simp: Cons convertToUnicode_loop.simps(2))
  qed simp
qed

lemma decode_length: "length (convertToUnicode bs) \<le> length bs"
  using decode_loop_length [of "[]" bs] decode_loop_length [of "[]" "drop (length utf8bom) bs"]
  by (auto simp: convertToUnicode_def)

section \<open>Validation\<close>

lemma and_0x80: "(b :: 8 word) AND 0x80 = 0 \<longleftrightarrow> unat b < 128"
proof -
  have "b AND 0x80 = b AND NOT (mask 7)"
    by (rule bit_word_eqI) (auto simp: bit_simps numeral_eq_Suc less_Suc_eq)
  then have "unat (b AND 0x80) = unat b div 128 * 128" using unat_and_not_mask [of b 7] by simp
  then show ?thesis by (simp add: word_unat_eq_iff div_eq_0_iff)
qed

lemma isValidUtf8_loop_seq:
  assumes "decodes_to bs us"
  shows "\<exists>a'. isValidUtf8_loop a (bs @ rest) = isValidUtf8_loop a' rest"
proof -
  obtain b cs where bs: "bs = b # cs"
    and d: "\<And>sk r. (sk \<longrightarrow> 128 \<le> unat b) \<Longrightarrow> fromUtf8 sk b (cs @ r) = (Done (length bs), us, r)"
    using assms by (auto simp: decodes_to_def)
  show ?thesis
  proof (cases "unat b < 128")
    case True
    then have "cs = []" using d [of False "[]"] bs by (simp add: fromUtf8_def word_less_nat_alt)
    then show ?thesis using True by (auto simp: bs and_0x80)
  next
    case False
    then show ?thesis using d [of True rest] by (auto simp: bs and_0x80)
  qed
qed

lemma valid_encode: "fst (isValidUtf8_loop a (encode_units s))"
proof (induction s arbitrary: a rule: encode_induct)
  case (single u src bs)
  from isValidUtf8_loop_seq [OF single(5), of a "encode_units src"] single show ?case by auto
next
  case (pair u l src bs)
  from isValidUtf8_loop_seq [OF pair(5), of a "encode_units src"] pair show ?case by auto
qed auto

section \<open>Properties\<close>

text \<open>
  C35. Encoding a UTF-16 string to UTF-8 and decoding the bytes gives back the string
  with its unpaired surrogates removed and without a leading byte order mark; so a
  well-formed string that starts with no mark comes back unchanged.
\<close>

theorem utf8_round_trip:
  "convertToUnicode (convertFromUnicode s) =
     (case paired s of [] \<Rightarrow> [] | u # t \<Rightarrow> if u = 0xFEFF then t else u # t)"
  by (rule decode_encode_string)

text \<open>
  The buffers the converters allocate are large enough: a string of n units gives at
  most 3n bytes, and n bytes of any content at most n units.
\<close>

theorem utf8_buffer_bounds:
  "length (convertFromUnicode s) \<le> 3 * length s \<and> length (convertToUnicode bs) \<le> length bs"
  using encode_length decode_length by blast

text \<open>Whatever units it is given, the encoder's output passes the validity check.\<close>

theorem encoder_output_is_valid: "fst (isValidUtf8 (convertFromUnicode s))"
  using valid_encode by (simp add: isValidUtf8_def convertFromUnicode_def)

text \<open>
  A low surrogate with no high one before it leaves no trace in the bytes: the error
  functor's question mark is written through a copied pointer, which the next write overwrites.
\<close>

theorem unpaired_surrogate_vanishes:
  assumes "isLowSurrogate (ucast u)"
  shows "convertFromUnicode (u # s) = convertFromUnicode s"
proof -
  have sur: "isSurrogate (ucast u)" and high: "\<not> isHighSurrogate (ucast u)"
    using assms by (auto simp: surrogate_iffs)
  have "fst (toUtf8 False u s) \<in> {Error, EndOfString}" "snd (toUtf8 False u s) = ([], s)"
    using toUtf8_bad [OF sur] high by (cases s; auto)+
  then show ?thesis
    by (cases "toUtf8 False u s") (auto simp: convertFromUnicode_def convertFromUnicode_loop.simps(2) encodingErrorFunctor_def)
qed

theorem unpaired_surrogate_vanishes_witness: "convertFromUnicode [0xDC12, 0x41] = [0x41]"
proof -
  have "convertFromUnicode [0xDC12, 0x41] = convertFromUnicode [0x41]"
    by (rule unpaired_surrogate_vanishes) (simp add: isLowSurrogate_def)
  then show ?thesis by (simp add: convertFromUnicode_def convertFromUnicode_loop.simps(2) toUtf8_def)
qed

end
