(* ===== verification/Tag_Struct.thy ===== *)
theory Tag_Struct imports Utf8_Codec begin

text \<open>
  iINCTagStruct (src/core/inc/iinctagstruct.cpp, include/core/inc/iinctagstruct.h):
  the tagged, typed payload of INC messages. The state is the byte buffer and the
  read index; a put operation returns the new state, a get operation the value
  (None where the code returns false) and the new state, since a read that fails
  after its tag has matched leaves the index advanced. A double is its 64-bit pattern,
  which is what the code's memcpy moves; signed integers are words of their width.
\<close>

datatype tag = TAG_INVALID | TAG_UINT8 | TAG_UINT16 | TAG_UINT32 | TAG_UINT64 | TAG_INT32
  | TAG_INT64 | TAG_BOOL | TAG_STRING | TAG_BYTES | TAG_DOUBLE

primrec tag_code :: "tag \<Rightarrow> 8 word" where
  "tag_code TAG_INVALID = 0"
| "tag_code TAG_UINT8 = 1"
| "tag_code TAG_UINT16 = 2"
| "tag_code TAG_UINT32 = 3"
| "tag_code TAG_UINT64 = 4"
| "tag_code TAG_INT32 = 5"
| "tag_code TAG_INT64 = 6"
| "tag_code TAG_BOOL = 7"
| "tag_code TAG_STRING = 8"
| "tag_code TAG_BYTES = 9"
| "tag_code TAG_DOUBLE = 10"

record tag_struct =
  m_data :: bytes
  m_readIndex :: nat

definition new_tag_struct :: tag_struct where
  "new_tag_struct = \<lparr>m_data = [], m_readIndex = 0\<rparr>"

section \<open>Writing\<close>

definition append_data :: "bytes \<Rightarrow> tag_struct \<Rightarrow> tag_struct" where
  "append_data bs ts = ts\<lparr>m_data := m_data ts @ bs\<rparr>"

definition writeTag :: "tag \<Rightarrow> tag_struct \<Rightarrow> tag_struct" where
  "writeTag t ts = append_data [tag_code t] ts"

definition putUint8 :: "xuint8 \<Rightarrow> tag_struct \<Rightarrow> tag_struct" where
  "putUint8 v ts = append_data [v] (writeTag TAG_UINT8 ts)"

definition putUint16 :: "xuint16 \<Rightarrow> tag_struct \<Rightarrow> tag_struct" where
  "putUint16 v ts = append_data (be16 v) (writeTag TAG_UINT16 ts)"

definition putUint32 :: "xuint32 \<Rightarrow> tag_struct \<Rightarrow> tag_struct" where
  "putUint32 v ts = append_data (be32 v) (writeTag TAG_UINT32 ts)"

text \<open>A 64-bit value goes out as two 32-bit halves, high then low.\<close>

definition halves :: "xuint64 \<Rightarrow> bytes" where
  "halves v = be32 (ucast (drop_bit 32 v)) @ be32 (ucast (v AND 0xFFFFFFFF))"

definition putUint64 :: "xuint64 \<Rightarrow> tag_struct \<Rightarrow> tag_struct" where
  "putUint64 v ts = append_data (halves v) (writeTag TAG_UINT64 ts)"

definition putInt32 :: "xint32 \<Rightarrow> tag_struct \<Rightarrow> tag_struct" where
  "putInt32 v ts = append_data (be32 v) (writeTag TAG_INT32 ts)"

definition putInt64 :: "xint64 \<Rightarrow> tag_struct \<Rightarrow> tag_struct" where
  "putInt64 v ts = append_data (halves v) (writeTag TAG_INT64 ts)"

definition putBool :: "bool \<Rightarrow> tag_struct \<Rightarrow> tag_struct" where
  "putBool v ts = append_data [if v then 1 else 0] (writeTag TAG_BOOL ts)"

definition putString :: "ustring \<Rightarrow> tag_struct \<Rightarrow> tag_struct" where
  "putString str ts =
     (let utf8 = convertFromUnicode str;
          len = (of_nat (length utf8) :: xuint32);
          ts1 = append_data (be32 len) (writeTag TAG_STRING ts)
      in if len > 0 then append_data utf8 ts1 else ts1)"

definition putBytes :: "bytes \<Rightarrow> tag_struct \<Rightarrow> tag_struct" where
  "putBytes dat ts =
     (let len = (of_nat (length dat) :: xuint32);
          ts1 = append_data (be32 len) (writeTag TAG_BYTES ts)
      in if len > 0 then append_data [0] (append_data dat ts1) else ts1)"

definition putDouble :: "xuint64 \<Rightarrow> tag_struct \<Rightarrow> tag_struct" where
  "putDouble bits ts = append_data (halves bits) (writeTag TAG_DOUBLE ts)"

section \<open>Reading\<close>

definition advance :: "nat \<Rightarrow> tag_struct \<Rightarrow> tag_struct" where
  "advance n ts = ts\<lparr>m_readIndex := m_readIndex ts + n\<rparr>"

definition readTag :: "tag \<Rightarrow> tag_struct \<Rightarrow> bool \<times> tag_struct" where
  "readTag expectedTag ts =
     (if m_readIndex ts \<ge> length (m_data ts) then (False, ts)
      else if m_data ts ! m_readIndex ts \<noteq> tag_code expectedTag then (False, ts)
      else (True, advance 1 ts))"

definition peekTag :: "tag_struct \<Rightarrow> 8 word" where
  "peekTag ts =
     (if m_readIndex ts \<ge> length (m_data ts) then tag_code TAG_INVALID
      else m_data ts ! m_readIndex ts)"

text \<open>The n bytes at the read index: the size check, the memcpy and the advance.\<close>

definition takeBytes :: "nat \<Rightarrow> tag_struct \<Rightarrow> bytes option \<times> tag_struct" where
  "takeBytes n ts =
     (if m_readIndex ts + n > length (m_data ts) then (None, ts)
      else (Some (take n (drop (m_readIndex ts) (m_data ts))), advance n ts))"

text \<open>The common shape of the fixed-size readers: tag, then n bytes, then a conversion.\<close>

definition getFixed :: "tag \<Rightarrow> nat \<Rightarrow> (bytes \<Rightarrow> 'a) \<Rightarrow> tag_struct \<Rightarrow> 'a option \<times> tag_struct" where
  "getFixed t n conv ts =
     (case readTag t ts of
        (False, ts1) \<Rightarrow> (None, ts1)
      | (True, ts1) \<Rightarrow>
          (case takeBytes n ts1 of
             (None, ts2) \<Rightarrow> (None, ts2)
           | (Some bs, ts2) \<Rightarrow> (Some (conv bs), ts2)))"

definition of_halves :: "bytes \<Rightarrow> xuint64" where
  "of_halves bs =
     push_bit 32 (ucast (of_be32 (take 4 bs))) OR ucast (of_be32 (drop 4 bs))"

definition getUint8 :: "tag_struct \<Rightarrow> xuint8 option \<times> tag_struct" where
  "getUint8 = getFixed TAG_UINT8 1 hd"

definition getUint16 :: "tag_struct \<Rightarrow> xuint16 option \<times> tag_struct" where
  "getUint16 = getFixed TAG_UINT16 2 of_be16"

definition getUint32 :: "tag_struct \<Rightarrow> xuint32 option \<times> tag_struct" where
  "getUint32 = getFixed TAG_UINT32 4 of_be32"

definition getUint64 :: "tag_struct \<Rightarrow> xuint64 option \<times> tag_struct" where
  "getUint64 = getFixed TAG_UINT64 8 of_halves"

definition getInt32 :: "tag_struct \<Rightarrow> xint32 option \<times> tag_struct" where
  "getInt32 = getFixed TAG_INT32 4 of_be32"

definition getInt64 :: "tag_struct \<Rightarrow> xint64 option \<times> tag_struct" where
  "getInt64 = getFixed TAG_INT64 8 of_halves"

definition getBool :: "tag_struct \<Rightarrow> bool option \<times> tag_struct" where
  "getBool = getFixed TAG_BOOL 1 (\<lambda>bs. hd bs \<noteq> 0)"

definition getDouble :: "tag_struct \<Rightarrow> xuint64 option \<times> tag_struct" where
  "getDouble = getFixed TAG_DOUBLE 8 of_halves"

definition getString :: "tag_struct \<Rightarrow> ustring option \<times> tag_struct" where
  "getString ts =
     (case readTag TAG_STRING ts of
        (False, ts1) \<Rightarrow> (None, ts1)
      | (True, ts1) \<Rightarrow>
          (case takeBytes 4 ts1 of
             (None, ts2) \<Rightarrow> (None, ts2)
           | (Some bs, ts2) \<Rightarrow>
               (let len = of_be32 bs in
                if len \<le> 0 then (Some [], ts2)
                else if m_readIndex ts2 + unat len > length (m_data ts2) then (None, ts2)
                else (Some (convertToUnicode (take (unat len) (drop (m_readIndex ts2) (m_data ts2)))),
                      advance (unat len) ts2))))"

definition getBytes :: "tag_struct \<Rightarrow> bytes option \<times> tag_struct" where
  "getBytes ts =
     (case readTag TAG_BYTES ts of
        (False, ts1) \<Rightarrow> (None, ts1)
      | (True, ts1) \<Rightarrow>
          (case takeBytes 4 ts1 of
             (None, ts2) \<Rightarrow> (None, ts2)
           | (Some bs, ts2) \<Rightarrow>
               (let len = of_be32 bs in
                if len \<le> 0 then (Some [], ts2)
                else if m_readIndex ts2 + unat len > length (m_data ts2) then (None, ts2)
                else (Some (take (unat len) (drop (m_readIndex ts2) (m_data ts2))),
                      advance (unat (len + 1)) ts2))))"

section \<open>Utilities\<close>

definition eof :: "tag_struct \<Rightarrow> bool" where
  "eof ts \<longleftrightarrow> m_readIndex ts \<ge> length (m_data ts)"

definition rewind :: "tag_struct \<Rightarrow> tag_struct" where
  "rewind ts = ts\<lparr>m_readIndex := 0\<rparr>"

definition clear_tags :: "tag_struct \<Rightarrow> tag_struct" where
  "clear_tags ts = ts\<lparr>m_data := [], m_readIndex := 0\<rparr>"

definition setData :: "bytes \<Rightarrow> tag_struct \<Rightarrow> tag_struct" where
  "setData d ts = ts\<lparr>m_data := d, m_readIndex := 0\<rparr>"

definition bytesAvailable :: "tag_struct \<Rightarrow> int" where
  "bytesAvailable ts =
     (if m_readIndex ts \<ge> length (m_data ts) then 0
      else int (length (m_data ts)) - int (m_readIndex ts))"

definition remainingBuffer :: "tag_struct \<Rightarrow> int \<Rightarrow> int" where
  "remainingBuffer ts target =
     (let bytetagsize = 6 in
      if target \<le> int (length (m_data ts)) + bytetagsize then 0
      else target - int (length (m_data ts)) - bytetagsize)"

definition tagToString :: "8 word \<Rightarrow> string" where
  "tagToString t =
     (if t = tag_code TAG_INVALID then ''INVALID''
      else if t = tag_code TAG_UINT8 then ''UINT8''
      else if t = tag_code TAG_UINT16 then ''UINT16''
      else if t = tag_code TAG_UINT32 then ''UINT32''
      else if t = tag_code TAG_UINT64 then ''UINT64''
      else if t = tag_code TAG_INT32 then ''INT32''
      else if t = tag_code TAG_INT64 then ''INT64''
      else if t = tag_code TAG_BOOL then ''BOOL''
      else if t = tag_code TAG_STRING then ''STRING''
      else if t = tag_code TAG_BYTES then ''BYTES''
      else if t = tag_code TAG_DOUBLE then ''DOUBLE''
      else ''UNKNOWN'')"

text \<open>
  dump(): one entry per tag byte met: the running index, the tag's name and what is
  printed after it. A value that does not fit prints nothing and consumes nothing more.
\<close>

datatype dump_value = DumpUnsigned nat | DumpSigned int | DumpBool bool | DumpString ustring
  | DumpByteCount nat | DumpUnsupported | DumpNothing

definition dump_field :: "bytes \<Rightarrow> 8 word \<Rightarrow> nat \<Rightarrow> dump_value \<times> nat" where
  "dump_field d t i =
     (if t = tag_code TAG_UINT8 then
        (if i < length d then (DumpUnsigned (unat (d ! i)), i + 1) else (DumpNothing, i))
      else if t = tag_code TAG_UINT16 then
        (if i + 2 \<le> length d then (DumpUnsigned (unat (of_be16 (take 2 (drop i d)))), i + 2)
         else (DumpNothing, i))
      else if t = tag_code TAG_UINT32 \<or> t = tag_code TAG_INT32 then
        (if i + 4 \<le> length d then
           (let v = of_be32 (take 4 (drop i d))
            in (if t = tag_code TAG_UINT32 then DumpUnsigned (unat v) else DumpSigned (sint v), i + 4))
         else (DumpNothing, i))
      else if t = tag_code TAG_BOOL then
        (if i < length d then (DumpBool (d ! i \<noteq> 0), i + 1) else (DumpNothing, i))
      else if t = tag_code TAG_STRING \<or> t = tag_code TAG_BYTES then
        (if i + 4 \<le> length d then
           (let len = of_be32 (take 4 (drop i d)); j = i + 4
            in if t = tag_code TAG_STRING \<and> j + unat len \<le> length d
               then (DumpString (convertToUnicode (take (unat len) (drop j d))), j + unat len)
               else if t = tag_code TAG_BYTES
               then (DumpByteCount (unat len), j + unat (len + (if len > 0 then 1 else 0)))
               else (DumpNothing, j))
         else (DumpNothing, i))
      else (DumpUnsupported, i))"

lemma dump_field_index: "dump_field d t i = (v, j) \<Longrightarrow> i \<le> j"
  by (auto simp: dump_field_def Let_def split: if_splits)

function dump_loop :: "bytes \<Rightarrow> nat \<Rightarrow> nat \<Rightarrow> (nat \<times> string \<times> dump_value) list" where
  "dump_loop d i fieldIndex =
     (if i < length d then
        (case dump_field d (d ! i) (i + 1) of
           (v, j) \<Rightarrow> (fieldIndex, tagToString (d ! i), v) # dump_loop d j (fieldIndex + 1))
      else [])"
  by pat_completeness auto
termination
  by (relation "measure (\<lambda>(d, i, k). length d - i)")
    (auto dest!: sym [of _ "dump_field _ _ _"] dump_field_index)

definition dump :: "tag_struct \<Rightarrow> (nat \<times> string \<times> dump_value) list" where
  "dump ts = dump_loop (m_data ts) 0 0"

declare dump_loop.simps [simp del]

section \<open>The writers as appends\<close>

lemmas put_defs = putUint8_def putUint16_def putUint32_def putUint64_def putInt32_def putInt64_def
  putBool_def putString_def putBytes_def putDouble_def writeTag_def append_data_def Let_def

definition encString :: "ustring \<Rightarrow> bytes" where
  "encString s = (let u = convertFromUnicode s; len = (of_nat (length u) :: xuint32)
     in tag_code TAG_STRING # be32 len @ (if len > 0 then u else []))"

definition encBytes :: "bytes \<Rightarrow> bytes" where
  "encBytes d = (let len = (of_nat (length d) :: xuint32)
     in tag_code TAG_BYTES # be32 len @ (if len > 0 then d @ [0] else []))"

text \<open>A string survives if its UTF-8 form fits the length field and decodes to itself.\<close>

definition string_ok :: "ustring \<Rightarrow> bool" where
  "string_ok s \<longleftrightarrow> wf_utf16 s \<and> take 1 s \<noteq> [0xFEFF] \<and> length s < 0x50000000"

definition bytes_ok :: "bytes \<Rightarrow> bool" where
  "bytes_ok d \<longleftrightarrow> length d < 0xFFFFFFFF"

section \<open>A writer and its reader\<close>

text \<open>
  The contract between put and get: put appends the encoding; get on a buffer that
  holds the encoding at the read index gives the value back and stops behind it.
\<close>

locale tagged_codec =
  fixes put :: "'a \<Rightarrow> tag_struct \<Rightarrow> tag_struct"
    and get :: "tag_struct \<Rightarrow> 'a option \<times> tag_struct"
    and enc :: "'a \<Rightarrow> bytes"
    and ok :: "'a \<Rightarrow> bool"
  assumes put_enc: "put v ts = ts\<lparr>m_data := m_data ts @ enc v\<rparr>"
    and get_enc: "ok v \<Longrightarrow> m_data ts = pre @ enc v @ post \<Longrightarrow> m_readIndex ts = length pre \<Longrightarrow>
           get ts = (Some v, ts\<lparr>m_readIndex := length pre + length (enc v)\<rparr>)"
begin

lemma put_data: "m_data (put v ts) = m_data ts @ enc v"
  and put_index: "m_readIndex (put v ts) = m_readIndex ts"
  by (simp_all add: put_enc)

lemma get_after_put:
  assumes "ok v" and "m_readIndex ts = length (m_data ts)"
  shows "fst (get (put v ts)) = Some v" and "eof (snd (get (put v ts)))"
  using get_enc [OF assms(1), of "put v ts" "m_data ts" "[]"] assms(2)
  by (simp_all add: put_enc eof_def)

lemma get_first:
  assumes "ok v" and "m_data ts = enc v @ post" and "m_readIndex ts = 0"
  shows "get ts = (Some v, ts\<lparr>m_readIndex := length (enc v)\<rparr>)"
  using get_enc [OF assms(1), of ts "[]" post] assms by simp

end

lemma getFixed_enc:
  assumes "length bs = n" and "m_data ts = pre @ (tag_code t # bs) @ post"
    and "m_readIndex ts = length pre"
  shows "getFixed t n conv ts = (Some (conv bs), ts\<lparr>m_readIndex := length pre + Suc n\<rparr>)"
  using assms by (simp add: getFixed_def readTag_def takeBytes_def advance_def nth_append)

lemma of_halves_halves [codec_simps]: "of_halves (halves v) = v"
proof -
  have lo: "(v AND 0xFFFFFFFF) = v AND mask 32" by (simp add: mask_eq_exp_minus_1)
  have l: "unat (v AND 0xFFFFFFFF) = unat v mod 2 ^ 32" unfolding lo by (rule unat_mask_mod)
  have a: "unat (ucast (ucast (drop_bit 32 v) :: xuint32) :: xuint64) = unat v div 2 ^ 32"
    using unsigned_less [of v, where ?'a = nat]
    unfolding unat_ucast64_32 unat_ucast32 unat_drop_bit by simp
  have b: "unat (ucast (ucast (v AND 0xFFFFFFFF) :: xuint32) :: xuint64) = unat v mod 2 ^ 32"
    unfolding unat_ucast64_32 unat_ucast32 l by simp
  have "unat (of_halves (halves v)) = unat v div 2 ^ 32 * 2 ^ 32 + unat v mod 2 ^ 32"
    unfolding of_halves_def halves_def
    using unat_push_or [of "ucast (ucast (drop_bit 32 v) :: xuint32) :: xuint64" 32
        "ucast (ucast (v AND 0xFFFFFFFF) :: xuint32)"] unsigned_less [of v, where ?'a = nat]
    by (simp add: a b)
  then show ?thesis by (simp add: word_unat_eq_iff)
qed

lemma length_halves [simp]: "length (halves v) = 8"
  by (simp add: halves_def)
text \<open>Every writer and reader of the class keeps the contract.\<close>

interpretation u8: tagged_codec putUint8 getUint8 "\<lambda>v. [tag_code TAG_UINT8, v]" "\<lambda>_. True"
  by unfold_locales
    (simp add: put_defs, simp add: getUint8_def getFixed_enc [of "[v]" for v])

interpretation u16: tagged_codec putUint16 getUint16 "\<lambda>v. tag_code TAG_UINT16 # be16 v" "\<lambda>_. True"
  by unfold_locales
    (simp add: put_defs, simp add: getUint16_def getFixed_enc [OF length_be(1)])

interpretation u32: tagged_codec putUint32 getUint32 "\<lambda>v. tag_code TAG_UINT32 # be32 v" "\<lambda>_. True"
  by unfold_locales
    (simp add: put_defs, simp add: getUint32_def getFixed_enc [OF length_be(2)])

interpretation u64: tagged_codec putUint64 getUint64 "\<lambda>v. tag_code TAG_UINT64 # halves v" "\<lambda>_. True"
  by unfold_locales
    (simp add: put_defs, simp add: getUint64_def getFixed_enc [OF length_halves] codec_simps)

interpretation i32: tagged_codec putInt32 getInt32 "\<lambda>v. tag_code TAG_INT32 # be32 v" "\<lambda>_. True"
  by unfold_locales
    (simp add: put_defs, simp add: getInt32_def getFixed_enc [OF length_be(2)])

interpretation i64: tagged_codec putInt64 getInt64 "\<lambda>v. tag_code TAG_INT64 # halves v" "\<lambda>_. True"
  by unfold_locales
    (simp add: put_defs, simp add: getInt64_def getFixed_enc [OF length_halves] codec_simps)

interpretation boolean: tagged_codec putBool getBool "\<lambda>v. [tag_code TAG_BOOL, if v then 1 else 0]" "\<lambda>_. True"
  by unfold_locales
    (simp add: put_defs, simp add: getBool_def getFixed_enc [of "[v]" for v])

interpretation dbl: tagged_codec putDouble getDouble "\<lambda>v. tag_code TAG_DOUBLE # halves v" "\<lambda>_. True"
  by unfold_locales
    (simp add: put_defs, simp add: getDouble_def getFixed_enc [OF length_halves] codec_simps)

lemma unat_of_nat32: "n < 2 ^ 32 \<Longrightarrow> unat (of_nat n :: xuint32) = n"
  by (simp add: unat_of_nat)

lemma of_nat32_pos: "n < 2 ^ 32 \<Longrightarrow> (of_nat n :: xuint32) > 0 \<longleftrightarrow> n > 0"
  by (simp add: word_less_nat_alt unat_of_nat32)

lemma string_ok_length: "string_ok s \<Longrightarrow> length (convertFromUnicode s) < 2 ^ 32"
  using encode_length [of s] by (simp add: string_ok_def)

text \<open>The length field both variable-size readers start with.\<close>

lemma length_field_enc:
  assumes "m_data ts = pre @ (tag_code t # be32 len @ body) @ post" and "m_readIndex ts = length pre"
  shows "readTag t ts = (True, ts\<lparr>m_readIndex := length pre + 1\<rparr>)"
    and "takeBytes 4 (ts\<lparr>m_readIndex := length pre + 1\<rparr>) =
           (Some (be32 len), ts\<lparr>m_readIndex := length pre + 5\<rparr>)"
    and "drop (length pre + 5) (m_data ts) = body @ post"
  using assms by (simp_all add: readTag_def takeBytes_def advance_def nth_append)

interpretation str: tagged_codec putString getString encString string_ok
proof
  fix v and ts :: tag_struct show "putString v ts = ts\<lparr>m_data := m_data ts @ encString v\<rparr>"
    by (simp add: put_defs encString_def)
next
  fix v and ts :: tag_struct and pre post
  assume ok: "string_ok v" and d: "m_data ts = pre @ encString v @ post"
    and i: "m_readIndex ts = length pre"
  define u where "u = convertFromUnicode v"
  have l: "length u < 2 ^ 32" using string_ok_length [OF ok] by (simp add: u_def)
  have v: "convertToUnicode u = v"
    using ok string_round_trip [of v] by (simp add: u_def string_ok_def)
  have b: "encString v = tag_code TAG_STRING # be32 (of_nat (length u)) @ u"
    using l by (auto simp: encString_def u_def [symmetric] Let_def of_nat32_pos)
  have d': "m_data ts = pre @ (tag_code TAG_STRING # be32 (of_nat (length u)) @ u) @ post"
    using d b by simp
  have e: "v = []" if "u = []" using v that by (simp add: convertToUnicode_def utf8bom_def)
  note r = length_field_enc [OF d' i]
  show "getString ts = (Some v, ts\<lparr>m_readIndex := length pre + length (encString v)\<rparr>)"
    unfolding getString_def r(1) using r(2,3) d' b l v e
    by (auto simp: Let_def advance_def unat_of_nat32 of_nat32_pos word_le_nat_alt)
qed

interpretation byt: tagged_codec putBytes getBytes encBytes bytes_ok
proof
  fix v and ts :: tag_struct show "putBytes v ts = ts\<lparr>m_data := m_data ts @ encBytes v\<rparr>"
    by (simp add: put_defs encBytes_def)
next
  fix v and ts :: tag_struct and pre post
  assume ok: "bytes_ok v" and d: "m_data ts = pre @ encBytes v @ post"
    and i: "m_readIndex ts = length pre"
  have l: "length v < 2 ^ 32" using ok by (simp add: bytes_ok_def)
  define body where "body = (if v = [] then [] else v @ [0])"
  have b: "encBytes v = tag_code TAG_BYTES # be32 (of_nat (length v)) @ body"
    using l by (auto simp: encBytes_def body_def Let_def of_nat32_pos)
  have d': "m_data ts = pre @ (tag_code TAG_BYTES # be32 (of_nat (length v)) @ body) @ post"
    using d b by simp
  have n: "unat (of_nat (length v) + 1 :: xuint32) = length v + 1"
    using ok unat_of_nat32 [of "length v + 1"] by (simp add: bytes_ok_def add.commute)
  note r = length_field_enc [OF d' i]
  show "getBytes ts = (Some v, ts\<lparr>m_readIndex := length pre + length (encBytes v)\<rparr>)"
    unfolding getBytes_def r(1) using r(2,3) d' b l n
    by (auto simp: Let_def advance_def unat_of_nat32 of_nat32_pos word_le_nat_alt body_def)
qed


section \<open>Whole messages\<close>

text \<open>One field of a payload, its writer, and the reader the peer calls for its type.\<close>

datatype field = FUint8 xuint8 | FUint16 xuint16 | FUint32 xuint32 | FUint64 xuint64
  | FInt32 xint32 | FInt64 xint64 | FBool bool | FString ustring | FBytes bytes | FDouble xuint64

fun put_field :: "field \<Rightarrow> tag_struct \<Rightarrow> tag_struct" where
  "put_field (FUint8 v) = putUint8 v"
| "put_field (FUint16 v) = putUint16 v"
| "put_field (FUint32 v) = putUint32 v"
| "put_field (FUint64 v) = putUint64 v"
| "put_field (FInt32 v) = putInt32 v"
| "put_field (FInt64 v) = putInt64 v"
| "put_field (FBool v) = putBool v"
| "put_field (FString v) = putString v"
| "put_field (FBytes v) = putBytes v"
| "put_field (FDouble v) = putDouble v"

fun field_tag :: "field \<Rightarrow> tag" where
  "field_tag (FUint8 v) = TAG_UINT8"
| "field_tag (FUint16 v) = TAG_UINT16"
| "field_tag (FUint32 v) = TAG_UINT32"
| "field_tag (FUint64 v) = TAG_UINT64"
| "field_tag (FInt32 v) = TAG_INT32"
| "field_tag (FInt64 v) = TAG_INT64"
| "field_tag (FBool v) = TAG_BOOL"
| "field_tag (FString v) = TAG_STRING"
| "field_tag (FBytes v) = TAG_BYTES"
| "field_tag (FDouble v) = TAG_DOUBLE"

fun get_field :: "tag \<Rightarrow> tag_struct \<Rightarrow> field option \<times> tag_struct" where
  "get_field TAG_UINT8 ts = map_prod (map_option FUint8) id (getUint8 ts)"
| "get_field TAG_UINT16 ts = map_prod (map_option FUint16) id (getUint16 ts)"
| "get_field TAG_UINT32 ts = map_prod (map_option FUint32) id (getUint32 ts)"
| "get_field TAG_UINT64 ts = map_prod (map_option FUint64) id (getUint64 ts)"
| "get_field TAG_INT32 ts = map_prod (map_option FInt32) id (getInt32 ts)"
| "get_field TAG_INT64 ts = map_prod (map_option FInt64) id (getInt64 ts)"
| "get_field TAG_BOOL ts = map_prod (map_option FBool) id (getBool ts)"
| "get_field TAG_STRING ts = map_prod (map_option FString) id (getString ts)"
| "get_field TAG_BYTES ts = map_prod (map_option FBytes) id (getBytes ts)"
| "get_field TAG_DOUBLE ts = map_prod (map_option FDouble) id (getDouble ts)"
| "get_field TAG_INVALID ts = (None, ts)"

fun enc_field :: "field \<Rightarrow> bytes" where
  "enc_field (FUint8 v) = [tag_code TAG_UINT8, v]"
| "enc_field (FUint16 v) = tag_code TAG_UINT16 # be16 v"
| "enc_field (FUint32 v) = tag_code TAG_UINT32 # be32 v"
| "enc_field (FUint64 v) = tag_code TAG_UINT64 # halves v"
| "enc_field (FInt32 v) = tag_code TAG_INT32 # be32 v"
| "enc_field (FInt64 v) = tag_code TAG_INT64 # halves v"
| "enc_field (FBool v) = [tag_code TAG_BOOL, if v then 1 else 0]"
| "enc_field (FString v) = encString v"
| "enc_field (FBytes v) = encBytes v"
| "enc_field (FDouble v) = tag_code TAG_DOUBLE # halves v"

fun field_ok :: "field \<Rightarrow> bool" where
  "field_ok (FString s) = string_ok s"
| "field_ok (FBytes d) = bytes_ok d"
| "field_ok _ = True"

lemmas all_put_enc = u8.put_enc u16.put_enc u32.put_enc u64.put_enc i32.put_enc i64.put_enc
  boolean.put_enc str.put_enc byt.put_enc dbl.put_enc
lemmas all_get_enc = u8.get_enc u16.get_enc u32.get_enc u64.get_enc i32.get_enc i64.get_enc
  boolean.get_enc str.get_enc byt.get_enc dbl.get_enc

lemma put_field_enc: "put_field f ts = ts\<lparr>m_data := m_data ts @ enc_field f\<rparr>"
  by (cases f) (simp_all add: all_put_enc)

lemma get_field_enc:
  assumes "field_ok f" and "m_data ts = pre @ enc_field f @ post" and "m_readIndex ts = length pre"
  shows "get_field (field_tag f) ts = (Some f, ts\<lparr>m_readIndex := length pre + length (enc_field f)\<rparr>)"
  using assms all_get_enc by (cases f) simp_all

definition put_fields :: "field list \<Rightarrow> tag_struct \<Rightarrow> tag_struct" where
  "put_fields fs ts = fold put_field fs ts"

fun get_fields :: "tag list \<Rightarrow> tag_struct \<Rightarrow> field list option \<times> tag_struct" where
  "get_fields [] ts = (Some [], ts)"
| "get_fields (t # tgs) ts =
     (case get_field t ts of
        (None, ts1) \<Rightarrow> (None, ts1)
      | (Some f, ts1) \<Rightarrow>
          (case get_fields tgs ts1 of
             (None, ts2) \<Rightarrow> (None, ts2)
           | (Some fs, ts2) \<Rightarrow> (Some (f # fs), ts2)))"

lemma put_fields_data:
  "m_data (put_fields fs ts) = m_data ts @ concat (map enc_field fs)"
  "m_readIndex (put_fields fs ts) = m_readIndex ts"
  unfolding put_fields_def by (induction fs arbitrary: ts) (simp_all add: put_field_enc)

lemma get_fields_enc:
  assumes "list_all field_ok fs" and "m_data ts = pre @ concat (map enc_field fs) @ post"
    and "m_readIndex ts = length pre"
  shows "get_fields (map field_tag fs) ts =
    (Some fs, ts\<lparr>m_readIndex := length pre + length (concat (map enc_field fs))\<rparr>)"
  using assms
proof (induction fs arbitrary: ts pre)
  case (Cons f fs)
  let ?ts1 = "ts\<lparr>m_readIndex := length (pre @ enc_field f)\<rparr>"
  have g: "get_field (field_tag f) ts = (Some f, ?ts1)"
    using get_field_enc [of f ts pre "concat (map enc_field fs) @ post"] Cons.prems by simp
  have "get_fields (map field_tag fs) ?ts1 =
    (Some fs, ?ts1\<lparr>m_readIndex := length (pre @ enc_field f) + length (concat (map enc_field fs))\<rparr>)"
    by (rule Cons.IH) (use Cons.prems in simp_all)
  with g show ?case by (simp add: add.assoc)
qed simp

interpretation msg: tagged_codec put_fields "\<lambda>ts. get_fields (map field_tag shape) ts"
  "\<lambda>fs. concat (map enc_field fs)" "\<lambda>fs. list_all field_ok fs \<and> map field_tag fs = map field_tag shape"
  for shape
proof
  fix v and ts :: tag_struct
  show "put_fields v ts = ts\<lparr>m_data := m_data ts @ concat (map enc_field v)\<rparr>"
    using put_fields_data [of v ts] by (cases ts) (cases "put_fields v ts", simp)
next
  fix v and ts :: tag_struct and pre post
  assume "list_all field_ok v \<and> map field_tag v = map field_tag shape"
    and "m_data ts = pre @ concat (map enc_field v) @ post" and "m_readIndex ts = length pre"
  then show "get_fields (map field_tag shape) ts =
      (Some v, ts\<lparr>m_readIndex := length pre + length (concat (map enc_field v))\<rparr>)"
    using get_fields_enc [of v ts pre post] by simp
qed

section \<open>Reader safety\<close>

text \<open>
  A reader never changes the buffer, never moves the index back, and leaves it at most
  \<open>slack\<close> past the end; when it returns a value it has moved past the tag.
\<close>

definition reader_safe :: "nat \<Rightarrow> (tag_struct \<Rightarrow> 'a option \<times> tag_struct) \<Rightarrow> bool" where
  "reader_safe slack g \<longleftrightarrow> (\<forall>ts.
     m_data (snd (g ts)) = m_data ts \<and> m_readIndex ts \<le> m_readIndex (snd (g ts)) \<and>
     m_readIndex (snd (g ts)) \<le> max (m_readIndex ts) (length (m_data ts) + slack) \<and>
     (fst (g ts) \<noteq> None \<longrightarrow> m_readIndex ts < length (m_data ts) \<and> m_readIndex ts < m_readIndex (snd (g ts))))"

lemma getFixed_safe: "reader_safe 0 (getFixed t n conv)"
  by (auto simp: reader_safe_def getFixed_def readTag_def takeBytes_def advance_def)

lemma unat_plus1_le: "unat (w + 1 :: 'a::len word) \<le> unat w + 1"
  by (simp add: unat_word_ariths)

lemma getString_safe: "reader_safe 0 getString"
  by (auto simp: reader_safe_def getString_def readTag_def takeBytes_def advance_def Let_def)

lemma getBytes_safe: "reader_safe 1 getBytes"
  unfolding reader_safe_def
proof (rule allI)
  fix ts :: tag_struct
  note unat_plus1_le [of "of_be32 (take 4 (drop (Suc (m_readIndex ts)) (m_data ts)))"]
  then show "m_data (snd (getBytes ts)) = m_data ts \<and> m_readIndex ts \<le> m_readIndex (snd (getBytes ts)) \<and>
     m_readIndex (snd (getBytes ts)) \<le> max (m_readIndex ts) (length (m_data ts) + 1) \<and>
     (fst (getBytes ts) \<noteq> None \<longrightarrow> m_readIndex ts < length (m_data ts) \<and> m_readIndex ts < m_readIndex (snd (getBytes ts)))"
    by (auto simp: getBytes_def readTag_def takeBytes_def advance_def Let_def)
qed

lemma wrong_tag: "peekTag ts \<noteq> tag_code t \<or> eof ts \<Longrightarrow> readTag t ts = (False, ts)"
  by (auto simp: readTag_def peekTag_def eof_def split: if_splits)

lemma wrong_tag_field:
  "t = TAG_INVALID \<or> peekTag ts \<noteq> tag_code t \<or> eof ts \<Longrightarrow> get_field t ts = (None, ts)"
  using wrong_tag [of ts t]
  by (cases t)
    (auto simp: getUint8_def getUint16_def getUint32_def getUint64_def getInt32_def getInt64_def
      getBool_def getDouble_def getString_def getBytes_def getFixed_def simp del: tag_code.simps)

lemma all_readers_safe:
  "reader_safe 0 getUint8" "reader_safe 0 getUint16" "reader_safe 0 getUint32" "reader_safe 0 getUint64"
  "reader_safe 0 getInt32" "reader_safe 0 getInt64" "reader_safe 0 getBool" "reader_safe 0 getDouble"
  "reader_safe 0 getString" "reader_safe 1 getBytes"
  by (simp_all add: getFixed_safe getString_safe getBytes_safe [simplified] getUint8_def getUint16_def getUint32_def
      getUint64_def getInt32_def getInt64_def getBool_def getDouble_def)
section \<open>Properties\<close>



text \<open>
  Memory safety of the readers, on any buffer, hostile ones included: no reader
  changes the buffer or moves the index back, a reader that returns a value found its
  tag inside the buffer and moved past it, and the index stays within the buffer, but
  for getBytes, which may leave it one past the end.
\<close>

theorem readers_stay_in_buffer:
  "reader_safe 0 getUint8 \<and> reader_safe 0 getUint16 \<and> reader_safe 0 getUint32 \<and>
   reader_safe 0 getUint64 \<and> reader_safe 0 getInt32 \<and> reader_safe 0 getInt64 \<and>
   reader_safe 0 getBool \<and> reader_safe 0 getDouble \<and> reader_safe 0 getString \<and> reader_safe 1 getBytes"
  by (simp add: all_readers_safe all_readers_safe [simplified])

text \<open>
  Type safety: a reader whose type is not that of the next tag, or that is called
  at the end, fails and leaves the payload exactly as it was, so the caller may try
  another type.
\<close>

theorem wrong_type_is_rejected:
  assumes "t = TAG_INVALID \<or> peekTag ts \<noteq> tag_code t \<or> eof ts"
  shows "get_field t ts = (None, ts)"
  by (rule wrong_tag_field [OF assms])

theorem wrong_type_is_rejected_witness:
  "get_field TAG_UINT64 (rewind (putUint32 5 new_tag_struct)) = (None, rewind (putUint32 5 new_tag_struct))"
proof (rule wrong_type_is_rejected)
  show "TAG_UINT64 = TAG_INVALID \<or> peekTag (rewind (putUint32 5 new_tag_struct)) \<noteq> tag_code TAG_UINT64 \<or>
    eof (rewind (putUint32 5 new_tag_struct))"
    by (simp add: peekTag_def rewind_def putUint32_def writeTag_def append_data_def new_tag_struct_def)
qed

text \<open>
  getBytes does not look at the terminating NUL that putBytes writes: a record cut
  off right before it is accepted, and the read index then points behind the buffer.
\<close>

theorem getBytes_ignores_terminator:
  assumes "d \<noteq> []" and "bytes_ok d"
  shows "getBytes (setData (butlast (encBytes d)) new_tag_struct) =
    (Some d, \<lparr>m_data = butlast (encBytes d), m_readIndex = length (butlast (encBytes d)) + 1\<rparr>)"
proof -
  have l: "length d < 2 ^ 32" using assms(2) by (simp add: bytes_ok_def)
  then have e: "butlast (encBytes d) = tag_code TAG_BYTES # be32 (of_nat (length d)) @ d"
    using assms(1) by (simp add: encBytes_def Let_def of_nat32_pos butlast_append)
  let ?ts = "setData (butlast (encBytes d)) new_tag_struct"
  have d': "m_data ?ts = [] @ (tag_code TAG_BYTES # be32 (of_nat (length d)) @ d) @ []"
    and i: "m_readIndex ?ts = length ([] :: bytes)" by (simp_all add: setData_def e)
  have n: "unat (of_nat (length d) + 1 :: xuint32) = length d + 1"
    using assms(2) unat_of_nat32 [of "length d + 1"] by (simp add: bytes_ok_def add.commute)
  note r = length_field_enc [OF d' i]
  show ?thesis unfolding getBytes_def r(1) using r(2,3) d' l n assms(1)
    by (auto simp: Let_def advance_def unat_of_nat32 of_nat32_pos word_le_nat_alt e setData_def new_tag_struct_def)
qed

theorem getBytes_ignores_terminator_witness:
  "fst (getBytes (setData [9, 0, 0, 0, 1, 65] new_tag_struct)) = Some [65]"
proof -
  have e: "butlast (encBytes [65]) = [9, 0, 0, 0, 1, 65]"
    by (simp add: encBytes_def be32_def be_bytes_numeral)
  show ?thesis using getBytes_ignores_terminator [of "[65]"] by (simp add: e bytes_ok_def)
qed

text \<open>
  dump() does not know the 64-bit types: it prints no value for them and goes on
  parsing their eight payload bytes as tags, so one field yields nine entries.
\<close>

theorem dump_desynchronises:
  "dump (putUint64 0 new_tag_struct) =
     (0, ''UINT64'', DumpUnsupported) # map (\<lambda>i. (i, ''INVALID'', DumpUnsupported)) [1..<9]"
proof -
  have d: "m_data (putUint64 0 new_tag_struct) = [4, 0, 0, 0, 0, 0, 0, 0, 0]"
    by (simp add: put_defs halves_def be32_def be_bytes_numeral new_tag_struct_def)
  show ?thesis unfolding dump_def d
    by (simp add: dump_loop.simps dump_field_def tagToString_def upt_conv_Cons)
qed
end
