(* ===== verification/Inc_Message.thy ===== *)
theory Inc_Message imports Tag_Struct begin

text \<open>
  Messages of the INC protocol (include/core/inc/iincmessage.h, src/core/inc/iincmessage.cpp):
  the fields of iINCMessage, the packed 32-byte header in the host's byte order (the
  parameter big), parseHeader and the validity test.
\<close>

section \<open>Types and constants\<close>

text \<open>The type is the 16-bit code: parseHeader casts any number it reads.\<close>

record inc_message =
  msg_type :: xuint16
  msg_extFd :: int
  msg_flags :: xuint16
  msg_protocolVersion :: xuint16
  msg_payloadVersion :: xuint16
  msg_channelID :: xuint32
  msg_seqNum :: xuint32
  msg_dts :: xint64
  msg_payload :: tag_struct

definition INC_MSG_INVALID :: xuint16 where "INC_MSG_INVALID = 0"
definition INC_MSG_HANDSHAKE :: xuint16 where "INC_MSG_HANDSHAKE = 2"
definition INC_MSG_HANDSHAKE_ACK :: xuint16 where "INC_MSG_HANDSHAKE_ACK = 3"
definition INC_MSG_METHOD_CALL :: xuint16 where "INC_MSG_METHOD_CALL = 6"
definition INC_MSG_METHOD_REPLY :: xuint16 where "INC_MSG_METHOD_REPLY = 7"
definition INC_MSG_EVENT :: xuint16 where "INC_MSG_EVENT = 8"
definition INC_MSG_BINARY_DATA :: xuint16 where "INC_MSG_BINARY_DATA = 18"
definition INC_MSG_BINARY_DATA_ACK :: xuint16 where "INC_MSG_BINARY_DATA_ACK = 19"
definition INC_MSG_PING :: xuint16 where "INC_MSG_PING = 20"
definition INC_MSG_PONG :: xuint16 where "INC_MSG_PONG = 21"

definition INC_MSG_FLAG_NONE :: xuint16 where "INC_MSG_FLAG_NONE = 0"
definition INC_MSG_FLAG_SHM_DATA :: xuint16 where "INC_MSG_FLAG_SHM_DATA = 1"
definition INC_MSG_FLAG_NOACK :: xuint16 where "INC_MSG_FLAG_NOACK = 4"

definition MAGIC :: xuint32 where "MAGIC = 0x494E4300"
definition HEADER_SIZE :: nat where "HEADER_SIZE = 32"
definition MAX_MESSAGE_SIZE :: nat where "MAX_MESSAGE_SIZE = 65507 - HEADER_SIZE"

text \<open>The forever deadline is the largest 64-bit integer.\<close>

definition DTS_FOREVER :: xint64 where "DTS_FOREVER = 0x7FFFFFFFFFFFFFFF"

definition new_message :: "xuint16 \<Rightarrow> xuint32 \<Rightarrow> xuint32 \<Rightarrow> inc_message" where
  "new_message type channelID seqNum =
     \<lparr>msg_type = type, msg_extFd = -1, msg_flags = INC_MSG_FLAG_NONE, msg_protocolVersion = 0,
      msg_payloadVersion = 0, msg_channelID = channelID, msg_seqNum = seqNum, msg_dts = DTS_FOREVER,
      msg_payload = new_tag_struct\<rparr>"

definition payload_size :: "inc_message \<Rightarrow> nat" where
  "payload_size m = length (m_data (msg_payload m))"

section \<open>The header\<close>

record inc_header =
  hdr_magic :: xuint32
  hdr_protocolVersion :: xuint16
  hdr_payloadVersion :: xuint16
  hdr_type :: xuint16
  hdr_flags :: xuint16
  hdr_channelID :: xuint32
  hdr_seqNum :: xuint32
  hdr_length :: xuint32
  hdr_dts :: xint64

definition header :: "inc_message \<Rightarrow> inc_header" where
  "header m = \<lparr>hdr_magic = MAGIC, hdr_protocolVersion = msg_protocolVersion m,
     hdr_payloadVersion = msg_payloadVersion m, hdr_type = msg_type m, hdr_flags = msg_flags m,
     hdr_channelID = msg_channelID m, hdr_seqNum = msg_seqNum m, hdr_length = of_nat (payload_size m),
     hdr_dts = msg_dts m\<rparr>"

text \<open>The struct's packed layout in memory.\<close>

definition host :: "bool \<Rightarrow> bytes \<Rightarrow> bytes" where
  "host big bs = (if big then bs else rev bs)"

definition header_bytes :: "bool \<Rightarrow> inc_header \<Rightarrow> bytes" where
  "header_bytes big h =
     host big (be32 (hdr_magic h)) @ host big (be16 (hdr_protocolVersion h)) @ host big (be16 (hdr_payloadVersion h)) @
     host big (be16 (hdr_type h)) @ host big (be16 (hdr_flags h)) @ host big (be32 (hdr_channelID h)) @
     host big (be32 (hdr_seqNum h)) @ host big (be32 (hdr_length h)) @ host big (be64 (hdr_dts h))"

definition field_at :: "nat \<Rightarrow> nat \<Rightarrow> bytes \<Rightarrow> bytes" where
  "field_at i n bs = take n (drop i bs)"

definition header_of_bytes :: "bool \<Rightarrow> bytes \<Rightarrow> inc_header" where
  "header_of_bytes big bs = \<lparr>hdr_magic = of_be32 (host big (field_at 0 4 bs)),
     hdr_protocolVersion = of_be16 (host big (field_at 4 2 bs)),
     hdr_payloadVersion = of_be16 (host big (field_at 6 2 bs)),
     hdr_type = of_be16 (host big (field_at 8 2 bs)), hdr_flags = of_be16 (host big (field_at 10 2 bs)),
     hdr_channelID = of_be32 (host big (field_at 12 4 bs)), hdr_seqNum = of_be32 (host big (field_at 16 4 bs)),
     hdr_length = of_be32 (host big (field_at 20 4 bs)), hdr_dts = of_be64 (host big (field_at 24 8 bs))\<rparr>"

text \<open>The 32-bit length is returned as a signed integer; - 1 is the error.\<close>

definition parseHeader :: "bool \<Rightarrow> bytes \<Rightarrow> inc_message \<Rightarrow> int \<times> inc_message" where
  "parseHeader big bs m =
     (if length bs \<noteq> HEADER_SIZE then (-1, m)
      else
        let h = header_of_bytes big bs in
        if hdr_magic h \<noteq> MAGIC then (-1, m)
        else (sint (hdr_length h),
              m\<lparr>msg_protocolVersion := hdr_protocolVersion h, msg_payloadVersion := hdr_payloadVersion h,
                msg_type := hdr_type h, msg_flags := hdr_flags h, msg_channelID := hdr_channelID h,
                msg_seqNum := hdr_seqNum h, msg_dts := hdr_dts h\<rparr>))"

definition isValid :: "inc_message \<Rightarrow> bool" where
  "isValid m \<longleftrightarrow>
     (if msg_type m = INC_MSG_INVALID then False
      else if payload_size m > MAX_MESSAGE_SIZE then False else True)"

definition clear_message :: "inc_message \<Rightarrow> inc_message" where
  "clear_message m = m\<lparr>msg_type := INC_MSG_INVALID, msg_flags := INC_MSG_FLAG_NONE, msg_protocolVersion := 0,
     msg_payloadVersion := 0, msg_channelID := 0, msg_seqNum := 0, msg_extFd := -1, msg_dts := DTS_FOREVER,
     msg_payload := clear_tags (msg_payload m)\<rparr>"

section \<open>Headers round-trip\<close>

lemma host_host [simp]: "host big (host big bs) = bs" by (simp add: host_def)
lemma length_host [simp]: "length (host big bs) = length bs" by (simp add: host_def)

lemma length_header_bytes [simp]: "length (header_bytes big h) = HEADER_SIZE"
  by (simp add: header_bytes_def HEADER_SIZE_def)

lemma header_of_header_bytes: "header_of_bytes big (header_bytes big h) = h"
  by (simp add: header_of_bytes_def header_bytes_def field_at_def)

lemma valid_length:
  "isValid m \<Longrightarrow> sint (of_nat (payload_size m) :: xuint32) = int (payload_size m)"
  by (auto simp: isValid_def MAX_MESSAGE_SIZE_def HEADER_SIZE_def signed_of_nat signed_take_bit_int_eq_self split: if_splits)

text \<open>What a receiver knows of a message: its descriptor travels apart and the payload is read afresh.\<close>

definition received :: "inc_message \<Rightarrow> inc_message" where
  "received m = m\<lparr>msg_extFd := -1, msg_payload := setData (m_data (msg_payload m)) new_tag_struct\<rparr>"

lemma parseHeader_header:
  assumes "isValid m"
  shows "fst (parseHeader big (header_bytes big (header m)) m0) = int (payload_size m)"
    and "snd (parseHeader big (header_bytes big (header m)) (new_message INC_MSG_INVALID 0 0)) =
      (received m)\<lparr>msg_payload := new_tag_struct\<rparr>"
  using valid_length [OF assms]
  by (simp_all add: parseHeader_def header_of_header_bytes header_def received_def new_message_def Let_def)

end
