(* ===== verification/Inc_Operation.thy ===== *)
theory Inc_Operation imports Inc_Message begin

text \<open>
  iINCOperation and its timer (include/core/inc/iincoperation.h,
  src/core/inc/iincoperation.cpp): the state of an asynchronous request, which leaves
  STATE_RUNNING once, and the interleavings of two threads that finish it.
\<close>

section \<open>State\<close>

datatype op_state = STATE_RUNNING | STATE_DONE | STATE_FAILED | STATE_TIMEOUT | STATE_CANCELLED

text \<open>\<open>op_alarm\<close> is the timeout of the armed alarm timer, \<open>op_calls\<close> what the finished callback saw.\<close>

record operation =
  op_seqNum :: xuint32
  op_state :: op_state
  op_errorCode :: int
  op_resultData :: bytes
  op_blockID :: xuint32
  op_alarm :: "int option"
  op_deleter :: bool
  op_callback :: bool
  op_calls :: "op_state list"

definition new_operation :: "xuint32 \<Rightarrow> operation" where
  "new_operation seqNum = \<lparr>op_seqNum = seqNum, op_state = STATE_RUNNING, op_errorCode = 0, op_resultData = [],
     op_blockID = 0, op_alarm = None, op_deleter = False, op_callback = False, op_calls = []\<rparr>"

section \<open>The timer\<close>

definition timer_stop :: "operation \<Rightarrow> operation" where
  "timer_stop op = op\<lparr>op_alarm := None\<rparr>"

definition timer_toggleAlarm :: "int \<Rightarrow> operation \<Rightarrow> operation" where
  "timer_toggleAlarm timeout op = op\<lparr>op_alarm := Some timeout\<rparr>"

definition timer_toggleDeleter :: "operation \<Rightarrow> operation" where
  "timer_toggleDeleter op = (timer_stop op)\<lparr>op_deleter := True\<rparr>"

section \<open>Operations\<close>

definition run_callback :: "operation \<Rightarrow> operation" where
  "run_callback op = (if op_callback op then op\<lparr>op_calls := op_calls op @ [op_state op]\<rparr> else op)"

definition setState :: "op_state \<Rightarrow> operation \<Rightarrow> operation" where
  "setState st op =
     (if st = STATE_RUNNING then op
      else if op_state op = STATE_RUNNING then run_callback (timer_stop (op\<lparr>op_state := st\<rparr>))
      else op)"

definition setResult :: "int \<Rightarrow> bytes \<Rightarrow> operation \<Rightarrow> operation" where
  "setResult errorCode data op =
     (if op_state op \<noteq> STATE_RUNNING then op
      else setState (if errorCode = 0 then STATE_DONE else STATE_FAILED)
             (op\<lparr>op_errorCode := errorCode, op_resultData := data\<rparr>))"

definition cancel :: "operation \<Rightarrow> operation" where
  "cancel op = setState STATE_CANCELLED op"

definition onTimeout :: "operation \<Rightarrow> operation" where
  "onTimeout op = setState STATE_TIMEOUT op"

definition setTimeout :: "int \<Rightarrow> operation \<Rightarrow> operation" where
  "setTimeout timeout op = (if op_state op \<noteq> STATE_RUNNING then op else timer_toggleAlarm timeout op)"

definition setFinishedCallback :: "bool \<Rightarrow> operation \<Rightarrow> operation" where
  "setFinishedCallback callback op =
     (let op1 = op\<lparr>op_callback := callback\<rparr>
      in if op_state op1 \<noteq> STATE_RUNNING \<and> callback then run_callback op1 else op1)"

definition resultData :: "operation \<Rightarrow> tag_struct" where
  "resultData op = setData (op_resultData op) new_tag_struct"

text \<open>
  The timer event: the deleter first (the operation is gone: None), then the alarm. An
  event of another timer is ignored.
\<close>

datatype timer_id = DeleterTimer | AlarmTimer | OtherTimer

definition timer_event :: "timer_id \<Rightarrow> operation \<Rightarrow> operation option" where
  "timer_event t op =
     (if t = DeleterTimer \<and> op_deleter op then None
      else if t = AlarmTimer \<and> op_alarm op \<noteq> None then Some (onTimeout (op\<lparr>op_alarm := None\<rparr>))
      else Some op)"

text \<open>doFree: the operation goes at once unless its alarm is armed on another running thread.\<close>

definition doFree :: "bool \<Rightarrow> operation \<Rightarrow> operation option" where
  "doFree other_thread op =
     (if op_alarm op = None then None
      else if \<not> other_thread then None
      else Some (timer_toggleDeleter op))"

section \<open>Life of an operation\<close>

inductive op_step :: "operation \<Rightarrow> operation \<Rightarrow> bool" where
  op_result: "op_step op (setResult code data op)"
| op_cancel: "op_step op (cancel op)"
| op_setTimeout: "op_step op (setTimeout timeout op)"
| op_setCallback: "op_step op (setFinishedCallback cb op)"
| op_timer: "timer_event t op = Some op' \<Longrightarrow> op_step op op'"
| op_defer: "doFree b op = Some op' \<Longrightarrow> op_step op op'"

definition op_inv :: "operation \<Rightarrow> bool" where
  "op_inv op \<longleftrightarrow>
     (if op_state op = STATE_RUNNING then op_calls op = []
      else op_alarm op = None \<and> set (op_calls op) \<subseteq> {op_state op})"

named_theorems op_simps "the definitions of an operation's steps"

lemmas [op_simps] = setState_def setResult_def cancel_def onTimeout_def setTimeout_def setFinishedCallback_def
  run_callback_def timer_stop_def timer_toggleAlarm_def timer_toggleDeleter_def timer_event_def doFree_def

lemma op_inv_new: "op_inv (new_operation seq)"
  by (simp add: op_inv_def new_operation_def)

lemma op_step_inv: "op_step op op' \<Longrightarrow> op_inv op \<Longrightarrow> op_inv op'"
  by (induction rule: op_step.induct) (auto simp: op_inv_def op_simps Let_def split: if_splits)

lemma op_steps_inv: "op_step\<^sup>*\<^sup>* op op' \<Longrightarrow> op_inv op \<Longrightarrow> op_inv op'"
  by (induction rule: rtranclp_induct) (auto intro: op_step_inv)

lemma op_step_final:
  "op_step op op' \<Longrightarrow> op_state op \<noteq> STATE_RUNNING \<Longrightarrow>
   op_state op' = op_state op \<and> op_errorCode op' = op_errorCode op \<and> op_resultData op' = op_resultData op"
  by (induction rule: op_step.induct) (auto simp: op_simps Let_def split: if_splits)

lemma op_steps_final:
  "op_step\<^sup>*\<^sup>* op op' \<Longrightarrow> op_state op \<noteq> STATE_RUNNING \<Longrightarrow>
   op_state op' = op_state op \<and> op_errorCode op' = op_errorCode op \<and> op_resultData op' = op_resultData op"
  by (induction rule: rtranclp_induct) (auto dest: op_step_final)

section \<open>Two threads\<close>

text \<open>
  setResult on one thread reads the state, stores the error code, stores the data and
  then tries to change the state; the alarm or a cancel on another thread may come in
  between each of these.
\<close>

datatype setter_pc = PcCheck | PcStoreCode | PcStoreData | PcState | PcDone

record racing = race_op :: operation race_pc :: setter_pc

definition setter_step :: "int \<Rightarrow> bytes \<Rightarrow> racing \<Rightarrow> racing" where
  "setter_step code data r =
     (let op = race_op r in
      case race_pc r of
        PcCheck \<Rightarrow> r\<lparr>race_pc := if op_state op \<noteq> STATE_RUNNING then PcDone else PcStoreCode\<rparr>
      | PcStoreCode \<Rightarrow> r\<lparr>race_op := op\<lparr>op_errorCode := code\<rparr>, race_pc := PcStoreData\<rparr>
      | PcStoreData \<Rightarrow> r\<lparr>race_op := op\<lparr>op_resultData := data\<rparr>, race_pc := PcState\<rparr>
      | PcState \<Rightarrow> r\<lparr>race_op := setState (if code = 0 then STATE_DONE else STATE_FAILED) op, race_pc := PcDone\<rparr>
      | PcDone \<Rightarrow> r)"

inductive race_step :: "int \<Rightarrow> bytes \<Rightarrow> racing \<Rightarrow> racing \<Rightarrow> bool" for code data where
  race_setter: "race_step code data r (setter_step code data r)"
| race_alarm: "timer_event t (race_op r) = Some op' \<Longrightarrow> race_step code data r (r\<lparr>race_op := op'\<rparr>)"
| race_cancel: "race_step code data r (r\<lparr>race_op := cancel (race_op r)\<rparr>)"

text \<open>However they interleave, the callback set before the race runs once, with the final state.\<close>

definition race_inv :: "racing \<Rightarrow> bool" where
  "race_inv r \<longleftrightarrow> op_callback (race_op r) \<and>
     (if op_state (race_op r) = STATE_RUNNING then op_calls (race_op r) = [] \<and> race_pc r \<noteq> PcDone
      else op_calls (race_op r) = [op_state (race_op r)])"

lemma race_step_inv: "race_step code data r r' \<Longrightarrow> race_inv r \<Longrightarrow> race_inv r'"
  by (induction rule: race_step.induct)
    (auto simp: race_inv_def setter_step_def op_simps Let_def split: if_splits setter_pc.splits)

lemma race_steps_inv: "(race_step code data)\<^sup>*\<^sup>* r r' \<Longrightarrow> race_inv r \<Longrightarrow> race_inv r'"
  by (induction rule: rtranclp_induct) (auto intro: race_step_inv)

section \<open>Properties\<close>

text \<open>
  C31. Over any sequence of results, cancels, timeouts and callback changes, an operation
  that has finished keeps its state, error code and result, has no alarm armed, and every
  call of its finished callback was made with that state; while running none was made.
\<close>

theorem operation_finishes_once:
  assumes "op_step\<^sup>*\<^sup>* (new_operation seq) op" and "op_step\<^sup>*\<^sup>* op op'"
  shows "op_inv op' \<and> (op_state op \<noteq> STATE_RUNNING \<longrightarrow>
    op_state op' = op_state op \<and> op_errorCode op' = op_errorCode op \<and> op_resultData op' = op_resultData op)"
  using op_steps_inv [OF assms(2) op_steps_inv [OF assms(1) op_inv_new]] op_steps_final [OF assms(2)] by blast

theorem operation_finishes_once_witness:
  "op_state (setResult 0 [1] (cancel (new_operation 5))) = STATE_CANCELLED"
proof -
  let ?op = "cancel (new_operation 5)"
  have "op_step\<^sup>*\<^sup>* (new_operation 5) ?op" "op_step\<^sup>*\<^sup>* ?op (setResult 0 [1] ?op)"
    by (blast intro: op_step.intros)+
  from operation_finishes_once [OF this] show ?thesis by (simp add: op_simps new_operation_def)
qed

text \<open>
  When a reply and a timeout or cancel race, the callback registered before runs
  exactly once whoever wins.
\<close>

theorem racing_result_calls_back_once:
  assumes "(race_step code data)\<^sup>*\<^sup>* \<lparr>race_op = setFinishedCallback True (new_operation seq), race_pc = PcCheck\<rparr> r"
    and "race_pc r = PcDone"
  shows "op_state (race_op r) \<noteq> STATE_RUNNING \<and> op_calls (race_op r) = [op_state (race_op r)]"
proof -
  have "race_inv \<lparr>race_op = setFinishedCallback True (new_operation seq), race_pc = PcCheck\<rparr>"
    by (simp add: race_inv_def new_operation_def setFinishedCallback_def Let_def)
  from race_steps_inv [OF assms(1) this] assms(2) show ?thesis by (auto simp: race_inv_def split: if_splits)
qed

text \<open>The losing interleaving: the alarm fires after the check and before the stores.\<close>

definition late_store :: racing where
  "late_store =
     (let r0 = \<lparr>race_op = setTimeout 10 (setFinishedCallback True (new_operation 1)), race_pc = PcCheck\<rparr>;
          r1 = setter_step 0 [7] r0;
          r2 = (case timer_event AlarmTimer (race_op r1) of Some op \<Rightarrow> r1\<lparr>race_op := op\<rparr> | None \<Rightarrow> r1)
      in setter_step 0 [7] (setter_step 0 [7] (setter_step 0 [7] r2)))"

theorem racing_result_calls_back_once_witness:
  "op_calls (race_op (setter_step 0 [7] (setter_step 0 [7] (setter_step 0 [7] (setter_step 0 [7]
     \<lparr>race_op = setFinishedCallback True (new_operation 1), race_pc = PcCheck\<rparr>))))) = [STATE_DONE]"
proof -
  let ?r = "\<lparr>race_op = setFinishedCallback True (new_operation 1), race_pc = PcCheck\<rparr>"
  let ?s = "setter_step 0 [7]"
  have "(race_step 0 [7])\<^sup>*\<^sup>* ?r (?s (?s (?s (?s ?r))))"
    by (meson race_setter rtranclp.rtrancl_into_rtrancl rtranclp.rtrancl_refl)
  moreover have "?s (?s (?s (?s ?r))) = \<lparr>race_op = (new_operation 1)\<lparr>op_state := STATE_DONE, op_callback := True,
      op_resultData := [7], op_calls := [STATE_DONE]\<rparr>, race_pc = PcDone\<rparr>"
    by (simp add: setter_step_def op_simps new_operation_def Let_def)
  ultimately show ?thesis using racing_result_calls_back_once [of 0 "[7]" 1 "?s (?s (?s (?s ?r)))"] by simp
qed

text \<open>
  The result is not part of the race's decision: after the alarm has won and its
  callback has run, the late setter still stores its code and data into the timed-out
  operation.
\<close>

theorem late_result_is_stored:
  "op_state (race_op late_store) = STATE_TIMEOUT \<and> op_calls (race_op late_store) = [STATE_TIMEOUT] \<and>
   op_resultData (race_op late_store) = [7] \<and> race_pc late_store = PcDone"
  by (simp add: late_store_def setter_step_def op_simps new_operation_def Let_def)

text \<open>
  A timeout of 0, documented as no timeout, arms an alarm like any other: the next
  alarm event ends the running operation as timed out.
\<close>

theorem zero_timeout_expires:
  assumes "op_state op = STATE_RUNNING"
  shows "\<exists>op'. timer_event AlarmTimer (setTimeout 0 op) = Some op' \<and> op_state op' = STATE_TIMEOUT"
  using assms by (simp add: op_simps)

theorem zero_timeout_expires_witness:
  "\<exists>op'. timer_event AlarmTimer (setTimeout 0 (new_operation 3)) = Some op' \<and> op_state op' = STATE_TIMEOUT"
  by (rule zero_timeout_expires) (simp add: new_operation_def)

end
