(* ===== verification/Inc_Stream.thy ===== *)
theory Inc_Stream imports Inc_Message "HOL-Library.Multiset" begin

text \<open>
  The stream transports: writeMessage and processRx of iTcpDevice and iUnixDevice
  (src/core/inc/itcpdevice.cpp, src/core/inc/iunixdevice.cpp). The kernel's answers
  to sendmsg and recv are arguments; what reaches the peer are the bytes sendmsg took.
\<close>

section \<open>State and outcomes\<close>

record stream_device =
  m_attached :: bool
  m_recvBuffer :: bytes
  m_pendingFd :: int
  m_lastSentFd :: int
  closed_fds :: "int list"

datatype send_result = Sent nat | SendWouldBlock | SendFailed
datatype recv_result = Received bytes | RecvAgain | RecvClosed | RecvFailed
datatype rx_event = RxMessage inc_message | RxError nat

definition INC_ERROR_DISCONNECTED :: nat where "INC_ERROR_DISCONNECTED = 0x8002"
definition INC_ERROR_PROTOCOL_ERROR :: nat where "INC_ERROR_PROTOCOL_ERROR = 0xC002"
definition INC_ERROR_MESSAGE_TOO_LARGE :: nat where "INC_ERROR_MESSAGE_TOO_LARGE = 0xC006"
definition BULK_READ_SIZE :: nat where "BULK_READ_SIZE = 8192"

section \<open>Writing\<close>

text \<open>The bytes of the two vectors handed to sendmsg for a message of which off bytes are gone.\<close>

definition iov_bytes :: "bool \<Rightarrow> inc_message \<Rightarrow> nat \<Rightarrow> bytes" where
  "iov_bytes big m off =
     (let hdr = header_bytes big (header m);
          payload = m_data (msg_payload m);
          payloadOffset = (if off > HEADER_SIZE then off - HEADER_SIZE else 0)
      in (if off < HEADER_SIZE then drop off hdr else []) @
         (if payloadOffset < length payload then drop payloadOffset payload else []))"

definition total_size :: "inc_message \<Rightarrow> nat" where
  "total_size m = HEADER_SIZE + payload_size m"

text \<open>Result: the return value, the bytes that reached the wire, the errors emitted and the device.\<close>

definition tcp_writeMessage ::
    "bool \<Rightarrow> inc_message \<Rightarrow> nat \<Rightarrow> send_result \<Rightarrow> stream_device \<Rightarrow> int \<times> bytes \<times> nat list \<times> stream_device" where
  "tcp_writeMessage big m off res dev =
     (if off \<ge> total_size m then (0, [], [], dev)
      else (case res of
          Sent n \<Rightarrow> (int n, take n (iov_bytes big m off), [], dev)
        | SendWouldBlock \<Rightarrow> (0, [], [], dev)
        | SendFailed \<Rightarrow> (-1, [], [INC_ERROR_DISCONNECTED], dev\<lparr>m_attached := False\<rparr>)))"

text \<open>The Unix device also attaches the message's descriptor, once, to its first byte.\<close>

definition fd_to_send :: "inc_message \<Rightarrow> nat \<Rightarrow> stream_device \<Rightarrow> int" where
  "fd_to_send m off dev =
     (if off = 0 \<and> msg_extFd m \<ge> 0 \<and> msg_extFd m \<noteq> m_lastSentFd dev then msg_extFd m else -1)"

definition unix_writeMessage ::
    "bool \<Rightarrow> inc_message \<Rightarrow> nat \<Rightarrow> send_result \<Rightarrow> stream_device \<Rightarrow>
     int \<times> bytes \<times> int option \<times> nat list \<times> stream_device" where
  "unix_writeMessage big m off res dev =
     (if off \<ge> total_size m then (0, [], None, [], dev)
      else
        let fd = fd_to_send m off dev in
        (case res of
          Sent n \<Rightarrow> (int n, take n (iov_bytes big m off), (if fd \<ge> 0 then Some fd else None), [],
                     if fd \<ge> 0 then dev\<lparr>m_lastSentFd := fd\<rparr> else dev)
        | SendWouldBlock \<Rightarrow> (0, [], None, [], dev)
        | SendFailed \<Rightarrow> (-1, [], None, [INC_ERROR_DISCONNECTED], dev\<lparr>m_attached := False\<rparr>)))"

section \<open>Reading\<close>

text \<open>
  The parsing loop over the bytes not yet consumed: the complete messages and what stops
  the loop (too few bytes, which stay, or a bad header, which empties the buffer).
\<close>

datatype rx_stop = RxLeftover bytes | RxBadHeader | RxTooLarge

definition parse_one :: "bool \<Rightarrow> bytes \<Rightarrow> (inc_message \<times> nat) option \<times> rx_stop" where
  "parse_one big buf =
     (if length buf < HEADER_SIZE then (None, RxLeftover buf)
      else
        let (len, m) = parseHeader big (take HEADER_SIZE buf) (new_message INC_MSG_INVALID 0 0) in
        if len < 0 then (None, RxBadHeader)
        else if len > int MAX_MESSAGE_SIZE then (None, RxTooLarge)
        else if length buf < HEADER_SIZE + nat len then (None, RxLeftover buf)
        else (Some (if len > 0 then m\<lparr>msg_payload := setData (take (nat len) (drop HEADER_SIZE buf)) (msg_payload m)\<rparr> else m,
                    HEADER_SIZE + nat len), RxLeftover (drop (HEADER_SIZE + nat len) buf)))"

lemma parse_one_positive: "parse_one big buf = (Some (m, n), stop) \<Longrightarrow> 0 < n \<and> n \<le> length buf"
  by (auto simp: parse_one_def HEADER_SIZE_def Let_def split: if_splits prod.splits)

function tcp_parse :: "bool \<Rightarrow> bytes \<Rightarrow> inc_message list \<times> rx_stop" where
  "tcp_parse big buf =
     (case parse_one big buf of
        (None, stop) \<Rightarrow> ([], stop)
      | (Some (m, n), _) \<Rightarrow> (let (ms, stop) = tcp_parse big (drop n buf) in (m # ms, stop)))"
  by pat_completeness auto
termination
  by (relation "measure (\<lambda>(big, buf). length buf)") (auto dest!: parse_one_positive [OF sym])

declare tcp_parse.simps [simp del]

text \<open>In the Unix device's loop the pending descriptor goes to the first complete message.\<close>

fun attach_fd :: "int \<Rightarrow> inc_message list \<Rightarrow> inc_message list \<times> int" where
  "attach_fd fd [] = ([], fd)"
| "attach_fd fd (m # ms) = (if fd \<ge> 0 then (m\<lparr>msg_extFd := fd\<rparr> # ms, -1) else (m # ms, fd))"

definition tcp_finish :: "inc_message list \<Rightarrow> rx_stop \<Rightarrow> stream_device \<Rightarrow> rx_event list \<times> stream_device" where
  "tcp_finish ms stop dev =
     (case stop of
        RxLeftover l \<Rightarrow> (map RxMessage ms, dev\<lparr>m_recvBuffer := l\<rparr>)
      | RxBadHeader \<Rightarrow> (map RxMessage ms @ [RxError INC_ERROR_PROTOCOL_ERROR], dev\<lparr>m_recvBuffer := []\<rparr>)
      | RxTooLarge \<Rightarrow> (map RxMessage ms @ [RxError INC_ERROR_MESSAGE_TOO_LARGE], dev\<lparr>m_recvBuffer := []\<rparr>))"

definition tcp_processRx :: "bool \<Rightarrow> recv_result \<Rightarrow> stream_device \<Rightarrow> rx_event list \<times> stream_device" where
  "tcp_processRx big res dev =
     (case res of
        RecvClosed \<Rightarrow> ([RxError INC_ERROR_DISCONNECTED], dev\<lparr>m_attached := False\<rparr>)
      | RecvFailed \<Rightarrow> ([RxError INC_ERROR_DISCONNECTED], dev\<lparr>m_attached := False\<rparr>)
      | RecvAgain \<Rightarrow>
          if m_recvBuffer dev = [] then ([], dev)
          else (let (ms, stop) = tcp_parse big (m_recvBuffer dev) in tcp_finish ms stop dev)
      | Received bs \<Rightarrow>
          (let (ms, stop) = tcp_parse big (m_recvBuffer dev @ bs) in tcp_finish ms stop dev))"

definition close_pending :: "stream_device \<Rightarrow> stream_device" where
  "close_pending dev =
     (if m_pendingFd dev \<ge> 0
      then dev\<lparr>closed_fds := closed_fds dev @ [m_pendingFd dev], m_pendingFd := -1\<rparr> else dev)"

definition unix_parse_buffer :: "bool \<Rightarrow> bytes \<Rightarrow> stream_device \<Rightarrow> rx_event list \<times> stream_device" where
  "unix_parse_buffer big buf dev =
     (let (ms, stop) = tcp_parse big buf;
          (ms', fd) = attach_fd (m_pendingFd dev) ms;
          (evs, dev') = tcp_finish ms' stop (dev\<lparr>m_pendingFd := fd\<rparr>)
      in (evs, (case stop of RxLeftover _ \<Rightarrow> dev' | _ \<Rightarrow> close_pending dev')))"

text \<open>A descriptor that arrives while another waits replaces it; the older one is closed.\<close>

definition unix_processRx :: "bool \<Rightarrow> recv_result \<Rightarrow> int \<Rightarrow> stream_device \<Rightarrow> rx_event list \<times> stream_device" where
  "unix_processRx big res receivedFd dev =
     (case res of
        RecvClosed \<Rightarrow> ([RxError INC_ERROR_DISCONNECTED], dev\<lparr>m_attached := False\<rparr>)
      | RecvFailed \<Rightarrow> ([RxError INC_ERROR_DISCONNECTED], dev\<lparr>m_attached := False\<rparr>)
      | RecvAgain \<Rightarrow> if m_recvBuffer dev = [] then ([], dev) else unix_parse_buffer big (m_recvBuffer dev) dev
      | Received bs \<Rightarrow>
          (let dev1 = (if receivedFd \<ge> 0 then (close_pending dev)\<lparr>m_pendingFd := receivedFd\<rparr> else dev)
           in unix_parse_buffer big (m_recvBuffer dev1 @ bs) dev1))"

section \<open>Framing\<close>

definition encode_message :: "bool \<Rightarrow> inc_message \<Rightarrow> bytes" where
  "encode_message big m = header_bytes big (header m) @ m_data (msg_payload m)"

lemma length_encode [simp]: "length (encode_message big m) = total_size m"
  by (simp add: encode_message_def total_size_def payload_size_def)

lemma iov_bytes_drop: "iov_bytes big m off = drop off (encode_message big m)"
  by (simp add: iov_bytes_def encode_message_def Let_def)

lemma parse_one_encode:
  assumes "isValid m"
  shows "parse_one big (encode_message big m @ rest) = (Some (received m, total_size m), RxLeftover rest)"
proof -
  have t: "take HEADER_SIZE (encode_message big m @ rest) = header_bytes big (header m)"
    by (simp add: encode_message_def)
  have p: "parseHeader big (header_bytes big (header m)) (new_message INC_MSG_INVALID 0 0) =
      (int (payload_size m), (received m)\<lparr>msg_payload := new_tag_struct\<rparr>)"
    using parseHeader_header [OF assms] by (metis prod.collapse)
  have pl: "take (payload_size m) (drop HEADER_SIZE (encode_message big m @ rest)) = m_data (msg_payload m)"
    by (simp add: encode_message_def payload_size_def)
  have le: "payload_size m \<le> MAX_MESSAGE_SIZE" using assms by (auto simp: isValid_def split: if_splits)
  have d: "drop (HEADER_SIZE + payload_size m) (encode_message big m @ rest) = rest"
    by (simp add: encode_message_def payload_size_def)
  have m: "(received m)\<lparr>msg_payload := setData (m_data (msg_payload m)) new_tag_struct\<rparr> = received m"
    "payload_size m = 0 \<Longrightarrow> (received m)\<lparr>msg_payload := new_tag_struct\<rparr> = received m"
    by (simp_all add: received_def payload_size_def setData_def new_tag_struct_def)
  show ?thesis
    unfolding parse_one_def t p Let_def prod.case nat_int pl d
    using le by (simp add: m total_size_def)
qed

lemma total_pos: "0 < total_size m" by (simp add: total_size_def HEADER_SIZE_def)

lemma tcp_parse_Cons:
  assumes "isValid m"
  shows "tcp_parse big (encode_message big m @ rest) = (received m # fst (tcp_parse big rest), snd (tcp_parse big rest))"
  using parse_one_encode [OF assms, of big rest]
  by (subst tcp_parse.simps) (simp add: case_prod_beta Let_def)

text \<open>A proper prefix of a message is kept.\<close>

lemma parse_one_prefix:
  assumes "isValid m" and "n < total_size m"
  shows "parse_one big (take n (encode_message big m)) = (None, RxLeftover (take n (encode_message big m)))"
proof (cases "n < HEADER_SIZE")
  case True
  then show ?thesis using assms(2) by (simp add: parse_one_def min_def)
next
  case False
  have le: "payload_size m \<le> MAX_MESSAGE_SIZE" using assms(1) by (auto simp: isValid_def split: if_splits)
  have t: "take HEADER_SIZE (take n (encode_message big m)) = header_bytes big (header m)"
    using False by (simp add: encode_message_def min_def)
  have p: "parseHeader big (header_bytes big (header m)) (new_message INC_MSG_INVALID 0 0) =
      (int (payload_size m), (received m)\<lparr>msg_payload := new_tag_struct\<rparr>)"
    using parseHeader_header [OF assms(1)] by (metis prod.collapse)
  have l: "length (take n (encode_message big m)) = n" using assms(2) by simp
  show ?thesis using False le assms(2) unfolding parse_one_def l t p by (simp add: total_size_def)
qed

definition encode_all :: "bool \<Rightarrow> inc_message list \<Rightarrow> bytes" where
  "encode_all big ms = concat (map (encode_message big) ms)"

lemma encode_all_simps [simp]:
  "encode_all big [] = []" "encode_all big (m # ms) = encode_message big m @ encode_all big ms"
  "encode_all big (xs @ ys) = encode_all big xs @ encode_all big ys"
  by (simp_all add: encode_all_def)

lemma tcp_parse_all:
  "list_all isValid ms \<Longrightarrow> tcp_parse big (encode_all big ms @ rest) =
     (map received ms @ fst (tcp_parse big rest), snd (tcp_parse big rest))"
  by (induction ms) (simp_all add: tcp_parse_Cons)

lemma tcp_parse_prefix:
  "isValid m \<Longrightarrow> n < total_size m \<Longrightarrow>
   tcp_parse big (take n (encode_message big m)) = ([], RxLeftover (take n (encode_message big m)))"
  by (subst tcp_parse.simps) (simp add: parse_one_prefix)

lemma tcp_parse_Nil: "tcp_parse big [] = ([], RxLeftover [])"
  by (subst tcp_parse.simps) (simp add: parse_one_def HEADER_SIZE_def)

text \<open>Every prefix of an encoded sequence is some whole messages and a proper prefix of the next.\<close>

lemma split_prefix:
  "n \<le> length (encode_all big ms) \<Longrightarrow>
   \<exists>k j. k \<le> length ms \<and> take n (encode_all big ms) = encode_all big (take k ms) @
     (if k < length ms then take j (encode_message big (ms ! k)) else []) \<and>
     (k < length ms \<longrightarrow> j < total_size (ms ! k))"
proof (induction ms arbitrary: n)
  case Nil
  then show ?case by simp
next
  case (Cons m ms)
  show ?case
  proof (cases "n < total_size m")
    case True
    then show ?thesis by (intro exI [of _ 0] exI [of _ n]) simp
  next
    case False
    with Cons.prems have "n - total_size m \<le> length (encode_all big ms)" by simp
    from Cons.IH [OF this] obtain k j where kj: "k \<le> length ms"
      "take (n - total_size m) (encode_all big ms) = encode_all big (take k ms) @
         (if k < length ms then take j (encode_message big (ms ! k)) else [])"
      "k < length ms \<longrightarrow> j < total_size (ms ! k)" by blast
    then show ?thesis using False by (intro exI [of _ "Suc k"] exI [of _ j]) auto
  qed
qed

lemma tcp_parse_wire_prefix:
  assumes "list_all isValid ms" and "n \<le> length (encode_all big ms)"
  shows "\<exists>k l. tcp_parse big (take n (encode_all big ms)) = (map received (take k ms), RxLeftover l) \<and>
    k \<le> length ms \<and> encode_all big (take k ms) @ l = take n (encode_all big ms) \<and>
    (n = length (encode_all big ms) \<longrightarrow> k = length ms)"
proof -
  obtain k j where kj: "k \<le> length ms" "take n (encode_all big ms) = encode_all big (take k ms) @
     (if k < length ms then take j (encode_message big (ms ! k)) else [])"
     "k < length ms \<longrightarrow> j < total_size (ms ! k)" using split_prefix [OF assms(2)] by blast
  have v: "list_all isValid (take k ms)" using assms(1) by (metis append_take_drop_id list_all_append)
  show ?thesis
  proof (cases "k < length ms")
    case True
    have vk: "isValid (ms ! k)" using assms(1) True by (simp add: list_all_length)
    have "n \<noteq> length (encode_all big ms)"
    proof
      assume "n = length (encode_all big ms)"
      then have "length (encode_all big ms) = length (encode_all big (take k ms)) + j"
        using arg_cong [OF kj(2), of length] True kj(3) by (simp add: min_def)
      moreover have "length (encode_all big ms) \<ge> length (encode_all big (take k ms)) + total_size (ms ! k)"
        using arg_cong [OF id_take_nth_drop [OF True], of "\<lambda>x. length (encode_all big x)"] by simp
      ultimately show False using kj(3) True by simp
    qed
    then show ?thesis
      using True kj tcp_parse_all [OF v, of big "take j (encode_message big (ms ! k))"] tcp_parse_prefix [OF vk, of j big]
      by (intro exI [of _ k] exI [of _ "take j (encode_message big (ms ! k))"]) simp
  next
    case False
    then show ?thesis using kj tcp_parse_all [OF v, of big "[]"]
      by (intro exI [of _ k] exI [of _ "[]"]) (simp add: tcp_parse_Nil)
  qed
qed

section \<open>Delivery\<close>

definition rx_bytes :: "recv_result \<Rightarrow> bytes option" where
  "rx_bytes r = (case r of Received bs \<Rightarrow> Some bs | RecvAgain \<Rightarrow> Some [] | _ \<Rightarrow> None)"

fun rx_stream :: "recv_result list \<Rightarrow> bytes option" where
  "rx_stream [] = Some []"
| "rx_stream (r # rs) = (case (rx_bytes r, rx_stream rs) of (Some a, Some b) \<Rightarrow> Some (a @ b) | _ \<Rightarrow> None)"

fun tcp_run :: "bool \<Rightarrow> recv_result list \<Rightarrow> stream_device \<Rightarrow> rx_event list \<times> stream_device" where
  "tcp_run big [] dev = ([], dev)"
| "tcp_run big (r # rs) dev =
     (let (e, dev1) = tcp_processRx big r dev; (es, dev2) = tcp_run big rs dev1 in (e @ es, dev2))"

fun unix_run :: "bool \<Rightarrow> (recv_result \<times> int) list \<Rightarrow> stream_device \<Rightarrow> rx_event list \<times> stream_device" where
  "unix_run big [] dev = ([], dev)"
| "unix_run big ((r, fd) # rs) dev =
     (let (e, dev1) = unix_processRx big r fd dev; (es, dev2) = unix_run big rs dev1 in (e @ es, dev2))"

lemma tcp_processRx_bytes:
  "rx_bytes r = Some bs \<Longrightarrow> tcp_processRx big r dev =
     (let (ms, stop) = tcp_parse big (m_recvBuffer dev @ bs) in tcp_finish ms stop dev)"
  by (cases r) (auto simp: rx_bytes_def tcp_processRx_def tcp_parse_Nil tcp_finish_def)

lemma tcp_run_spec:
  "list_all isValid ms \<Longrightarrow> rx_stream rs = Some c \<Longrightarrow> m_recvBuffer dev @ c = take n (encode_all big ms) \<Longrightarrow>
   n \<le> length (encode_all big ms) \<Longrightarrow>
   \<exists>k l. tcp_run big rs dev = (map (RxMessage \<circ> received) (take k ms), dev\<lparr>m_recvBuffer := l\<rparr>) \<and> k \<le> length ms \<and>
     encode_all big (take k ms) @ l = take n (encode_all big ms) \<and>
     (n = length (encode_all big ms) \<and> rs \<noteq> [] \<longrightarrow> k = length ms)"
proof (induction rs arbitrary: ms c dev n)
  case Nil
  then show ?case by (intro exI [of _ 0] exI [of _ "m_recvBuffer dev"]) simp
next
  case (Cons r rs)
  obtain a b where ab: "rx_bytes r = Some a" "rx_stream rs = Some b" "c = a @ b"
    using Cons.prems(2) by (auto split: option.splits)
  let ?n1 = "length (m_recvBuffer dev @ a)"
  have n: "n = length (m_recvBuffer dev @ a @ b)"
    using arg_cong [OF Cons.prems(3), of length] Cons.prems(4) ab(3) by simp
  have pre: "m_recvBuffer dev @ a = take ?n1 (encode_all big ms)"
    using arg_cong [OF Cons.prems(3), of "take ?n1"] ab(3) n by (simp add: min_def)
  have n1: "?n1 \<le> length (encode_all big ms)" using n Cons.prems(4) by simp
  from tcp_parse_wire_prefix [OF Cons.prems(1) n1] obtain k l where
    kl: "tcp_parse big (m_recvBuffer dev @ a) = (map received (take k ms), RxLeftover l)" "k \<le> length ms"
      "encode_all big (take k ms) @ l = m_recvBuffer dev @ a"
      "?n1 = length (encode_all big ms) \<longrightarrow> k = length ms"
    unfolding pre [symmetric] by blast
  let ?dev = "dev\<lparr>m_recvBuffer := l\<rparr>" and ?rest = "drop k ms"
  have step: "tcp_processRx big r dev = (map (RxMessage \<circ> received) (take k ms), ?dev)"
    using tcp_processRx_bytes [OF ab(1), of big dev] kl(1) by (simp add: tcp_finish_def)
  have e: "encode_all big ms = encode_all big (take k ms) @ encode_all big ?rest"
    by (metis append_take_drop_id encode_all_simps(3))
  let ?m = "n - length (encode_all big (take k ms))"
  have le: "length (encode_all big (take k ms)) \<le> n"
    using arg_cong [OF kl(3), of length] n by simp
  have "encode_all big (take k ms) @ l @ b = take n (encode_all big ms)"
    using kl(3) Cons.prems(3) ab(3) by (metis append.assoc)
  then have lb: "m_recvBuffer ?dev @ b = take ?m (encode_all big ?rest)"
    using le by (simp add: e)
  have v: "list_all isValid ?rest" using Cons.prems(1) by (metis append_take_drop_id list_all_append)
  have m: "?m \<le> length (encode_all big ?rest)" using Cons.prems(4) e by (metis diff_le_mono diff_add_inverse length_append)
  from Cons.IH [OF v ab(2) lb m] obtain k2 l2 where
    k2: "tcp_run big rs ?dev = (map (RxMessage \<circ> received) (take k2 ?rest), ?dev\<lparr>m_recvBuffer := l2\<rparr>)"
      "k2 \<le> length ?rest" "encode_all big (take k2 ?rest) @ l2 = take ?m (encode_all big ?rest)"
      "?m = length (encode_all big ?rest) \<and> rs \<noteq> [] \<longrightarrow> k2 = length ?rest" by blast
  have t: "take (k + k2) ms = take k ms @ take k2 ?rest" by (rule take_add)
  have full: "k + k2 = length ms" if "n = length (encode_all big ms)"
  proof (cases "rs = []")
    case True
    then have "b = []" using ab(2) by simp
    then show ?thesis using kl(2,4) k2(2) n that by simp
  next
    case False
    then show ?thesis using k2(4) kl(2) that e by simp
  qed
  show ?case
    using step k2 t e le kl(2) full by (intro exI [of _ "k + k2"] exI [of _ l2]) auto
qed

text \<open>The Unix device delivers what the TCP device delivers, up to descriptors.\<close>

fun erase_fd :: "rx_event \<Rightarrow> rx_event" where
  "erase_fd (RxMessage m) = RxMessage (m\<lparr>msg_extFd := -1\<rparr>)"
| "erase_fd (RxError e) = RxError e"

definition forget_fds :: "stream_device \<Rightarrow> stream_device" where
  "forget_fds dev = dev\<lparr>m_pendingFd := -1, m_lastSentFd := -1, closed_fds := []\<rparr>"

lemma attach_fd_erase: "map (\<lambda>m. erase_fd (RxMessage m)) (fst (attach_fd fd ms)) = map (\<lambda>m. erase_fd (RxMessage m)) ms"
  by (cases ms) auto

lemma unix_buffer_erase:
  "map erase_fd (fst (unix_parse_buffer big buf dev)) =
     map erase_fd (let (ms, stop) = tcp_parse big buf in fst (tcp_finish ms stop (forget_fds dev)))"
  "forget_fds (snd (unix_parse_buffer big buf dev)) =
     (let (ms, stop) = tcp_parse big buf in snd (tcp_finish ms stop (forget_fds dev)))"
proof -
  obtain ms stop where p: "tcp_parse big buf = (ms, stop)" by fastforce
  obtain ms' fd where a: "attach_fd (m_pendingFd dev) ms = (ms', fd)" by fastforce
  have e: "map (\<lambda>m. erase_fd (RxMessage m)) ms' = map (\<lambda>m. erase_fd (RxMessage m)) ms"
    using attach_fd_erase [of "m_pendingFd dev" ms] a by simp
  then show "map erase_fd (fst (unix_parse_buffer big buf dev)) =
     map erase_fd (let (ms, stop) = tcp_parse big buf in fst (tcp_finish ms stop (forget_fds dev)))"
    by (cases stop) (simp_all add: unix_parse_buffer_def p a tcp_finish_def comp_def)
  show "forget_fds (snd (unix_parse_buffer big buf dev)) =
     (let (ms, stop) = tcp_parse big buf in snd (tcp_finish ms stop (forget_fds dev)))"
    by (cases stop) (simp_all add: unix_parse_buffer_def p a tcp_finish_def forget_fds_def close_pending_def)
qed

lemma close_pending_simps [simp]:
  "m_recvBuffer (close_pending dev) = m_recvBuffer dev" "forget_fds (close_pending dev) = forget_fds dev"
  by (simp_all add: close_pending_def forget_fds_def)

lemma forget_fds_simps [simp]:
  "m_recvBuffer (forget_fds dev) = m_recvBuffer dev" "forget_fds (dev\<lparr>m_pendingFd := fd\<rparr>) = forget_fds dev"
  "forget_fds (dev\<lparr>m_attached := b\<rparr>) = (forget_fds dev)\<lparr>m_attached := b\<rparr>"
  by (simp_all add: forget_fds_def)

lemma unix_processRx_erase:
  "map erase_fd (fst (unix_processRx big r fd dev)) = map erase_fd (fst (tcp_processRx big r (forget_fds dev)))"
  "forget_fds (snd (unix_processRx big r fd dev)) = snd (tcp_processRx big r (forget_fds dev))"
  by (auto simp: unix_processRx_def tcp_processRx_def unix_buffer_erase Let_def case_prod_beta split: recv_result.splits)

lemma unix_run_erase:
  "map erase_fd (fst (unix_run big rs dev)) = map erase_fd (fst (tcp_run big (map fst rs) (forget_fds dev))) \<and>
   forget_fds (snd (unix_run big rs dev)) = snd (tcp_run big (map fst rs) (forget_fds dev))"
proof (induction rs arbitrary: dev)
  case (Cons x rs)
  obtain r fd where x: "x = (r, fd)" by fastforce
  show ?case
    using Cons.IH [of "snd (unix_processRx big r fd dev)"] unix_processRx_erase [of big r fd dev]
    by (simp add: x Let_def case_prod_beta)
qed simp

text \<open>No descriptor is lost: each is delivered with one message, closed or still pending.\<close>

definition event_fds :: "rx_event list \<Rightarrow> int multiset" where
  "event_fds evs = mset (filter (\<lambda>fd. fd \<ge> 0) (map (\<lambda>e. case e of RxMessage m \<Rightarrow> msg_extFd m | RxError _ \<Rightarrow> -1) evs))"

definition fd_mset :: "int \<Rightarrow> int multiset" where
  "fd_mset fd = (if fd \<ge> 0 then {#fd#} else {#})"

definition held_fds :: "stream_device \<Rightarrow> int multiset" where
  "held_fds dev = mset (closed_fds dev) + fd_mset (m_pendingFd dev)"

lemma event_fds_append: "event_fds (a @ b) = event_fds a + event_fds b"
  by (simp add: event_fds_def)

lemma held_close_pending [simp]: "held_fds (close_pending dev) = held_fds dev"
  by (simp add: held_fds_def close_pending_def fd_mset_def)

lemma parse_one_noFd: "parse_one big buf = (Some (m, n), stop) \<Longrightarrow> msg_extFd m = -1"
  by (auto simp: parse_one_def parseHeader_def new_message_def Let_def split: if_splits)

lemma tcp_parse_noFd: "\<forall>m\<in>set (fst (tcp_parse big buf)). msg_extFd m = -1"
proof (induction "length buf" arbitrary: buf rule: less_induct)
  case less
  show ?case
  proof (cases "fst (parse_one big buf)")
    case None
    then show ?thesis by (subst tcp_parse.simps) (auto split: prod.splits)
  next
    case (Some mn)
    obtain m n stop where o: "parse_one big buf = (Some (m, n), stop)"
      using Some by (metis prod.collapse)
    have "length (drop n buf) < length buf" using parse_one_positive [OF o] by auto
    from less [OF this] show ?thesis using parse_one_noFd [OF o]
      by (subst tcp_parse.simps) (simp add: o Let_def case_prod_beta)
  qed
qed

lemma attach_fd_fds:
  "\<forall>m\<in>set ms. msg_extFd m = -1 \<Longrightarrow>
   event_fds (map RxMessage (fst (attach_fd fd ms))) +
     fd_mset (snd (attach_fd fd ms)) = fd_mset fd"
  by (cases ms) (auto simp: event_fds_def comp_def filter_empty_conv fd_mset_def)

lemma unix_buffer_fds:
  "event_fds (fst (unix_parse_buffer big buf dev)) + held_fds (snd (unix_parse_buffer big buf dev)) = held_fds dev"
proof -
  obtain ms stop where p: "tcp_parse big buf = (ms, stop)" by fastforce
  obtain ms' fd where a: "attach_fd (m_pendingFd dev) ms = (ms', fd)" by fastforce
  have h: "event_fds (map RxMessage ms') + fd_mset fd = fd_mset (m_pendingFd dev)"
    using attach_fd_fds [of ms "m_pendingFd dev"] tcp_parse_noFd [of big buf] p a by simp
  have e: "event_fds [RxError e] = {#}" for e by (simp add: event_fds_def)
  have "event_fds (fst (unix_parse_buffer big buf dev)) = event_fds (map RxMessage ms')"
    by (cases stop) (simp_all add: unix_parse_buffer_def p a tcp_finish_def event_fds_append e)
  moreover have "held_fds (snd (unix_parse_buffer big buf dev)) = held_fds (dev\<lparr>m_pendingFd := fd\<rparr>)"
    by (cases stop) (simp_all add: unix_parse_buffer_def p a tcp_finish_def, simp_all add: held_fds_def)
  ultimately show ?thesis using h by (simp add: held_fds_def add.left_commute [of "event_fds _"])
qed

lemma unix_processRx_fds:
  "event_fds (fst (unix_processRx big r fd dev)) + held_fds (snd (unix_processRx big r fd dev)) =
     held_fds dev + (case r of Received _ \<Rightarrow> fd_mset fd | _ \<Rightarrow> {#})"
proof -
  have n: "held_fds ((close_pending dev)\<lparr>m_pendingFd := fd\<rparr>) = held_fds dev + fd_mset fd" if "fd \<ge> 0"
    by (simp add: held_fds_def close_pending_def fd_mset_def)
  have z: "event_fds [RxError e] = {#}" "event_fds [] = {#}" "held_fds (dev\<lparr>m_attached := b\<rparr>) = held_fds dev" for e b
    by (simp_all add: event_fds_def held_fds_def)
  show ?thesis
  proof (cases r)
    case (Received bs)
    then show ?thesis using n
      by (cases "fd \<ge> 0") (simp_all add: unix_processRx_def Let_def unix_buffer_fds, simp add: fd_mset_def)
  qed (simp_all add: unix_processRx_def z unix_buffer_fds)
qed

fun received_fds :: "(recv_result \<times> int) list \<Rightarrow> int multiset" where
  "received_fds [] = {#}"
| "received_fds ((r, fd) # rs) = (case r of Received _ \<Rightarrow> fd_mset fd | _ \<Rightarrow> {#}) + received_fds rs"

lemma unix_run_fds:
  "event_fds (fst (unix_run big rs dev)) + held_fds (snd (unix_run big rs dev)) = held_fds dev + received_fds rs"
proof (induction rs arbitrary: dev)
  case (Cons x rs)
  obtain r fd where x: "x = (r, fd)" by fastforce
  let ?d = "snd (unix_processRx big r fd dev)"
  have "event_fds (fst (unix_processRx big r fd dev)) + (event_fds (fst (unix_run big rs ?d)) + held_fds (snd (unix_run big rs ?d)))
      = held_fds dev + (case r of Received _ \<Rightarrow> fd_mset fd | _ \<Rightarrow> {#}) + received_fds rs"
    using Cons.IH [of ?d] unix_processRx_fds [of big r fd dev] by (metis (no_types) add.assoc)
  then show ?case by (simp add: x Let_def case_prod_beta event_fds_append add.assoc)
qed (simp add: event_fds_def)

section \<open>Properties\<close>

definition sample_message :: inc_message where
  "sample_message = (new_message INC_MSG_METHOD_CALL 3 9)\<lparr>msg_payload := putUint8 5 new_tag_struct\<rparr>"

definition sample_device :: stream_device where
  "sample_device = \<lparr>m_attached = True, m_recvBuffer = [], m_pendingFd = -1, m_lastSentFd = -1, closed_fds = []\<rparr>"

lemma sample_valid: "isValid sample_message"
  by (simp add: isValid_def sample_message_def new_message_def INC_MSG_METHOD_CALL_def INC_MSG_INVALID_def
      payload_size_def putUint8_def writeTag_def append_data_def new_tag_struct_def MAX_MESSAGE_SIZE_def HEADER_SIZE_def)

text \<open>
  C15. On hosts of either byte order the 32 header bytes of a valid message parse back to its
  type, versions, flags, channel, sequence number, deadline and payload length.
\<close>

theorem header_round_trip:
  assumes "isValid m"
  shows "parseHeader big (header_bytes big (header m)) (new_message INC_MSG_INVALID 0 0) =
    (int (payload_size m), m\<lparr>msg_extFd := -1, msg_payload := new_tag_struct\<rparr>)"
  using parseHeader_header [OF assms] by (simp add: prod_eq_iff received_def)

theorem header_round_trip_witness:
  "fst (parseHeader False (header_bytes False (header sample_message)) (new_message INC_MSG_INVALID 0 0)) = int (payload_size sample_message)"
  using header_round_trip [OF sample_valid, of False] by simp




text \<open>
  C17. No descriptor received over a Unix socket is lost or duplicated while reading: those
  delivered with messages, those closed and the pending one are the ones held before and
  the ones received.
\<close>

theorem descriptors_are_conserved:
  "event_fds (fst (unix_run big rs dev)) + held_fds (snd (unix_run big rs dev)) = held_fds dev + received_fds rs"
  by (rule unix_run_fds)

text \<open>
  A header whose magic is wrong, whose length is negative or above the limit ends the
  read with an error and an empty buffer, whatever follows it.
\<close>

theorem bad_header_resets_buffer:
  assumes "HEADER_SIZE \<le> length buf" and "m_recvBuffer dev = []"
    and "fst (parseHeader big (take HEADER_SIZE buf) (new_message INC_MSG_INVALID 0 0)) < 0 \<or>
         fst (parseHeader big (take HEADER_SIZE buf) (new_message INC_MSG_INVALID 0 0)) > int MAX_MESSAGE_SIZE"
  shows "\<exists>e. tcp_processRx big (Received buf) dev = ([RxError e], dev\<lparr>m_recvBuffer := []\<rparr>)"
proof -
  obtain len m where p: "parseHeader big (take HEADER_SIZE buf) (new_message INC_MSG_INVALID 0 0) = (len, m)" by fastforce
  have "\<exists>stop. parse_one big buf = (None, stop) \<and> stop \<in> {RxBadHeader, RxTooLarge}"
    using assms(1,3) by (auto simp: parse_one_def p)
  then show ?thesis using assms(2)
    by (auto simp: tcp_processRx_def tcp_parse.simps [of big buf] tcp_finish_def)
qed

theorem bad_header_resets_buffer_witness:
  "\<exists>e. tcp_processRx True (Received (replicate 40 0)) sample_device = ([RxError e], sample_device\<lparr>m_recvBuffer := []\<rparr>)"
proof -
  have "replicate 4 (0 :: 8 word) = [0, 0, 0, 0]" by (simp add: numeral_eq_Suc)
  then have "of_be32 (replicate 4 0) = 0" by (simp add: of_be32_def be_val_def)
  then have "of_be32 (replicate 4 0) \<noteq> MAGIC" by (simp add: MAGIC_def)
  then show ?thesis
    by (intro bad_header_resets_buffer)
      (simp_all add: HEADER_SIZE_def sample_device_def parseHeader_def header_of_bytes_def field_at_def host_def Let_def)
qed

end
