(* ===== verification/Inc_Protocol.thy ===== *)
theory Inc_Protocol imports Inc_Operation Inc_Stream begin

text \<open>
  iINCProtocol (src/core/inc/iincprotocol.cpp, iincprotocol.h, iincmetrics.h): the send
  queue with its partial writes, the table of pending operations, shared-memory binary
  data and the dispatch of received messages. The transport device is a parameter (a
  record of its two operations over a state 'd), as are the outcomes of the memory pool.
  Operations live in a heap with reference counts, as iSharedData keeps them; signals are
  lists of events. invokeMethod is the direct call of the protocol's own thread.
\<close>

section \<open>Metrics\<close>

record inc_metrics =
  mt_messagesSent :: xuint64
  mt_messagesReceived :: xuint64
  mt_bytesSent :: xuint64
  mt_bytesReceived :: xuint64
  mt_binaryFramesSent :: xuint64
  mt_binaryFramesRecv :: xuint64
  mt_sendQueueDrops :: xuint64
  mt_sendQueuePeak :: xuint64
  mt_shmHits :: xuint64
  mt_shmMisses :: xuint64
  mt_operationsCreated :: xuint64
  mt_operationsCompleted :: xuint64
  mt_operationsTimeout :: xuint64

definition metrics_reset :: inc_metrics where
  "metrics_reset = \<lparr>mt_messagesSent = 0, mt_messagesReceived = 0, mt_bytesSent = 0, mt_bytesReceived = 0,
     mt_binaryFramesSent = 0, mt_binaryFramesRecv = 0, mt_sendQueueDrops = 0, mt_sendQueuePeak = 0,
     mt_shmHits = 0, mt_shmMisses = 0, mt_operationsCreated = 0, mt_operationsCompleted = 0,
     mt_operationsTimeout = 0\<rparr>"

text \<open>The difference of two snapshots; the peak is absolute.\<close>

definition metrics_minus :: "inc_metrics \<Rightarrow> inc_metrics \<Rightarrow> inc_metrics" where
  "metrics_minus a b = \<lparr>mt_messagesSent = mt_messagesSent a - mt_messagesSent b,
     mt_messagesReceived = mt_messagesReceived a - mt_messagesReceived b,
     mt_bytesSent = mt_bytesSent a - mt_bytesSent b, mt_bytesReceived = mt_bytesReceived a - mt_bytesReceived b,
     mt_binaryFramesSent = mt_binaryFramesSent a - mt_binaryFramesSent b,
     mt_binaryFramesRecv = mt_binaryFramesRecv a - mt_binaryFramesRecv b,
     mt_sendQueueDrops = mt_sendQueueDrops a - mt_sendQueueDrops b, mt_sendQueuePeak = mt_sendQueuePeak a,
     mt_shmHits = mt_shmHits a - mt_shmHits b, mt_shmMisses = mt_shmMisses a - mt_shmMisses b,
     mt_operationsCreated = mt_operationsCreated a - mt_operationsCreated b,
     mt_operationsCompleted = mt_operationsCompleted a - mt_operationsCompleted b,
     mt_operationsTimeout = mt_operationsTimeout a - mt_operationsTimeout b\<rparr>"

definition onMessageSent :: "nat \<Rightarrow> inc_metrics \<Rightarrow> inc_metrics" where
  "onMessageSent n t = t\<lparr>mt_messagesSent := mt_messagesSent t + 1, mt_bytesSent := mt_bytesSent t + of_nat n\<rparr>"
definition onMessageReceivedMetric :: "nat \<Rightarrow> inc_metrics \<Rightarrow> inc_metrics" where
  "onMessageReceivedMetric n t = t\<lparr>mt_messagesReceived := mt_messagesReceived t + 1, mt_bytesReceived := mt_bytesReceived t + of_nat n\<rparr>"
definition onBinaryFrameSent :: "nat \<Rightarrow> inc_metrics \<Rightarrow> inc_metrics" where
  "onBinaryFrameSent n t = t\<lparr>mt_binaryFramesSent := mt_binaryFramesSent t + 1, mt_bytesSent := mt_bytesSent t + of_nat n\<rparr>"
definition onBinaryFrameRecv :: "nat \<Rightarrow> inc_metrics \<Rightarrow> inc_metrics" where
  "onBinaryFrameRecv n t = t\<lparr>mt_binaryFramesRecv := mt_binaryFramesRecv t + 1, mt_bytesReceived := mt_bytesReceived t + of_nat n\<rparr>"
definition onSendQueueDrop :: "inc_metrics \<Rightarrow> inc_metrics" where
  "onSendQueueDrop t = t\<lparr>mt_sendQueueDrops := mt_sendQueueDrops t + 1\<rparr>"
definition onSendQueueDepth :: "nat \<Rightarrow> inc_metrics \<Rightarrow> inc_metrics" where
  "onSendQueueDepth depth t =
     (if of_nat depth > mt_sendQueuePeak t then t\<lparr>mt_sendQueuePeak := of_nat depth\<rparr> else t)"
definition onShmHit :: "inc_metrics \<Rightarrow> inc_metrics" where
  "onShmHit t = t\<lparr>mt_shmHits := mt_shmHits t + 1\<rparr>"
definition onShmMiss :: "inc_metrics \<Rightarrow> inc_metrics" where
  "onShmMiss t = t\<lparr>mt_shmMisses := mt_shmMisses t + 1\<rparr>"
definition onOperationCreated :: "inc_metrics \<Rightarrow> inc_metrics" where
  "onOperationCreated t = t\<lparr>mt_operationsCreated := mt_operationsCreated t + 1\<rparr>"
definition onOperationCompleted :: "inc_metrics \<Rightarrow> inc_metrics" where
  "onOperationCompleted t = t\<lparr>mt_operationsCompleted := mt_operationsCompleted t + 1\<rparr>"

section \<open>State\<close>

definition INC_MAX_SEND_QUEUE :: nat where "INC_MAX_SEND_QUEUE = 100"
definition INC_ERROR_QUEUE_FULL :: nat where "INC_ERROR_QUEUE_FULL = 0xE004"
definition INC_ERROR_WRITE_FAILED :: nat where "INC_ERROR_WRITE_FAILED = 0xC007"

datatype proto_event =
    MessageReceived inc_message
  | ErrorOccurred nat
  | BinaryDataReceived xuint32 xuint32 bool xint64 bytes

text \<open>
  An operation is named by its number in \<open>p_heap\<close>; the table maps sequence numbers to
  operations in the container's iteration order. \<open>p_exported\<close> are the block ids of
  the slots that put has exported and processRelease has not taken back.
\<close>

record proto =
  p_seqCounter :: xuint32
  p_sendQueue :: "inc_message list"
  p_isPassthrough :: bool
  p_cachedPeerMemFd :: int
  p_closedFds :: "int list"
  p_partialSendOffset :: nat
  p_memPool :: bool
  p_operations :: "(xuint32 \<times> nat) list"
  p_heap :: "nat \<Rightarrow> operation option"
  p_refs :: "nat \<Rightarrow> nat"
  p_nextOp :: nat
  p_exported :: "xuint32 list"
  p_writeEvents :: bool
  p_metrics :: inc_metrics

definition new_proto :: "bool \<Rightarrow> proto" where
  "new_proto passthrough = \<lparr>p_seqCounter = 1, p_sendQueue = [], p_isPassthrough = passthrough,
     p_cachedPeerMemFd = -1, p_closedFds = [], p_partialSendOffset = 0, p_memPool = False, p_operations = [],
     p_heap = (\<lambda>_. None), p_refs = (\<lambda>_. 0), p_nextOp = 0, p_exported = [], p_writeEvents = False,
     p_metrics = metrics_reset\<rparr>"

definition nextSequence :: "proto \<Rightarrow> xuint32 \<times> proto" where
  "nextSequence p = (p_seqCounter p, p\<lparr>p_seqCounter := p_seqCounter p + 1\<rparr>)"

definition enableMempool :: "proto \<Rightarrow> proto" where
  "enableMempool p = (if p_memPool p then p else p\<lparr>p_memPool := True\<rparr>)"

text \<open>The heap of operations: construction, ref, deref (the last one returns it to the pool).\<close>

definition alloc_op :: "xuint32 \<Rightarrow> proto \<Rightarrow> nat \<times> proto" where
  "alloc_op seqNum p =
     (p_nextOp p, p\<lparr>p_heap := (p_heap p)(p_nextOp p := Some (new_operation seqNum)),
        p_refs := (p_refs p)(p_nextOp p := 1), p_nextOp := p_nextOp p + 1\<rparr>)"

definition ref_op :: "nat \<Rightarrow> proto \<Rightarrow> proto" where
  "ref_op i p = p\<lparr>p_refs := (p_refs p)(i := p_refs p i + 1)\<rparr>"

definition deref_op :: "nat \<Rightarrow> proto \<Rightarrow> proto" where
  "deref_op i p =
     (let n = p_refs p i - 1
      in p\<lparr>p_refs := (p_refs p)(i := n),
           p_heap := (if n = 0 then (p_heap p)(i := None) else p_heap p)\<rparr>)"

definition with_op :: "nat \<Rightarrow> (operation \<Rightarrow> operation) \<Rightarrow> proto \<Rightarrow> proto" where
  "with_op i f p = p\<lparr>p_heap := (p_heap p)(i := map_option f (p_heap p i))\<rparr>"

definition block_of :: "nat \<Rightarrow> proto \<Rightarrow> xuint32" where
  "block_of i p = (case p_heap p i of Some op \<Rightarrow> op_blockID op | None \<Rightarrow> 0)"

definition ops_find :: "xuint32 \<Rightarrow> proto \<Rightarrow> nat option" where
  "ops_find s p = map_of (p_operations p) s"

definition ops_erase :: "xuint32 \<Rightarrow> proto \<Rightarrow> proto" where
  "ops_erase s p = p\<lparr>p_operations := filter (\<lambda>(k, _). k \<noteq> s) (p_operations p)\<rparr>"

definition ops_put :: "xuint32 \<Rightarrow> nat \<Rightarrow> proto \<Rightarrow> proto" where
  "ops_put s i p = p\<lparr>p_operations := (s, i) # filter (\<lambda>(k, _). k \<noteq> s) (p_operations p)\<rparr>"

definition processRelease :: "xuint32 \<Rightarrow> proto \<Rightarrow> proto" where
  "processRelease b p = p\<lparr>p_exported := remove1 b (p_exported p)\<rparr>"

definition meter :: "(inc_metrics \<Rightarrow> inc_metrics) \<Rightarrow> proto \<Rightarrow> proto" where
  "meter f p = p\<lparr>p_metrics := f (p_metrics p)\<rparr>"

section \<open>Sending\<close>

record 'd device =
  dv_isWritable :: "'d \<Rightarrow> bool"
  dv_writeMessage :: "inc_message \<Rightarrow> nat \<Rightarrow> 'd \<Rightarrow> int \<times> 'd"

text \<open>
  The loop of onReadyWrite: the queue and offset it leaves, the write monitoring it asks
  for, the errors and the device. A failed write drops its message; a partial one waits.
\<close>

fun send_loop :: "'d device \<Rightarrow> inc_message list \<Rightarrow> nat \<Rightarrow> 'd \<Rightarrow>
    inc_message list \<times> nat \<times> bool option \<times> proto_event list \<times> 'd" where
  "send_loop D [] off d = ([], off, Some False, [], d)"
| "send_loop D (m # q) off d =
     (let (written, d') = dv_writeMessage D m off d in
      if written < 0 then (q, 0, None, [ErrorOccurred INC_ERROR_WRITE_FAILED], d')
      else
        let off' = off + nat written in
        if off' < total_size m then (m # q, off', Some True, [], d')
        else send_loop D q 0 d')"

definition onReadyWrite :: "'d device \<Rightarrow> proto \<Rightarrow> 'd \<Rightarrow> proto_event list \<times> proto \<times> 'd" where
  "onReadyWrite D p d =
     (if \<not> dv_isWritable D d then ([], p, d)
      else
        let (q, off, w, evs, d') = send_loop D (p_sendQueue p) (p_partialSendOffset p) d
        in (evs, p\<lparr>p_sendQueue := q, p_partialSendOffset := off,
                   p_writeEvents := (case w of Some b \<Rightarrow> b | None \<Rightarrow> p_writeEvents p)\<rparr>, d'))"

definition onDeviceConnected :: "'d device \<Rightarrow> proto \<Rightarrow> 'd \<Rightarrow> proto_event list \<times> proto \<times> 'd" where
  "onDeviceConnected D p d = onReadyWrite D (p\<lparr>p_writeEvents := True\<rparr>) d"

definition sendMessageImpl :: "'d device \<Rightarrow> inc_message \<Rightarrow> nat option \<Rightarrow> proto \<Rightarrow> 'd \<Rightarrow>
    proto_event list \<times> proto \<times> 'd" where
  "sendMessageImpl D msg op p d =
     (if length (p_sendQueue p) \<ge> INC_MAX_SEND_QUEUE then
        let p1 = meter onSendQueueDrop p;
            p2 = (case op of
                    Some i \<Rightarrow> deref_op i (with_op i (setResult (int INC_ERROR_QUEUE_FULL) []) p1)
                  | None \<Rightarrow> p1)
        in ([ErrorOccurred INC_ERROR_QUEUE_FULL], p2, d)
      else
        let p1 = (case op of
                    Some i \<Rightarrow> meter onOperationCreated (ops_put (msg_seqNum msg) i p)
                  | None \<Rightarrow> p);
            p2 = p1\<lparr>p_sendQueue := p_sendQueue p1 @ [msg]\<rparr>;
            p3 = meter (onSendQueueDepth (length (p_sendQueue p2)) \<circ> onMessageSent (payload_size msg)) p2
        in onReadyWrite D p3 d)"

text \<open>A message is tracked by an operation unless its type is a reply's or it is fire-and-forget.\<close>

definition is_tracked :: "inc_message \<Rightarrow> bool" where
  "is_tracked msg \<longleftrightarrow> \<not> (msg_type msg AND 1 \<noteq> 0 \<or> msg_flags msg AND INC_MSG_FLAG_NOACK \<noteq> 0)"

definition sendMessage :: "'d device \<Rightarrow> inc_message \<Rightarrow> proto \<Rightarrow> 'd \<Rightarrow>
    nat option \<times> proto_event list \<times> proto \<times> 'd" where
  "sendMessage D msg p d =
     (let (op, p1) = (if is_tracked msg then map_prod Some id (alloc_op (msg_seqNum msg) p) else (None, p)) in
      if \<not> isValid msg then
        (op, [ErrorOccurred INC_ERROR_MESSAGE_TOO_LARGE],
         (case op of Some i \<Rightarrow> with_op i (setResult (int INC_ERROR_MESSAGE_TOO_LARGE) []) p1 | None \<Rightarrow> p1), d)
      else (op, sendMessageImpl D msg op (case op of Some i \<Rightarrow> ref_op i p1 | None \<Rightarrow> p1) d))"

text \<open>
  The outcome of exporting the data's block: None when it cannot be shared. The slice is
  the distance of the data from the start of its block.
\<close>

record shm_put =
  sp_memType :: xuint32
  sp_blockId :: xuint32
  sp_shmId :: xuint32
  sp_offset :: xuint64
  sp_slice :: xuint64

definition shm_payload :: "xint64 \<Rightarrow> shm_put \<Rightarrow> nat \<Rightarrow> tag_struct" where
  "shm_payload pos s sz =
     putUint64 (of_nat sz) (putUint64 (sp_offset s + sp_slice s) (putUint32 (sp_shmId s)
       (putUint32 (sp_blockId s) (putUint32 (sp_memType s) (putInt64 pos new_tag_struct)))))"

definition sendBinaryData :: "'d device \<Rightarrow> xuint32 \<Rightarrow> bool \<Rightarrow> xint64 \<Rightarrow> bytes \<Rightarrow> shm_put option \<Rightarrow> proto \<Rightarrow> 'd \<Rightarrow>
    nat option \<times> proto_event list \<times> proto \<times> 'd" where
  "sendBinaryData D channel broadcast pos data put p d =
     (let (seqNum, p0) = nextSequence p;
          msg = new_message INC_MSG_BINARY_DATA channel seqNum
      in case (if p_memPool p0 then put else None) of
           Some s \<Rightarrow>
             let msg1 = msg\<lparr>msg_payload := shm_payload pos s (length data), msg_flags := INC_MSG_FLAG_SHM_DATA\<rparr>;
                 p1 = meter (onBinaryFrameSent (length data) \<circ> onShmHit)
                        (p0\<lparr>p_exported := p_exported p0 @ [sp_blockId s]\<rparr>);
                 (op, evs, p2, d2) = sendMessage D msg1 p1 d
             in (op, evs, (case op of Some i \<Rightarrow> with_op i (\<lambda>o1. o1\<lparr>op_blockID := sp_blockId s\<rparr>) p2 | None \<Rightarrow> p2), d2)
         | None \<Rightarrow>
             let msg1 = msg\<lparr>msg_flags := (if broadcast then INC_MSG_FLAG_NOACK else INC_MSG_FLAG_NONE),
                            msg_payload := putBytes data (putInt64 pos new_tag_struct)\<rparr>
             in sendMessage D msg1 (meter (onBinaryFrameSent (length data) \<circ> onShmMiss) p0) d)"

section \<open>Finishing operations\<close>

text \<open>processRelease for an operation that still holds a slot.\<close>

definition release_slot :: "nat \<Rightarrow> proto \<Rightarrow> proto" where
  "release_slot i p =
     (if p_memPool p \<and> block_of i p \<noteq> 0
      then with_op i (\<lambda>op. op\<lparr>op_blockID := 0\<rparr>) (processRelease (block_of i p) p) else p)"

definition releaseOperation :: "nat option \<Rightarrow> proto \<Rightarrow> proto" where
  "releaseOperation op p =
     (case op of
        None \<Rightarrow> p
      | Some i \<Rightarrow>
          (case p_heap p i of
             None \<Rightarrow> p
           | Some o1 \<Rightarrow>
               if ops_find (op_seqNum o1) p = Some i
               then deref_op i (release_slot i (ops_erase (op_seqNum o1) p)) else p))"

fun cancel_loop :: "int \<Rightarrow> (xuint32 \<times> nat) list \<Rightarrow> proto \<Rightarrow> proto" where
  "cancel_loop code [] p = p"
| "cancel_loop code ((s, i) # rest) p =
     cancel_loop code rest
       (deref_op i (with_op i (setResult code []) (release_slot i (p\<lparr>p_operations := rest\<rparr>))))"

definition cancelAllOperations :: "int \<Rightarrow> proto \<Rightarrow> proto" where
  "cancelAllOperations code p = cancel_loop code (p_operations p) p"

fun destroy_loop :: "(xuint32 \<times> nat) list \<Rightarrow> proto \<Rightarrow> proto" where
  "destroy_loop [] p = p"
| "destroy_loop ((s, i) # rest) p =
     destroy_loop rest (deref_op i (with_op i cancel (p\<lparr>p_operations := rest\<rparr>)))"

definition destroy_proto :: "proto \<Rightarrow> proto" where
  "destroy_proto p =
     (let p1 = (destroy_loop (p_operations p) p)\<lparr>p_memPool := False\<rparr>
      in if p_cachedPeerMemFd p1 \<ge> 0
         then p1\<lparr>p_closedFds := p_closedFds p1 @ [p_cachedPeerMemFd p1], p_cachedPeerMemFd := -1\<rparr> else p1)"

section \<open>Receiving\<close>

definition error_reply :: "xuint32 \<Rightarrow> xuint32 \<Rightarrow> inc_message" where
  "error_reply channel seqNum =
     (new_message INC_MSG_BINARY_DATA_ACK channel seqNum)\<lparr>msg_payload := putInt32 (-1) new_tag_struct\<rparr>"

definition send_reply :: "'d device \<Rightarrow> inc_message \<Rightarrow> proto \<Rightarrow> 'd \<Rightarrow> proto_event list \<times> proto \<times> 'd" where
  "send_reply D reply p d = snd (sendMessage D reply p d)"

text \<open>Parsing of the two payloads, with the short-circuit order of the code.\<close>

definition direct_payload :: "tag_struct \<Rightarrow> (xint64 \<times> bytes) option" where
  "direct_payload ts =
     (case getInt64 ts of
        (Some pos, ts1) \<Rightarrow>
          (case getBytes ts1 of
             (Some data, ts2) \<Rightarrow> if eof ts2 then Some (pos, data) else None
           | _ \<Rightarrow> None)
      | _ \<Rightarrow> None)"

definition shm_reference :: "tag_struct \<Rightarrow> (xint64 \<times> xuint32 \<times> xuint32 \<times> xuint32 \<times> xuint64 \<times> xuint64) option" where
  "shm_reference ts =
     (case getInt64 ts of (Some pos, t1) \<Rightarrow>
       (case getUint32 t1 of (Some memType, t2) \<Rightarrow>
         (case getUint32 t2 of (Some blockId, t3) \<Rightarrow>
           (case getUint32 t3 of (Some shmId, t4) \<Rightarrow>
             (case getUint64 t4 of (Some offset, t5) \<Rightarrow>
               (case getUint64 t5 of (Some sz, t6) \<Rightarrow>
                  if eof t6 then Some (pos, memType, blockId, shmId, offset, sz) else None
                | _ \<Rightarrow> None) | _ \<Rightarrow> None) | _ \<Rightarrow> None) | _ \<Rightarrow> None) | _ \<Rightarrow> None) | _ \<Rightarrow> None)"

definition processDirectBinaryData :: "'d device \<Rightarrow> inc_message \<Rightarrow> bool \<Rightarrow> proto \<Rightarrow> 'd \<Rightarrow>
    proto_event list \<times> proto \<times> 'd" where
  "processDirectBinaryData D msg broadcast p d =
     (case direct_payload (msg_payload msg) of
        Some (pos, data) \<Rightarrow>
          ([BinaryDataReceived (msg_channelID msg) (msg_seqNum msg) broadcast pos data],
           meter (onBinaryFrameRecv (length data)) p, d)
      | None \<Rightarrow>
          if broadcast then ([], p, d)
          else send_reply D (error_reply (msg_channelID msg) (msg_seqNum msg)) p d)"

text \<open>\<open>import_block\<close> stands for iMemImport::get with the cached descriptor: the block's bytes, or None.\<close>

type_synonym importer = "xuint32 \<Rightarrow> xuint32 \<Rightarrow> xuint32 \<Rightarrow> int \<Rightarrow> xuint64 \<Rightarrow> xuint64 \<Rightarrow> bytes option"

definition processSHMBinaryData :: "'d device \<Rightarrow> importer \<Rightarrow> inc_message \<Rightarrow> bool \<Rightarrow> proto \<Rightarrow> 'd \<Rightarrow>
    proto_event list \<times> proto \<times> 'd" where
  "processSHMBinaryData D import_block msg broadcast p d =
     (let reply = send_reply D (error_reply (msg_channelID msg) (msg_seqNum msg)) p d in
      if \<not> p_memPool p then reply
      else (case shm_reference (msg_payload msg) of
          None \<Rightarrow> reply
        | Some (pos, memType, blockId, shmId, offset, sz) \<Rightarrow>
            (case import_block memType blockId shmId (p_cachedPeerMemFd p) offset sz of
               None \<Rightarrow> reply
             | Some data \<Rightarrow>
                 ([BinaryDataReceived (msg_channelID msg) (msg_seqNum msg) broadcast pos data],
                  meter (onBinaryFrameRecv (unat sz)) p, d))))"

definition processBinaryDataMessage :: "'d device \<Rightarrow> importer \<Rightarrow> inc_message \<Rightarrow> proto \<Rightarrow> 'd \<Rightarrow>
    proto_event list \<times> proto \<times> 'd" where
  "processBinaryDataMessage D import_block msg p d =
     (let shm = (msg_flags msg AND INC_MSG_FLAG_SHM_DATA \<noteq> 0);
          broadcast = (msg_flags msg AND INC_MSG_FLAG_NOACK \<noteq> 0 \<and> \<not> shm)
      in if \<not> shm then processDirectBinaryData D msg broadcast p d
         else processSHMBinaryData D import_block msg False p d)"

definition cache_fd :: "int \<Rightarrow> proto \<Rightarrow> proto" where
  "cache_fd fd p =
     (if fd < 0 then p
      else (if p_cachedPeerMemFd p \<ge> 0 then p\<lparr>p_closedFds := p_closedFds p @ [p_cachedPeerMemFd p]\<rparr> else p)
             \<lparr>p_cachedPeerMemFd := fd\<rparr>)"

text \<open>A reply (odd type, sequence number not 0) completes the pending operation of its number.\<close>

definition complete_op :: "inc_message \<Rightarrow> proto \<Rightarrow> proto" where
  "complete_op msg p =
     (if msg_type msg AND 1 \<noteq> 0 \<and> msg_seqNum msg > 0 then
        (case ops_find (msg_seqNum msg) p of
           None \<Rightarrow> p
         | Some i \<Rightarrow>
             let p1 = ops_erase (msg_seqNum msg) p;
                 p2 = (if p_memPool p1 \<and> msg_type msg = INC_MSG_BINARY_DATA_ACK \<and> block_of i p1 \<noteq> 0
                       then processRelease (block_of i p1) p1 else p1)
             in deref_op i (meter onOperationCompleted (with_op i (setResult 0 (m_data (msg_payload msg))) p2)))
      else p)"

definition onMessageReceived :: "'d device \<Rightarrow> importer \<Rightarrow> inc_message \<Rightarrow> proto \<Rightarrow> 'd \<Rightarrow>
    proto_event list \<times> proto \<times> 'd" where
  "onMessageReceived D import_block msg p d =
     (let p1 = complete_op msg (meter (onMessageReceivedMetric (payload_size msg)) (cache_fd (msg_extFd msg) p)) in
      if p_isPassthrough p1 then ([MessageReceived msg], p1, d)
      else if msg_type msg = INC_MSG_BINARY_DATA then processBinaryDataMessage D import_block msg p1 d
      else if msg_type msg \<noteq> INC_MSG_BINARY_DATA_ACK then ([MessageReceived msg], p1, d)
      else ([], p1, d))"

end
