(* ===== verification/Inc_Protocol_Laws.thy ===== *)
theory Inc_Protocol_Laws imports Inc_Protocol begin

text \<open>
  What iINCProtocol promises: what it puts on the wire is the sequence of accepted
  messages, however the device splits the writes; pending operations are owned; shared
  memory slots come back. The contract of a stream device is the locale stream_sender,
  interpreted on the TCP and the Unix device over a kernel that takes any part of what it is given.
\<close>

section \<open>Accepting a message\<close>

definition enqueue :: "inc_message \<Rightarrow> nat option \<Rightarrow> proto \<Rightarrow> proto" where
  "enqueue msg op p =
     (let p1 = (case op of Some i \<Rightarrow> meter onOperationCreated (ops_put (msg_seqNum msg) i p) | None \<Rightarrow> p)
      in meter (onSendQueueDepth (length (p_sendQueue p) + 1) \<circ> onMessageSent (payload_size msg))
           (p1\<lparr>p_sendQueue := p_sendQueue p @ [msg]\<rparr>))"

lemma sendMessageImpl_accept:
  "length (p_sendQueue p) < INC_MAX_SEND_QUEUE \<Longrightarrow> sendMessageImpl D msg op p d = onReadyWrite D (enqueue msg op p) d"
  by (cases op) (simp_all add: sendMessageImpl_def enqueue_def Let_def meter_def ops_put_def)

lemma enqueue_simps:
  "p_sendQueue (enqueue msg op p) = p_sendQueue p @ [msg]"
  "p_partialSendOffset (enqueue msg op p) = p_partialSendOffset p"
  "p_heap (enqueue msg op p) = p_heap p" "p_refs (enqueue msg op p) = p_refs p"
  "p_nextOp (enqueue msg op p) = p_nextOp p" "p_memPool (enqueue msg op p) = p_memPool p"
  "p_exported (enqueue msg op p) = p_exported p" "p_seqCounter (enqueue msg op p) = p_seqCounter p"
  "p_operations (enqueue msg op p) =
     (case op of Some i \<Rightarrow> (msg_seqNum msg, i) # filter (\<lambda>(k, _). k \<noteq> msg_seqNum msg) (p_operations p)
      | None \<Rightarrow> p_operations p)"
  by (simp_all add: enqueue_def Let_def meter_def ops_put_def split: option.splits)

section \<open>The contract of a stream device\<close>

locale stream_sender =
  fixes D :: "'d device" and wire :: "'d \<Rightarrow> bytes" and big :: bool
  assumes write_ok: "\<And>m off d w d'. off < total_size m \<Longrightarrow> dv_writeMessage D m off d = (w, d') \<Longrightarrow> 0 \<le> w \<Longrightarrow>
      nat w \<le> total_size m - off \<and> wire d' = wire d @ take (nat w) (drop off (encode_message big m))"
    and write_error: "\<And>m off d w d'. dv_writeMessage D m off d = (w, d') \<Longrightarrow> w < 0 \<Longrightarrow> wire d' = wire d"
begin

definition offset_ok :: "inc_message list \<Rightarrow> nat \<Rightarrow> bool" where
  "offset_ok q off \<longleftrightarrow> (case q of [] \<Rightarrow> off = 0 | m # _ \<Rightarrow> off < total_size m)"

text \<open>The bytes still to be sent.\<close>

definition pending :: "inc_message list \<Rightarrow> nat \<Rightarrow> bytes" where
  "pending q off = drop off (encode_all big q)"

lemma offset_ok_zero [simp]: "offset_ok q 0"
  by (simp add: offset_ok_def total_pos split: list.split)

lemma send_loop_wire:
  "offset_ok q off \<Longrightarrow> send_loop D q off d = (q', off', w, evs, d') \<Longrightarrow>
   offset_ok q' off' \<and> (\<exists>sent. q = sent @ q') \<and>
   (evs = [] \<longrightarrow> wire d' @ pending q' off' = wire d @ pending q off) \<and>
   (evs \<noteq> [] \<longrightarrow> evs = [ErrorOccurred INC_ERROR_WRITE_FAILED])"
proof (induction q arbitrary: off d)
  case (Cons m q)
  obtain n d1 where wr: "dv_writeMessage D m off d = (n, d1)" by fastforce
  have off: "off < total_size m" using Cons.prems(1) by (simp add: offset_ok_def)
  consider "n < 0" | "0 \<le> n" "off + nat n < total_size m" | "0 \<le> n" "\<not> off + nat n < total_size m" by linarith
  then show ?case
  proof cases
    case 1
    then show ?thesis using Cons.prems(2) wr by (auto intro: exI [of _ "[m]"])
  next
    case 2
    then have "wire d1 @ drop (off + nat n) (encode_message big m) = wire d @ drop off (encode_message big m)"
    proof -
      have "drop (off + nat n) (encode_message big m) = drop (nat n) (drop off (encode_message big m))"
        by (simp add: add.commute)
      then show ?thesis using write_ok [OF off wr] 2(1) by (simp only: append.assoc append_take_drop_id)
    qed
    then show ?thesis using 2 Cons.prems(2) wr by (auto simp: offset_ok_def pending_def Let_def)
  next
    case 3
    then have n: "nat n = total_size m - off" using conjunct1 [OF write_ok [OF off wr 3(1)]] 3(2) by linarith
    then have "wire d1 = wire d @ drop off (encode_message big m)" using write_ok [OF off wr] 3(1) by simp
    moreover have "send_loop D q 0 d1 = (q', off', w, evs, d')" using 3 Cons.prems(2) wr by (simp add: Let_def)
    ultimately show ?thesis using Cons.IH [of 0 d1] off
      by (auto simp: pending_def intro: exI [of _ "m # _"])
  qed
qed (auto simp: offset_ok_def)

text \<open>A sender's history: the messages accepted so far and whether a write has failed.\<close>

inductive sender_reach :: "inc_message list \<Rightarrow> bool \<Rightarrow> proto \<Rightarrow> 'd \<Rightarrow> bool" where
  sr_start: "p_sendQueue p = [] \<Longrightarrow> p_partialSendOffset p = 0 \<Longrightarrow> wire d = [] \<Longrightarrow> sender_reach [] False p d"
| sr_send: "sender_reach acc failed p d \<Longrightarrow> isValid msg \<Longrightarrow> sendMessageImpl D msg op p d = (evs, p', d') \<Longrightarrow>
    sender_reach (if length (p_sendQueue p) < INC_MAX_SEND_QUEUE then acc @ [msg] else acc)
      (failed \<or> ErrorOccurred INC_ERROR_WRITE_FAILED \<in> set evs) p' d'"
| sr_ready: "sender_reach acc failed p d \<Longrightarrow> onReadyWrite D p d = (evs, p', d') \<Longrightarrow>
    sender_reach acc (failed \<or> ErrorOccurred INC_ERROR_WRITE_FAILED \<in> set evs) p' d'"
| sr_other: "sender_reach acc failed p d \<Longrightarrow> p_sendQueue p' = p_sendQueue p \<Longrightarrow>
    p_partialSendOffset p' = p_partialSendOffset p \<Longrightarrow> sender_reach acc failed p' d"

lemma onReadyWrite_wire:
  assumes "offset_ok (p_sendQueue p) (p_partialSendOffset p)" and "onReadyWrite D p d = (evs, p', d')"
  shows "offset_ok (p_sendQueue p') (p_partialSendOffset p') \<and> (\<exists>sent. p_sendQueue p = sent @ p_sendQueue p') \<and>
    (ErrorOccurred INC_ERROR_WRITE_FAILED \<notin> set evs \<longrightarrow>
       wire d' @ pending (p_sendQueue p') (p_partialSendOffset p') = wire d @ pending (p_sendQueue p) (p_partialSendOffset p))"
proof (cases "dv_isWritable D d")
  case True
  obtain q off w es d1 where s: "send_loop D (p_sendQueue p) (p_partialSendOffset p) d = (q, off, w, es, d1)"
    by (metis prod_cases5)
  then have "p_sendQueue p' = q" "p_partialSendOffset p' = off" "evs = es" "d' = d1"
    using assms(2) True by (auto simp: onReadyWrite_def)
  moreover note send_loop_wire [OF assms(1) s]
  moreover have "es = [] \<or> ErrorOccurred INC_ERROR_WRITE_FAILED \<in> set es" using calculation(5) by auto
  ultimately show ?thesis by auto
next
  case False
  then have "p' = p" "d' = d" using assms(2) by (simp_all add: onReadyWrite_def)
  then show ?thesis using assms(1) by (auto intro: exI [of _ "[]"])
qed

lemma pending_snoc:
  "offset_ok q off \<Longrightarrow> pending (q @ [m]) off = pending q off @ encode_message big m"
proof (cases q)
  case (Cons a r)
  assume "offset_ok q off"
  then show ?thesis using Cons by (simp add: pending_def offset_ok_def)
qed (simp add: pending_def offset_ok_def)

lemma sender_invariant:
  "sender_reach acc failed p d \<Longrightarrow>
   list_all isValid acc \<and> offset_ok (p_sendQueue p) (p_partialSendOffset p) \<and>
   (\<exists>sent. acc = sent @ p_sendQueue p) \<and>
   (\<not> failed \<longrightarrow> wire d @ pending (p_sendQueue p) (p_partialSendOffset p) = encode_all big acc)"
proof (induction rule: sender_reach.induct)
  case (sr_start p d)
  then show ?case by (simp add: pending_def)
next
  case (sr_ready acc failed p d evs p' d')
  from onReadyWrite_wire [OF _ sr_ready(2)] sr_ready.IH show ?case by auto
next
  case (sr_other acc failed p d p')
  then show ?case by simp
next
  case (sr_send acc failed p d msg op evs p' d')
  show ?case
  proof (cases "length (p_sendQueue p) < INC_MAX_SEND_QUEUE")
    case False
    then have "p_sendQueue p' = p_sendQueue p" "p_partialSendOffset p' = p_partialSendOffset p" "d' = d"
      "evs = [ErrorOccurred INC_ERROR_QUEUE_FULL]"
      using sr_send(3) by (auto simp: sendMessageImpl_def Let_def meter_def deref_op_def with_op_def split: option.splits)
    then show ?thesis using sr_send.IH False by (simp add: INC_ERROR_QUEUE_FULL_def INC_ERROR_WRITE_FAILED_def)
  next
    case True
    let ?p1 = "enqueue msg op p"
    have p1: "p_sendQueue ?p1 = p_sendQueue p @ [msg]" "p_partialSendOffset ?p1 = p_partialSendOffset p"
      "onReadyWrite D ?p1 d = (evs, p', d')"
      using sr_send(3) by (simp_all add: enqueue_simps sendMessageImpl_accept [OF True])
    have ok: "offset_ok (p_sendQueue ?p1) (p_partialSendOffset ?p1)"
      using sr_send.IH p1 total_pos by (auto simp: offset_ok_def split: list.splits)
    note w = onReadyWrite_wire [OF ok p1(3)]
    have snoc: "pending (p_sendQueue ?p1) (p_partialSendOffset ?p1) =
        pending (p_sendQueue p) (p_partialSendOffset p) @ encode_message big msg"
      using sr_send.IH p1(1,2) by (simp add: pending_snoc)
    obtain sent where sent: "p_sendQueue p @ [msg] = sent @ p_sendQueue p'" using w p1(1) by auto
    obtain s0 where s0: "acc = s0 @ p_sendQueue p" using sr_send.IH by blast
    have ex: "\<exists>sent. acc @ [msg] = sent @ p_sendQueue p'" using s0 sent by (intro exI [of _ "s0 @ sent"]) simp
    have v: "list_all isValid (acc @ [msg])" using sr_send.IH sr_send(2) by simp
    have "wire d' @ pending (p_sendQueue p') (p_partialSendOffset p') = encode_all big (acc @ [msg])"
      if "\<not> failed" "ErrorOccurred INC_ERROR_WRITE_FAILED \<notin> set evs"
    proof -
      have "wire d' @ pending (p_sendQueue p') (p_partialSendOffset p') =
          (wire d @ pending (p_sendQueue p) (p_partialSendOffset p)) @ encode_message big msg"
        using w snoc that(2) by simp
      then show ?thesis using sr_send.IH that(1) by simp
    qed
    then show ?thesis unfolding if_P [OF True] using v ex w by blast
  qed
qed

text \<open>End to end: a receiver that reads what is on the wire emits a prefix of the accepted messages.\<close>

lemma sender_to_receiver:
  assumes "sender_reach acc False p d" and "rx_stream rs = Some (wire d)" and "m_recvBuffer dev = []"
  shows "\<exists>k l. tcp_run big rs dev = (map (RxMessage \<circ> received) (take k acc), dev\<lparr>m_recvBuffer := l\<rparr>) \<and>
    k \<le> length acc \<and> (p_sendQueue p = [] \<and> rs \<noteq> [] \<longrightarrow> k = length acc)"
proof -
  note inv = sender_invariant [OF assms(1)]
  let ?n = "length (wire d)"
  have w: "wire d @ pending (p_sendQueue p) (p_partialSendOffset p) = encode_all big acc" using inv by simp
  then have "wire d = take ?n (encode_all big acc)" by (metis append_eq_conv_conj)
  moreover have "?n \<le> length (encode_all big acc)" using arg_cong [OF w, of length] by simp
  moreover have "?n = length (encode_all big acc)" if "p_sendQueue p = []"
    using w that by (simp add: pending_def)
  ultimately show ?thesis
    using tcp_run_spec [of acc rs "wire d" dev ?n big] inv assms(2,3) by auto
qed

end

section \<open>The TCP and the Unix device as senders\<close>

text \<open>
  A link: the device, the kernel's future answers (any number of bytes up to what it is
  offered) and the bytes taken so far.
\<close>

record link =
  lk_device :: stream_device
  lk_script :: "send_result list"
  lk_wire :: bytes

definition kernel_answer :: "nat \<Rightarrow> link \<Rightarrow> send_result" where
  "kernel_answer offered k =
     (case lk_script k of [] \<Rightarrow> SendWouldBlock | Sent n # _ \<Rightarrow> Sent (min n offered) | r # _ \<Rightarrow> r)"

definition tcp_link_write :: "bool \<Rightarrow> inc_message \<Rightarrow> nat \<Rightarrow> link \<Rightarrow> int \<times> link" where
  "tcp_link_write big m off k =
     (let (n, bs, errs, dev) = tcp_writeMessage big m off (kernel_answer (total_size m - off) k) (lk_device k)
      in (n, k\<lparr>lk_device := dev, lk_script := tl (lk_script k), lk_wire := lk_wire k @ bs\<rparr>))"

definition unix_link_write :: "bool \<Rightarrow> inc_message \<Rightarrow> nat \<Rightarrow> link \<Rightarrow> int \<times> link" where
  "unix_link_write big m off k =
     (let (n, bs, fd, errs, dev) = unix_writeMessage big m off (kernel_answer (total_size m - off) k) (lk_device k)
      in (n, k\<lparr>lk_device := dev, lk_script := tl (lk_script k), lk_wire := lk_wire k @ bs\<rparr>))"

definition tcp_sender :: "bool \<Rightarrow> link device" where
  "tcp_sender big = \<lparr>dv_isWritable = (\<lambda>k. m_attached (lk_device k)), dv_writeMessage = tcp_link_write big\<rparr>"

definition unix_sender :: "bool \<Rightarrow> link device" where
  "unix_sender big = \<lparr>dv_isWritable = (\<lambda>k. m_attached (lk_device k)), dv_writeMessage = unix_link_write big\<rparr>"

lemma kernel_answer_bound: "kernel_answer offered k = Sent n \<Longrightarrow> n \<le> offered"
  by (auto simp: kernel_answer_def split: list.splits send_result.splits)

interpretation tcps: stream_sender "tcp_sender big" lk_wire big
proof
  fix m off d w d'
  assume "off < total_size m" "dv_writeMessage (tcp_sender big) m off d = (w, d')" "0 \<le> w"
  then show "nat w \<le> total_size m - off \<and> lk_wire d' = lk_wire d @ take (nat w) (drop off (encode_message big m))"
    using kernel_answer_bound [of "total_size m - off" d]
    by (cases "kernel_answer (total_size m - off) d")
      (auto simp: tcp_sender_def tcp_link_write_def tcp_writeMessage_def iov_bytes_drop)
next
  fix m off d w d'
  assume "dv_writeMessage (tcp_sender big) m off d = (w, d')" "w < 0"
  then show "lk_wire d' = lk_wire d"
    by (auto simp: tcp_sender_def tcp_link_write_def tcp_writeMessage_def split: send_result.splits if_splits)
qed

interpretation unixs: stream_sender "unix_sender big" lk_wire big
proof
  fix m off d w d'
  assume "off < total_size m" "dv_writeMessage (unix_sender big) m off d = (w, d')" "0 \<le> w"
  then show "nat w \<le> total_size m - off \<and> lk_wire d' = lk_wire d @ take (nat w) (drop off (encode_message big m))"
    using kernel_answer_bound [of "total_size m - off" d]
    by (cases "kernel_answer (total_size m - off) d")
      (auto simp: unix_sender_def unix_link_write_def unix_writeMessage_def iov_bytes_drop Let_def)
next
  fix m off d w d'
  assume "dv_writeMessage (unix_sender big) m off d = (w, d')" "w < 0"
  then show "lk_wire d' = lk_wire d"
    by (auto simp: unix_sender_def unix_link_write_def unix_writeMessage_def Let_def split: send_result.splits if_splits)
qed

section \<open>Runs of a sender\<close>

datatype sender_cmd = CmdSend inc_message | CmdReady

text \<open>
  A caller's run: messages given to sendMessage and write events of the device, with the
  messages the protocol accepted and whether a write failed.
\<close>

fun sender_run :: "'d device \<Rightarrow> sender_cmd list \<Rightarrow> proto \<Rightarrow> 'd \<Rightarrow> inc_message list \<times> bool \<times> proto \<times> 'd" where
  "sender_run D [] p d = ([], False, p, d)"
| "sender_run D (CmdSend m # cs) p d =
     (let (op, evs, p1, d1) = sendMessage D m p d;
          (acc, failed, p2, d2) = sender_run D cs p1 d1
      in ((if isValid m \<and> length (p_sendQueue p) < INC_MAX_SEND_QUEUE then m # acc else acc),
          ErrorOccurred INC_ERROR_WRITE_FAILED \<in> set evs \<or> failed, p2, d2))"
| "sender_run D (CmdReady # cs) p d =
     (let (evs, p1, d1) = onReadyWrite D p d;
          (acc, failed, p2, d2) = sender_run D cs p1 d1
      in (acc, ErrorOccurred INC_ERROR_WRITE_FAILED \<in> set evs \<or> failed, p2, d2))"

lemma sendMessage_cases:
  assumes "sendMessage D m p d = (op, evs, p', d')"
  obtains (invalid) "\<not> isValid m" "p_sendQueue p' = p_sendQueue p" "p_partialSendOffset p' = p_partialSendOffset p" "d' = d"
      "evs = [ErrorOccurred INC_ERROR_MESSAGE_TOO_LARGE]"
    | (sent) p1 where "isValid m" "p_sendQueue p1 = p_sendQueue p" "p_partialSendOffset p1 = p_partialSendOffset p"
      "sendMessageImpl D m op p1 d = (evs, p', d')"
proof (cases "isValid m")
  case True
  let ?q = "if is_tracked m then ref_op (p_nextOp p) (snd (alloc_op (msg_seqNum m) p)) else p"
  show thesis
    by (rule sent [of ?q])
      (use True assms in \<open>auto simp: sendMessage_def alloc_op_def ref_op_def split: if_splits\<close>)
next
  case False
  then show thesis using assms invalid
    by (auto simp: sendMessage_def alloc_op_def with_op_def split: if_splits)
qed

context stream_sender begin

lemma sender_run_reach:
  "sender_reach acc0 f0 p d \<Longrightarrow> sender_run D cs p d = (acc, failed, p', d') \<Longrightarrow>
   sender_reach (acc0 @ acc) (f0 \<or> failed) p' d'"
proof (induction cs arbitrary: acc0 f0 p d acc failed)
  case (Cons c cs)
  show ?case
  proof (cases c)
    case CmdReady
    obtain evs p1 d1 where r: "onReadyWrite D p d = (evs, p1, d1)" by (metis prod_cases3)
    obtain acc2 f2 where rec: "sender_run D cs p1 d1 = (acc2, f2, p', d')"
      using Cons.prems(2) CmdReady r by (auto split: prod.splits)
    then have "acc = acc2" "failed = (ErrorOccurred INC_ERROR_WRITE_FAILED \<in> set evs \<or> f2)"
      using Cons.prems(2) CmdReady r by auto
    then show ?thesis using Cons.IH [OF sr_ready [OF Cons.prems(1) r] rec] by (simp add: disj_assoc)
  next
    case (CmdSend m)
    obtain op evs p1 d1 where s: "sendMessage D m p d = (op, evs, p1, d1)" by (metis prod_cases4)
    obtain acc2 f2 where rec: "sender_run D cs p1 d1 = (acc2, f2, p', d')"
      using Cons.prems(2) CmdSend s by (auto split: prod.splits)
    then have eqs: "acc = (if isValid m \<and> length (p_sendQueue p) < INC_MAX_SEND_QUEUE then m # acc2 else acc2)"
      "failed = (ErrorOccurred INC_ERROR_WRITE_FAILED \<in> set evs \<or> f2)"
      using Cons.prems(2) CmdSend s by auto
    from s show ?thesis
    proof (cases rule: sendMessage_cases)
      case invalid
      then have "ErrorOccurred INC_ERROR_WRITE_FAILED \<notin> set evs"
        by (simp add: INC_ERROR_MESSAGE_TOO_LARGE_def INC_ERROR_WRITE_FAILED_def)
      moreover have "sender_reach acc0 f0 p1 d1" using sr_other [OF Cons.prems(1)] invalid by simp
      ultimately show ?thesis using Cons.IH [OF _ rec] eqs invalid(1) by auto
    next
      case (sent q)
      have "sender_reach acc0 f0 q d" using sr_other [OF Cons.prems(1)] sent by simp
      from sr_send [OF this sent(1) sent(4)] Cons.IH [OF _ rec] show ?thesis
        using eqs sent by (fastforce split: if_splits)
    qed
  qed
qed simp

end

end
