(* ===== verification/Inc_Ownership.thy ===== *)
theory Inc_Ownership imports Inc_Protocol_Laws begin

text \<open>
  Who owns the operations of iINCProtocol: callers hold references through
  iSharedDataPointer, the table holds one for each entry. The invariant \<open>owned\<close> says that
  nothing in a caller's hands or in the table has been freed; every operation of the
  protocol keeps it, and so does every sequence of them (proto_reach).
\<close>

section \<open>Ownership of operations\<close>

definition table_refs :: "proto \<Rightarrow> nat \<Rightarrow> nat" where
  "table_refs p i = (if i \<in> snd ` set (p_operations p) then 1 else 0)"

text \<open>
  \<open>held i\<close> references to operation i are in the hands of callers; the table holds one for
  each operation in it. An operation is alive as long as it has a reference.
\<close>

definition owned :: "(nat \<Rightarrow> nat) \<Rightarrow> proto \<Rightarrow> bool" where
  "owned held p \<longleftrightarrow>
     distinct (map fst (p_operations p)) \<and> distinct (map snd (p_operations p)) \<and>
     (\<forall>i. held i + table_refs p i \<le> p_refs p i) \<and>
     (\<forall>i. p_heap p i = None \<longleftrightarrow> p_refs p i = 0) \<and>
     (\<forall>i\<ge>p_nextOp p. p_refs p i = 0) \<and>
     (\<forall>(s, i)\<in>set (p_operations p). map_option op_seqNum (p_heap p i) = Some s)"

lemma owned_frame:
  "p_operations p' = p_operations p \<Longrightarrow> p_heap p' = p_heap p \<Longrightarrow> p_refs p' = p_refs p \<Longrightarrow> p_nextOp p' = p_nextOp p \<Longrightarrow>
   owned held p' = owned held p"
  by (simp add: owned_def table_refs_def)

lemma owned_fields [simp]:
  "owned h (meter f p) = owned h p" "owned h (processRelease b p) = owned h p"
  "owned h (p\<lparr>p_partialSendOffset := off\<rparr>) = owned h p"
  "owned h (p\<lparr>p_exported := e\<rparr>) = owned h p" "owned h (p\<lparr>p_writeEvents := w\<rparr>) = owned h p"
  "owned h (p\<lparr>p_sendQueue := q\<rparr>) = owned h p" "owned h (p\<lparr>p_seqCounter := c\<rparr>) = owned h p"
  "owned h (p\<lparr>p_memPool := b1\<rparr>) = owned h p" "owned h (cache_fd fd p) = owned h p"
  by (rule owned_frame; simp add: meter_def processRelease_def cache_fd_def)+

lemma owned_alive:
  assumes "owned h p" and "(s, i) \<in> set (p_operations p)"
  shows "\<exists>op. p_heap p i = Some op \<and> op_seqNum op = s" and "0 < p_refs p i"
  using assms by (force simp: owned_def)+

lemma owned_le: "owned h p \<Longrightarrow> h i + table_refs p i \<le> p_refs p i"
  by (simp add: owned_def)

lemma owned_held: "owned h p \<Longrightarrow> 0 < h i \<Longrightarrow> \<exists>op. p_heap p i = Some op"
  unfolding owned_def by (metis add_leD1 leD option.exhaust)

lemma owned_alloc:
  assumes "owned h p" and "alloc_op s p = (i, p')"
  shows "owned (h(i := h i + 1)) p' \<and> map_option op_seqNum (p_heap p' i) = Some s \<and> i \<notin> snd ` set (p_operations p') \<and> h i = 0"
proof -
  have i: "i = p_nextOp p" and p': "p' = p\<lparr>p_heap := (p_heap p)(i := Some (new_operation s)),
        p_refs := (p_refs p)(i := 1), p_nextOp := p_nextOp p + 1\<rparr>" using assms(2) by (auto simp: alloc_op_def)
  have "p_refs p i = 0" using assms(1) i by (simp add: owned_def)
  then have n: "h i = 0" "table_refs p i = 0" using owned_le [OF assms(1), of i] by auto
  then have ni: "i \<notin> snd ` set (p_operations p)" by (auto simp: table_refs_def split: if_splits)
  have t: "table_refs p' = table_refs p" by (simp add: fun_eq_iff table_refs_def p')
  have "(h(i := h i + 1)) j + table_refs p' j \<le> p_refs p' j" for j
    using owned_le [OF assms(1), of j] n unfolding t by (simp add: p')
  moreover have "map_option op_seqNum (p_heap p' j) = Some k" if "(k, j) \<in> set (p_operations p)" for k j
  proof -
    have "j \<noteq> i" using ni that by force
    then show ?thesis using assms(1) that by (auto simp: owned_def p')
  qed
  moreover have "\<forall>j. p_heap p' j = None \<longleftrightarrow> p_refs p' j = 0" "\<forall>j\<ge>p_nextOp p'. p_refs p' j = 0" "p_operations p' = p_operations p"
    using assms(1) by (simp_all add: owned_def p' i)
  ultimately have "owned (h(i := h i + 1)) p'"
    using assms(1) unfolding owned_def by (elim conjE, intro conjI) auto
  then show ?thesis using n ni by (simp add: p' new_operation_def)
qed

lemma owned_ref: "owned h p \<Longrightarrow> p_heap p i \<noteq> None \<Longrightarrow> owned (h(i := h i + 1)) (ref_op i p)"
  by (auto simp: owned_def ref_op_def table_refs_def)

lemma owned_with_op:
  assumes "owned h p" and "\<And>op. op_seqNum (f op) = op_seqNum op"
  shows "owned h (with_op i f p)"
  using assms by (auto simp: owned_def with_op_def table_refs_def option.map_comp comp_def)

lemma owned_deref:
  assumes "owned h p" and "0 < h i"
  shows "owned (h(i := h i - 1)) (deref_op i p)"
proof -
  have le: "h j + table_refs p j \<le> p_refs p j" for j using assms(1) by (simp add: owned_def)
  have "j \<noteq> i" if "(k, j) \<in> set (p_operations p)" "p_refs p i - 1 = 0" for k j
    using le [of i] assms(2) that by (auto simp: table_refs_def image_iff split: if_splits)
  then show ?thesis
    using assms le [of i] by (auto simp: owned_def deref_op_def table_refs_def Let_def image_iff split: if_splits)
qed

lemma owned_put:
  assumes "owned h p" and "0 < h i" and "i \<notin> snd ` set (p_operations p)" and "map_option op_seqNum (p_heap p i) = Some s"
  shows "owned (h(i := h i - 1)) (ops_put s i p)"
proof -
  have "table_refs (ops_put s i p) j \<le> (if j = i then 1 else table_refs p j)" for j
    by (auto simp: table_refs_def ops_put_def)
  note tr = this
  have "(h(i := h i - 1)) j + table_refs (ops_put s i p) j \<le> p_refs p j" for j
  proof (cases "j = i")
    case True
    then show ?thesis using owned_le [OF assms(1), of i] assms(2) tr [of i] by simp
  next
    case False
    then show ?thesis using owned_le [OF assms(1), of j] tr [of j] by simp
  qed
  moreover have "distinct (map fst (filter (\<lambda>(k, _). k \<noteq> s) (p_operations p)))" "distinct (map snd (filter (\<lambda>(k, _). k \<noteq> s) (p_operations p)))"
    using assms(1) by (auto simp: owned_def distinct_map_filter)
  ultimately show ?thesis using assms by (auto simp: owned_def ops_put_def)
qed

lemma ops_find_in: "ops_find s p = Some i \<Longrightarrow> (s, i) \<in> set (p_operations p)"
  by (simp add: ops_find_def map_of_SomeD)

lemma owned_erase:
  assumes "owned h p" and "ops_find s p = Some i"
  shows "owned (h(i := h i + 1)) (ops_erase s p)"
proof -
  have inj: "distinct (map snd (p_operations p))" using assms(1) by (simp add: owned_def)
  have "i \<notin> snd ` set (filter (\<lambda>(k, _). k \<noteq> s) (p_operations p))"
    using inj ops_find_in [OF assms(2)] by (force simp: distinct_map inj_on_def)
  then have i: "table_refs (ops_erase s p) i = 0" by (simp add: table_refs_def ops_erase_def)
  have t: "table_refs p i = 1" using ops_find_in [OF assms(2)] by (force simp: table_refs_def)
  have o: "table_refs (ops_erase s p) j \<le> table_refs p j" for j by (auto simp: table_refs_def ops_erase_def)
  have "(h(i := h i + 1)) j + table_refs (ops_erase s p) j \<le> p_refs p j" for j
    using assms(1) i t o [of j] by (cases "j = i") (auto simp: owned_def dest!: spec [of _ j])
  then show ?thesis using assms(1) by (auto simp: owned_def ops_erase_def distinct_map_filter)
qed

text \<open>Each operation of the protocol.\<close>

lemma setters_seqNum [simp]:
  "op_seqNum (setResult c bs op) = op_seqNum op" "op_seqNum (cancel op) = op_seqNum op"
  by (simp_all add: op_simps)

lemma onReadyWrite_frame:
  assumes "onReadyWrite D p d = (evs, p', d')"
  shows "\<exists>q off w. p' = p\<lparr>p_sendQueue := q, p_partialSendOffset := off, p_writeEvents := w\<rparr>"
proof (cases "dv_isWritable D d")
  case True
  then show ?thesis using assms by (auto simp: onReadyWrite_def Let_def split: prod.splits)
next
  case False
  have "p = p\<lparr>p_sendQueue := p_sendQueue p, p_partialSendOffset := p_partialSendOffset p, p_writeEvents := p_writeEvents p\<rparr>"
    by simp
  moreover have "p' = p" using False assms by (simp add: onReadyWrite_def)
  ultimately show ?thesis by blast
qed

lemma owned_onReadyWrite:
  assumes "owned h p" and "onReadyWrite D p d = (evs, p', d')"
  shows "owned h p'"
  using onReadyWrite_frame [OF assms(2)] assms(1) by auto

lemma owned_sendMessageImpl:
  assumes "owned (case op of Some i \<Rightarrow> h(i := h i + 1) | None \<Rightarrow> h) p"
    and "\<And>i. op = Some i \<Longrightarrow> i \<notin> snd ` set (p_operations p) \<and> map_option op_seqNum (p_heap p i) = Some (msg_seqNum msg)"
    and "sendMessageImpl D msg op p d = (evs, p', d')"
  shows "owned h p'"
proof (cases "length (p_sendQueue p) < INC_MAX_SEND_QUEUE")
  case True
  have "owned h (enqueue msg op p)"
  proof (cases op)
    case (Some i)
    then have "owned h (ops_put (msg_seqNum msg) i p)"
      using owned_put [of "h(i := h i + 1)" p i "msg_seqNum msg"] assms(1,2) by simp
    then show ?thesis using Some by (simp add: enqueue_def Let_def)
  qed (use assms(1) in \<open>simp add: enqueue_def Let_def\<close>)
  then show ?thesis using assms(3) owned_onReadyWrite by (auto simp: sendMessageImpl_accept [OF True])
next
  case False
  show ?thesis
  proof (cases op)
    case (Some i)
    have "owned (h(i := h i + 1)) (with_op i (setResult (int INC_ERROR_QUEUE_FULL) []) (meter onSendQueueDrop p))"
      using assms(1) Some by (intro owned_with_op) simp_all
    from owned_deref [OF this, of i] show ?thesis using assms(3) False Some by (auto simp: sendMessageImpl_def Let_def)
  qed (use assms(1,3) False in \<open>auto simp: sendMessageImpl_def Let_def\<close>)
qed

lemma owned_sendMessage:
  assumes "owned h p" and "sendMessage D msg p d = (op, evs, p', d')"
  shows "owned (case op of Some i \<Rightarrow> h(i := h i + 1) | None \<Rightarrow> h) p'"
proof (cases "is_tracked msg")
  case True
  obtain i p1 where a: "alloc_op (msg_seqNum msg) p = (i, p1)" by fastforce
  note al = owned_alloc [OF assms(1) a]
  show ?thesis
  proof (cases "isValid msg")
    case False
    then have "p' = with_op i (setResult (int INC_ERROR_MESSAGE_TOO_LARGE) []) p1" "op = Some i"
      using assms(2) True a by (auto simp: sendMessage_def)
    then show ?thesis using al by (auto intro: owned_with_op)
  next
    case valid: True
    then have impl: "sendMessageImpl D msg (Some i) (ref_op i p1) d = (evs, p', d')" "op = Some i"
      using assms(2) True a by (auto simp: sendMessage_def)
    have "p_heap p1 i \<noteq> None" using al by (cases "p_heap p1 i") auto
    with al have "owned ((h(i := h i + 1))(i := (h(i := h i + 1)) i + 1)) (ref_op i p1)" by (intro owned_ref) auto
    then have "owned (h(i := h i + 1)) p'"
      using al by (intro owned_sendMessageImpl [OF _ _ impl(1)]) (auto simp: ref_op_def)
    then show ?thesis using impl(2) by simp
  qed
next
  case False
  then show ?thesis using assms
    by (auto simp: sendMessage_def intro: owned_sendMessageImpl [where op = None] split: if_splits)
qed

section \<open>Finishing operations\<close>

lemma p_operations_frames [simp]:
  "p_operations (with_op i f p) = p_operations p" "p_operations (deref_op i p) = p_operations p"
  "p_operations (processRelease b p) = p_operations p" "p_operations (meter g p) = p_operations p"
  "p_operations (release_slot i p) = p_operations p"
  by (simp_all add: with_op_def deref_op_def processRelease_def meter_def release_slot_def Let_def)

lemma owned_release_slot: "owned h p \<Longrightarrow> owned h (release_slot i p)"
  by (simp add: release_slot_def owned_with_op)

lemma owned_finish:
  assumes "owned h p" and "ops_find s p = Some i"
    and "\<And>q. owned (h(i := h i + 1)) q \<Longrightarrow> owned (h(i := h i + 1)) (f q)"
  shows "owned h (deref_op i (f (ops_erase s p)))"
  using owned_deref [OF assms(3) [OF owned_erase [OF assms(1,2)]], of i] by simp

lemma owned_releaseOperation: "owned h p \<Longrightarrow> owned h (releaseOperation op p)"
  using owned_finish [where f = "release_slot (the op)" and h = h]
  by (auto simp: releaseOperation_def owned_release_slot split: option.splits)

lemma head_entry:
  assumes "owned h p" and "p_operations p = (s, i) # rest"
  shows "p\<lparr>p_operations := rest\<rparr> = ops_erase s p" and "ops_find s p = Some i"
proof -
  have "s \<notin> fst ` set rest" using assms by (simp add: owned_def)
  then have "filter (\<lambda>(k, _). k \<noteq> s) rest = rest" by (force simp: filter_id_conv)
  then show "p\<lparr>p_operations := rest\<rparr> = ops_erase s p" using assms(2) by (simp add: ops_erase_def)
  show "ops_find s p = Some i" using assms(2) by (simp add: ops_find_def)
qed

lemma owned_cancel_loop:
  "owned h p \<Longrightarrow> p_operations p = ops \<Longrightarrow> owned h (cancel_loop code ops p) \<and> p_operations (cancel_loop code ops p) = []"
proof (induction ops arbitrary: p)
  case (Cons e rest)
  obtain s i where e: "e = (s, i)" by fastforce
  let ?p = "deref_op i (with_op i (setResult code []) (release_slot i (p\<lparr>p_operations := rest\<rparr>)))"
  have "owned h ?p"
    unfolding head_entry(1) [OF Cons.prems(1) Cons.prems(2) [unfolded e]]
    by (rule owned_finish [OF Cons.prems(1) head_entry(2) [OF Cons.prems(1) Cons.prems(2) [unfolded e]]])
      (simp add: owned_with_op owned_release_slot)
  then show ?case using Cons.IH [of ?p] e by simp
qed simp

lemma owned_destroy_loop:
  "owned h p \<Longrightarrow> p_operations p = ops \<Longrightarrow> owned h (destroy_loop ops p) \<and> p_operations (destroy_loop ops p) = []"
proof (induction ops arbitrary: p)
  case (Cons e rest)
  obtain s i where e: "e = (s, i)" by fastforce
  let ?p = "deref_op i (with_op i cancel (p\<lparr>p_operations := rest\<rparr>))"
  have "owned h ?p"
    unfolding head_entry(1) [OF Cons.prems(1) Cons.prems(2) [unfolded e]]
    by (rule owned_finish [OF Cons.prems(1) head_entry(2) [OF Cons.prems(1) Cons.prems(2) [unfolded e]]])
      (simp add: owned_with_op)
  then show ?case using Cons.IH [of ?p] e by simp
qed simp

lemma owned_complete_op: "owned h p \<Longrightarrow> owned h (complete_op msg p)"
proof (cases "msg_type msg AND 1 \<noteq> 0 \<and> msg_seqNum msg > 0")
  case True
  assume p: "owned h p"
  show ?thesis
  proof (cases "ops_find (msg_seqNum msg) p")
    case (Some i)
    let ?f = "\<lambda>p1. meter onOperationCompleted (with_op i (setResult 0 (m_data (msg_payload msg)))
        (if p_memPool p1 \<and> msg_type msg = INC_MSG_BINARY_DATA_ACK \<and> block_of i p1 \<noteq> 0
         then processRelease (block_of i p1) p1 else p1))"
    have "owned h (deref_op i (?f (ops_erase (msg_seqNum msg) p)))"
      by (rule owned_finish [OF p Some]) (simp add: owned_with_op)
    then show ?thesis using True Some by (simp add: complete_op_def Let_def)
  qed (use True p in \<open>simp add: complete_op_def\<close>)
qed (auto simp: complete_op_def)

lemma error_reply_untracked: "\<not> is_tracked (error_reply ch s)" "isValid (error_reply ch s)"
  by (simp_all add: is_tracked_def error_reply_def new_message_def INC_MSG_BINARY_DATA_ACK_def isValid_def
      INC_MSG_INVALID_def payload_size_def MAX_MESSAGE_SIZE_def HEADER_SIZE_def new_tag_struct_def
      putInt32_def append_data_def writeTag_def)

lemma owned_send_reply:
  "owned h p \<Longrightarrow> send_reply D (error_reply ch s) p d = (evs, p', d') \<Longrightarrow> owned h p'"
  using owned_sendMessage [of h p D "error_reply ch s" d None evs p' d']
  by (cases "sendMessage D (error_reply ch s) p d")
    (auto simp: send_reply_def sendMessage_def error_reply_untracked)

lemma owned_onMessageReceived:
  assumes "owned h p" and "onMessageReceived D imp msg p d = (evs, p', d')"
  shows "owned h p'"
proof -
  have "owned h (complete_op msg (meter (onMessageReceivedMetric (payload_size msg)) (cache_fd (msg_extFd msg) p)))"
    (is "owned h ?p1") using assms(1) by (intro owned_complete_op) simp
  then show ?thesis using assms(2)
    by (auto simp: onMessageReceived_def Let_def processBinaryDataMessage_def processDirectBinaryData_def
        processSHMBinaryData_def intro: owned_send_reply split: if_splits option.splits prod.splits)
qed

lemma owned_sendBinaryData:
  assumes "owned h p" and "sendBinaryData D ch bc pos data put p d = (op, evs, p', d')"
  shows "owned (case op of Some i \<Rightarrow> h(i := h i + 1) | None \<Rightarrow> h) p'"
proof (cases "if p_memPool p then put else None")
  case None
  then have "sendMessage D ((new_message INC_MSG_BINARY_DATA ch (p_seqCounter p))
        \<lparr>msg_flags := (if bc then INC_MSG_FLAG_NOACK else INC_MSG_FLAG_NONE),
          msg_payload := putBytes data (putInt64 pos new_tag_struct)\<rparr>)
      (meter (onBinaryFrameSent (length data) \<circ> onShmMiss) (p\<lparr>p_seqCounter := p_seqCounter p + 1\<rparr>)) d = (op, evs, p', d')"
    using assms(2) by (auto simp: sendBinaryData_def nextSequence_def Let_def split: if_splits)
  from owned_sendMessage [OF _ this] show ?thesis using assms(1) by simp
next
  case (Some s)
  obtain op1 evs1 p2 d2 where sm: "sendMessage D ((new_message INC_MSG_BINARY_DATA ch (p_seqCounter p))
        \<lparr>msg_payload := shm_payload pos s (length data), msg_flags := INC_MSG_FLAG_SHM_DATA\<rparr>)
      (meter (onBinaryFrameSent (length data) \<circ> onShmHit)
        (p\<lparr>p_seqCounter := p_seqCounter p + 1, p_exported := p_exported p @ [sp_blockId s]\<rparr>)) d = (op1, evs1, p2, d2)"
    by (metis prod_cases4)
  have "owned (case op1 of Some i \<Rightarrow> h(i := h i + 1) | None \<Rightarrow> h) p2"
    using owned_sendMessage [OF _ sm] assms(1) by simp
  moreover have "op = op1" "p' = (case op1 of Some i \<Rightarrow> with_op i (\<lambda>o1. o1\<lparr>op_blockID := sp_blockId s\<rparr>) p2 | None \<Rightarrow> p2)"
    using assms(2) Some sm by (auto simp: sendBinaryData_def nextSequence_def Let_def split: if_splits)
  ultimately show ?thesis by (auto intro: owned_with_op split: option.splits)
qed

section \<open>Reachable protocols\<close>

text \<open>
  What the environment does with a protocol: callers send, hold, use, give back and drop
  operations, the device becomes writable or delivers a message, the connection closes.
  The first component counts the references in callers' hands.
\<close>

inductive proto_step :: "'d device \<Rightarrow> importer \<Rightarrow> (nat \<Rightarrow> nat) \<times> proto \<times> 'd \<Rightarrow> (nat \<Rightarrow> nat) \<times> proto \<times> 'd \<Rightarrow> bool"
  for D imp where
  ps_send: "sendMessage D msg p d = (op, evs, p', d') \<Longrightarrow>
    proto_step D imp (h, p, d) (case op of Some i \<Rightarrow> h(i := h i + 1) | None \<Rightarrow> h, p', d')"
| ps_data: "sendBinaryData D ch bc pos data put p d = (op, evs, p', d') \<Longrightarrow>
    proto_step D imp (h, p, d) (case op of Some i \<Rightarrow> h(i := h i + 1) | None \<Rightarrow> h, p', d')"
| ps_use: "0 < h i \<Longrightarrow> (\<And>op. op_seqNum (f op) = op_seqNum op) \<Longrightarrow> proto_step D imp (h, p, d) (h, with_op i f p, d)"
| ps_release: "0 < h i \<Longrightarrow> proto_step D imp (h, p, d) (h, releaseOperation (Some i) p, d)"
| ps_drop: "0 < h i \<Longrightarrow> proto_step D imp (h, p, d) (h(i := h i - 1), deref_op i p, d)"
| ps_ready: "onReadyWrite D p d = (evs, p', d') \<Longrightarrow> proto_step D imp (h, p, d) (h, p', d')"
| ps_connected: "onDeviceConnected D p d = (evs, p', d') \<Longrightarrow> proto_step D imp (h, p, d) (h, p', d')"
| ps_receive: "onMessageReceived D imp msg p d = (evs, p', d') \<Longrightarrow> proto_step D imp (h, p, d) (h, p', d')"
| ps_device: "proto_step D imp (h, p, d) (h, p, d')"
| ps_cancel: "proto_step D imp (h, p, d) (h, cancelAllOperations code p, d)"
| ps_pool: "proto_step D imp (h, p, d) (h, enableMempool p, d)"

definition queue_bounded :: "proto \<Rightarrow> bool" where
  "queue_bounded p \<longleftrightarrow> length (p_sendQueue p) \<le> INC_MAX_SEND_QUEUE"

lemma owned_new: "owned (\<lambda>_. 0) (new_proto b)"
  by (simp add: owned_def new_proto_def table_refs_def)

lemma owned_step:
  "proto_step D imp s s' \<Longrightarrow> owned (fst s) (fst (snd s)) \<Longrightarrow> owned (fst s') (fst (snd s'))"
proof (induction rule: proto_step.induct)
  case ps_send then show ?case using owned_sendMessage by fastforce
next
  case ps_data then show ?case using owned_sendBinaryData by fastforce
next
  case ps_use then show ?case by (simp add: owned_with_op)
next
  case ps_release then show ?case by (simp add: owned_releaseOperation)
next
  case (ps_drop h i p d) then show ?case using owned_deref [of h p i] by (simp add: fun_upd_def)
next
  case ps_ready then show ?case using owned_onReadyWrite by fastforce
next
  case (ps_connected p d evs p' d' h)
  then show ?case using owned_onReadyWrite [of h "p\<lparr>p_writeEvents := True\<rparr>"] by (simp add: onDeviceConnected_def)
next
  case ps_receive then show ?case using owned_onMessageReceived by fastforce
next
  case ps_cancel then show ?case by (simp add: cancelAllOperations_def owned_cancel_loop)
qed (simp_all add: enableMempool_def)

lemma owned_reach:
  "(proto_step D imp)\<^sup>*\<^sup>* (\<lambda>_. 0, new_proto b, d) (h, p, d') \<Longrightarrow> owned h p"
proof -
  have "(proto_step D imp)\<^sup>*\<^sup>* s s' \<Longrightarrow> owned (fst s) (fst (snd s)) \<Longrightarrow> owned (fst s') (fst (snd s'))" for s s'
    by (induction rule: rtranclp_induct) (auto intro: owned_step)
  from this [of "(\<lambda>_. 0, new_proto b, d)" "(h, p, d')"] show
    "(proto_step D imp)\<^sup>*\<^sup>* (\<lambda>_. 0, new_proto b, d) (h, p, d') \<Longrightarrow> owned h p" by (simp add: owned_new)
qed

text \<open>The queue never grows past its limit.\<close>

lemma send_loop_shorter: "send_loop D q off d = (q', rest) \<Longrightarrow> length q' \<le> length q"
proof (induction q arbitrary: off d)
  case (Cons m q)
  then show ?case by (auto simp: Let_def split: prod.splits if_splits) fastforce+
qed simp

lemma queue_onReadyWrite:
  "onReadyWrite D p d = (evs, p', d') \<Longrightarrow> length (p_sendQueue p') \<le> length (p_sendQueue p)"
  by (auto simp: onReadyWrite_def split: if_splits prod.splits dest: send_loop_shorter)

lemma queue_frames [simp]:
  "p_sendQueue (with_op i f p) = p_sendQueue p" "p_sendQueue (deref_op i p) = p_sendQueue p"
  "p_sendQueue (processRelease b p) = p_sendQueue p" "p_sendQueue (meter g p) = p_sendQueue p"
  "p_sendQueue (release_slot i p) = p_sendQueue p" "p_sendQueue (ops_put s i p) = p_sendQueue p"
  "p_sendQueue (ops_erase s p) = p_sendQueue p" "p_sendQueue (ref_op i p) = p_sendQueue p"
  "p_sendQueue (cache_fd fd p) = p_sendQueue p" "p_sendQueue (enableMempool p) = p_sendQueue p"
  by (simp_all add: with_op_def deref_op_def processRelease_def meter_def release_slot_def Let_def
      ops_put_def ops_erase_def ref_op_def cache_fd_def enableMempool_def)

lemma queue_alloc: "alloc_op s p = (i, p') \<Longrightarrow> p_sendQueue p' = p_sendQueue p"
  by (auto simp: alloc_op_def)

lemma bounded_sendMessageImpl:
  "queue_bounded p \<Longrightarrow> sendMessageImpl D msg op p d = (evs, p', d') \<Longrightarrow> queue_bounded p'"
proof (cases "length (p_sendQueue p) < INC_MAX_SEND_QUEUE")
  case True
  assume "sendMessageImpl D msg op p d = (evs, p', d')"
  then show ?thesis using queue_onReadyWrite [of D "enqueue msg op p" d evs p' d'] True
    by (simp add: sendMessageImpl_accept queue_bounded_def enqueue_simps)
next
  case False
  assume "queue_bounded p" "sendMessageImpl D msg op p d = (evs, p', d')"
  then show ?thesis using False by (auto simp: sendMessageImpl_def Let_def queue_bounded_def split: option.splits)
qed

lemma bounded_sendMessage:
  assumes "queue_bounded p" and "sendMessage D msg p d = (op, evs, p', d')"
  shows "queue_bounded p'"
proof (cases "is_tracked msg")
  case True
  obtain i p1 where a: "alloc_op (msg_seqNum msg) p = (i, p1)" by fastforce
  have "queue_bounded p1" "queue_bounded (ref_op i p1)"
    using assms(1) queue_alloc [OF a] by (simp_all add: queue_bounded_def)
  then show ?thesis using assms(2) True a bounded_sendMessageImpl
    by (auto simp: sendMessage_def split: if_splits) (simp add: queue_bounded_def)
next
  case False
  then show ?thesis using assms bounded_sendMessageImpl by (auto simp: sendMessage_def split: if_splits)
qed

lemma bounded_same: "p_sendQueue p' = p_sendQueue p \<Longrightarrow> queue_bounded p' = queue_bounded p"
  by (simp add: queue_bounded_def)

lemma bounded_loops [simp]:
  "p_sendQueue (cancel_loop code ops p) = p_sendQueue p" "p_sendQueue (releaseOperation op p) = p_sendQueue p"
  "p_sendQueue (complete_op msg p) = p_sendQueue p"
proof -
  show "p_sendQueue (cancel_loop code ops p) = p_sendQueue p"
    by (induction code ops p rule: cancel_loop.induct) simp_all
qed (simp_all add: releaseOperation_def complete_op_def Let_def split: option.splits)

lemma bounded_send_reply: "queue_bounded p \<Longrightarrow> send_reply D m p d = (evs, p', d') \<Longrightarrow> queue_bounded p'"
  using bounded_sendMessage [of p D m d "fst (sendMessage D m p d)" evs p' d']
  by (simp add: send_reply_def) (metis prod.collapse)

lemma bounded_onMessageReceived:
  assumes "queue_bounded p" and "onMessageReceived D imp msg p d = (evs, p', d')"
  shows "queue_bounded p'"
proof -
  have b: "queue_bounded (complete_op msg (meter f (cache_fd (msg_extFd msg) p)))" for f
    using assms(1) by (simp add: queue_bounded_def)
  have m: "queue_bounded (meter g q) = queue_bounded q" for g q by (simp add: queue_bounded_def)
  show ?thesis using assms(2) b
    by (auto simp: onMessageReceived_def Let_def processBinaryDataMessage_def processDirectBinaryData_def
        processSHMBinaryData_def m intro: bounded_send_reply split: if_splits option.splits prod.splits)
qed

lemma bounded_sendBinaryData:
  assumes "queue_bounded p" and "sendBinaryData D ch bc pos data put p d = (op, evs, p', d')"
  shows "queue_bounded p'"
proof -
  have step: "queue_bounded q \<Longrightarrow> sendMessage D msg q d = (o1, e1, p2, d2) \<Longrightarrow> queue_bounded (with_op i f p2) \<and> queue_bounded p2"
    for q msg o1 e1 p2 d2 i f using bounded_sendMessage [of q D msg d o1 e1 p2 d2] by (simp add: queue_bounded_def)
  show ?thesis using assms
    by (auto simp: sendBinaryData_def nextSequence_def Let_def queue_bounded_def [of "meter _ _"] queue_bounded_def [of p]
        dest!: step [rotated] split: if_splits option.splits prod.splits)
qed

lemma bounded_step:
  "proto_step D imp s s' \<Longrightarrow> queue_bounded (fst (snd s)) \<Longrightarrow> queue_bounded (fst (snd s'))"
proof (induction rule: proto_step.induct)
  case ps_send then show ?case using bounded_sendMessage by fastforce
next
  case ps_data then show ?case using bounded_sendBinaryData by fastforce
next
  case ps_ready then show ?case using queue_onReadyWrite by (fastforce simp: queue_bounded_def)
next
  case (ps_connected p d evs p' d' h)
  then show ?case using queue_onReadyWrite [of D "p\<lparr>p_writeEvents := True\<rparr>" d] by (auto simp: queue_bounded_def onDeviceConnected_def)
next
  case ps_receive then show ?case using bounded_onMessageReceived by fastforce
qed (simp_all add: queue_bounded_def cancelAllOperations_def)

lemma bounded_reach:
  assumes "(proto_step D imp)\<^sup>*\<^sup>* (h0, new_proto b, d) (h, p, d')"
  shows "queue_bounded p"
proof -
  have "(proto_step D imp)\<^sup>*\<^sup>* s s' \<Longrightarrow> queue_bounded (fst (snd s)) \<Longrightarrow> queue_bounded (fst (snd s'))" for s s'
    by (induction rule: rtranclp_induct) (auto intro: bounded_step)
  from this [OF assms] show ?thesis by (simp add: queue_bounded_def new_proto_def)
qed

end
