(* ===== verification/Inc_Handshake.thy ===== *)
theory Inc_Handshake imports Tag_Struct begin

text \<open>
  iINCHandshake (src/core/inc/iinchandshake.cpp, iinchandshake.h) with the parts of
  iINCContextConfig and iINCServerConfig it reads: the exchange of versions and
  capabilities that opens a connection. The generated node id is a parameter.
\<close>

section \<open>Configuration\<close>

datatype encryption_method = NoEncryption | TLS_1_2 | TLS_1_3
datatype version_policy = Strict | Compatible | Permissive
datatype encryption_requirement = Optional | Preferred | Required

record context_config =
  cc_protocolVersionCurrent :: xuint16
  cc_protocolVersionMin :: xuint16
  cc_protocolVersionMax :: xuint16
  cc_disableSharedMemory :: bool
  cc_encryptionMethod :: encryption_method

definition new_context_config :: context_config where
  "new_context_config = \<lparr>cc_protocolVersionCurrent = 1, cc_protocolVersionMin = 1, cc_protocolVersionMax = 1,
     cc_disableSharedMemory = False, cc_encryptionMethod = NoEncryption\<rparr>"

record server_config =
  sc_versionPolicy :: version_policy
  sc_protocolVersionCurrent :: xuint16
  sc_protocolVersionMin :: xuint16
  sc_protocolVersionMax :: xuint16
  sc_disableSharedMemory :: bool
  sc_encryptionRequirement :: encryption_requirement

definition new_server_config :: server_config where
  "new_server_config = \<lparr>sc_versionPolicy = Compatible, sc_protocolVersionCurrent = 1, sc_protocolVersionMin = 1,
     sc_protocolVersionMax = 1, sc_disableSharedMemory = False, sc_encryptionRequirement = Optional\<rparr>"

section \<open>Handshake data\<close>

record handshake_data =
  hs_protocolVersion :: xuint32
  hs_nodeName :: ustring
  hs_nodeId :: ustring
  hs_capabilities :: xuint32
  hs_authToken :: bytes
  hs_targetServer :: ustring
  hs_hopCount :: xuint8

definition CAP_ENCRYPTION :: xuint32 where "CAP_ENCRYPTION = 2"
definition CAP_STREAM :: xuint32 where "CAP_STREAM = 4"
definition CAP_MULTIPLEXING :: xuint32 where "CAP_MULTIPLEXING = 0x10"
definition CAP_FILE_TRANSFER :: xuint32 where "CAP_FILE_TRANSFER = 0x20"

definition new_handshake_data :: handshake_data where
  "new_handshake_data = \<lparr>hs_protocolVersion = 0, hs_nodeName = [], hs_nodeId = [], hs_capabilities = CAP_STREAM,
     hs_authToken = [], hs_targetServer = [], hs_hopCount = 0\<rparr>"

definition hasCapability :: "xuint32 \<Rightarrow> handshake_data \<Rightarrow> bool" where
  "hasCapability cap d \<longleftrightarrow> hs_capabilities d AND cap \<noteq> 0"

definition serializeHandshakeData :: "handshake_data \<Rightarrow> bytes" where
  "serializeHandshakeData d =
     m_data (putUint8 (hs_hopCount d) (putString (hs_targetServer d) (putBytes (hs_authToken d)
       (putUint32 (hs_capabilities d) (putString (hs_nodeId d) (putString (hs_nodeName d)
         (putUint32 (hs_protocolVersion d) new_tag_struct)))))))"

text \<open>
  The required fields in order, each stored as soon as it is read; the later ones are
  optional and fall back to nothing.
\<close>

definition read_optional :: "tag_struct \<Rightarrow> handshake_data \<Rightarrow> handshake_data" where
  "read_optional ts d =
     (let (token, t1) = getBytes ts; (target, t2) = getString t1; (hops, t3) = getUint8 t2
      in d\<lparr>hs_authToken := (case token of Some x \<Rightarrow> x | None \<Rightarrow> []),
           hs_targetServer := (case target of Some x \<Rightarrow> x | None \<Rightarrow> []),
           hs_hopCount := (case hops of Some x \<Rightarrow> x | None \<Rightarrow> 0)\<rparr>)"

definition deserializeHandshakeData :: "bytes \<Rightarrow> handshake_data \<Rightarrow> bool \<times> handshake_data" where
  "deserializeHandshakeData bs d =
     (case getUint32 (setData bs new_tag_struct) of
        (None, _) \<Rightarrow> (False, d)
      | (Some v, t1) \<Rightarrow>
        (let d1 = d\<lparr>hs_protocolVersion := v\<rparr> in
         case getString t1 of
           (None, _) \<Rightarrow> (False, d1)
         | (Some name, t2) \<Rightarrow>
           (let d2 = d1\<lparr>hs_nodeName := name\<rparr> in
            case getString t2 of
              (None, _) \<Rightarrow> (False, d2)
            | (Some nid, t3) \<Rightarrow>
              (let d3 = d2\<lparr>hs_nodeId := nid\<rparr> in
               case getUint32 t3 of
                 (None, _) \<Rightarrow> (False, d3)
               | (Some caps, t4) \<Rightarrow> (True, read_optional t4 (d3\<lparr>hs_capabilities := caps\<rparr>))))))"

section \<open>The state machine\<close>

datatype handshake_state = HS_IDLE | HS_SENDING | HS_RECEIVING | HS_COMPLETED | HS_FAILED
datatype handshake_role = ROLE_CLIENT | ROLE_SERVER

datatype handshake_error =
    InvalidFormat
  | IncompatibleServer xuint16 xuint16 xuint16
  | ServerWithoutEncryption
  | StrictMismatch xuint16 xuint16
  | IncompatibleClient xuint16 xuint16 xuint16
  | ClientWithoutEncryption
  | IncompatibleMajor xuint32 xuint32

record handshake =
  hk_role :: handshake_role
  hk_state :: handshake_state
  hk_localData :: handshake_data
  hk_remoteData :: handshake_data
  hk_error :: "handshake_error option"
  hk_contextConfig :: "context_config option"
  hk_serverConfig :: "server_config option"

definition new_handshake :: "ustring \<Rightarrow> handshake_role \<Rightarrow> handshake" where
  "new_handshake nid role = \<lparr>hk_role = role, hk_state = HS_IDLE,
     hk_localData = new_handshake_data\<lparr>hs_nodeId := nid\<rparr>, hk_remoteData = new_handshake_data,
     hk_error = None, hk_contextConfig = None, hk_serverConfig = None\<rparr>"

definition client_capabilities :: "context_config \<Rightarrow> xuint32" where
  "client_capabilities c =
     (if cc_disableSharedMemory c then 0 else CAP_STREAM)
     OR (if cc_encryptionMethod c \<noteq> NoEncryption then CAP_ENCRYPTION else 0)
     OR CAP_MULTIPLEXING OR CAP_FILE_TRANSFER"

definition server_capabilities :: "server_config \<Rightarrow> xuint32" where
  "server_capabilities c =
     (CAP_MULTIPLEXING OR CAP_FILE_TRANSFER)
     OR (if sc_disableSharedMemory c then 0 else CAP_STREAM)
     OR (if sc_encryptionRequirement c \<noteq> Optional then CAP_ENCRYPTION else 0)"

definition buildLocalDataFromConfig :: "handshake \<Rightarrow> handshake" where
  "buildLocalDataFromConfig h =
     (case (hk_role h, hk_contextConfig h, hk_serverConfig h) of
        (ROLE_CLIENT, Some c, _) \<Rightarrow>
          h\<lparr>hk_localData := (hk_localData h)\<lparr>hs_protocolVersion := ucast (cc_protocolVersionCurrent c),
              hs_capabilities := client_capabilities c\<rparr>\<rparr>
      | (ROLE_SERVER, _, Some c) \<Rightarrow>
          h\<lparr>hk_localData := (hk_localData h)\<lparr>hs_protocolVersion := ucast (sc_protocolVersionCurrent c),
              hs_capabilities := server_capabilities c\<rparr>\<rparr>
      | _ \<Rightarrow> h)"

definition setContextConfig :: "context_config option \<Rightarrow> handshake \<Rightarrow> handshake" where
  "setContextConfig c h =
     (let h1 = h\<lparr>hk_contextConfig := c\<rparr>
      in if hk_role h1 = ROLE_CLIENT \<and> c \<noteq> None then buildLocalDataFromConfig h1 else h1)"

definition setServerConfig :: "server_config option \<Rightarrow> handshake \<Rightarrow> handshake" where
  "setServerConfig c h =
     (let h1 = h\<lparr>hk_serverConfig := c\<rparr>
      in if hk_role h1 = ROLE_SERVER \<and> c \<noteq> None then buildLocalDataFromConfig h1 else h1)"

definition setLocalData :: "ustring \<Rightarrow> handshake_data \<Rightarrow> handshake \<Rightarrow> handshake" where
  "setLocalData nid d h =
     h\<lparr>hk_localData := (if hs_nodeId d = [] then d\<lparr>hs_nodeId := nid\<rparr> else d)\<rparr>"

definition start :: "handshake \<Rightarrow> bytes \<times> handshake" where
  "start h =
     (if hk_role h \<noteq> ROLE_CLIENT then ([], h)
      else if hk_state h \<noteq> HS_IDLE \<and> hk_state h \<noteq> HS_SENDING then ([], h)
      else (serializeHandshakeData (hk_localData h), h\<lparr>hk_state := HS_SENDING\<rparr>))"

definition isCompatible :: "xuint32 \<Rightarrow> xuint32 \<Rightarrow> bool" where
  "isCompatible clientVersion serverVersion \<longleftrightarrow>
     drop_bit 16 clientVersion AND 0xFFFF = drop_bit 16 serverVersion AND 0xFFFF"

text \<open>None accepts; versions are narrowed to 16 bits as in the code.\<close>

definition client_verdict :: "context_config \<Rightarrow> handshake_data \<Rightarrow> handshake_error option" where
  "client_verdict c d =
     (let v = (ucast (hs_protocolVersion d) :: xuint16) in
      if v < cc_protocolVersionMin c \<or> v > cc_protocolVersionMax c
      then Some (IncompatibleServer v (cc_protocolVersionMin c) (cc_protocolVersionMax c))
      else if cc_encryptionMethod c \<noteq> NoEncryption \<and> \<not> hasCapability CAP_ENCRYPTION d then Some ServerWithoutEncryption
      else None)"

definition version_verdict :: "server_config \<Rightarrow> xuint16 \<Rightarrow> handshake_error option" where
  "version_verdict c v =
     (case sc_versionPolicy c of
        Strict \<Rightarrow> if v \<noteq> sc_protocolVersionCurrent c then Some (StrictMismatch v (sc_protocolVersionCurrent c)) else None
      | Compatible \<Rightarrow> if v < sc_protocolVersionMin c \<or> v > sc_protocolVersionMax c
          then Some (IncompatibleClient v (sc_protocolVersionMin c) (sc_protocolVersionMax c)) else None
      | Permissive \<Rightarrow> None)"

definition server_verdict :: "server_config \<Rightarrow> handshake_data \<Rightarrow> handshake_error option" where
  "server_verdict c d =
     (case version_verdict c (ucast (hs_protocolVersion d)) of
        Some e \<Rightarrow> Some e
      | None \<Rightarrow>
          (case sc_encryptionRequirement c of
             Required \<Rightarrow> if hasCapability CAP_ENCRYPTION d then None else Some ClientWithoutEncryption
           | Preferred \<Rightarrow> None
           | Optional \<Rightarrow> None))"

definition verdict :: "handshake \<Rightarrow> handshake_error option" where
  "verdict h =
     (case (hk_role h, hk_contextConfig h, hk_serverConfig h) of
        (ROLE_CLIENT, Some c, _) \<Rightarrow> client_verdict c (hk_remoteData h)
      | (ROLE_SERVER, _, Some c) \<Rightarrow> server_verdict c (hk_remoteData h)
      | _ \<Rightarrow>
          if isCompatible (hs_protocolVersion (hk_localData h)) (hs_protocolVersion (hk_remoteData h)) then None
          else Some (IncompatibleMajor (hs_protocolVersion (hk_localData h)) (hs_protocolVersion (hk_remoteData h))))"

definition validateRemoteData :: "handshake \<Rightarrow> bool \<times> handshake" where
  "validateRemoteData h =
     (case verdict h of None \<Rightarrow> (True, h) | Some e \<Rightarrow> (False, h\<lparr>hk_error := Some e\<rparr>))"

definition processHandshake :: "bytes \<Rightarrow> handshake \<Rightarrow> bytes \<times> handshake" where
  "processHandshake data h =
     (if hk_state h = HS_COMPLETED \<or> hk_state h = HS_FAILED then ([], h)
      else
        let (ok, d) = deserializeHandshakeData data (hk_remoteData h); h1 = h\<lparr>hk_remoteData := d\<rparr> in
        if \<not> ok then ([], h1\<lparr>hk_state := HS_FAILED, hk_error := Some InvalidFormat\<rparr>)
        else
          let (valid, h2) = validateRemoteData h1 in
          if \<not> valid then ([], h2\<lparr>hk_state := HS_FAILED\<rparr>)
          else
            let h3 = h2\<lparr>hk_state := HS_COMPLETED\<rparr> in
            if hk_role h3 = ROLE_CLIENT then ([], h3) else (serializeHandshakeData (hk_localData h3), h3))"

definition negotiatedCapabilities :: "handshake \<Rightarrow> xuint32" where
  "negotiatedCapabilities h =
     (if hk_state h \<noteq> HS_COMPLETED then 0
      else hs_capabilities (hk_localData h) AND hs_capabilities (hk_remoteData h))"

section \<open>The data round-trips\<close>

definition handshake_ok :: "handshake_data \<Rightarrow> bool" where
  "handshake_ok d \<longleftrightarrow> string_ok (hs_nodeName d) \<and> string_ok (hs_nodeId d) \<and> string_ok (hs_targetServer d) \<and>
     bytes_ok (hs_authToken d)"

definition required_fields :: "handshake_data \<Rightarrow> field list" where
  "required_fields d = [FUint32 (hs_protocolVersion d), FString (hs_nodeName d), FString (hs_nodeId d), FUint32 (hs_capabilities d)]"

definition optional_fields :: "handshake_data \<Rightarrow> field list" where
  "optional_fields d = [FBytes (hs_authToken d), FString (hs_targetServer d), FUint8 (hs_hopCount d)]"

lemma serialize_fields:
  "serializeHandshakeData d = concat (map enc_field (required_fields d @ optional_fields d))"
proof -
  have "serializeHandshakeData d = m_data (put_fields (required_fields d @ optional_fields d) new_tag_struct)"
    by (simp add: serializeHandshakeData_def put_fields_def required_fields_def optional_fields_def)
  then show ?thesis by (simp add: put_fields_data new_tag_struct_def)
qed

lemma deserialize_fields:
  assumes "handshake_ok d" and "bs = concat (map enc_field (required_fields d)) @ rest"
  shows "deserializeHandshakeData bs d0 =
    (True, read_optional (setData bs new_tag_struct\<lparr>m_readIndex := length bs - length rest\<rparr>)
       (d0\<lparr>hs_protocolVersion := hs_protocolVersion d, hs_nodeName := hs_nodeName d, hs_nodeId := hs_nodeId d,
         hs_capabilities := hs_capabilities d\<rparr>))"
proof -
  let ?ts = "setData bs new_tag_struct"
  have "get_fields (map field_tag (required_fields d)) ?ts =
      (Some (required_fields d), ?ts\<lparr>m_readIndex := length (concat (map enc_field (required_fields d)))\<rparr>)"
    using get_fields_enc [of "required_fields d" ?ts "[]" rest] assms
    by (simp add: setData_def required_fields_def handshake_ok_def)
  moreover have "length (concat (map enc_field (required_fields d))) = length bs - length rest" using assms(2) by simp
  ultimately show ?thesis
    by (auto simp: required_fields_def deserializeHandshakeData_def Let_def split: prod.splits option.splits)
qed

lemma read_optional_fields:
  assumes "handshake_ok d" and "m_data ts = pre @ concat (map enc_field (optional_fields d))" and "m_readIndex ts = length pre"
  shows "read_optional ts d0 = d0\<lparr>hs_authToken := hs_authToken d, hs_targetServer := hs_targetServer d, hs_hopCount := hs_hopCount d\<rparr>"
proof -
  have "get_fields (map field_tag (optional_fields d)) ts =
      (Some (optional_fields d), ts\<lparr>m_readIndex := length pre + length (concat (map enc_field (optional_fields d)))\<rparr>)"
    using get_fields_enc [of "optional_fields d" ts pre "[]"] assms by (simp add: optional_fields_def handshake_ok_def)
  then show ?thesis by (auto simp: optional_fields_def read_optional_def split: prod.splits option.splits)
qed

lemma deserialize_serialize:
  assumes "handshake_ok d"
  shows "deserializeHandshakeData (serializeHandshakeData d) d0 = (True, d)"
proof -
  let ?bs = "serializeHandshakeData d" and ?o = "concat (map enc_field (optional_fields d))"
  let ?pre = "concat (map enc_field (required_fields d))"
  have bs: "?bs = ?pre @ ?o" by (simp add: serialize_fields)
  have "read_optional (setData ?bs new_tag_struct\<lparr>m_readIndex := length ?bs - length ?o\<rparr>) d1 =
      d1\<lparr>hs_authToken := hs_authToken d, hs_targetServer := hs_targetServer d, hs_hopCount := hs_hopCount d\<rparr>" for d1
    by (rule read_optional_fields [OF assms, of _ ?pre]) (simp_all add: setData_def bs)
  then show ?thesis using deserialize_fields [OF assms bs] by simp
qed

text \<open>A peer without the later fields.\<close>

lemma deserialize_required_only:
  assumes "handshake_ok d"
  shows "deserializeHandshakeData (concat (map enc_field (required_fields d))) d0 =
    (True, d\<lparr>hs_authToken := [], hs_targetServer := [], hs_hopCount := 0\<rparr>)"
proof -
  let ?bs = "concat (map enc_field (required_fields d))"
  let ?ts = "setData ?bs new_tag_struct\<lparr>m_readIndex := length ?bs\<rparr>"
  have e: "eof ?ts" by (simp add: eof_def setData_def)
  have "getBytes ?ts = (None, ?ts)" "getString ?ts = (None, ?ts)" "getUint8 ?ts = (None, ?ts)"
    using wrong_tag [OF disjI2 [OF e]] by (simp_all add: getBytes_def getString_def getUint8_def getFixed_def)
  then have "read_optional ?ts d1 = d1\<lparr>hs_authToken := [], hs_targetServer := [], hs_hopCount := 0\<rparr>" for d1
    by (simp add: read_optional_def)
  then show ?thesis using deserialize_fields [OF assms, of ?bs "[]" d0] by simp
qed

section \<open>The exchange\<close>

definition accepts :: "handshake \<Rightarrow> handshake_data \<Rightarrow> bool" where
  "accepts h d \<longleftrightarrow> verdict (h\<lparr>hk_remoteData := d\<rparr>) = None"

lemma process_serialized:
  assumes "hk_state h \<notin> {HS_COMPLETED, HS_FAILED}" and "handshake_ok d"
  shows "processHandshake (serializeHandshakeData d) h =
    (if accepts h d
     then (if hk_role h = ROLE_CLIENT then [] else serializeHandshakeData (hk_localData h),
           h\<lparr>hk_remoteData := d, hk_state := HS_COMPLETED\<rparr>)
     else ([], h\<lparr>hk_remoteData := d, hk_error := verdict (h\<lparr>hk_remoteData := d\<rparr>), hk_state := HS_FAILED\<rparr>))"
  using assms(1) by (auto simp: processHandshake_def deserialize_serialize [OF assms(2)] accepts_def validateRemoteData_def split: option.splits)

lemma process_empty:
  assumes "hk_state h \<notin> {HS_COMPLETED, HS_FAILED}"
  shows "hk_state (snd (processHandshake [] h)) = HS_FAILED"
proof -
  have "getUint32 (setData [] new_tag_struct) = (None, setData [] new_tag_struct)"
    using wrong_tag [of "setData [] new_tag_struct" TAG_UINT32]
    by (simp add: getUint32_def getFixed_def eof_def setData_def new_tag_struct_def)
  then have "deserializeHandshakeData [] d = (False, d)" for d by (simp add: deserializeHandshakeData_def)
  then show ?thesis using assms by (simp add: processHandshake_def)
qed

text \<open>Whatever is called on it.\<close>

inductive hs_step :: "handshake \<Rightarrow> handshake \<Rightarrow> bool" where
  hs_start: "hs_step h (snd (start h))"
| hs_process: "hs_step h (snd (processHandshake bs h))"
| hs_local: "hs_step h (setLocalData nid d h)"
| hs_context: "hs_step h (setContextConfig c h)"
| hs_server: "hs_step h (setServerConfig c' h)"

definition hs_same :: "handshake \<Rightarrow> handshake \<Rightarrow> bool" where
  "hs_same h h' \<longleftrightarrow> hk_state h' = hk_state h \<and> hk_remoteData h' = hk_remoteData h \<and> hk_error h' = hk_error h \<and> hk_role h' = hk_role h"

lemma hs_same_config: "hs_same h (setLocalData nid d h)" "hs_same h (setContextConfig c h)" "hs_same h (setServerConfig c' h)"
  by (auto simp: hs_same_def setLocalData_def setContextConfig_def setServerConfig_def buildLocalDataFromConfig_def Let_def
      split: handshake_role.splits option.splits)

lemma hs_step_terminal:
  "hs_step h h' \<Longrightarrow> hk_state h \<in> {HS_COMPLETED, HS_FAILED} \<Longrightarrow> hs_same h h'"
proof (induction rule: hs_step.induct)
  case (hs_start h) then show ?case by (auto simp: start_def hs_same_def)
next
  case (hs_process h bs) then show ?case by (auto simp: processHandshake_def hs_same_def)
qed (simp_all add: hs_same_config)

lemma hs_steps_terminal:
  "hs_step\<^sup>*\<^sup>* h h' \<Longrightarrow> hk_state h \<in> {HS_COMPLETED, HS_FAILED} \<Longrightarrow> hs_same h h'"
proof (induction rule: rtranclp_induct)
  case (step y z)
  from hs_step_terminal [OF step(2)] step show ?case by (auto simp: hs_same_def)
qed (simp add: hs_same_def)

lemma accepts_state [simp]: "accepts (h\<lparr>hk_state := st\<rparr>) d = accepts h d"
  by (simp add: accepts_def verdict_def split: handshake_role.split option.split)

section \<open>A sample\<close>

definition sample_client :: handshake where
  "sample_client = setContextConfig (Some new_context_config) (new_handshake [0x63] ROLE_CLIENT)"
definition sample_server :: handshake where
  "sample_server = setServerConfig (Some new_server_config) (new_handshake [0x73] ROLE_SERVER)"

lemma sample_handshake:
  "hk_role sample_client = ROLE_CLIENT" "hk_state sample_client = HS_IDLE" "hk_role sample_server = ROLE_SERVER"
  "hk_state sample_server = HS_IDLE" "handshake_ok (hk_localData sample_client)" "handshake_ok (hk_localData sample_server)"
  "accepts sample_server (hk_localData sample_client)" "accepts sample_client (hk_localData sample_server)"
  "hs_capabilities (hk_localData sample_client) AND hs_capabilities (hk_localData sample_server) = 0x34"
  by (simp_all add: sample_client_def sample_server_def setContextConfig_def setServerConfig_def buildLocalDataFromConfig_def
      new_handshake_def new_context_config_def new_server_config_def new_handshake_data_def handshake_ok_def string_ok_def
      bytes_ok_def isSurrogate_def accepts_def verdict_def client_verdict_def server_verdict_def version_verdict_def
      client_capabilities_def server_capabilities_def CAP_STREAM_def CAP_MULTIPLEXING_def CAP_FILE_TRANSFER_def Let_def)

section \<open>Properties\<close>

text \<open>
  C30. Agreement: when a client starts, the server answers and the client processes the
  answer, the server completes exactly when it accepts the client's data and the client
  exactly when both accept each other; then each side holds the other's data and both
  compute the same capabilities, those they have in common.
\<close>

theorem handshake_agreement:
  assumes "hk_role c = ROLE_CLIENT" and "hk_state c = HS_IDLE" and "hk_role s = ROLE_SERVER" and "hk_state s = HS_IDLE"
    and "handshake_ok (hk_localData c)" and "handshake_ok (hk_localData s)"
    and "start c = (hello, c1)" and "processHandshake hello s = (reply, s1)" and "processHandshake reply c1 = (out, c2)"
  shows "out = [] \<and> (hk_state s1 = HS_COMPLETED \<longleftrightarrow> accepts s (hk_localData c)) \<and>
    (hk_state c2 = HS_COMPLETED \<longleftrightarrow> accepts s (hk_localData c) \<and> accepts c (hk_localData s)) \<and>
    (hk_state c2 = HS_COMPLETED \<longrightarrow>
       hk_remoteData c2 = hk_localData s \<and> hk_remoteData s1 = hk_localData c \<and>
       negotiatedCapabilities c2 = hs_capabilities (hk_localData c) AND hs_capabilities (hk_localData s) \<and>
       negotiatedCapabilities s1 = negotiatedCapabilities c2)"
proof -
  have c1: "hello = serializeHandshakeData (hk_localData c)" "c1 = c\<lparr>hk_state := HS_SENDING\<rparr>"
    using assms(1,2,7) by (auto simp: start_def)
  note s1 = assms(8) [unfolded c1(1)]
  show ?thesis
  proof (cases "accepts s (hk_localData c)")
    case True
    then have s: "reply = serializeHandshakeData (hk_localData s)" "s1 = s\<lparr>hk_remoteData := hk_localData c, hk_state := HS_COMPLETED\<rparr>"
      using s1 process_serialized [of s, OF _ assms(5)] assms(3,4) by auto
    have "processHandshake reply c1 = (if accepts c (hk_localData s) then ([], c1\<lparr>hk_remoteData := hk_localData s, hk_state := HS_COMPLETED\<rparr>)
        else ([], c1\<lparr>hk_remoteData := hk_localData s, hk_error := verdict (c1\<lparr>hk_remoteData := hk_localData s\<rparr>), hk_state := HS_FAILED\<rparr>))"
      using process_serialized [of c1, OF _ assms(6)] assms(1) by (simp add: s(1) c1(2))
    then show ?thesis using True assms(9) s(2) c1(2)
      by (auto simp: negotiatedCapabilities_def and.commute split: if_splits)
  next
    case False
    then have s: "reply = []" "hk_state s1 = HS_FAILED"
      using s1 process_serialized [of s, OF _ assms(5)] assms(3,4) by auto
    have "hk_state c2 = HS_FAILED" "out = []"
      using process_empty [of c1] assms(9) s(1) c1(2) by (auto simp: processHandshake_def Let_def split: if_splits prod.splits)
    then show ?thesis using False s(2) by simp
  qed
qed

theorem handshake_agreement_witness:
  "\<exists>c2. processHandshake (fst (processHandshake (fst (start sample_client)) sample_server)) (snd (start sample_client)) = ([], c2) \<and>
     hk_state c2 = HS_COMPLETED \<and> negotiatedCapabilities c2 = 0x34"
  using handshake_agreement [OF sample_handshake(1-6), of "fst (start sample_client)" "snd (start sample_client)"
      "fst (processHandshake (fst (start sample_client)) sample_server)"
      "snd (processHandshake (fst (start sample_client)) sample_server)"
      "fst (processHandshake (fst (processHandshake (fst (start sample_client)) sample_server)) (snd (start sample_client)))"
      "snd (processHandshake (fst (processHandshake (fst (start sample_client)) sample_server)) (snd (start sample_client)))"]
    sample_handshake(7-9) by (simp add: prod_eq_iff)

text \<open>
  The data survives the wire, whatever the record it is read into, and a peer that
  does not send the later fields is understood with empty ones.
\<close>

theorem handshake_data_round_trip:
  assumes "handshake_ok d"
  shows "deserializeHandshakeData (serializeHandshakeData d) d0 = (True, d) \<and>
    deserializeHandshakeData (concat (map enc_field (required_fields d))) d0 =
      (True, d\<lparr>hs_authToken := [], hs_targetServer := [], hs_hopCount := 0\<rparr>)"
  using deserialize_serialize [OF assms] deserialize_required_only [OF assms] by simp

theorem handshake_data_round_trip_witness:
  "deserializeHandshakeData (serializeHandshakeData (hk_localData sample_client)) new_handshake_data = (True, hk_localData sample_client)"
  using handshake_data_round_trip [OF sample_handshake(5)] by simp

text \<open>
  A handshake that has completed or failed is final: no message, replayed or new, and
  no later configuration changes its state, its remote data or its error.
\<close>

theorem handshake_is_final:
  assumes "hs_step\<^sup>*\<^sup>* h h'" and "hk_state h = HS_COMPLETED \<or> hk_state h = HS_FAILED"
  shows "hk_state h' = hk_state h \<and> hk_remoteData h' = hk_remoteData h \<and> hk_error h' = hk_error h"
  using hs_steps_terminal [OF assms(1)] assms(2) by (simp add: hs_same_def)

theorem handshake_is_final_witness:
  "hk_state (snd (processHandshake [1, 2] (snd (processHandshake [] sample_server)))) = HS_FAILED"
proof -
  let ?h = "snd (processHandshake [] sample_server)"
  have f: "hk_state ?h = HS_FAILED" by (rule process_empty) (simp add: sample_handshake)
  have "hs_step\<^sup>*\<^sup>* ?h (snd (processHandshake [1, 2] ?h))" by (rule r_into_rtranclp) (rule hs_process)
  from handshake_is_final [OF this] f show ?thesis by simp
qed

text \<open>
  The version check looks at 16 of the 32 bits: with a configuration, a peer whose
  version differs by a multiple of 65536 gets the same verdict, so version 0x10001 passes
  a server that demands exactly version 1.
\<close>

theorem version_check_is_truncated:
  assumes "hk_role s = ROLE_SERVER" and "hk_serverConfig s = Some cfg"
  shows "accepts s (d\<lparr>hs_protocolVersion := v + 0x10000 * k\<rparr>) = accepts s (d\<lparr>hs_protocolVersion := v\<rparr>)"
proof -
  have "(ucast (v + 0x10000 * k) :: xuint16) = ucast v"
  proof (rule word_unat_eq_iff [THEN iffD2])
    let ?b = "65536 * unat k mod 4294967296"
    have "?b mod 65536 = 0" by (simp add: mod_mod_cancel)
    then have "(unat v + ?b) mod 65536 = unat v mod 65536" by (metis add.right_neutral mod_add_right_eq)
    then have "(unat (v + 0x10000 * k)) mod 2 ^ 16 = unat v mod 2 ^ 16"
      by (simp add: unat_word_ariths mod_mod_cancel)
    then show "unat (ucast (v + 0x10000 * k) :: xuint16) = unat (ucast v :: xuint16)"
      by (simp add: unsigned_ucast_eq unsigned_take_bit_eq take_bit_eq_mod)
  qed
  then show ?thesis using assms by (simp add: accepts_def verdict_def server_verdict_def hasCapability_def)
qed

theorem version_check_is_truncated_witness:
  "accepts (sample_server\<lparr>hk_serverConfig := Some (new_server_config\<lparr>sc_versionPolicy := Strict\<rparr>)\<rparr>)
     (new_handshake_data\<lparr>hs_protocolVersion := 0x10001\<rparr>)"
proof -
  let ?s = "sample_server\<lparr>hk_serverConfig := Some (new_server_config\<lparr>sc_versionPolicy := Strict\<rparr>)\<rparr>"
  have r: "hk_role ?s = ROLE_SERVER" by (simp add: sample_handshake)
  have "accepts ?s (new_handshake_data\<lparr>hs_protocolVersion := 1\<rparr>)"
    using r by (simp add: accepts_def verdict_def server_verdict_def version_verdict_def new_server_config_def)
  then show ?thesis using version_check_is_truncated [OF r, where d = new_handshake_data and v = 1 and k = 1] by simp
qed

end
