(* ===== verification/Inc_Connection.thy ===== *)
theory Inc_Connection imports Inc_Ownership Inc_Handshake begin

text \<open>
  iINCConnection (src/core/inc/iincconnection.cpp, iincconnection.h): one peer as the
  server and the context see it, around the protocol and its device. Channels are a map
  to objects of type 'c (the server's _iINCPStream or the client's iINCStream). The device is
  a transport, whose open flag (iIODevice::isOpen) is part of the connection's state. An
  assertion that fails or an invalid iterator that is dereferenced is the result None.
\<close>

section \<open>State\<close>

text \<open>What is known of a memory pool: the type of its memory, its name, size and descriptor.\<close>

record mem_pool =
  pool_type :: xuint16
  pool_prefix :: bytes
  pool_size :: xint32
  pool_fd :: int

definition MEMTYPE_SHARED_MEMFD :: xuint16 where "MEMTYPE_SHARED_MEMFD = 1"
definition MEMTYPE_SHARED_POSIX :: xuint16 where "MEMTYPE_SHARED_POSIX = 2"
definition MEMTYPE_PRIVATE :: xuint16 where "MEMTYPE_PRIVATE = 4"

definition pool_isShared :: "mem_pool \<Rightarrow> bool" where
  "pool_isShared m \<longleftrightarrow> pool_type m = MEMTYPE_SHARED_POSIX \<or> pool_type m = MEMTYPE_SHARED_MEMFD"

record 'd transport =
  tr_device :: "'d device"
  tr_isLocal :: "'d \<Rightarrow> bool"
  tr_close :: "'d \<Rightarrow> 'd"

record ('d, 'c) connection =
  cn_proto :: proto
  cn_device :: 'd
  cn_open :: bool
  cn_connId :: xuint32
  cn_peerName :: ustring
  cn_peerProtocol :: xuint32
  cn_handshake :: "handshake option"
  cn_subscriptions :: "ustring list"
  cn_channels :: "xuint32 \<Rightarrow> 'c option"
  cn_mempool :: "mem_pool option"

definition new_connection :: "'d \<Rightarrow> bool \<Rightarrow> xuint32 \<Rightarrow> ('d, 'c) connection" where
  "new_connection dev opened connId = \<lparr>cn_proto = new_proto False, cn_device = dev, cn_open = opened, cn_connId = connId,
     cn_peerName = [], cn_peerProtocol = 0, cn_handshake = None, cn_subscriptions = [], cn_channels = (\<lambda>_. None),
     cn_mempool = None\<rparr>"

definition isConnected :: "('d, 'c) connection \<Rightarrow> bool" where
  "isConnected c \<longleftrightarrow> cn_open c"

definition isLocal :: "'d transport \<Rightarrow> ('d, 'c) connection \<Rightarrow> bool" where
  "isLocal T c \<longleftrightarrow> tr_isLocal T (cn_device c)"

section \<open>Messages out\<close>

text \<open>The codes of the errors that a call of the protocol has emitted.\<close>

fun error_codes :: "proto_event list \<Rightarrow> nat list" where
  "error_codes [] = []"
| "error_codes (ErrorOccurred e # es) = e # error_codes es"
| "error_codes (_ # es) = error_codes es"

definition conn_nextSequence :: "('d, 'c) connection \<Rightarrow> xuint32 \<times> ('d, 'c) connection" where
  "conn_nextSequence c = (let (s, p) = nextSequence (cn_proto c) in (s, c\<lparr>cn_proto := p\<rparr>))"

definition conn_sendMessage :: "'d transport \<Rightarrow> inc_message \<Rightarrow> ('d, 'c) connection \<Rightarrow>
    nat option \<times> nat list \<times> ('d, 'c) connection" where
  "conn_sendMessage T msg c =
     (let (op, evs, p, d) = sendMessage (tr_device T) msg (cn_proto c) (cn_device c)
      in (op, error_codes evs, c\<lparr>cn_proto := p, cn_device := d\<rparr>))"

definition event_message :: "xuint32 \<Rightarrow> xuint32 \<Rightarrow> ustring \<Rightarrow> xuint16 \<Rightarrow> bytes \<Rightarrow> inc_message" where
  "event_message connId sq eventName version data = (new_message INC_MSG_EVENT connId sq)
     \<lparr>msg_payload := putBytes data (putString eventName (putUint16 version new_tag_struct))\<rparr>"

text \<open>The caller's handle of an operation goes out of scope.\<close>

definition conn_drop :: "nat option \<Rightarrow> ('d, 'c) connection \<Rightarrow> ('d, 'c) connection" where
  "conn_drop op c = (case op of None \<Rightarrow> c | Some i \<Rightarrow> c\<lparr>cn_proto := deref_op i (cn_proto c)\<rparr>)"

definition sendEvent :: "'d transport \<Rightarrow> ustring \<Rightarrow> xuint16 \<Rightarrow> bytes \<Rightarrow> ('d, 'c) connection \<Rightarrow>
    nat list \<times> ('d, 'c) connection" where
  "sendEvent T eventName version data c =
     (let (sq, c1) = conn_nextSequence c;
          (op, errs, c2) = conn_sendMessage T (event_message (cn_connId c) sq eventName version data) c1
      in (errs, conn_drop op c2))"

definition pingpong :: "'d transport \<Rightarrow> ('d, 'c) connection \<Rightarrow> nat option \<times> nat list \<times> ('d, 'c) connection" where
  "pingpong T c =
     (let (sq, c1) = conn_nextSequence c in conn_sendMessage T (new_message INC_MSG_PING (cn_connId c) sq) c1)"

definition conn_releaseOperation :: "nat option \<Rightarrow> ('d, 'c) connection \<Rightarrow> ('d, 'c) connection" where
  "conn_releaseOperation op c = c\<lparr>cn_proto := releaseOperation op (cn_proto c)\<rparr>"

text \<open>Data of a connection is fire-and-forget when it is copied.\<close>

definition conn_sendBinaryData :: "'d transport \<Rightarrow> xuint32 \<Rightarrow> xint64 \<Rightarrow> bytes \<Rightarrow> shm_put option \<Rightarrow> ('d, 'c) connection \<Rightarrow>
    nat option \<times> nat list \<times> ('d, 'c) connection" where
  "conn_sendBinaryData T channel pos data put c =
     (let (op, evs, p, d) = sendBinaryData (tr_device T) channel True pos data put (cn_proto c) (cn_device c)
      in (op, error_codes evs, c\<lparr>cn_proto := p, cn_device := d\<rparr>))"

text \<open>A second pool is ignored; exporting from a missing or private pool fails an assertion.\<close>

definition conn_enableMempool :: "mem_pool option \<Rightarrow> ('d, 'c) connection \<Rightarrow> ('d, 'c) connection option" where
  "conn_enableMempool pool c =
     (if cn_mempool c \<noteq> None then Some c
      else (case pool of
              None \<Rightarrow> None
            | Some m \<Rightarrow>
                if pool_isShared m
                then Some (c\<lparr>cn_mempool := Some m, cn_proto := enableMempool (cn_proto c)\<rparr>) else None))"

section \<open>Subscriptions\<close>

definition starts_with :: "ustring \<Rightarrow> ustring \<Rightarrow> bool" where
  "starts_with s p \<longleftrightarrow> length p \<le> length s \<and> take (length p) s = p"

definition ends_with :: "ustring \<Rightarrow> ustring \<Rightarrow> bool" where
  "ends_with s p \<longleftrightarrow> length p \<le> length s \<and> drop (length s - length p) s = p"

definition DOT_STAR :: ustring where "DOT_STAR = [0x2E, 0x2A]"

definition matchesPattern :: "ustring \<Rightarrow> ustring \<Rightarrow> bool" where
  "matchesPattern eventName pattern \<longleftrightarrow>
     (if ends_with pattern DOT_STAR then starts_with eventName (take (length pattern - 2) pattern)
      else eventName = pattern)"

fun any_match :: "ustring \<Rightarrow> ustring list \<Rightarrow> bool" where
  "any_match eventName [] = False"
| "any_match eventName (pattern # rest) = (if matchesPattern eventName pattern then True else any_match eventName rest)"

definition isSubscribed :: "ustring \<Rightarrow> ('d, 'c) connection \<Rightarrow> bool" where
  "isSubscribed eventName c = any_match eventName (cn_subscriptions c)"

definition addSubscription :: "ustring \<Rightarrow> ('d, 'c) connection \<Rightarrow> ('d, 'c) connection" where
  "addSubscription pattern c =
     (if pattern \<in> set (cn_subscriptions c) then c else c\<lparr>cn_subscriptions := cn_subscriptions c @ [pattern]\<rparr>)"

definition removeSubscription :: "ustring \<Rightarrow> ('d, 'c) connection \<Rightarrow> ('d, 'c) connection" where
  "removeSubscription pattern c = c\<lparr>cn_subscriptions := remove1 pattern (cn_subscriptions c)\<rparr>"

section \<open>Closing\<close>

text \<open>True when the signal disconnected is emitted.\<close>

definition conn_close :: "'d transport \<Rightarrow> ('d, 'c) connection \<Rightarrow> bool \<times> ('d, 'c) connection" where
  "conn_close T c =
     (if cn_open c then
        (True, c\<lparr>cn_proto := cancelAllOperations (int INC_ERROR_DISCONNECTED) (cn_proto c),
                 cn_device := tr_close T (cn_device c), cn_open := False\<rparr>)
      else (False, c))"

section \<open>Channels\<close>

definition registerChannel :: "xuint32 \<Rightarrow> 'c \<Rightarrow> ('d, 'c) connection \<Rightarrow> xuint32 \<times> ('d, 'c) connection" where
  "registerChannel channelId channel c =
     (if channelId = 0 then (0, c) else (channelId, c\<lparr>cn_channels := (cn_channels c)(channelId \<mapsto> channel)\<rparr>))"

definition unregisterChannel :: "xuint32 \<Rightarrow> ('d, 'c) connection \<Rightarrow> 'c option \<times> ('d, 'c) connection" where
  "unregisterChannel channelId c =
     (case cn_channels c channelId of
        None \<Rightarrow> (None, c)
      | Some ch \<Rightarrow> (Some ch, c\<lparr>cn_channels := (cn_channels c)(channelId := None)\<rparr>))"

definition findChannel :: "xuint32 \<Rightarrow> ('d, 'c) connection \<Rightarrow> 'c option" where
  "findChannel channelId c = cn_channels c channelId"

definition clearChannels :: "('d, 'c) connection \<Rightarrow> ('d, 'c) connection" where
  "clearChannels c = c\<lparr>cn_channels := (\<lambda>_. None)\<rparr>"

definition isChannelAllocated :: "xuint32 \<Rightarrow> ('d, 'c) connection \<Rightarrow> bool" where
  "isChannelAllocated channelId c \<longleftrightarrow> cn_channels c channelId \<noteq> None"

text \<open>
  Binary data for a channel: delivered to it (Some (Some channel, ..)), or refused with an error
  reply. Broadcast data for a channel that does not exist dereferences the map's end.
\<close>

definition onBinaryDataReceived :: "'d transport \<Rightarrow> xuint32 \<Rightarrow> xuint32 \<Rightarrow> bool \<Rightarrow> ('d, 'c) connection \<Rightarrow>
    ('c option \<times> nat list \<times> ('d, 'c) connection) option" where
  "onBinaryDataReceived T channelId seqNum broadcast c =
     (case cn_channels c channelId of
        None \<Rightarrow> if \<not> broadcast then Some (None, snd (conn_sendMessage T (error_reply channelId seqNum) c)) else None
      | Some ch \<Rightarrow> Some (Some ch, [], c))"

section \<open>Lemmas\<close>

lemma starts_with_append: "starts_with s p \<longleftrightarrow> (\<exists>t. s = p @ t)"
  by (auto simp: starts_with_def) (metis append_take_drop_id)

lemma ends_with_append: "ends_with s p \<longleftrightarrow> (\<exists>t. s = t @ p)"
  by (auto simp: ends_with_def) (metis append_take_drop_id)

text \<open>A pattern that ends in the wildcard stands for the names with its prefix, any other for itself.\<close>

lemma matchesPattern_iff:
  "matchesPattern name pattern \<longleftrightarrow> (if \<exists>p. pattern = p @ DOT_STAR then \<exists>p t. pattern = p @ DOT_STAR \<and> name = p @ t else name = pattern)"
  by (auto simp: matchesPattern_def ends_with_append starts_with_append DOT_STAR_def)

lemma any_match_iff: "any_match name ps \<longleftrightarrow> (\<exists>p\<in>set ps. matchesPattern name p)"
  by (induction ps) auto

lemma subscription_set:
  "set (cn_subscriptions (addSubscription p c)) = insert p (set (cn_subscriptions c))"
  "distinct (cn_subscriptions c) \<Longrightarrow> distinct (cn_subscriptions (addSubscription p c))"
  "distinct (cn_subscriptions c) \<Longrightarrow> set (cn_subscriptions (removeSubscription p c)) = set (cn_subscriptions c) - {p}"
  "distinct (cn_subscriptions c) \<Longrightarrow> distinct (cn_subscriptions (removeSubscription p c))"
  by (auto simp: addSubscription_def removeSubscription_def)

text \<open>What sending leaves alone.\<close>

definition conn_frame :: "('d, 'c) connection \<Rightarrow> ('d, 'c) connection \<Rightarrow> bool" where
  "conn_frame c c' \<longleftrightarrow> (\<exists>p d. c' = c\<lparr>cn_proto := p, cn_device := d\<rparr>)"

lemma conn_frame_refl [simp, intro]: "conn_frame c c"
proof -
  have "c = c\<lparr>cn_proto := cn_proto c, cn_device := cn_device c\<rparr>" by simp
  then show ?thesis unfolding conn_frame_def by blast
qed

lemma conn_frame_trans: "conn_frame a b \<Longrightarrow> conn_frame b c \<Longrightarrow> conn_frame a c"
  by (clarsimp simp: conn_frame_def) blast

lemma conn_frame_simps:
  assumes "conn_frame c c'"
  shows "cn_open c' = cn_open c" "cn_connId c' = cn_connId c" "cn_peerName c' = cn_peerName c"
    "cn_peerProtocol c' = cn_peerProtocol c" "cn_handshake c' = cn_handshake c" "cn_subscriptions c' = cn_subscriptions c"
    "cn_channels c' = cn_channels c" "cn_mempool c' = cn_mempool c"
  using assms by (auto simp: conn_frame_def)

lemma conn_frame_send:
  "conn_sendMessage T msg c = (op, es, c') \<Longrightarrow> conn_frame c c'"
  "conn_sendBinaryData T ch pos data put c = (op, es, c') \<Longrightarrow> conn_frame c c'"
  "conn_nextSequence c = (sq, c') \<Longrightarrow> conn_frame c c'"
proof -
  assume "conn_nextSequence c = (sq, c')"
  then have "c' = c\<lparr>cn_proto := cn_proto c', cn_device := cn_device c\<rparr>" by (auto simp: conn_nextSequence_def split: prod.splits)
  then show "conn_frame c c'" unfolding conn_frame_def by blast
qed (auto simp: conn_sendMessage_def conn_sendBinaryData_def conn_frame_def split: prod.splits)

lemma conn_frame_drop: "conn_frame c (conn_drop op c)"
proof (cases op)
  case (Some i)
  have "c\<lparr>cn_proto := deref_op i (cn_proto c)\<rparr> = c\<lparr>cn_proto := deref_op i (cn_proto c), cn_device := cn_device c\<rparr>" by simp
  then show ?thesis using Some unfolding conn_frame_def conn_drop_def by (metis option.simps(5))
qed (simp add: conn_drop_def)

lemma conn_frame_sendEvent: "sendEvent T name v data c = (es, c') \<Longrightarrow> conn_frame c c'"
  by (auto simp: sendEvent_def split: prod.splits dest!: conn_frame_send intro: conn_frame_trans conn_frame_drop)

end
