(* ===== verification/Inc_Server.thy ===== *)
theory Inc_Server imports Inc_Connection begin

text \<open>
  iINCServer (src/core/inc/iincserver.cpp, iincserver.h): accepted connections, dispatch of
  their messages, streams with their shared memory, subscriptions and broadcasts. The
  subclass's virtual functions are events (handleMethod, handleBinaryData) or a parameter
  (handleSubscribe). A connection object stays until the event loop deletes it; the
  map m_connections holds those that have not been closed. None is a failed assertion or
  undefined behaviour.
\<close>

section \<open>Bits\<close>

text \<open>iCountTrailingZeroBits of 16 bits.\<close>

definition count_trailing_zeros :: "xuint16 \<Rightarrow> nat" where
  "count_trailing_zeros v0 =
     (let v = v0 AND (- v0);
          c0 = (16 :: nat);
          c1 = (if v \<noteq> 0 then c0 - 1 else c0);
          c2 = (if v AND 0x00FF \<noteq> 0 then c1 - 8 else c1);
          c3 = (if v AND 0x0F0F \<noteq> 0 then c2 - 4 else c2);
          c4 = (if v AND 0x3333 \<noteq> 0 then c3 - 2 else c3)
      in (if v AND 0x5555 \<noteq> 0 then c4 - 1 else c4))"

section \<open>State\<close>

record server_options = server_config +
  so_maxConnections :: int
  so_sharedMemoryType :: xuint16
  so_sharedMemoryName :: bytes
  so_enableIOThread :: bool

text \<open>_iINCPStream: the server's end of a stream.\<close>

record pstream =
  ps_channelId :: xuint32
  ps_name :: ustring
  ps_mode :: xuint32

definition MODE_READ :: xuint32 where "MODE_READ = 1"
definition MODE_WRITE :: xuint32 where "MODE_WRITE = 2"

type_synonym 'd client = "('d, pstream) connection"

record 'd server =
  sv_name :: ustring
  sv_listening :: bool
  sv_options :: server_options
  sv_globalPool :: "mem_pool option"
  sv_nextChannelId :: xuint32
  sv_objects :: "(xuint32 \<times> 'd client) list"
  sv_ioThread :: bool
  sv_leakedThreads :: nat

text \<open>What surrounds the server: its transport, the subclass and the system.\<close>

record 'd server_env =
  se_transport :: "'d transport"
  se_import :: importer
  se_allow :: "xuint32 \<Rightarrow> ustring \<Rightarrow> bool"
  se_createPool :: "ustring \<Rightarrow> bytes \<Rightarrow> xuint16 \<Rightarrow> mem_pool option"
  se_now :: xint64

datatype server_event =
    ClientConnected xuint32
  | ClientDisconnected xuint32
  | StreamOpened xuint32 xuint32 ustring xuint32
  | StreamClosed xuint32 xuint32
  | HandleMethod xuint32 xuint32 ustring xuint16 bytes
  | HandleBinaryData xuint32 xuint32 xuint32 bool xint64 bytes

definition INC_MSG_SUBSCRIBE :: xuint16 where "INC_MSG_SUBSCRIBE = 10"
definition INC_MSG_SUBSCRIBE_ACK :: xuint16 where "INC_MSG_SUBSCRIBE_ACK = 11"
definition INC_MSG_UNSUBSCRIBE :: xuint16 where "INC_MSG_UNSUBSCRIBE = 12"
definition INC_MSG_UNSUBSCRIBE_ACK :: xuint16 where "INC_MSG_UNSUBSCRIBE_ACK = 13"
definition INC_MSG_STREAM_OPEN :: xuint16 where "INC_MSG_STREAM_OPEN = 14"
definition INC_MSG_STREAM_OPEN_ACK :: xuint16 where "INC_MSG_STREAM_OPEN_ACK = 15"
definition INC_MSG_STREAM_CLOSE :: xuint16 where "INC_MSG_STREAM_CLOSE = 16"
definition INC_MSG_STREAM_CLOSE_ACK :: xuint16 where "INC_MSG_STREAM_CLOSE_ACK = 17"

definition INC_OK :: xint32 where "INC_OK = 0"
definition INC_ERROR_INVALID_MESSAGE :: xint32 where "INC_ERROR_INVALID_MESSAGE = 0xC001"
definition INC_ERROR_INVALID_ARGS :: xint32 where "INC_ERROR_INVALID_ARGS = 0xC004"
definition INC_ERROR_INVALID_STATE :: xint32 where "INC_ERROR_INVALID_STATE = 0xC008"
definition INC_ERROR_ACCESS_DENIED :: xint32 where "INC_ERROR_ACCESS_DENIED = 0xE006"

section \<open>Connections\<close>

text \<open>conn->close() with the slot onClientDisconnected.\<close>

definition close_client :: "'d transport \<Rightarrow> 'd client \<Rightarrow> server_event list \<times> 'd client" where
  "close_client T c =
     (let (emitted, c1) = conn_close T c
      in if emitted then ([ClientDisconnected (cn_connId c1)], clearChannels c1) else ([], c1))"

text \<open>Sending with the slot onConnectionErrorOccurred, which closes on any error.\<close>

definition send_client :: "'d transport \<Rightarrow> inc_message \<Rightarrow> 'd client \<Rightarrow> server_event list \<times> 'd client" where
  "send_client T msg c =
     (let (op, errs, c1) = conn_sendMessage T msg c
      in if errs \<noteq> [] then close_client T c1 else ([], c1))"

definition code_reply :: "xuint16 \<Rightarrow> xuint32 \<Rightarrow> xuint32 \<Rightarrow> xint32 \<Rightarrow> inc_message" where
  "code_reply type channel seqNum code =
     (new_message type channel seqNum)\<lparr>msg_payload := putInt32 code new_tag_struct\<rparr>"

definition method_reply :: "xuint32 \<Rightarrow> xuint32 \<Rightarrow> xint32 \<Rightarrow> bytes \<Rightarrow> inc_message" where
  "method_reply connId seqNum code result =
     (new_message INC_MSG_METHOD_REPLY connId seqNum)\<lparr>msg_payload := putBytes result (putInt32 code new_tag_struct)\<rparr>"

definition sendMethodReply :: "'d transport \<Rightarrow> xuint32 \<Rightarrow> xint32 \<Rightarrow> bytes \<Rightarrow> 'd client \<Rightarrow> server_event list \<times> 'd client" where
  "sendMethodReply T seqNum code result c = send_client T (method_reply (cn_connId c) seqNum code result) c"

definition sendBinaryReply :: "'d transport \<Rightarrow> xuint32 \<Rightarrow> xuint32 \<Rightarrow> bool \<Rightarrow> xint32 \<Rightarrow> 'd client \<Rightarrow> server_event list \<times> 'd client" where
  "sendBinaryReply T channel seqNum broadcast written c =
     (if broadcast then ([], c) else send_client T (code_reply INC_MSG_BINARY_DATA_ACK channel seqNum written) c)"

text \<open>Only to a channel that the client opened for reading.\<close>

definition server_sendBinaryData :: "'d transport \<Rightarrow> xuint32 \<Rightarrow> xint64 \<Rightarrow> bytes \<Rightarrow> shm_put option \<Rightarrow> 'd client \<Rightarrow>
    nat option \<times> server_event list \<times> 'd client" where
  "server_sendBinaryData T channel pos data put c =
     (case findChannel channel c of
        None \<Rightarrow> (None, [], c)
      | Some ps \<Rightarrow>
          if ps_mode ps AND MODE_READ = 0 then (None, [], c)
          else
            let (op, errs, c1) = conn_sendBinaryData T channel pos data put c
            in if errs \<noteq> [] then (op, close_client T c1) else (op, [], c1))"

section \<open>Handlers\<close>

definition method_payload :: "tag_struct \<Rightarrow> (xuint16 \<times> ustring \<times> bytes) option" where
  "method_payload ts =
     (case getUint16 ts of (Some version, t1) \<Rightarrow>
       (case getString t1 of (Some name, t2) \<Rightarrow>
         (case getBytes t2 of (Some args, t3) \<Rightarrow>
            if eof t3 then Some (version, name, args) else None
          | _ \<Rightarrow> None) | _ \<Rightarrow> None) | _ \<Rightarrow> None)"

definition handleMethodCall :: "'d transport \<Rightarrow> inc_message \<Rightarrow> 'd client \<Rightarrow> server_event list \<times> 'd client" where
  "handleMethodCall T msg c =
     (case method_payload (msg_payload msg) of
        None \<Rightarrow> sendMethodReply T (msg_seqNum msg) INC_ERROR_INVALID_MESSAGE [] c
      | Some (version, method, args) \<Rightarrow> ([HandleMethod (cn_connId c) (msg_seqNum msg) method version args], c))"

definition pattern_payload :: "tag_struct \<Rightarrow> ustring option" where
  "pattern_payload ts =
     (case getString ts of (Some pattern, t1) \<Rightarrow> if eof t1 then Some pattern else None | _ \<Rightarrow> None)"

definition handleSubscribeRequest :: "'d transport \<Rightarrow> (xuint32 \<Rightarrow> ustring \<Rightarrow> bool) \<Rightarrow> inc_message \<Rightarrow> 'd client \<Rightarrow>
    server_event list \<times> 'd client" where
  "handleSubscribeRequest T allow msg c =
     (let ack = (\<lambda>code. code_reply INC_MSG_SUBSCRIBE_ACK (msg_channelID msg) (msg_seqNum msg) code) in
      case pattern_payload (msg_payload msg) of
        None \<Rightarrow> send_client T (ack INC_ERROR_INVALID_MESSAGE) c
      | Some pattern \<Rightarrow>
          if allow (cn_connId c) pattern then send_client T (ack INC_OK) (addSubscription pattern c)
          else send_client T (ack INC_ERROR_ACCESS_DENIED) c)"

definition handleUnsubscribeRequest :: "'d transport \<Rightarrow> inc_message \<Rightarrow> 'd client \<Rightarrow> server_event list \<times> 'd client" where
  "handleUnsubscribeRequest T msg c =
     (case pattern_payload (msg_payload msg) of
        None \<Rightarrow> ([], c)
      | Some pattern \<Rightarrow>
          send_client T (code_reply INC_MSG_UNSUBSCRIBE_ACK (msg_channelID msg) (msg_seqNum msg) INC_OK)
            (removeSubscription pattern c))"

text \<open>The answer to an offer of shared memory: the type granted and the pool to enable (None: none).\<close>

definition negotiate_shm :: "'d server_env \<Rightarrow> server_options \<Rightarrow> mem_pool option \<Rightarrow> xuint16 \<Rightarrow> bytes \<Rightarrow> 'd client \<Rightarrow>
    xuint16 \<times> mem_pool option option" where
  "negotiate_shm E opts global types shmName c =
     (let t = types AND so_sharedMemoryType opts;
          own = (if \<not> sc_disableSharedMemory opts \<and> isLocal (se_transport E) c \<and> t \<noteq> 0
                 then (let t1 = push_bit (count_trailing_zeros t) 1
                       in (t1, Some (se_createPool E (cn_peerName c) shmName t1)))
                 else (0, None))
      in case global of
           Some g \<Rightarrow> if t AND pool_type g \<noteq> 0 then (pool_type g, Some (Some g)) else own
         | None \<Rightarrow> own)"

definition stream_open_payload :: "tag_struct \<Rightarrow> (ustring \<times> xuint32 \<times> (xuint16 \<times> bytes) option) option" where
  "stream_open_payload ts =
     (case getString ts of (Some name, t1) \<Rightarrow>
       (case getUint32 t1 of (Some mode, t2) \<Rightarrow>
         (case getBool t2 of (Some wants, t3) \<Rightarrow>
            if \<not> wants then Some (name, mode, None)
            else (case getUint16 t3 of (Some types, t4) \<Rightarrow>
                   (case getBytes t4 of (Some shmName, t5) \<Rightarrow> Some (name, mode, Some (types, shmName))
                    | _ \<Rightarrow> None) | _ \<Rightarrow> None)
          | _ \<Rightarrow> None) | _ \<Rightarrow> None) | _ \<Rightarrow> None)"

definition stream_open_reply :: "inc_message \<Rightarrow> xuint32 \<Rightarrow> xuint16 option \<Rightarrow> mem_pool option \<Rightarrow> inc_message" where
  "stream_open_reply msg channelId granted pool =
     (let base = putBool (granted \<noteq> None) (putUint32 channelId new_tag_struct);
          reply = new_message INC_MSG_STREAM_OPEN_ACK (msg_channelID msg) (msg_seqNum msg)
      in case granted of
           None \<Rightarrow> reply\<lparr>msg_payload := base\<rparr>
         | Some t \<Rightarrow>
             reply\<lparr>msg_payload :=
                 putInt32 (case pool of Some m \<Rightarrow> pool_size m | None \<Rightarrow> 0)
                   (putBytes (case pool of Some m \<Rightarrow> pool_prefix m | None \<Rightarrow> []) (putUint16 t base)),
               msg_extFd := (case pool of Some m \<Rightarrow> pool_fd m | None \<Rightarrow> -1)\<rparr>)"

text \<open>The number is taken from the server's counter, which the result carries on.\<close>

definition handleStreamOpen :: "'d server_env \<Rightarrow> server_options \<Rightarrow> mem_pool option \<Rightarrow> inc_message \<Rightarrow> xuint32 \<Rightarrow> 'd client \<Rightarrow>
    (server_event list \<times> xuint32 \<times> 'd client) option" where
  "handleStreamOpen E opts global msg counter c =
     (case stream_open_payload (msg_payload msg) of
        None \<Rightarrow> Some ([], counter, c)
      | Some (name, mode, offer) \<Rightarrow>
          (let (granted, enable) =
             (case offer of
                None \<Rightarrow> (None, None)
              | Some (types, shmName) \<Rightarrow>
                  (let (t, pool) = negotiate_shm E opts global types shmName c in (Some t, pool)))
           in case (case enable of None \<Rightarrow> Some c | Some pool \<Rightarrow> conn_enableMempool pool c) of
                None \<Rightarrow> None
              | Some c1 \<Rightarrow>
                  let fresh = counter + 1;
                      (channelId, c2) = registerChannel fresh \<lparr>ps_channelId = fresh, ps_name = name, ps_mode = mode\<rparr> c1;
                      (evs, c3) = send_client (se_transport E) (stream_open_reply msg channelId granted (cn_mempool c2)) c2
                  in Some (evs @ [StreamOpened (cn_connId c3) channelId name mode], fresh, c3)))"

definition handleStreamClose :: "'d transport \<Rightarrow> inc_message \<Rightarrow> 'd client \<Rightarrow> server_event list \<times> 'd client" where
  "handleStreamClose T msg c =
     (if \<not> eof (msg_payload msg) then ([], c)
      else
        let (old, c1) = unregisterChannel (msg_channelID msg) c;
            (evs, c2) = send_client T (new_message INC_MSG_STREAM_CLOSE_ACK (msg_channelID msg) (msg_seqNum msg)) c1
        in (evs @ [StreamClosed (cn_connId c2) (msg_channelID msg)], c2))"

definition handleHandshake :: "'d transport \<Rightarrow> inc_message \<Rightarrow> 'd client \<Rightarrow> server_event list \<times> 'd client" where
  "handleHandshake T msg c =
     (case cn_handshake c of
        None \<Rightarrow> ([], c)
      | Some h \<Rightarrow>
          (let (response, h1) = processHandshake (m_data (msg_payload msg)) h; c1 = c\<lparr>cn_handshake := Some h1\<rparr> in
           if hk_state h1 = HS_COMPLETED then
             let ack = (new_message INC_MSG_HANDSHAKE_ACK (cn_connId c) (msg_seqNum msg))
                         \<lparr>msg_payload := setData response new_tag_struct\<rparr>;
                 (evs, c2) = send_client T ack c1
             in (evs, c2\<lparr>cn_peerName := hs_nodeName (hk_remoteData h1),
                       cn_peerProtocol := hs_protocolVersion (hk_remoteData h1)\<rparr>)
           else close_client T (c1\<lparr>cn_handshake := None\<rparr>)))"

definition expired :: "xint64 \<Rightarrow> inc_message \<Rightarrow> bool" where
  "expired now msg \<longleftrightarrow> msg_dts msg \<noteq> DTS_FOREVER \<and> msg_dts msg <s now"

definition onConnectionMessageReceived :: "'d server_env \<Rightarrow> server_options \<Rightarrow> mem_pool option \<Rightarrow> inc_message \<Rightarrow> xuint32 \<Rightarrow>
    'd client \<Rightarrow> (server_event list \<times> xuint32 \<times> 'd client) option" where
  "onConnectionMessageReceived E opts global msg counter c =
     (let T = se_transport E; quiet = (\<lambda>(evs, c1). Some (evs, counter, c1)) in
      if msg_type msg AND 1 \<noteq> 0 then Some ([], counter, c)
      else if expired (se_now E) msg then Some ([], counter, c)
      else if msg_type msg = INC_MSG_HANDSHAKE then quiet (handleHandshake T msg c)
      else if msg_type msg = INC_MSG_METHOD_CALL then quiet (handleMethodCall T msg c)
      else if msg_type msg = INC_MSG_STREAM_OPEN then handleStreamOpen E opts global msg counter c
      else if msg_type msg = INC_MSG_STREAM_CLOSE then quiet (handleStreamClose T msg c)
      else if msg_type msg = INC_MSG_SUBSCRIBE then quiet (handleSubscribeRequest T (se_allow E) msg c)
      else if msg_type msg = INC_MSG_UNSUBSCRIBE then quiet (handleUnsubscribeRequest T msg c)
      else if msg_type msg = INC_MSG_PING then quiet (send_client T (new_message INC_MSG_PONG (msg_channelID msg) (msg_seqNum msg)) c)
      else Some ([], counter, c))"

section \<open>The server\<close>

text \<open>The signals of a connection's protocol, in the order they are emitted.\<close>

fun dispatch :: "'d server_env \<Rightarrow> server_options \<Rightarrow> mem_pool option \<Rightarrow> proto_event list \<Rightarrow> xuint32 \<Rightarrow> 'd client \<Rightarrow>
    (server_event list \<times> xuint32 \<times> 'd client) option" where
  "dispatch E opts global [] counter c = Some ([], counter, c)"
| "dispatch E opts global (ev # rest) counter c =
     (case (case ev of
              MessageReceived msg \<Rightarrow> onConnectionMessageReceived E opts global msg counter c
            | ErrorOccurred code \<Rightarrow> (let (evs, c1) = close_client (se_transport E) c in Some (evs, counter, c1))
            | BinaryDataReceived channel seqNum broadcast pos data \<Rightarrow>
                (case onBinaryDataReceived (se_transport E) channel seqNum broadcast c of
                   None \<Rightarrow> None
                 | Some (Some ps, errs, c1) \<Rightarrow>
                     Some ([HandleBinaryData (cn_connId c1) channel seqNum broadcast pos data], counter, c1)
                 | Some (None, errs, c1) \<Rightarrow>
                     (let (evs, c2) = (if errs \<noteq> [] then close_client (se_transport E) c1 else ([], c1))
                      in Some (evs, counter, c2)))) of
        None \<Rightarrow> None
      | Some (evs, counter1, c1) \<Rightarrow>
          (case dispatch E opts global rest counter1 c1 of
             None \<Rightarrow> None
           | Some (evs', counter2, c2) \<Rightarrow> Some (evs @ evs', counter2, c2)))"

definition m_connections :: "'d server \<Rightarrow> (xuint32 \<times> 'd client) list" where
  "m_connections s = filter (\<lambda>(i, c). cn_open c) (sv_objects s)"

definition connection :: "xuint32 \<Rightarrow> 'd server \<Rightarrow> 'd client option" where
  "connection connId s = map_of (m_connections s) connId"

definition put_client :: "xuint32 \<Rightarrow> 'd client \<Rightarrow> 'd server \<Rightarrow> 'd server" where
  "put_client i c s = s\<lparr>sv_objects := map (\<lambda>(k, x). if k = i then (k, c) else (k, x)) (sv_objects s)\<rparr>"

text \<open>A call on a connection object; there is none for a number that is not in use.\<close>

definition on_client :: "xuint32 \<Rightarrow> ('d client \<Rightarrow> server_event list \<times> 'd client) \<Rightarrow> 'd server \<Rightarrow>
    (server_event list \<times> 'd server) option" where
  "on_client i f s =
     (case map_of (sv_objects s) i of
        None \<Rightarrow> Some ([], s)
      | Some c \<Rightarrow> (let (evs, c1) = f c in Some (evs, put_client i c1 s)))"

definition server_receive :: "'d server_env \<Rightarrow> xuint32 \<Rightarrow> inc_message \<Rightarrow> 'd server \<Rightarrow> (server_event list \<times> 'd server) option" where
  "server_receive E i msg s =
     (case map_of (sv_objects s) i of
        None \<Rightarrow> Some ([], s)
      | Some c \<Rightarrow>
          (let (pevs, p, d) = onMessageReceived (tr_device (se_transport E)) (se_import E) msg (cn_proto c) (cn_device c)
           in case dispatch E (sv_options s) (sv_globalPool s) pevs (sv_nextChannelId s) (c\<lparr>cn_proto := p, cn_device := d\<rparr>) of
                None \<Rightarrow> None
              | Some (evs, counter, c1) \<Rightarrow> Some (evs, put_client i c1 (s\<lparr>sv_nextChannelId := counter\<rparr>))))"

text \<open>A write event of the connection's device.\<close>

definition client_ready :: "'d transport \<Rightarrow> 'd client \<Rightarrow> server_event list \<times> 'd client" where
  "client_ready T c =
     (let (pevs, p, d) = onReadyWrite (tr_device T) (cn_proto c) (cn_device c); c1 = c\<lparr>cn_proto := p, cn_device := d\<rparr>
      in if error_codes pevs \<noteq> [] then close_client T c1 else ([], c1))"

text \<open>
  The loop of handleCustomer. An error while sending closes the connection and erases the
  loop's own iterator from m_connections, so its increment is undefined.
\<close>

fun broadcast_loop :: "'d transport \<Rightarrow> ustring \<Rightarrow> xuint16 \<Rightarrow> bytes \<Rightarrow> (xuint32 \<times> 'd client) list \<Rightarrow>
    (xuint32 \<times> 'd client) list option" where
  "broadcast_loop T eventName version data [] = Some []"
| "broadcast_loop T eventName version data ((i, c) # rest) =
     (if cn_open c \<and> isSubscribed eventName c then
        let (errs, c1) = sendEvent T eventName version data c in
        if errs \<noteq> [] then None
        else map_option ((#) (i, c1)) (broadcast_loop T eventName version data rest)
      else map_option ((#) (i, c)) (broadcast_loop T eventName version data rest))"

text \<open>broadcastEvent runs handleCustomer through a listening device, if there is one.\<close>

definition broadcastEvent :: "'d transport \<Rightarrow> ustring \<Rightarrow> xuint16 \<Rightarrow> bytes \<Rightarrow> 'd server \<Rightarrow> 'd server option" where
  "broadcastEvent T eventName version data s =
     (if \<not> sv_listening s then Some s
      else map_option (\<lambda>objs. s\<lparr>sv_objects := objs\<rparr>) (broadcast_loop T eventName version data (sv_objects s)))"

text \<open>
  handleNewConnection: started is the outcome of startEventMonitoring, nid a generated node
  id. After 2 ^ 32 numbers an object whose number is given again falls out of the map.
\<close>

definition handleNewConnection :: "'d \<Rightarrow> bool \<Rightarrow> ustring \<Rightarrow> 'd server \<Rightarrow> server_event list \<times> 'd server" where
  "handleNewConnection dev started nid s =
     (if so_maxConnections (sv_options s) > 0 \<and> int (length (m_connections s)) \<ge> so_maxConnections (sv_options s) then ([], s)
      else
        let connId = sv_nextChannelId s + 1; s1 = s\<lparr>sv_nextChannelId := connId\<rparr>;
            localData = new_handshake_data\<lparr>hs_nodeName := sv_name s,
              hs_protocolVersion := ucast (sc_protocolVersionCurrent (sv_options s)), hs_capabilities := CAP_STREAM\<rparr>;
            conn = (new_connection dev True connId)\<lparr>cn_handshake := Some (setLocalData nid localData (new_handshake nid ROLE_SERVER))\<rparr>
        in if \<not> started then ([], s1)
           else ([ClientConnected connId], s1\<lparr>sv_objects := (connId, conn) # filter (\<lambda>(k, _). k \<noteq> connId) (sv_objects s)\<rparr>))"

definition new_server :: "ustring \<Rightarrow> server_options \<Rightarrow> 'd server" where
  "new_server name opts = \<lparr>sv_name = name, sv_listening = False, sv_options = opts, sv_globalPool = None,
     sv_nextChannelId = 0, sv_objects = [], sv_ioThread = False, sv_leakedThreads = 0\<rparr>"

text \<open>close stops the I/O thread and deletes all connections, but only when the server listens.\<close>

definition server_close :: "'d server \<Rightarrow> 'd server" where
  "server_close s =
     (if \<not> sv_listening s then s
      else s\<lparr>sv_ioThread := False, sv_objects := [], sv_listening := False\<rparr>)"

text \<open>
  listenOn: devices is the number of the URL's parts that give a listening device. The type
  of a pool that could not be created is read all the same.
\<close>

definition pool_type_wanted :: "server_options \<Rightarrow> xuint16" where
  "pool_type_wanted opts =
     (if so_sharedMemoryType opts AND MEMTYPE_SHARED_MEMFD \<noteq> 0 then MEMTYPE_SHARED_MEMFD else MEMTYPE_SHARED_POSIX)"

definition listenOn :: "(xuint16 \<Rightarrow> mem_pool option) \<Rightarrow> ustring \<Rightarrow> nat \<Rightarrow> 'd server \<Rightarrow> (xint32 \<times> 'd server) option" where
  "listenOn create url devices s =
     (if sv_listening s then Some (INC_ERROR_INVALID_STATE, s)
      else if url = [] then Some (INC_ERROR_INVALID_ARGS, s)
      else
        case (if \<not> sc_disableSharedMemory (sv_options s) \<and> sv_globalPool s = None
              then map_option (\<lambda>m. s\<lparr>sv_globalPool := Some m\<rparr>) (create (pool_type_wanted (sv_options s)))
              else Some s) of
          None \<Rightarrow> None
        | Some s1 \<Rightarrow>
            let s2 = (if so_enableIOThread (sv_options s1)
                      then s1\<lparr>sv_leakedThreads := sv_leakedThreads s1 + (if sv_ioThread s1 then 1 else 0), sv_ioThread := True\<rparr> else s1)
            in if devices = 0 then Some (INC_ERROR_INVALID_ARGS, server_close s2)
               else Some (INC_OK, s2\<lparr>sv_listening := True\<rparr>))"

text \<open>The sums of dumpMetrics; the peak is the maximum.\<close>

definition add_metrics :: "inc_metrics \<Rightarrow> inc_metrics \<Rightarrow> inc_metrics" where
  "add_metrics a b = \<lparr>mt_messagesSent = mt_messagesSent a + mt_messagesSent b,
     mt_messagesReceived = mt_messagesReceived a + mt_messagesReceived b,
     mt_bytesSent = mt_bytesSent a + mt_bytesSent b, mt_bytesReceived = mt_bytesReceived a + mt_bytesReceived b,
     mt_binaryFramesSent = mt_binaryFramesSent a + mt_binaryFramesSent b,
     mt_binaryFramesRecv = mt_binaryFramesRecv a + mt_binaryFramesRecv b,
     mt_sendQueueDrops = mt_sendQueueDrops a + mt_sendQueueDrops b,
     mt_sendQueuePeak = (if mt_sendQueuePeak b > mt_sendQueuePeak a then mt_sendQueuePeak b else mt_sendQueuePeak a),
     mt_shmHits = mt_shmHits a + mt_shmHits b, mt_shmMisses = mt_shmMisses a + mt_shmMisses b,
     mt_operationsCreated = mt_operationsCreated a + mt_operationsCreated b,
     mt_operationsCompleted = mt_operationsCompleted a + mt_operationsCompleted b,
     mt_operationsTimeout = mt_operationsTimeout a + mt_operationsTimeout b\<rparr>"

definition server_metrics :: "'d server \<Rightarrow> inc_metrics \<times> nat" where
  "server_metrics s =
     (foldl add_metrics metrics_reset (map (\<lambda>(i, c). p_metrics (cn_proto c)) (m_connections s)), length (m_connections s))"

section \<open>Runs\<close>

datatype 'd server_cmd =
    SrvAccept 'd bool ustring
  | SrvReceive xuint32 inc_message
  | SrvReady xuint32
  | SrvDeviceError xuint32
  | SrvBroadcast ustring xuint16 bytes
  | SrvMethodReply xuint32 xuint32 xint32 bytes
  | SrvBinaryReply xuint32 xuint32 xuint32 bool xint32
  | SrvSendBinary xuint32 xuint32 xint64 bytes "shm_put option"
  | SrvCloseClient xuint32
  | SrvPurge
  | SrvClose

fun server_exec :: "'d server_env \<Rightarrow> 'd server_cmd \<Rightarrow> 'd server \<Rightarrow> (server_event list \<times> 'd server) option" where
  "server_exec E (SrvAccept dev started nid) s = Some (handleNewConnection dev started nid s)"
| "server_exec E (SrvReceive i msg) s = server_receive E i msg s"
| "server_exec E (SrvReady i) s = on_client i (client_ready (se_transport E)) s"
| "server_exec E (SrvDeviceError i) s = on_client i (close_client (se_transport E)) s"
| "server_exec E (SrvBroadcast name v data) s = map_option (Pair []) (broadcastEvent (se_transport E) name v data s)"
| "server_exec E (SrvMethodReply i sq code result) s = on_client i (sendMethodReply (se_transport E) sq code result) s"
| "server_exec E (SrvBinaryReply i ch sq bc n) s = on_client i (sendBinaryReply (se_transport E) ch sq bc n) s"
| "server_exec E (SrvSendBinary i ch pos data put) s =
     on_client i (\<lambda>c. snd (server_sendBinaryData (se_transport E) ch pos data put c)) s"
| "server_exec E (SrvCloseClient i) s = on_client i (close_client (se_transport E)) s"
| "server_exec E SrvPurge s = Some ([], s\<lparr>sv_objects := m_connections s\<rparr>)"
| "server_exec E SrvClose s = Some ([], server_close s)"

fun server_run :: "'d server_env \<Rightarrow> 'd server_cmd list \<Rightarrow> 'd server \<Rightarrow> (server_event list \<times> 'd server) option" where
  "server_run E [] s = Some ([], s)"
| "server_run E (cmd # cmds) s =
     (case server_exec E cmd s of
        None \<Rightarrow> None
      | Some (evs, s1) \<Rightarrow>
          (case server_run E cmds s1 of None \<Rightarrow> None | Some (evs', s2) \<Rightarrow> Some (evs @ evs', s2)))"

end
