(* ===== verification/Inc_Context.thy ===== *)
theory Inc_Context imports Inc_Server begin

text \<open>
  iINCContext (src/core/inc/iinccontext.cpp, iinccontext.h): a client's connection to a
  server or router, with its handshake, requests and reconnection. Calls between threads
  (invokeMethod) are direct calls, as they are without the I/O thread. The
  outcome of creating a transport is an argument: None, or the device and whether it is
  already open. None as a result is a failed assertion.
\<close>

section \<open>State\<close>

datatype ctx_state = CTX_READY | CTX_CONNECTING | CTX_AUTHORIZING | CTX_CONNECTED | CTX_FAILED | CTX_TERMINATED

record context_options = context_config +
  co_defaultServer :: ustring
  co_sharedMemoryType :: xuint16
  co_sharedMemoryName :: bytes
  co_sharedMemorySize :: xint32
  co_autoReconnect :: bool
  co_maxReconnectAttempts :: int
  co_protocolTimeoutMs :: int

text \<open>
  \<open>cx_timer\<close> says that the reconnect timer is armed, \<open>cx_pendingOps\<close> are the
  handshake operations in flight, by their number in the heap of the connection's protocol.
\<close>

record ('d, 'c) inc_context =
  cx_name :: ustring
  cx_config :: context_options
  cx_connection :: "('d, 'c) connection option"
  cx_state :: ctx_state
  cx_customState :: ctx_state
  cx_serverUrl :: ustring
  cx_routerUrl :: ustring
  cx_connectMode :: xuint32
  cx_timer :: bool
  cx_attempts :: int
  cx_pendingOps :: "nat list"

datatype 'c ctx_event =
    StateChanged ctx_state ctx_state
  | Disconnected
  | EventReceived ustring xuint16 bytes
  | ChannelData 'c xuint32 xuint32 bool xint64 bytes

definition new_context :: "ustring \<Rightarrow> context_options \<Rightarrow> ('d, 'c) inc_context" where
  "new_context name config = \<lparr>cx_name = name, cx_config = config, cx_connection = None, cx_state = CTX_READY,
     cx_customState = CTX_READY, cx_serverUrl = [], cx_routerUrl = [], cx_connectMode = 0, cx_timer = False,
     cx_attempts = 0, cx_pendingOps = []\<rparr>"

definition ctx_state_of :: "('d, 'c) inc_context \<Rightarrow> ctx_state" where
  "ctx_state_of x =
     (if cx_state x \<noteq> CTX_FAILED \<and> cx_state x \<noteq> CTX_TERMINATED then cx_state x
      else if cx_routerUrl x \<noteq> [] \<and> cx_connectMode x = 0x01 then CTX_CONNECTING
      else if co_autoReconnect (cx_config x) \<and> cx_attempts x < co_maxReconnectAttempts (cx_config x) then CTX_CONNECTING
      else cx_state x)"

definition ctx_setState :: "ctx_state \<Rightarrow> ('d, 'c) inc_context \<Rightarrow> 'c ctx_event list \<times> ('d, 'c) inc_context" where
  "ctx_setState newState x =
     (let x1 = x\<lparr>cx_state := newState\<rparr>; current = ctx_state_of x1 in
      if current = cx_customState x1 then ([], x1)
      else
        let previous = cx_customState x1; x2 = x1\<lparr>cx_customState := current\<rparr>;
            x3 = (if cx_state x2 = CTX_CONNECTED then x2\<lparr>cx_attempts := 0\<rparr> else x2)
        in ([StateChanged previous current], x3))"

definition connecting_or_connected :: "('d, 'c) inc_context \<Rightarrow> bool" where
  "connecting_or_connected x \<longleftrightarrow> cx_state x = CTX_CONNECTING \<or> cx_state x = CTX_CONNECTED \<or> cx_state x = CTX_AUTHORIZING"

section \<open>Closing and reconnecting\<close>

definition scheduleReconnect :: "('d, 'c) inc_context \<Rightarrow> ('d, 'c) inc_context" where
  "scheduleReconnect x =
     (let x1 = x\<lparr>cx_timer := False\<rparr>; armed = x1\<lparr>cx_timer := True\<rparr> in
      if cx_routerUrl x1 \<noteq> [] \<and> cx_connectMode x1 = 0x01 then armed
      else if \<not> co_autoReconnect (cx_config x1) \<or> cx_serverUrl x1 = [] then x1
      else if cx_attempts x1 \<ge> co_maxReconnectAttempts (cx_config x1) then x1
      else armed)"

text \<open>The operations in flight are cancelled from the last to the first.\<close>

fun cancel_pending :: "nat list \<Rightarrow> proto \<Rightarrow> proto" where
  "cancel_pending [] p = p"
| "cancel_pending (i # is) p = cancel_pending is (deref_op i (with_op i cancel p))"

definition doClose :: "'d transport \<Rightarrow> ctx_state \<Rightarrow> ('d, 'c) inc_context \<Rightarrow> 'c ctx_event list \<times> ('d, 'c) inc_context" where
  "doClose T st x =
     (if cx_state x = CTX_READY \<or> cx_state x = CTX_TERMINATED \<or> cx_state x = CTX_FAILED then ([], x)
      else
        let x1 = x\<lparr>cx_timer := False\<rparr>;
            conn = map_option (\<lambda>c. snd (conn_close T (c\<lparr>cn_proto := cancel_pending (rev (cx_pendingOps x1)) (cn_proto c)\<rparr>)))
                     (cx_connection x1);
            x2 = x1\<lparr>cx_pendingOps := [], cx_connection := None\<rparr>;
            (evs, x3) = ctx_setState st x2
        in (evs @ [Disconnected], x3))"

definition ctx_close :: "'d transport \<Rightarrow> ('d, 'c) inc_context \<Rightarrow> 'c ctx_event list \<times> ('d, 'c) inc_context" where
  "ctx_close T x = doClose T CTX_TERMINATED x"

definition ctx_onErrorOccurred :: "'d transport \<Rightarrow> ('d, 'c) inc_context \<Rightarrow> 'c ctx_event list \<times> ('d, 'c) inc_context" where
  "ctx_onErrorOccurred T x = (let (evs, x1) = doClose T CTX_FAILED x in (evs, scheduleReconnect x1))"

section \<open>Requests\<close>

text \<open>
  Sending on the context's connection; an error closes the context before the call
  returns. The operation returned is a handle of the caller.
\<close>

definition ctx_send :: "'d transport \<Rightarrow> inc_message \<Rightarrow> ('d, 'c) connection \<Rightarrow> ('d, 'c) inc_context \<Rightarrow>
    nat option \<times> 'c ctx_event list \<times> ('d, 'c) inc_context" where
  "ctx_send T msg c x =
     (let (op, errs, c1) = conn_sendMessage T msg c; x1 = x\<lparr>cx_connection := Some c1\<rparr>
      in if errs \<noteq> [] then (op, ctx_onErrorOccurred T x1) else (op, [], x1))"

text \<open>A change of an operation that is still reachable through the connection.\<close>

definition with_proto :: "(proto \<Rightarrow> proto) \<Rightarrow> ('d, 'c) inc_context \<Rightarrow> ('d, 'c) inc_context" where
  "with_proto f x = x\<lparr>cx_connection := map_option (\<lambda>c. c\<lparr>cn_proto := f (cn_proto c)\<rparr>) (cx_connection x)\<rparr>"

definition set_op_timeout :: "int \<Rightarrow> nat option \<Rightarrow> ('d, 'c) inc_context \<Rightarrow> ('d, 'c) inc_context" where
  "set_op_timeout ms op x = (case op of None \<Rightarrow> x | Some i \<Rightarrow> with_proto (with_op i (setTimeout ms)) x)"

text \<open>A request with the next sequence number, refused unless the context is connected.\<close>

definition ctx_request :: "'d transport \<Rightarrow> (('d, 'c) connection \<Rightarrow> xuint32 \<Rightarrow> inc_message) \<Rightarrow> ('d, 'c) inc_context \<Rightarrow>
    nat option \<times> 'c ctx_event list \<times> ('d, 'c) inc_context" where
  "ctx_request T msg x =
     (case cx_connection x of
        None \<Rightarrow> (None, [], x)
      | Some c \<Rightarrow>
          if cx_state x \<noteq> CTX_CONNECTED then (None, [], x)
          else (let (sq, c1) = conn_nextSequence c in ctx_send T (msg c sq) c1 x))"

text \<open>The deadline in nanoseconds of a call that may take some milliseconds from now.\<close>

definition deadline_after :: "xint64 \<Rightarrow> xint64 \<Rightarrow> xint64" where
  "deadline_after now msecs =
     (let t = sint now + sint (msecs * 1000000) in if t > 2 ^ 63 - 1 then DTS_FOREVER else word_of_int t)"

definition call_message :: "xuint32 \<Rightarrow> xuint32 \<Rightarrow> ustring \<Rightarrow> xuint16 \<Rightarrow> bytes \<Rightarrow> xint64 \<Rightarrow> inc_message" where
  "call_message connId sq method version args dts = (new_message INC_MSG_METHOD_CALL connId sq)
     \<lparr>msg_payload := putBytes args (putString method (putUint16 version new_tag_struct)), msg_dts := dts\<rparr>"

definition callMethod :: "'d transport \<Rightarrow> xint64 \<Rightarrow> ustring \<Rightarrow> xuint16 \<Rightarrow> bytes \<Rightarrow> xint64 \<Rightarrow> ('d, 'c) inc_context \<Rightarrow>
    nat option \<times> 'c ctx_event list \<times> ('d, 'c) inc_context" where
  "callMethod T now method version args timeout x =
     (let dts = (if 0 <s timeout then deadline_after now timeout else DTS_FOREVER);
          (op, evs, x1) = ctx_request T (\<lambda>c sq. call_message (cn_connId c) sq method version args dts) x
      in (op, evs, set_op_timeout (sint timeout) op x1))"

definition pattern_message :: "xuint16 \<Rightarrow> xuint32 \<Rightarrow> xuint32 \<Rightarrow> ustring \<Rightarrow> inc_message" where
  "pattern_message type connId sq pattern = (new_message type connId sq)\<lparr>msg_payload := putString pattern new_tag_struct\<rparr>"

definition subscribe :: "'d transport \<Rightarrow> ustring \<Rightarrow> ('d, 'c) inc_context \<Rightarrow> nat option \<times> 'c ctx_event list \<times> ('d, 'c) inc_context" where
  "subscribe T pattern x = ctx_request T (\<lambda>c sq. pattern_message INC_MSG_SUBSCRIBE (cn_connId c) sq pattern) x"

definition unsubscribe :: "'d transport \<Rightarrow> ustring \<Rightarrow> ('d, 'c) inc_context \<Rightarrow> nat option \<times> 'c ctx_event list \<times> ('d, 'c) inc_context" where
  "unsubscribe T pattern x = ctx_request T (\<lambda>c sq. pattern_message INC_MSG_UNSUBSCRIBE (cn_connId c) sq pattern) x"

definition ctx_pingpong :: "'d transport \<Rightarrow> ('d, 'c) inc_context \<Rightarrow> nat option \<times> 'c ctx_event list \<times> ('d, 'c) inc_context" where
  "ctx_pingpong T x =
     (let (op, evs, x1) = ctx_request T (\<lambda>c sq. new_message INC_MSG_PING (cn_connId c) sq) x
      in (op, evs, set_op_timeout (co_protocolTimeoutMs (cx_config x)) op x1))"

text \<open>The offer of shared memory in a channel request.\<close>

definition shm_offer :: "context_options \<Rightarrow> ('d, 'c) connection \<Rightarrow> (xuint16 \<times> bytes) option" where
  "shm_offer cfg c =
     (case cn_mempool c of
        Some m \<Rightarrow> Some (pool_type m, co_sharedMemoryName cfg)
      | None \<Rightarrow> if \<not> cc_disableSharedMemory cfg then Some (co_sharedMemoryType cfg, co_sharedMemoryName cfg) else None)"

definition open_message :: "xuint32 \<Rightarrow> xuint32 \<Rightarrow> ustring \<Rightarrow> xuint32 \<Rightarrow> (xuint16 \<times> bytes) option \<Rightarrow> inc_message" where
  "open_message connId sq name mode offer =
     (let base = putBool (offer \<noteq> None) (putUint32 mode (putString name new_tag_struct))
      in (new_message INC_MSG_STREAM_OPEN connId sq)
           \<lparr>msg_payload := (case offer of None \<Rightarrow> base | Some (types, shmName) \<Rightarrow> putBytes shmName (putUint16 types base))\<rparr>)"

definition requestChannel :: "'d transport \<Rightarrow> ustring \<Rightarrow> xuint32 \<Rightarrow> ('d, 'c) inc_context \<Rightarrow> nat option \<times> 'c ctx_event list \<times> ('d, 'c) inc_context" where
  "requestChannel T name mode x =
     (let (op, evs, x1) = ctx_request T (\<lambda>c sq. open_message (cn_connId c) sq name mode (shm_offer (cx_config x) c)) x
      in (op, evs, set_op_timeout (co_protocolTimeoutMs (cx_config x)) op x1))"

definition releaseChannel :: "'d transport \<Rightarrow> xuint32 \<Rightarrow> ('d, 'c) inc_context \<Rightarrow> nat option \<times> 'c ctx_event list \<times> ('d, 'c) inc_context" where
  "releaseChannel T channelId x =
     (let (op, evs, x1) = ctx_request T (\<lambda>c sq. new_message INC_MSG_STREAM_CLOSE channelId sq) x
      in (op, evs, set_op_timeout (co_protocolTimeoutMs (cx_config x)) op x1))"

text \<open>The operations that assert a connected context.\<close>

definition ctx_registerChannel :: "(ustring \<Rightarrow> bytes \<Rightarrow> xuint16 \<Rightarrow> mem_pool option) \<Rightarrow> xuint32 \<Rightarrow> 'c \<Rightarrow> xuint16 \<Rightarrow> bytes \<Rightarrow>
    ('d, 'c) inc_context \<Rightarrow> (xuint32 \<times> ('d, 'c) inc_context) option" where
  "ctx_registerChannel create channelId channel type shmName x =
     (case cx_connection x of
        None \<Rightarrow> None
      | Some c \<Rightarrow>
          if cx_state x \<noteq> CTX_CONNECTED then None
          else
            let useName = (if shmName = [] then co_sharedMemoryName (cx_config x) else shmName) in
            case (if type \<noteq> 0 \<and> cn_mempool c = None then conn_enableMempool (create (cx_name x) useName type) c else Some c) of
              None \<Rightarrow> None
            | Some c1 \<Rightarrow> (let (r, c2) = registerChannel channelId channel c1 in Some (r, x\<lparr>cx_connection := Some c2\<rparr>)))"

definition ctx_unregisterChannel :: "xuint32 \<Rightarrow> ('d, 'c) inc_context \<Rightarrow> ('d, 'c) inc_context option" where
  "ctx_unregisterChannel channelId x =
     (case cx_connection x of
        None \<Rightarrow> None
      | Some c \<Rightarrow>
          if cx_state x \<noteq> CTX_CONNECTED then None
          else Some (x\<lparr>cx_connection := Some (snd (unregisterChannel channelId c))\<rparr>))"

definition ctx_sendBinaryData :: "'d transport \<Rightarrow> xuint32 \<Rightarrow> xint64 \<Rightarrow> bytes \<Rightarrow> shm_put option \<Rightarrow> ('d, 'c) inc_context \<Rightarrow>
    (nat option \<times> 'c ctx_event list \<times> ('d, 'c) inc_context) option" where
  "ctx_sendBinaryData T channel pos data put x =
     (case cx_connection x of
        None \<Rightarrow> None
      | Some c \<Rightarrow>
          if cx_state x \<noteq> CTX_CONNECTED then None
          else
            let (op, errs, c1) = conn_sendBinaryData T channel pos data put c; x1 = x\<lparr>cx_connection := Some c1\<rparr>
            in Some (if errs \<noteq> [] then (op, ctx_onErrorOccurred T x1) else (op, [], x1)))"

definition ctx_ackDataReceived :: "'d transport \<Rightarrow> xuint32 \<Rightarrow> xuint32 \<Rightarrow> xint32 \<Rightarrow> ('d, 'c) inc_context \<Rightarrow>
    ('c ctx_event list \<times> ('d, 'c) inc_context) option" where
  "ctx_ackDataReceived T channel seqNum sz x =
     (case cx_connection x of
        None \<Rightarrow> None
      | Some c \<Rightarrow>
          if cx_state x \<noteq> CTX_CONNECTED then None
          else Some (snd (ctx_send T (code_reply INC_MSG_BINARY_DATA_ACK channel seqNum sz) c x)))"

section \<open>Connecting\<close>

text \<open>Sends the handshake and keeps its operation; the callback of one that has finished already drops it at once.\<close>

definition track_handshake :: "nat option \<Rightarrow> ('d, 'c) inc_context \<Rightarrow> ('d, 'c) inc_context" where
  "track_handshake op x =
     (case (op, cx_connection x) of
        (Some i, Some c) \<Rightarrow>
          (let x1 = with_proto (with_op i (setFinishedCallback True \<circ> setTimeout (co_protocolTimeoutMs (cx_config x)))) x
           in case p_heap (cn_proto c) i of
                Some o1 \<Rightarrow> if op_state o1 = STATE_RUNNING then x1\<lparr>cx_pendingOps := cx_pendingOps x1 @ [i]\<rparr> else with_proto (deref_op i) x1
              | None \<Rightarrow> x1)
      | _ \<Rightarrow> x)"

definition local_data :: "('d, 'c) inc_context \<Rightarrow> handshake_data" where
  "local_data x = new_handshake_data\<lparr>hs_nodeName := cx_name x,
     hs_protocolVersion := ucast (cc_protocolVersionCurrent (cx_config x)), hs_capabilities := CAP_STREAM,
     hs_targetServer := (if cx_connectMode x AND 0x0A \<noteq> 0 then cx_serverUrl x else []), hs_hopCount := 0\<rparr>"

definition handshake_message :: "xuint32 \<Rightarrow> xuint32 \<Rightarrow> bytes \<Rightarrow> inc_message" where
  "handshake_message connId sq data = (new_message INC_MSG_HANDSHAKE connId sq)\<lparr>msg_payload := setData data new_tag_struct\<rparr>"

definition INC_ERROR_ALREADY_CONNECTED :: xint32 where "INC_ERROR_ALREADY_CONNECTED = 0x8008"
definition INC_ERROR_CONNECTION_FAILED :: xint32 where "INC_ERROR_CONNECTION_FAILED = 0x8001"

definition doConnect :: "'d transport \<Rightarrow> ('d \<times> bool) option \<Rightarrow> ustring \<Rightarrow> ('d, 'c) inc_context \<Rightarrow>
    xint32 \<times> 'c ctx_event list \<times> ('d, 'c) inc_context" where
  "doConnect T dev nid x =
     (if connecting_or_connected x then (INC_ERROR_ALREADY_CONNECTED, [], x)
      else
        let (evs, x1) = ctx_setState CTX_CONNECTING x in
        case dev of
          None \<Rightarrow> (let (evs', x2) = ctx_setState CTX_FAILED x1 in (INC_ERROR_CONNECTION_FAILED, evs @ evs', scheduleReconnect x2))
        | Some (d, opened) \<Rightarrow>
            let (hello, h) = start (setLocalData nid (local_data x1) (new_handshake nid ROLE_CLIENT));
                c = (new_connection d opened 0)\<lparr>cn_handshake := Some h\<rparr>;
                (sq, c1) = conn_nextSequence c;
                (op, evs', x2) = ctx_send T (handshake_message 0 sq hello) c1 x1
            in (INC_OK, evs @ evs', track_handshake op x2))"

definition connectTo :: "'d transport \<Rightarrow> ('d \<times> bool) option \<Rightarrow> ustring \<Rightarrow> ustring \<Rightarrow> ustring \<Rightarrow> ('d, 'c) inc_context \<Rightarrow>
    xint32 \<times> 'c ctx_event list \<times> ('d, 'c) inc_context" where
  "connectTo T dev nid serverUrl routerUrl x =
     (if connecting_or_connected x then (INC_ERROR_ALREADY_CONNECTED, [], x)
      else
        let server = (if serverUrl = [] then co_defaultServer (cx_config x) else serverUrl) in
        if server = [] then (INC_ERROR_INVALID_ARGS, [], x)
        else doConnect T dev nid (x\<lparr>cx_serverUrl := server, cx_routerUrl := routerUrl, cx_connectMode := 0x01\<rparr>))"

text \<open>The reconnect timer fires: the other URL is tried as long as none has worked.\<close>

definition ctx_timer_event :: "'d transport \<Rightarrow> (ustring \<Rightarrow> ('d \<times> bool) option) \<Rightarrow> ustring \<Rightarrow> ('d, 'c) inc_context \<Rightarrow>
    'c ctx_event list \<times> ('d, 'c) inc_context" where
  "ctx_timer_event T transport_for nid x =
     (if \<not> cx_timer x then ([], x)
      else
        let x1 = x\<lparr>cx_timer := False, cx_attempts := cx_attempts x + 1\<rparr>;
            x2 = (if cx_connectMode x1 AND 0x0C = 0 \<and> cx_routerUrl x1 \<noteq> []
                  then x1\<lparr>cx_connectMode := cx_connectMode x1 XOR 0x03\<rparr> else x1);
            url = (if cx_connectMode x2 AND 0x0A \<noteq> 0 then cx_routerUrl x2 else cx_serverUrl x2);
            (code, evs, x3) = doConnect T (transport_for url) nid x2
        in (evs, if code \<noteq> INC_OK then scheduleReconnect x3 else x3))"

section \<open>Messages in\<close>

definition event_payload :: "tag_struct \<Rightarrow> (xuint16 \<times> ustring \<times> bytes) option" where
  "event_payload ts =
     (case getUint16 ts of (Some version, t1) \<Rightarrow>
       (case getString t1 of (Some name, t2) \<Rightarrow>
         (case getBytes t2 of (Some data, t3) \<Rightarrow> if eof t3 then Some (version, name, data) else None
          | _ \<Rightarrow> None) | _ \<Rightarrow> None) | _ \<Rightarrow> None)"

definition handleEvent :: "inc_message \<Rightarrow> 'c ctx_event list" where
  "handleEvent msg = (case event_payload (msg_payload msg) of None \<Rightarrow> [] | Some (version, name, data) \<Rightarrow> [EventReceived name version data])"

definition ctx_handleHandshakeAck :: "'d transport \<Rightarrow> inc_message \<Rightarrow> ('d, 'c) connection \<Rightarrow> ('d, 'c) inc_context \<Rightarrow>
    'c ctx_event list \<times> ('d, 'c) inc_context" where
  "ctx_handleHandshakeAck T msg c x =
     (case cn_handshake c of
        None \<Rightarrow> ([], x)
      | Some h \<Rightarrow>
          if hk_state h = HS_COMPLETED then ([], x)
          else
            let (out, h1) = processHandshake (m_data (msg_payload msg)) h in
            if hk_state h1 = HS_FAILED then
              (let (evs, x1) = doClose T CTX_FAILED (x\<lparr>cx_connection := Some (c\<lparr>cn_handshake := None\<rparr>)\<rparr>)
               in (evs, scheduleReconnect x1))
            else
              let c1 = c\<lparr>cn_handshake := Some h1, cn_connId := msg_channelID msg,
                       cn_peerName := hs_nodeName (hk_remoteData h1), cn_peerProtocol := hs_protocolVersion (hk_remoteData h1)\<rparr>;
                  mode = (if cx_connectMode x = 0x01 then 0x04 else if cx_connectMode x = 0x02 then 0x08 else cx_connectMode x)
              in ctx_setState CTX_CONNECTED (x\<lparr>cx_connection := Some c1, cx_connectMode := mode\<rparr>))"

definition ctx_onMessageReceived :: "'d transport \<Rightarrow> xint64 \<Rightarrow> inc_message \<Rightarrow> ('d, 'c) connection \<Rightarrow> ('d, 'c) inc_context \<Rightarrow>
    'c ctx_event list \<times> ('d, 'c) inc_context" where
  "ctx_onMessageReceived T now msg c x =
     (if msg_type msg AND 1 \<noteq> 0 \<and> msg_type msg \<noteq> INC_MSG_HANDSHAKE_ACK then ([], x)
      else if expired now msg then ([], x)
      else if msg_type msg = INC_MSG_HANDSHAKE_ACK then ctx_handleHandshakeAck T msg c x
      else if msg_type msg = INC_MSG_EVENT then (handleEvent msg, x)
      else if msg_type msg = INC_MSG_PING then snd (ctx_send T (new_message INC_MSG_PONG (msg_channelID msg) (msg_seqNum msg)) c x)
      else ([], x))"

text \<open>The finished callback of a handshake operation that is done, failed or cancelled only forgets it.\<close>

definition finished_op :: "proto \<Rightarrow> nat \<Rightarrow> bool" where
  "finished_op p i \<longleftrightarrow> (case p_heap p i of Some o1 \<Rightarrow> op_state o1 \<noteq> STATE_RUNNING | None \<Rightarrow> True)"

definition reap :: "('d, 'c) inc_context \<Rightarrow> ('d, 'c) inc_context" where
  "reap x =
     (case cx_connection x of
        None \<Rightarrow> x
      | Some c \<Rightarrow>
          let done = filter (finished_op (cn_proto c)) (cx_pendingOps x)
          in (with_proto (fold deref_op done) x)\<lparr>cx_pendingOps := filter (\<lambda>i. \<not> finished_op (cn_proto c) i) (cx_pendingOps x)\<rparr>)"

text \<open>A message from the device; None is an undefined delivery of broadcast data.\<close>

definition ctx_receive :: "'d transport \<Rightarrow> importer \<Rightarrow> xint64 \<Rightarrow> inc_message \<Rightarrow> ('d, 'c) inc_context \<Rightarrow>
    ('c ctx_event list \<times> ('d, 'c) inc_context) option" where
  "ctx_receive T imp now msg x =
     (case cx_connection x of
        None \<Rightarrow> Some ([], x)
      | Some c \<Rightarrow>
          (let (pevs, p, d) = onMessageReceived (tr_device T) imp msg (cn_proto c) (cn_device c);
               c1 = c\<lparr>cn_proto := p, cn_device := d\<rparr>; x1 = reap (x\<lparr>cx_connection := Some c1\<rparr>)
           in case cx_connection x1 of None \<Rightarrow> Some ([], x1) | Some c2 \<Rightarrow>
             (case pevs of
                MessageReceived m # _ \<Rightarrow> Some (ctx_onMessageReceived T now m c2 x1)
              | BinaryDataReceived channel seqNum broadcast pos data # _ \<Rightarrow>
                  (case onBinaryDataReceived T channel seqNum broadcast c2 of
                     None \<Rightarrow> None
                   | Some (Some ch, errs, c3) \<Rightarrow> Some ([ChannelData ch channel seqNum broadcast pos data], x1)
                   | Some (None, errs, c3) \<Rightarrow>
                       Some (if errs \<noteq> [] then ctx_onErrorOccurred T (x1\<lparr>cx_connection := Some c3\<rparr>)
                             else ([], x1\<lparr>cx_connection := Some c3\<rparr>)))
              | ErrorOccurred code # _ \<Rightarrow> Some (ctx_onErrorOccurred T x1)
              | [] \<Rightarrow> Some ([], x1))))"

text \<open>
  The alarm of handshake operation i: onHandshakeTimeout after the operation has left its
  running state with a timeout. The handshake is sent again while attempts remain.
\<close>

definition ctx_handshake_timeout :: "'d transport \<Rightarrow> nat \<Rightarrow> ('d, 'c) inc_context \<Rightarrow> ('c ctx_event list \<times> ('d, 'c) inc_context) option" where
  "ctx_handshake_timeout T i x =
     (if i \<notin> set (cx_pendingOps x) then Some ([], x)
      else
        let x1 = (with_proto (deref_op i \<circ> with_op i onTimeout) x)\<lparr>cx_pendingOps := remove1 i (cx_pendingOps x)\<rparr> in
        case cx_connection x1 of
          None \<Rightarrow> Some ([], x1)
        | Some c \<Rightarrow>
            (case cn_handshake c of
               None \<Rightarrow> Some ([], x1)
             | Some h \<Rightarrow>
                 if \<not> co_autoReconnect (cx_config x1) \<or> hk_state h = HS_COMPLETED then Some ([], x1)
                 else if cx_attempts x1 \<ge> co_maxReconnectAttempts (cx_config x1) then Some (doClose T CTX_FAILED x1)
                 else
                   let (hello, h1) = start h in
                   if hello = [] then None
                   else
                     let (sq, c1) = conn_nextSequence (c\<lparr>cn_handshake := Some h1\<rparr>);
                         (op, evs, x2) = ctx_send T (handshake_message (cn_connId c) sq hello) c1 (x1\<lparr>cx_attempts := cx_attempts x1 + 1\<rparr>)
                     in Some (evs, track_handshake op x2)))"

section \<open>Runs\<close>

text \<open>
  What can happen to a context: calls of its user, the opening, messages, write events and errors
  of the device, the reconnect timer and the alarm of a handshake operation.
\<close>

datatype ('d, 'c) ctx_cmd =
    CtxConnect ustring ustring "('d \<times> bool) option" ustring
  | CtxClose
  | CtxTimer "ustring \<Rightarrow> ('d \<times> bool) option" ustring
  | CtxReceive inc_message
  | CtxReady
  | CtxDeviceError
  | CtxHandshakeTimeout nat
  | CtxCall ustring xuint16 bytes xint64
  | CtxSubscribe ustring
  | CtxUnsubscribe ustring
  | CtxPing
  | CtxRequestChannel ustring xuint32
  | CtxReleaseChannel xuint32
  | CtxRegisterChannel xuint32 'c xuint16 bytes
  | CtxUnregisterChannel xuint32
  | CtxSendBinary xuint32 xint64 bytes "shm_put option"
  | CtxAckData xuint32 xuint32 xint32
  | CtxOpened 'd

record 'd ctx_env =
  ce_transport :: "'d transport"
  ce_import :: importer
  ce_createPool :: "ustring \<Rightarrow> bytes \<Rightarrow> xuint16 \<Rightarrow> mem_pool option"
  ce_now :: xint64

definition ctx_ready :: "'d transport \<Rightarrow> ('d, 'c) inc_context \<Rightarrow> 'c ctx_event list \<times> ('d, 'c) inc_context" where
  "ctx_ready T x =
     (case cx_connection x of
        None \<Rightarrow> ([], x)
      | Some c \<Rightarrow>
          (let (pevs, p, d) = onReadyWrite (tr_device T) (cn_proto c) (cn_device c);
               x1 = x\<lparr>cx_connection := Some (c\<lparr>cn_proto := p, cn_device := d\<rparr>)\<rparr>
           in if error_codes pevs \<noteq> [] then ctx_onErrorOccurred T x1 else ([], x1)))"

text \<open>The transport's connection completes: the device, in its new state, is open and the queue is sent.\<close>

definition ctx_opened :: "'d transport \<Rightarrow> 'd \<Rightarrow> ('d, 'c) inc_context \<Rightarrow> 'c ctx_event list \<times> ('d, 'c) inc_context" where
  "ctx_opened T dev x =
     (case cx_connection x of
        None \<Rightarrow> ([], x)
      | Some c \<Rightarrow>
          (let (pevs, p, d) = onDeviceConnected (tr_device T) (cn_proto c) dev;
               x1 = x\<lparr>cx_connection := Some (c\<lparr>cn_proto := p, cn_device := d, cn_open := True\<rparr>)\<rparr>
           in if error_codes pevs \<noteq> [] then ctx_onErrorOccurred T x1 else ([], x1)))"

fun ctx_exec :: "'d ctx_env \<Rightarrow> ('d, 'c) ctx_cmd \<Rightarrow> ('d, 'c) inc_context \<Rightarrow> ('c ctx_event list \<times> ('d, 'c) inc_context) option" where
  "ctx_exec E (CtxConnect server router dev nid) x = Some (snd (connectTo (ce_transport E) dev nid server router x))"
| "ctx_exec E CtxClose x = Some (ctx_close (ce_transport E) x)"
| "ctx_exec E (CtxTimer transport_for nid) x = Some (ctx_timer_event (ce_transport E) transport_for nid x)"
| "ctx_exec E (CtxReceive msg) x = ctx_receive (ce_transport E) (ce_import E) (ce_now E) msg x"
| "ctx_exec E CtxReady x = Some (ctx_ready (ce_transport E) x)"
| "ctx_exec E CtxDeviceError x = Some (if cx_connection x = None then ([], x) else ctx_onErrorOccurred (ce_transport E) x)"
| "ctx_exec E (CtxHandshakeTimeout i) x = ctx_handshake_timeout (ce_transport E) i x"
| "ctx_exec E (CtxCall method version args timeout) x = Some (snd (callMethod (ce_transport E) (ce_now E) method version args timeout x))"
| "ctx_exec E (CtxSubscribe pattern) x = Some (snd (subscribe (ce_transport E) pattern x))"
| "ctx_exec E (CtxUnsubscribe pattern) x = Some (snd (unsubscribe (ce_transport E) pattern x))"
| "ctx_exec E CtxPing x = Some (snd (ctx_pingpong (ce_transport E) x))"
| "ctx_exec E (CtxRequestChannel name mode) x = Some (snd (requestChannel (ce_transport E) name mode x))"
| "ctx_exec E (CtxReleaseChannel ch) x = Some (snd (releaseChannel (ce_transport E) ch x))"
| "ctx_exec E (CtxRegisterChannel ch c type shmName) x =
     map_option (\<lambda>(r, x1). ([], x1)) (ctx_registerChannel (ce_createPool E) ch c type shmName x)"
| "ctx_exec E (CtxUnregisterChannel ch) x = map_option (Pair []) (ctx_unregisterChannel ch x)"
| "ctx_exec E (CtxSendBinary ch pos data put) x = map_option snd (ctx_sendBinaryData (ce_transport E) ch pos data put x)"
| "ctx_exec E (CtxAckData ch sq n) x = ctx_ackDataReceived (ce_transport E) ch sq n x"
| "ctx_exec E (CtxOpened dev) x = Some (ctx_opened (ce_transport E) dev x)"

fun ctx_run :: "'d ctx_env \<Rightarrow> ('d, 'c) ctx_cmd list \<Rightarrow> ('d, 'c) inc_context \<Rightarrow> ('c ctx_event list \<times> ('d, 'c) inc_context) option" where
  "ctx_run E [] x = Some ([], x)"
| "ctx_run E (cmd # cmds) x =
     (case ctx_exec E cmd x of
        None \<Rightarrow> None
      | Some (evs, x1) \<Rightarrow> (case ctx_run E cmds x1 of None \<Rightarrow> None | Some (evs', x2) \<Rightarrow> Some (evs @ evs', x2)))"

end
