(* ===== verification/Inc_Channel.thy ===== *)
theory Inc_Channel imports Inc_Context begin

text \<open>
  iINCStream (src/core/inc/iincstream.cpp, iincstream.h): the client's end of a stream, over its
  context. The channel object in the context's map is the stream itself, so the map's values
  are of type unit. The stream's callbacks run when one of its operations leaves the running
  state: inside the context's step, before the state changes it announces. None is a failed
  assertion.
\<close>

section \<open>State\<close>

datatype stream_state = STREAM_DETACHED | STREAM_ATTACHING | STREAM_ATTACHED | STREAM_DETACHING

definition MODE_NONE :: xuint32 where "MODE_NONE = 0"
definition MODE_READWRITE :: xuint32 where "MODE_READWRITE = MODE_READ OR MODE_WRITE"

text \<open>Which callback an operation has.\<close>

datatype stream_callback = onChannelAllocated | onChannelReleased

record inc_stream =
  st_name :: ustring
  st_state :: stream_state
  st_customState :: stream_state
  st_mode :: xuint32
  st_channelId :: xuint32
  st_timer :: bool
  st_attempts :: int
  st_maxAttempts :: int
  st_pendingOps :: "(nat \<times> stream_callback) list"

datatype stream_event =
    StreamStateChanged stream_state stream_state
  | DataReceived xuint32 bool xint64 bytes
  | StreamError int

type_synonym 'd client_context = "('d, unit) inc_context"

definition new_stream :: "ustring \<Rightarrow> context_options \<Rightarrow> inc_stream" where
  "new_stream name config = \<lparr>st_name = name, st_state = STREAM_DETACHED, st_customState = STREAM_DETACHED, st_mode = MODE_NONE,
     st_channelId = 0, st_timer = False, st_attempts = 0, st_maxAttempts = co_maxReconnectAttempts config, st_pendingOps = []\<rparr>"

text \<open>The state reported, given the state the context reports.\<close>

definition stream_state_of :: "ctx_state \<Rightarrow> inc_stream \<Rightarrow> stream_state" where
  "stream_state_of cs st =
     (if st_state st \<noteq> STREAM_DETACHED \<and> st_state st \<noteq> STREAM_DETACHING then st_state st
      else if st_mode st AND MODE_READWRITE \<noteq> 0 \<and> st_attempts st < st_maxAttempts st \<and> cs \<noteq> CTX_FAILED \<and> cs \<noteq> CTX_TERMINATED
      then STREAM_ATTACHING
      else st_state st)"

definition stream_setState :: "ctx_state \<Rightarrow> stream_state \<Rightarrow> inc_stream \<Rightarrow> stream_event list \<times> inc_stream" where
  "stream_setState cs newState st =
     (let s1 = st\<lparr>st_state := newState\<rparr>; current = stream_state_of cs s1 in
      if current = st_customState s1 then ([], s1)
      else
        let previous = st_customState s1; s2 = s1\<lparr>st_customState := current\<rparr>;
            s3 = (if st_state s2 = STREAM_ATTACHED then s2\<lparr>st_attempts := 0\<rparr> else s2)
        in ([StreamStateChanged previous current], s3))"

definition stream_scheduleReconnect :: "ctx_state \<Rightarrow> inc_stream \<Rightarrow> inc_stream" where
  "stream_scheduleReconnect cs st =
     (let s1 = st\<lparr>st_timer := False\<rparr> in
      if st_mode s1 AND MODE_READWRITE = 0 \<or> st_attempts s1 \<ge> st_maxAttempts s1 \<or> cs = CTX_FAILED \<or> cs = CTX_TERMINATED
      then s1 else s1\<lparr>st_timer := True\<rparr>)"

text \<open>Every operation is cancelled without its callback, from the last to the first.\<close>

definition cleanupPendingOps :: "'d client_context \<Rightarrow> inc_stream \<Rightarrow> 'd client_context \<times> inc_stream" where
  "cleanupPendingOps x st =
     (with_proto (\<lambda>p. foldr (\<lambda>(i, k) q. deref_op i (with_op i (cancel \<circ> setFinishedCallback False) q)) (st_pendingOps st) p) x,
      st\<lparr>st_pendingOps := []\<rparr>)"

section \<open>Callbacks\<close>

text \<open>How an operation ended: its state, error code and result.\<close>

record op_end =
  oe_state :: op_state
  oe_code :: int
  oe_result :: bytes

definition forget_op :: "nat \<Rightarrow> 'd client_context \<Rightarrow> inc_stream \<Rightarrow> 'd client_context \<times> inc_stream" where
  "forget_op i x st =
     (if i \<in> fst ` set (st_pendingOps st)
      then (with_proto (deref_op i) x, st\<lparr>st_pendingOps := filter (\<lambda>(j, k). j \<noteq> i) (st_pendingOps st)\<rparr>) else (x, st))"

text \<open>The reply's fields: the channel, and the shared memory granted if any (None: not parsed).\<close>

definition allocation_payload :: "tag_struct \<Rightarrow> (xuint32 \<times> (xuint16 \<times> bytes \<times> xint32) option) option" where
  "allocation_payload ts =
     (case getUint32 ts of (Some channelId, t1) \<Rightarrow>
       (case getBool t1 of (Some negotiated, t2) \<Rightarrow>
          Some (channelId,
            (if \<not> negotiated then None
             else (case getUint16 t2 of (Some type, t3) \<Rightarrow>
                    (if type = 0 then None
                     else (case getBytes t3 of (Some shmName, t4) \<Rightarrow>
                            (case getInt32 t4 of (Some shmSize, t5) \<Rightarrow> if eof t5 then Some (type, shmName, shmSize) else None
                             | _ \<Rightarrow> None) | _ \<Rightarrow> None)) | _ \<Rightarrow> None)))
        | _ \<Rightarrow> None) | _ \<Rightarrow> None)"

text \<open>cs is the state the context reports while the callback runs.\<close>

definition channel_allocated :: "(ustring \<Rightarrow> bytes \<Rightarrow> xuint16 \<Rightarrow> mem_pool option) \<Rightarrow> ctx_state \<Rightarrow> nat \<Rightarrow> op_end \<Rightarrow> 'd client_context \<Rightarrow>
    inc_stream \<Rightarrow> (stream_event list \<times> 'd client_context \<times> inc_stream) option" where
  "channel_allocated create cs i oe x0 st0 =
     (let (x, st) = forget_op i x0 st0 in
      if oe_state oe = STATE_FAILED \<or> oe_state oe = STATE_TIMEOUT then
        (let (evs, s1) = stream_setState cs STREAM_DETACHED st
         in Some (evs @ [StreamError (oe_code oe)], x, stream_scheduleReconnect cs s1))
      else if oe_state oe \<noteq> STATE_DONE then Some ([], x, st)
      else
        (case allocation_payload (setData (oe_result oe) new_tag_struct) of
           None \<Rightarrow>
             (let (evs, s1) = stream_setState cs STREAM_DETACHED st
              in Some (evs @ [StreamError (sint INC_ERROR_INVALID_MESSAGE)], x, s1))
         | Some (channelId, shm) \<Rightarrow>
             if st_state st \<noteq> STREAM_ATTACHING then None
             else
               let s1 = st\<lparr>st_channelId := channelId\<rparr>;
                   (type, shmName) = (case shm of None \<Rightarrow> (0, []) | Some (t, nm, sz) \<Rightarrow> (t, nm))
               in case ctx_registerChannel create channelId () type shmName x of
                    None \<Rightarrow> None
                  | Some (r, x1) \<Rightarrow> (let (evs, s2) = stream_setState cs STREAM_ATTACHED s1 in Some (evs, x1, s2))))"

text \<open>
  While the context closes its connection under the callback, that connection is still registered
  with it (closing), though already gone from x: unregistering from it has no lasting effect.
\<close>

definition channel_released :: "bool \<Rightarrow> ctx_state \<Rightarrow> nat \<Rightarrow> op_end \<Rightarrow> 'd client_context \<Rightarrow> inc_stream \<Rightarrow>
    (stream_event list \<times> 'd client_context \<times> inc_stream) option" where
  "channel_released closing cs i oe x0 st0 =
     (let (x, st) = forget_op i x0 st0 in
      if oe_state oe = STATE_CANCELLED then Some ([], x, st)
      else if st_state st \<noteq> STREAM_DETACHING then None
      else
        (case (if closing then Some x else ctx_unregisterChannel (st_channelId st) x) of
           None \<Rightarrow> None
         | Some x1 \<Rightarrow>
             (let (evs, s1) = stream_setState cs STREAM_DETACHED (st\<lparr>st_mode := MODE_NONE, st_channelId := 0\<rparr>) in Some (evs, x1, s1))))"

definition run_stream_callback :: "'d ctx_env \<Rightarrow> bool \<Rightarrow> ctx_state \<Rightarrow> nat \<Rightarrow> stream_callback \<Rightarrow> op_end \<Rightarrow> 'd client_context \<Rightarrow> inc_stream \<Rightarrow>
    (stream_event list \<times> 'd client_context \<times> inc_stream) option" where
  "run_stream_callback E closing cs i k oe x st =
     (case k of onChannelAllocated \<Rightarrow> channel_allocated (ce_createPool E) cs i oe x st
      | onChannelReleased \<Rightarrow> channel_released closing cs i oe x st)"

definition onContextStateChanged :: "ctx_state \<Rightarrow> 'd client_context \<Rightarrow> inc_stream \<Rightarrow> stream_event list \<times> 'd client_context \<times> inc_stream" where
  "onContextStateChanged current x st =
     (if current = CTX_CONNECTED then ([], x, stream_scheduleReconnect current st)
      else
        let s1 = (if current = CTX_FAILED \<or> current = CTX_TERMINATED then stream_scheduleReconnect current st else st);
            (x1, s2) = cleanupPendingOps x s1;
            (evs, s3) = stream_setState current STREAM_DETACHED s2
        in (evs, x1, s3\<lparr>st_channelId := 0\<rparr>))"

section \<open>What a step of the context does to the stream\<close>

definition op_ended :: "operation \<Rightarrow> op_end" where
  "op_ended o1 = \<lparr>oe_state = op_state o1, oe_code = op_errorCode o1, oe_result = op_resultData o1\<rparr>"

text \<open>
  How operation i stands after a step of the context that began, or sent its last message, on
  connection c: None while it is running. When the step has closed the connection, closing fails
  the operation, or its later destruction cancels it (the stream's reference keeps it in the heap;
  none that is not there would be taken for cancelled).
\<close>

definition op_fate :: "'d transport \<Rightarrow> ('d, unit) connection option \<Rightarrow> 'd client_context \<Rightarrow> nat \<Rightarrow> op_end option" where
  "op_fate T c x i =
     (case cx_connection x of
        Some c1 \<Rightarrow>
          (case p_heap (cn_proto c1) i of
             None \<Rightarrow> None
           | Some o1 \<Rightarrow> if op_state o1 = STATE_RUNNING then None else Some (op_ended o1))
      | None \<Rightarrow>
          (case map_option (\<lambda>c0. p_heap (cn_proto (snd (conn_close T c0))) i) c of
             Some (Some o1) \<Rightarrow> Some (op_ended (cancel o1))
           | _ \<Rightarrow> Some \<lparr>oe_state = STATE_CANCELLED, oe_code = 0, oe_result = []\<rparr>))"

fun run_callbacks :: "'d ctx_env \<Rightarrow> ctx_state \<Rightarrow> ('d, unit) connection option \<Rightarrow> (nat \<times> stream_callback) list \<Rightarrow> 'd client_context \<Rightarrow>
    inc_stream \<Rightarrow> (stream_event list \<times> 'd client_context \<times> inc_stream) option" where
  "run_callbacks E cs c [] x st = Some ([], x, st)"
| "run_callbacks E cs c ((i, k) # ops) x st =
     (case op_fate (ce_transport E) c x i of
        None \<Rightarrow> run_callbacks E cs c ops x st
      | Some oe \<Rightarrow>
          (case run_stream_callback E (cx_connection x = None) cs i k oe x st of
             None \<Rightarrow> None
           | Some (evs, x1, s1) \<Rightarrow>
               (case run_callbacks E cs c ops x1 s1 of None \<Rightarrow> None | Some (evs', x2, s2) \<Rightarrow> Some (evs @ evs', x2, s2))))"

fun on_ctx_events :: "unit ctx_event list \<Rightarrow> 'd client_context \<Rightarrow> inc_stream \<Rightarrow> stream_event list \<times> 'd client_context \<times> inc_stream" where
  "on_ctx_events [] x st = ([], x, st)"
| "on_ctx_events (StateChanged previous current # evs) x st =
     (let (e1, x1, s1) = onContextStateChanged current x st; (e2, x2, s2) = on_ctx_events evs x1 s1 in (e1 @ e2, x2, s2))"
| "on_ctx_events (ChannelData channel ch seqNum broadcast pos data # evs) x st =
     (let (e2, x2, s2) = on_ctx_events evs x st in (DataReceived seqNum broadcast pos data # e2, x2, s2))"
| "on_ctx_events (_ # evs) x st = on_ctx_events evs x st"

text \<open>From x to x1, with the events cevs: first the operations that have ended, then the context's signals.\<close>

definition after_context :: "'d ctx_env \<Rightarrow> 'd client_context \<Rightarrow> unit ctx_event list \<Rightarrow> 'd client_context \<Rightarrow> inc_stream \<Rightarrow>
    (stream_event list \<times> 'd client_context \<times> inc_stream) option" where
  "after_context E x cevs x1 st =
     (case run_callbacks E (ctx_state_of x) (cx_connection x) (st_pendingOps st) x1 st of
        None \<Rightarrow> None
      | Some (e1, x2, s2) \<Rightarrow> (let (e2, x3, s3) = on_ctx_events cevs x2 s2 in Some (e1 @ e2, x3, s3)))"

section \<open>Attaching and detaching\<close>

text \<open>The connection as it was when a request had been sent on it, and its error signalled.\<close>

definition request_conn :: "'d transport \<Rightarrow> (('d, unit) connection \<Rightarrow> xuint32 \<Rightarrow> inc_message) \<Rightarrow> 'd client_context \<Rightarrow> ('d, unit) connection option" where
  "request_conn T msg x =
     (case cx_connection x of
        None \<Rightarrow> None
      | Some c \<Rightarrow> (let (sq, c1) = conn_nextSequence c; (op, errs, c2) = conn_sendMessage T (msg c sq) c1 in Some c2))"

text \<open>
  The operation is tracked, and its callback set: one that has already ended, because the
  error of sending it closed the context, calls back at once.
\<close>

definition track_op :: "'d ctx_env \<Rightarrow> ('d, unit) connection option \<Rightarrow> nat \<Rightarrow> stream_callback \<Rightarrow> 'd client_context \<Rightarrow> inc_stream \<Rightarrow>
    (stream_event list \<times> 'd client_context \<times> inc_stream) option" where
  "track_op E c i k x st =
     (let s1 = st\<lparr>st_pendingOps := st_pendingOps st @ [(i, k)]\<rparr> in
      case op_fate (ce_transport E) c x i of
        None \<Rightarrow> Some ([], with_proto (with_op i (setFinishedCallback True)) x, s1)
      | Some oe \<Rightarrow> run_stream_callback E False (ctx_state_of x) i k oe x s1)"

definition attach :: "'d ctx_env \<Rightarrow> xuint32 \<Rightarrow> 'd client_context \<Rightarrow> inc_stream \<Rightarrow>
    (bool \<times> stream_event list \<times> 'd client_context \<times> inc_stream) option" where
  "attach E mode x st =
     (if st_state st \<noteq> STREAM_DETACHED then Some (False, [], x, st)
      else if ctx_state_of x \<noteq> CTX_CONNECTED then Some (False, [], x, st)
      else
        let (x1, s1) = cleanupPendingOps x (st\<lparr>st_mode := mode\<rparr>);
            (e1, s2) = stream_setState (ctx_state_of x1) STREAM_ATTACHING s1;
            (op, cevs, x2) = requestChannel (ce_transport E) (st_name st) mode x1
        in case after_context E x1 cevs x2 s2 of
             None \<Rightarrow> None
           | Some (e2, x3, s3) \<Rightarrow>
               (case op of
                  None \<Rightarrow> (let (e3, s4) = stream_setState (ctx_state_of x3) STREAM_DETACHED s3 in Some (False, e1 @ e2 @ e3, x3, s4))
                | Some i \<Rightarrow>
                    map_option (\<lambda>(e3, x4, s4). (True, e1 @ e2 @ e3, x4, s4))
                      (track_op E (request_conn (ce_transport E)
                          (\<lambda>c sq. open_message (cn_connId c) sq (st_name st) mode (shm_offer (cx_config x1) c)) x1)
                        i onChannelAllocated x3 s3)))"

definition detach :: "'d ctx_env \<Rightarrow> 'd client_context \<Rightarrow> inc_stream \<Rightarrow> (stream_event list \<times> 'd client_context \<times> inc_stream) option" where
  "detach E x st =
     (if st_state st = STREAM_DETACHED \<or> st_state st = STREAM_DETACHING then Some ([], x, st)
      else
        let (x1, s1) = cleanupPendingOps x st in
        if st_state s1 = STREAM_ATTACHING then
          (let (e, s2) = stream_setState (ctx_state_of x1) STREAM_DETACHED (s1\<lparr>st_channelId := 0\<rparr>) in Some (e, x1, s2))
        else if st_channelId s1 = 0 then
          (let (e, s2) = stream_setState (ctx_state_of x1) STREAM_DETACHED s1 in Some (e, x1, s2))
        else
          let (e1, s2) = stream_setState (ctx_state_of x1) STREAM_DETACHING s1;
              channel = st_channelId s2;
              (op, cevs, x2) = releaseChannel (ce_transport E) channel x1
          in case after_context E x1 cevs x2 s2 of
               None \<Rightarrow> None
             | Some (e2, x3, s3) \<Rightarrow>
                 (case op of
                    None \<Rightarrow>
                      (let (e3, s4) = stream_setState (ctx_state_of x3) STREAM_DETACHED (s3\<lparr>st_channelId := 0\<rparr>)
                       in Some (e1 @ e2 @ e3, x3, s4))
                  | Some i \<Rightarrow>
                      map_option (\<lambda>(e3, x4, s4). (e1 @ e2 @ e3, x4, s4))
                        (track_op E (request_conn (ce_transport E) (\<lambda>c sq. new_message INC_MSG_STREAM_CLOSE channel sq) x1)
                          i onChannelReleased x3 s3)))"

section \<open>Data\<close>

definition canWrite :: "inc_stream \<Rightarrow> bool" where
  "canWrite st \<longleftrightarrow> st_state st = STREAM_ATTACHED \<and> st_mode st AND MODE_WRITE \<noteq> 0"

definition stream_write :: "'d ctx_env \<Rightarrow> xint64 \<Rightarrow> bytes \<Rightarrow> shm_put option \<Rightarrow> 'd client_context \<Rightarrow> inc_stream \<Rightarrow>
    (nat option \<times> stream_event list \<times> 'd client_context \<times> inc_stream) option" where
  "stream_write E pos data put x st =
     (if st_state st \<noteq> STREAM_ATTACHED \<or> st_mode st AND MODE_WRITE = 0 then Some (None, [], x, st)
      else if cx_connection x = None then Some (None, [], x, st)
      else
        (case ctx_sendBinaryData (ce_transport E) (st_channelId st) pos data put x of
           None \<Rightarrow> None
         | Some (op, cevs, x1) \<Rightarrow> map_option (Pair op) (after_context E x cevs x1 st)))"

definition stream_ackDataReceived :: "'d ctx_env \<Rightarrow> xuint32 \<Rightarrow> bool \<Rightarrow> xint32 \<Rightarrow> 'd client_context \<Rightarrow> inc_stream \<Rightarrow>
    (stream_event list \<times> 'd client_context \<times> inc_stream) option" where
  "stream_ackDataReceived E seqNum broadcast sz x st =
     (if broadcast then Some ([], x, st)
      else
        (case ctx_ackDataReceived (ce_transport E) (st_channelId st) seqNum sz x of
           None \<Rightarrow> None
         | Some (cevs, x1) \<Rightarrow> after_context E x cevs x1 st))"

section \<open>Timers and runs\<close>

definition stream_timer_event :: "'d ctx_env \<Rightarrow> 'd client_context \<Rightarrow> inc_stream \<Rightarrow>
    (stream_event list \<times> 'd client_context \<times> inc_stream) option" where
  "stream_timer_event E x st =
     (if \<not> st_timer st then Some ([], x, st)
      else
        (case attach E (st_mode st) x (st\<lparr>st_timer := False, st_attempts := st_attempts st + 1\<rparr>) of
           None \<Rightarrow> None
         | Some (ok, evs, x1, s1) \<Rightarrow> Some (evs, x1, if \<not> ok then stream_scheduleReconnect (ctx_state_of x1) s1 else s1)))"

text \<open>The alarm of operation i.\<close>

definition stream_op_timeout :: "'d ctx_env \<Rightarrow> nat \<Rightarrow> 'd client_context \<Rightarrow> inc_stream \<Rightarrow>
    (stream_event list \<times> 'd client_context \<times> inc_stream) option" where
  "stream_op_timeout E i x st =
     (if i \<notin> fst ` set (st_pendingOps st) then Some ([], x, st)
      else after_context E x [] (with_proto (with_op i onTimeout) x) st)"

definition destroy_stream :: "'d ctx_env \<Rightarrow> 'd client_context \<Rightarrow> inc_stream \<Rightarrow>
    (stream_event list \<times> 'd client_context \<times> inc_stream) option" where
  "destroy_stream E x st =
     (case detach E x (st\<lparr>st_timer := False\<rparr>) of
        None \<Rightarrow> None
      | Some (evs, x1, s1) \<Rightarrow> (let (x2, s2) = cleanupPendingOps x1 s1 in Some (evs, x2, s2)))"

text \<open>
  What can happen to a stream: calls of its user, its reconnect timer, the alarm of its
  operation, and whatever happens to its context.
\<close>

datatype 'd stream_cmd =
    StreamAttach xuint32
  | StreamDetach
  | StreamWrite xint64 bytes "shm_put option"
  | StreamAck xuint32 bool xint32
  | StreamTimer
  | StreamOpTimeout nat
  | StreamContext "('d, unit) ctx_cmd"

fun stream_exec :: "'d ctx_env \<Rightarrow> 'd stream_cmd \<Rightarrow> 'd client_context \<Rightarrow> inc_stream \<Rightarrow>
    (stream_event list \<times> 'd client_context \<times> inc_stream) option" where
  "stream_exec E (StreamAttach mode) x st = map_option snd (attach E mode x st)"
| "stream_exec E StreamDetach x st = detach E x st"
| "stream_exec E (StreamWrite pos data put) x st = map_option snd (stream_write E pos data put x st)"
| "stream_exec E (StreamAck seqNum broadcast sz) x st = stream_ackDataReceived E seqNum broadcast sz x st"
| "stream_exec E StreamTimer x st = stream_timer_event E x st"
| "stream_exec E (StreamOpTimeout i) x st = stream_op_timeout E i x st"
| "stream_exec E (StreamContext cmd) x st =
     (case ctx_exec E cmd x of None \<Rightarrow> None | Some (cevs, x1) \<Rightarrow> after_context E x cevs x1 st)"

fun stream_run :: "'d ctx_env \<Rightarrow> 'd stream_cmd list \<Rightarrow> 'd client_context \<Rightarrow> inc_stream \<Rightarrow>
    (stream_event list \<times> 'd client_context \<times> inc_stream) option" where
  "stream_run E [] x st = Some ([], x, st)"
| "stream_run E (cmd # cmds) x st =
     (case stream_exec E cmd x st of
        None \<Rightarrow> None
      | Some (evs, x1, s1) \<Rightarrow>
          (case stream_run E cmds x1 s1 of None \<Rightarrow> None | Some (evs', x2, s2) \<Rightarrow> Some (evs @ evs', x2, s2)))"

end
