(* ===== verification/Server_Laws.thy ===== *)
theory Server_Laws imports Inc_Server begin

text \<open>
  Laws of the server: what a call on one connection may change, the numbers it gives out, and
  the exact conditions under which a handler fails an assertion or is undefined.
\<close>

section \<open>Preliminaries\<close>
lemma error_codes_append [simp]: "error_codes (a @ b) = error_codes a @ error_codes b"
  by (induction a rule: error_codes.induct) simp_all

text \<open>Sending emits nothing but errors.\<close>

definition only_errors :: "proto_event list \<Rightarrow> bool" where
  "only_errors evs \<longleftrightarrow> (\<exists>codes. evs = map ErrorOccurred codes)"

lemma only_errors_Nil [simp]: "only_errors []" and only_errors_one [simp]: "only_errors [ErrorOccurred e]"
  by (auto simp: only_errors_def intro: exI [of _ "[]"] exI [of _ "[e]"])

lemma send_loop_errors: "send_loop D q off d = (q', off', w, evs, d') \<Longrightarrow> only_errors evs"
proof (induction q arbitrary: off d)
  case (Cons m q)
  then show ?case by (auto simp: Let_def split: prod.splits if_splits)
qed simp

lemma onReadyWrite_errors: "onReadyWrite D p d = (evs, p', d') \<Longrightarrow> only_errors evs"
  by (auto simp: onReadyWrite_def split: if_splits prod.splits dest: send_loop_errors)

lemma sendMessageImpl_errors: "sendMessageImpl D msg op p d = (evs, p', d') \<Longrightarrow> only_errors evs"
  by (auto simp: sendMessageImpl_def Let_def dest: onReadyWrite_errors split: if_splits)

lemma sendMessage_errors: "sendMessage D msg p d = (op, evs, p', d') \<Longrightarrow> only_errors evs"
  by (auto simp: sendMessage_def Let_def dest: sendMessageImpl_errors split: if_splits prod.splits)

lemma send_reply_errors: "send_reply D msg p d = (evs, p', d') \<Longrightarrow> only_errors evs"
  unfolding send_reply_def using sendMessage_errors by (metis prod.collapse)

text \<open>A message is announced, or its binary data is, or a reply was sent.\<close>

lemma onMessageReceived_cases:
  assumes "onMessageReceived D imp msg p d = (evs, p', d')" and "\<not> p_isPassthrough p"
  shows "(evs = [MessageReceived msg] \<and> msg_type msg \<noteq> INC_MSG_BINARY_DATA \<and> msg_type msg \<noteq> INC_MSG_BINARY_DATA_ACK) \<or>
    (\<exists>bc pos data. evs = [BinaryDataReceived (msg_channelID msg) (msg_seqNum msg) bc pos data] \<and> msg_type msg = INC_MSG_BINARY_DATA) \<or>
    (only_errors evs \<and> (msg_type msg = INC_MSG_BINARY_DATA \<or> msg_type msg = INC_MSG_BINARY_DATA_ACK))"
proof -
  have pt: "p_isPassthrough (complete_op msg (meter f (cache_fd fd p))) = p_isPassthrough p" for f fd
    by (auto simp: complete_op_def meter_def cache_fd_def Let_def ops_erase_def processRelease_def deref_op_def with_op_def
        split: option.splits)
  show ?thesis using assms
    by (auto simp: onMessageReceived_def Let_def pt processBinaryDataMessage_def processDirectBinaryData_def
        processSHMBinaryData_def dest: send_reply_errors split: if_splits option.splits prod.splits)
qed

lemma error_codes_map [simp]: "error_codes (map ErrorOccurred es) = es"
  by (induction es) simp_all

section \<open>Lowest bit\<close>

lemma low_bit_cases:
  fixes v :: xuint16
  assumes "v \<noteq> 0"
  obtains k where "k < 16" and "v AND (- v) = push_bit k 1" and "bit v k" and "\<forall>j<k. \<not> bit v j"
proof -
  define k where "k = (LEAST j. bit v j)"
  have ex: "\<exists>j. bit v j" using assms by (auto simp: bit_eq_iff)
  then have b: "bit v k" unfolding k_def by (rule LeastI_ex)
  have l: "\<not> bit v j" if "j < k" for j using not_less_Least that unfolding k_def by blast
  have k: "k < 16" using bit_imp_le_length [OF b] by simp
  define hi where "hi = v AND NOT (mask (Suc k))"
  have "hi AND push_bit k 1 = 0" "hi AND mask k = 0"
    by (rule bit_word_eqI; auto simp: hi_def bit_simps)+
  moreover have "v = hi OR push_bit k 1"
    using b l k by (intro bit_word_eqI) (auto simp: hi_def bit_simps not_less less_Suc_eq intro: leI)
  ultimately have "v - 1 = hi OR mask k"
    by (simp add: disjunctive_add_eq_or [symmetric] mask_eq_exp_minus_1 push_bit_eq_mult algebra_simps)
  then have "- v = NOT (hi OR mask k)" by (metis minus_eq_not_minus_1)
  then have "v AND (- v) = push_bit k 1"
    using b l k by (intro bit_word_eqI) (auto simp: hi_def bit_simps not_less less_Suc_eq intro: leI)
  then show ?thesis using that k b l by blast
qed

lemma count_trailing_zeros_lowest:
  assumes "v \<noteq> 0"
  shows "bit v (count_trailing_zeros v) \<and> (\<forall>j<count_trailing_zeros v. \<not> bit v j)"
proof -
  obtain k where k: "k < 16" "v AND (- v) = push_bit k 1" "bit v k" "\<forall>j<k. \<not> bit v j" using low_bit_cases [OF assms] by blast
  have "k \<in> set [0..<16]" using k(1) by simp
  then have "count_trailing_zeros v = k"
    unfolding count_trailing_zeros_def k(2) Let_def by (auto simp: upt_rec)
  then show ?thesis using k by simp
qed

section \<open>What a call on a connection keeps\<close>

text \<open>The number stays, a closed connection stays closed and no channel appears.\<close>

definition keeps :: "'d client \<Rightarrow> 'd client \<Rightarrow> bool" where
  "keeps c c' \<longleftrightarrow> cn_connId c' = cn_connId c \<and> (cn_open c' \<longrightarrow> cn_open c) \<and> (\<forall>ch ps. cn_channels c' ch = Some ps \<longrightarrow> cn_channels c ch = Some ps)"

lemma keeps_refl [simp, intro]: "keeps c c" by (simp add: keeps_def)
lemma keeps_trans: "keeps a b \<Longrightarrow> keeps b c \<Longrightarrow> keeps a c"
  by (simp add: keeps_def)
lemma keeps_frame: "conn_frame c c' \<Longrightarrow> keeps c c'"
  by (simp add: keeps_def conn_frame_simps)

lemma keeps_updates [simp]:
  "keeps c (c\<lparr>cn_peerName := nm, cn_peerProtocol := v\<rparr>)" "keeps c (c\<lparr>cn_handshake := h\<rparr>)"
  "keeps c (c\<lparr>cn_proto := p, cn_device := d\<rparr>)"
  "keeps c (addSubscription pt c)" "keeps c (removeSubscription pt c)" "keeps c (clearChannels c)"
  by (simp_all add: keeps_def addSubscription_def removeSubscription_def clearChannels_def)

lemma keeps_close: "close_client T c = (evs, c') \<Longrightarrow> keeps c c'"
  by (auto simp: close_client_def conn_close_def keeps_def clearChannels_def split: if_splits)

lemma keeps_send: "send_client T msg c = (evs, c') \<Longrightarrow> keeps c c'"
  by (auto simp: send_client_def split: prod.splits if_splits dest!: conn_frame_send(1) intro: keeps_frame keeps_trans keeps_close)

lemma keeps_unregister: "unregisterChannel ch c = (old, c') \<Longrightarrow> keeps c c'"
  by (auto simp: unregisterChannel_def keeps_def split: option.splits if_splits)

lemma keeps_enable: "conn_enableMempool pool c = Some c' \<Longrightarrow> keeps c c'"
  by (auto simp: conn_enableMempool_def keeps_def split: if_splits option.splits)

lemma keeps_replies:
  "sendMethodReply T sq code result c = (evs, c') \<Longrightarrow> keeps c c'"
  "sendBinaryReply T ch sq bc n c = (evs, c') \<Longrightarrow> keeps c c'"
  "client_ready T c = (evs, c') \<Longrightarrow> keeps c c'"
  "snd (server_sendBinaryData T ch pos data put c) = (evs, c') \<Longrightarrow> keeps c c'"
proof -
  assume "client_ready T c = (evs, c')"
  then show "keeps c c'"
    by (auto simp: client_ready_def Let_def split: prod.splits if_splits intro: keeps_trans [OF keeps_updates(3) keeps_close])
qed (auto simp: sendMethodReply_def sendBinaryReply_def server_sendBinaryData_def dest: keeps_send
    dest!: conn_frame_send(2) intro: keeps_frame keeps_trans keeps_close split: option.splits prod.splits if_splits)

lemma keeps_handlers:
  "handleMethodCall T msg c = (evs, c') \<Longrightarrow> keeps c c'"
  "handleSubscribeRequest T allow msg c = (evs, c') \<Longrightarrow> keeps c c'"
  "handleUnsubscribeRequest T msg c = (evs, c') \<Longrightarrow> keeps c c'"
  "handleStreamClose T msg c = (evs, c') \<Longrightarrow> keeps c c'"
  "handleHandshake T msg c = (evs, c') \<Longrightarrow> keeps c c'"
proof -
  assume "handleMethodCall T msg c = (evs, c')"
  then show "keeps c c'" by (auto simp: handleMethodCall_def dest: keeps_replies split: option.splits)
next
  assume "handleSubscribeRequest T allow msg c = (evs, c')"
  then show "keeps c c'"
    by (auto simp: handleSubscribeRequest_def Let_def split: option.splits if_splits dest!: keeps_send intro: keeps_trans [OF keeps_updates(4)])
next
  assume "handleUnsubscribeRequest T msg c = (evs, c')"
  then show "keeps c c'"
    by (auto simp: handleUnsubscribeRequest_def split: option.splits dest!: keeps_send intro: keeps_trans [OF keeps_updates(5)])
next
  assume "handleStreamClose T msg c = (evs, c')"
  then show "keeps c c'"
    by (auto simp: handleStreamClose_def split: prod.splits if_splits dest!: keeps_send keeps_unregister intro: keeps_trans)
next
  assume "handleHandshake T msg c = (evs, c')"
  then show "keeps c c'"
    by (auto simp: handleHandshake_def Let_def split: option.splits prod.splits if_splits
        dest!: keeps_send keeps_close intro: keeps_trans [OF keeps_updates(2)] keeps_trans [OF keeps_trans keeps_updates(1)])
qed


section \<open>Numbers\<close>

text \<open>
  A step that takes n numbers from the server's counter (none or one): the number of a new
  channel is the one taken.
\<close>

definition takes :: "xuint32 \<Rightarrow> 'd client \<Rightarrow> xuint32 \<Rightarrow> 'd client \<Rightarrow> bool" where
  "takes n c n' c' \<longleftrightarrow> (n' = n \<or> n' = n + 1) \<and> cn_connId c' = cn_connId c \<and> (cn_open c' \<longrightarrow> cn_open c) \<and>
     (\<forall>ch ps. cn_channels c' ch = Some ps \<longrightarrow>
        cn_channels c ch = Some ps \<or> (n' = n + 1 \<and> ch = n' \<and> ps_channelId ps = ch \<and> ch \<noteq> 0))"

lemma takes_keeps: "keeps c c' \<Longrightarrow> takes n c n c'"
  by (simp add: takes_def keeps_def)

lemma takes_after:
  assumes "keeps c c1" and "takes n c1 n' c'"
  shows "takes n c n' c'"
  unfolding takes_def
proof (intro conjI allI impI)
  fix ch ps assume "cn_channels c' ch = Some ps"
  then have "cn_channels c1 ch = Some ps \<or> (n' = n + 1 \<and> ch = n' \<and> ps_channelId ps = ch \<and> ch \<noteq> 0)"
    using assms(2) unfolding takes_def by blast
  then show "cn_channels c ch = Some ps \<or> (n' = n + 1 \<and> ch = n' \<and> ps_channelId ps = ch \<and> ch \<noteq> 0)"
    using assms(1) unfolding keeps_def by blast
qed (use assms in \<open>auto simp: takes_def keeps_def\<close>)

lemma takes_before:
  assumes "takes n c n' c1" and "keeps c1 c'"
  shows "takes n c n' c'"
  unfolding takes_def
proof (intro conjI allI impI)
  fix ch ps assume "cn_channels c' ch = Some ps"
  then have "cn_channels c1 ch = Some ps" using assms(2) unfolding keeps_def by blast
  then show "cn_channels c ch = Some ps \<or> (n' = n + 1 \<and> ch = n' \<and> ps_channelId ps = ch \<and> ch \<noteq> 0)"
    using assms(1) unfolding takes_def by blast
qed (use assms in \<open>auto simp: takes_def keeps_def\<close>)

lemma takes_register:
  "registerChannel (n + 1) \<lparr>ps_channelId = n + 1, ps_name = name, ps_mode = mode\<rparr> c = (ch, c') \<Longrightarrow> takes n c (n + 1) c'"
  by (auto simp: registerChannel_def takes_def split: if_splits)

lemma takes_streamOpen:
  assumes "handleStreamOpen E opts global msg n c = Some (evs, n', c')"
  shows "takes n c n' c'"
  using assms
  by (auto simp: handleStreamOpen_def Let_def split: option.splits prod.splits if_splits
      dest!: keeps_send keeps_enable takes_register intro: takes_keeps takes_after takes_before)

lemma takes_message:
  assumes "onConnectionMessageReceived E opts global msg n c = Some (evs, n', c')"
  shows "takes n c n' c'"
  using assms
  by (auto simp: onConnectionMessageReceived_def Let_def split: if_splits prod.splits
      dest: keeps_handlers keeps_send takes_streamOpen intro: takes_keeps)


lemma dispatch_errors:
  "only_errors evs \<Longrightarrow> \<exists>es c'. dispatch E opts global evs n c = Some (es, n, c') \<and> keeps c c'"
proof -
  have "\<exists>es c'. dispatch E opts global (map ErrorOccurred codes) n c = Some (es, n, c') \<and> keeps c c'" for codes
  proof (induction codes arbitrary: c)
    case (Cons e codes)
    obtain es c1 where c: "close_client (se_transport E) c = (es, c1)" by fastforce
    obtain es' c2 where "dispatch E opts global (map ErrorOccurred codes) n c1 = Some (es', n, c2)" "keeps c1 c2" using Cons.IH by blast
    then show ?case using c keeps_close [OF c] by (auto intro: keeps_trans)
  qed simp
  then show "only_errors evs \<Longrightarrow> ?thesis" by (auto simp: only_errors_def)
qed

lemma keeps_binary:
  assumes "onBinaryDataReceived T ch sq bc c = Some (ps, errs, c')"
  shows "keeps c c'"
proof (cases "cn_channels c ch")
  case None
  then have "conn_sendMessage T (error_reply ch sq) c = (fst (conn_sendMessage T (error_reply ch sq) c), errs, c')"
    using assms by (auto simp: onBinaryDataReceived_def prod_eq_iff split: if_splits)
  then show ?thesis by (rule keeps_frame [OF conn_frame_send(1)])
qed (use assms in \<open>simp add: onBinaryDataReceived_def\<close>)

lemma onMessageReceived_events:
  assumes "onMessageReceived D imp msg p d = (evs, p', d')"
  shows "evs = [MessageReceived msg] \<or> (\<exists>ch sq bc pos data. evs = [BinaryDataReceived ch sq bc pos data]) \<or> only_errors evs"
  using assms
  by (auto simp: onMessageReceived_def Let_def processBinaryDataMessage_def processDirectBinaryData_def
      processSHMBinaryData_def dest: send_reply_errors split: if_splits option.splits prod.splits)

lemma takes_dispatch:
  assumes "onMessageReceived D imp msg p d = (pevs, p', d')"
    and "dispatch E opts global pevs n c = Some (evs, n', c')"
  shows "takes n c n' c'"
  using onMessageReceived_events [OF assms(1)]
proof (elim disjE exE)
  assume "pevs = [MessageReceived msg]"
  then show ?thesis using assms(2) by (auto dest: takes_message split: option.splits)
next
  fix ch sq bc pos data assume "pevs = [BinaryDataReceived ch sq bc pos data]"
  then show ?thesis using assms(2)
    by (auto dest!: keeps_binary split: option.splits if_splits prod.splits intro: takes_keeps keeps_trans keeps_close)
qed (use dispatch_errors [of pevs E opts global n c] assms(2) in \<open>auto intro: takes_keeps\<close>)

section \<open>The numbers of a server\<close>

definition client_ok :: "nat \<Rightarrow> xuint32 \<Rightarrow> 'd client \<Rightarrow> bool" where
  "client_ok n i c \<longleftrightarrow> cn_connId c = i \<and> 0 < unat i \<and> unat i \<le> n \<and>
     (\<forall>ch ps. cn_channels c ch = Some ps \<longrightarrow> ps_channelId ps = ch \<and> 0 < unat ch \<and> unat ch \<le> n)"

text \<open>
  Numbers of connections and channels are taken from one counter; no two connections, no
  two channels and no channel and connection of the server share one.
\<close>

definition numbers_ok :: "(xuint32 \<times> 'd client) list \<Rightarrow> bool" where
  "numbers_ok objs \<longleftrightarrow> distinct (map fst objs) \<and>
     (\<forall>(i, c)\<in>set objs. \<forall>(j, e)\<in>set objs. cn_channels c j = None \<and>
        (\<forall>ch. cn_channels c ch \<noteq> None \<and> cn_channels e ch \<noteq> None \<longrightarrow> i = j))"

definition server_inv :: "'d server \<Rightarrow> bool" where
  "server_inv s \<longleftrightarrow> numbers_ok (sv_objects s) \<and>
     (\<forall>(i, c)\<in>set (sv_objects s). client_ok (unat (sv_nextChannelId s)) i c)"

lemma client_ok_mono: "client_ok n i c \<Longrightarrow> n \<le> m \<Longrightarrow> client_ok m i c"
  by (force simp: client_ok_def)

lemma unat_next: "unat n + 1 < 2 ^ 32 \<Longrightarrow> unat (n + 1 :: xuint32) = unat n + 1"
  by (simp add: unat_add_lem [THEN iffD1])

text \<open>The counter does not wrap in this step.\<close>

definition room :: "xuint32 \<Rightarrow> xuint32 \<Rightarrow> bool" where
  "room n n' \<longleftrightarrow> n' = n \<or> unat n + 1 < 2 ^ 32"

lemma takes_counter:
  assumes "takes n c n' c'" and "room n n'"
  shows "n' = n \<or> (n' = n + 1 \<and> unat n' = unat n + 1)"
  using assms unat_next [of n] by (auto simp: takes_def room_def)

lemma client_ok_takes:
  assumes "client_ok (unat n) i c" and "takes n c n' c'" and "room n n'"
  shows "client_ok (unat n') i c'"
proof -
  have n: "unat n \<le> unat n'" using takes_counter [OF assms(2,3)] by auto
  have t: "cn_channels c ch = Some ps \<or> (ch = n' \<and> ps_channelId ps = ch \<and> ch \<noteq> 0)" if "cn_channels c' ch = Some ps" for ch ps
    using assms(2) that by (auto simp: takes_def)
  have ok: "ps_channelId ps = ch \<and> 0 < unat ch \<and> unat ch \<le> unat n" if "cn_channels c ch = Some ps" for ch ps
    using assms(1) that by (simp add: client_ok_def)
  have ch: "ps_channelId ps = ch \<and> 0 < unat ch \<and> unat ch \<le> unat n'" if "cn_channels c' ch = Some ps" for ch ps
    using t [OF that] ok [of ch ps] n by (auto simp: unat_gt_0)
  have i: "cn_connId c' = i" "0 < unat i" "unat i \<le> unat n" using assms(1,2) by (simp_all add: client_ok_def takes_def)
  show ?thesis unfolding client_ok_def using i n ch by simp
qed

lemma put_client_objects: "sv_objects (put_client i c s) = map (\<lambda>(k, x). if k = i then (k, c) else (k, x)) (sv_objects s)"
  by (simp add: put_client_def)

lemma put_client_member:
  "(k, x) \<in> set (sv_objects (put_client i c s)) \<longleftrightarrow>
     (k = i \<and> x = c \<and> i \<in> fst ` set (sv_objects s)) \<or> (k \<noteq> i \<and> (k, x) \<in> set (sv_objects s))"
proof -
  have "(k, x) \<in> set (map (\<lambda>(k, x). if k = i then (k, c) else (k, x)) objs) \<longleftrightarrow>
      (k = i \<and> x = c \<and> i \<in> fst ` set objs) \<or> (k \<noteq> i \<and> (k, x) \<in> set objs)" for objs
    by (induction objs) (auto split: if_splits)
  then show ?thesis by (simp add: put_client_objects)
qed

lemma put_client_keys: "map fst (sv_objects (put_client i c s)) = map fst (sv_objects s)"
  by (auto simp: put_client_objects)


lemma server_inv_put:
  assumes "server_inv s" and "map_of (sv_objects s) i = Some c" and "takes (sv_nextChannelId s) c n' c'"
    and "room (sv_nextChannelId s) n'"
  shows "server_inv (put_client i c' (s\<lparr>sv_nextChannelId := n'\<rparr>))"
proof -
  let ?n = "sv_nextChannelId s" and ?s = "put_client i c' (s\<lparr>sv_nextChannelId := n'\<rparr>)"
  have i: "(i, c) \<in> set (sv_objects s)" using assms(2) by (rule map_of_SomeD)
  have mem: "(k, x) \<in> set (sv_objects ?s) \<Longrightarrow> (k = i \<and> x = c') \<or> (k \<noteq> i \<and> (k, x) \<in> set (sv_objects s))" for k x
    using put_client_member [of k x i c' "s\<lparr>sv_nextChannelId := n'\<rparr>"] by auto
  have n': "sv_nextChannelId ?s = n'" by (simp add: put_client_def)
  have le: "unat ?n \<le> unat n'" using takes_counter [OF assms(3,4)] by auto
  have ok: "client_ok (unat ?n) k x" if "(k, x) \<in> set (sv_objects s)" for k x
    using assms(1) that by (auto simp: server_inv_def)
  have ok': "client_ok (unat n') k x" if "(k, x) \<in> set (sv_objects ?s)" for k x
    using mem [OF that] client_ok_takes [OF ok [OF i] assms(3,4)] client_ok_mono [OF ok le] by auto
  have old: "cn_channels x j = None" "cn_channels x ch \<noteq> None \<and> cn_channels e ch \<noteq> None \<longrightarrow> k = j"
    if "(k, x) \<in> set (sv_objects s)" "(j, e) \<in> set (sv_objects s)" for k x j e ch
    using assms(1) that unfolding server_inv_def numbers_ok_def by fast+
  have new: "cn_channels c ch \<noteq> None \<or> unat ch = unat ?n + 1" if "cn_channels c' ch \<noteq> None" for ch
    using assms(3) that takes_counter [OF assms(3,4)] by (auto simp: takes_def)
  have big: "cn_channels x ch = None" if "(k, x) \<in> set (sv_objects s)" "unat ch = unat ?n + 1" for k x ch
    using ok [OF that(1)] that(2) unfolding client_ok_def by (metis Suc_eq_plus1 Suc_n_not_le_n not_Some_eq)
  have small: "unat k \<le> unat ?n" if "(k, x) \<in> set (sv_objects s)" for k x
    using ok [OF that] by (simp add: client_ok_def)
  have none: "cn_channels x j = None" if "(k, x) \<in> set (sv_objects ?s)" "(j, e) \<in> set (sv_objects ?s)" for k x j e
  proof (rule ccontr)
    assume a: "cn_channels x j \<noteq> None"
    have j: "\<exists>e. (j, e) \<in> set (sv_objects s)" using mem [OF that(2)] i by auto
    then have "unat j \<le> unat ?n" using small by blast
    then show False using mem [OF that(1)] a new [of j] old(1) j i by fastforce
  qed
  have disj: "k = j" if "(k, x) \<in> set (sv_objects ?s)" "(j, e) \<in> set (sv_objects ?s)" "cn_channels x ch \<noteq> None" "cn_channels e ch \<noteq> None" for k x j e ch
    using mem [OF that(1)] mem [OF that(2)] that(3,4) new [of ch] old(2) big i by metis
  have "distinct (map fst (sv_objects ?s))"
    using assms(1) put_client_keys [of i c' "s\<lparr>sv_nextChannelId := n'\<rparr>"] by (simp add: server_inv_def numbers_ok_def)
  then have "numbers_ok (sv_objects ?s)" unfolding numbers_ok_def using none disj by blast
  then show ?thesis unfolding server_inv_def n' using ok' by blast
qed


lemma server_inv_weaker:
  assumes "server_inv s" and "distinct (map fst objs)"
    and "\<And>i c. (i, c) \<in> set objs \<Longrightarrow> \<exists>c0. (i, c0) \<in> set (sv_objects s) \<and> keeps c0 c"
  shows "server_inv (s\<lparr>sv_objects := objs\<rparr>)"
proof -
  have k: "cn_channels c ch \<noteq> None \<Longrightarrow> keeps c0 c \<Longrightarrow> cn_channels c0 ch \<noteq> None" for c0 c :: "'a client" and ch
    by (auto simp: keeps_def)
  have "client_ok (unat (sv_nextChannelId s)) i c" if "(i, c) \<in> set objs" for i c
    using assms(1) assms(3) [OF that] by (auto simp: server_inv_def client_ok_def keeps_def)
  moreover have "numbers_ok objs"
    unfolding numbers_ok_def
  proof (intro conjI ballI, use assms(2) in simp, clarify)
    fix i c j e assume m: "(i, c) \<in> set objs" "(j, e) \<in> set objs"
    obtain c0 e0 where o: "(i, c0) \<in> set (sv_objects s)" "keeps c0 c" "(j, e0) \<in> set (sv_objects s)" "keeps e0 e"
      using assms(3) [OF m(1)] assms(3) [OF m(2)] by blast
    have "cn_channels c0 j = None" "\<And>ch. cn_channels c0 ch \<noteq> None \<Longrightarrow> cn_channels e0 ch \<noteq> None \<Longrightarrow> i = j"
      using assms(1) o(1,3) unfolding server_inv_def numbers_ok_def by fast+
    then show "cn_channels c j = None \<and> (\<forall>ch. cn_channels c ch \<noteq> None \<and> cn_channels e ch \<noteq> None \<longrightarrow> i = j)"
      using k o(2,4) by blast
  qed
  ultimately show ?thesis unfolding server_inv_def by (simp add: case_prod_unfold)
qed

text \<open>A call on one connection that keeps it: the contract of everything the server does to a client.\<close>

locale client_call =
  fixes f :: "'d client \<Rightarrow> server_event list \<times> 'd client"
  assumes call_keeps: "f c = (evs, c') \<Longrightarrow> keeps c c'"
begin

lemma on_client_inv:
  assumes "server_inv s" and "on_client i f s = Some (evs, s')"
  shows "server_inv s' \<and> sv_nextChannelId s' = sv_nextChannelId s"
proof (cases "map_of (sv_objects s) i")
  case (Some c)
  obtain es c' where f: "f c = (es, c')" by fastforce
  then have s': "s' = put_client i c' (s\<lparr>sv_nextChannelId := sv_nextChannelId s\<rparr>)"
    using assms(2) Some by (simp add: on_client_def)
  show ?thesis unfolding s'
    using server_inv_put [OF assms(1) Some takes_keeps [OF call_keeps [OF f]]] by (simp add: room_def put_client_def)
qed (use assms in \<open>simp add: on_client_def\<close>)

end

interpretation close_call: client_call "close_client T" by unfold_locales (rule keeps_close)
interpretation ready_call: client_call "client_ready T" by unfold_locales (rule keeps_replies)
interpretation reply_call: client_call "sendMethodReply T sq code result" by unfold_locales (rule keeps_replies)
interpretation binary_reply_call: client_call "sendBinaryReply T ch sq bc n" by unfold_locales (rule keeps_replies)
interpretation binary_call: client_call "\<lambda>c. snd (server_sendBinaryData T ch pos data put c)"
  by unfold_locales (rule keeps_replies)

lemma broadcast_loop_keeps:
  "broadcast_loop T name v data objs = Some objs' \<Longrightarrow>
   map fst objs' = map fst objs \<and> (\<forall>i c. (i, c) \<in> set objs' \<longrightarrow> (\<exists>c0. (i, c0) \<in> set objs \<and> keeps c0 c))"
proof (induction objs arbitrary: objs')
  case (Cons x objs)
  obtain i c where x: "x = (i, c)" by fastforce
  obtain errs c1 where e: "sendEvent T name v data c = (errs, c1)" by fastforce
  have k: "keeps c c1" by (rule keeps_frame [OF conn_frame_sendEvent [OF e]])
  show ?case using Cons e k unfolding x by (auto split: if_splits) blast+
qed simp


lemma server_inv_receive:
  assumes "server_inv s" and "server_receive E i msg s = Some (evs, s')" and "unat (sv_nextChannelId s) + 1 < 2 ^ 32"
  shows "server_inv s' \<and> unat (sv_nextChannelId s') \<le> unat (sv_nextChannelId s) + 1"
proof (cases "map_of (sv_objects s) i")
  case (Some c)
  obtain pevs p d where m: "onMessageReceived (tr_device (se_transport E)) (se_import E) msg (cn_proto c) (cn_device c) = (pevs, p, d)"
    by (metis prod_cases3)
  obtain n' c' where dp: "dispatch E (sv_options s) (sv_globalPool s) pevs (sv_nextChannelId s) (c\<lparr>cn_proto := p, cn_device := d\<rparr>) = Some (evs, n', c')"
    and s': "s' = put_client i c' (s\<lparr>sv_nextChannelId := n'\<rparr>)"
    using assms(2) Some m by (auto simp: server_receive_def split: option.splits)
  have t: "takes (sv_nextChannelId s) c n' c'"
    using takes_after [OF keeps_updates(3) takes_dispatch [OF m dp]] .
  have r: "room (sv_nextChannelId s) n'" using assms(3) by (simp add: room_def)
  show ?thesis using server_inv_put [OF assms(1) Some t r] takes_counter [OF t r] by (auto simp: s' put_client_def)
qed (use assms in \<open>simp add: server_receive_def\<close>)

lemma server_inv_accept:
  fixes s :: "'d server"
  assumes "server_inv s" and "handleNewConnection dev started nid s = (evs, s')" and "unat (sv_nextChannelId s) + 1 < 2 ^ 32"
  shows "server_inv s' \<and> unat (sv_nextChannelId s') \<le> unat (sv_nextChannelId s) + 1"
proof -
  define n where "n = sv_nextChannelId s + 1"
  have n: "unat n = unat (sv_nextChannelId s) + 1" unfolding n_def by (rule unat_next [OF assms(3)])
  have ok: "client_ok (unat (sv_nextChannelId s)) i c" if "(i, c) \<in> set (sv_objects s)" for i c
    using assms(1) that by (auto simp: server_inv_def)
  then have ok': "client_ok (unat n) i c" if "(i, c) \<in> set (sv_objects s)" for i c
    using client_ok_mono that n by (metis le_add1)
  have fresh: "i \<noteq> n" "cn_channels c n = None" if "(i, c) \<in> set (sv_objects s)" for i c
    using ok [OF that] n by (auto simp: client_ok_def) (metis Suc_eq_plus1 Suc_n_not_le_n not_Some_eq)
  have np: "0 < unat n" using n by simp
  define conn :: "'d client" where "conn = (new_connection dev True n)\<lparr>cn_handshake := Some (setLocalData nid
      (new_handshake_data\<lparr>hs_nodeName := sv_name s, hs_protocolVersion := ucast (sc_protocolVersionCurrent (sv_options s)),
        hs_capabilities := CAP_STREAM\<rparr>) (new_handshake nid ROLE_SERVER))\<rparr>"
  have c: "cn_connId conn = n" "cn_channels conn = (\<lambda>_. None)" by (simp_all add: conn_def new_connection_def)
  consider "s' = s" | "s' = s\<lparr>sv_nextChannelId := n\<rparr>"
    | "s' = s\<lparr>sv_nextChannelId := n, sv_objects := (n, conn) # filter (\<lambda>(k, _). k \<noteq> n) (sv_objects s)\<rparr>"
    using assms(2) unfolding handleNewConnection_def Let_def n_def [symmetric] conn_def [symmetric] by (auto split: if_splits)
  then show ?thesis
  proof cases
    case 3
    have f: "filter (\<lambda>(k, _). k \<noteq> n) (sv_objects s) = sv_objects s" using fresh(1) by (auto simp: filter_id_conv)
    have old: "numbers_ok (sv_objects s)" using assms(1) by (simp add: server_inv_def)
    have d: "distinct (map fst ((n, conn) # sv_objects s))"
      using old fresh(1) by (force simp: numbers_ok_def)
    have pair: "cn_channels a j = None \<and> (\<forall>ch. cn_channels a ch \<noteq> None \<and> cn_channels e ch \<noteq> None \<longrightarrow> i = j)"
      if "(i, a) \<in> insert (n, conn) (set (sv_objects s))" "(j, e) \<in> insert (n, conn) (set (sv_objects s))" for i a j e
    proof -
      have p: "cn_channels a j = None \<and> (\<forall>ch. cn_channels a ch \<noteq> None \<and> cn_channels e ch \<noteq> None \<longrightarrow> i = j)"
        if "(i, a) \<in> set (sv_objects s)" "(j, e) \<in> set (sv_objects s)" using old that unfolding numbers_ok_def by fast
      show ?thesis
      proof (cases "(i, a) = (n, conn)")
        case False
        then have ia: "(i, a) \<in> set (sv_objects s)" using that(1) by blast
        show ?thesis
        proof (cases "(j, e) = (n, conn)")
          case False
          then have "(j, e) \<in> set (sv_objects s)" using that(2) by blast
          then show ?thesis by (rule p [OF ia])
        qed (simp add: c(2) fresh(2) [OF ia])
      qed (simp add: c(2))
    qed
    have "numbers_ok ((n, conn) # sv_objects s)"
      unfolding numbers_ok_def
    proof (intro conjI ballI, rule d, clarify)
      fix i a j e assume "(i, a) \<in> set ((n, conn) # sv_objects s)" "(j, e) \<in> set ((n, conn) # sv_objects s)"
      then show "cn_channels a j = None \<and> (\<forall>ch. cn_channels a ch \<noteq> None \<and> cn_channels e ch \<noteq> None \<longrightarrow> i = j)"
        unfolding list.set by (rule pair)
    qed
    moreover have "client_ok (unat n) n conn" using c np by (simp add: client_ok_def)
    ultimately show ?thesis unfolding 3 f using ok' n by (auto simp: server_inv_def)
  qed (use assms ok' n in \<open>auto simp: server_inv_def\<close>)
qed

lemma server_inv_exec:
  assumes "server_inv s" and "server_exec E cmd s = Some (evs, s')" and "unat (sv_nextChannelId s) + 1 < 2 ^ 32"
  shows "server_inv s' \<and> unat (sv_nextChannelId s') \<le> unat (sv_nextChannelId s) + 1"
proof (cases cmd)
  case (SrvAccept dev started nid)
  then show ?thesis using server_inv_accept [OF assms(1) _ assms(3)] assms(2) by simp
next
  case (SrvReceive i msg)
  then show ?thesis using server_inv_receive [OF assms(1) _ assms(3)] assms(2) by simp
next
  case (SrvReady i)
  then show ?thesis using ready_call.on_client_inv [OF assms(1)] assms(2) by fastforce
next
  case (SrvDeviceError i)
  then show ?thesis using close_call.on_client_inv [OF assms(1)] assms(2) by fastforce
next
  case (SrvCloseClient i)
  then show ?thesis using close_call.on_client_inv [OF assms(1)] assms(2) by fastforce
next
  case (SrvMethodReply i sq code result)
  then show ?thesis using reply_call.on_client_inv [OF assms(1)] assms(2) by fastforce
next
  case (SrvBinaryReply i ch sq bc n)
  then show ?thesis using binary_reply_call.on_client_inv [OF assms(1)] assms(2) by fastforce
next
  case (SrvSendBinary i ch pos data put)
  then show ?thesis using binary_call.on_client_inv [OF assms(1)] assms(2) by fastforce
next
  case (SrvBroadcast name v data)
  show ?thesis
  proof (cases "sv_listening s")
    case True
    obtain objs where l: "broadcast_loop (se_transport E) name v data (sv_objects s) = Some objs" and s': "s' = s\<lparr>sv_objects := objs\<rparr>"
      using SrvBroadcast assms(2) True by (cases "broadcast_loop (se_transport E) name v data (sv_objects s)") (simp_all add: broadcastEvent_def)
    note b = broadcast_loop_keeps [OF l]
    have d: "distinct (map fst objs)" using assms(1) b by (simp add: server_inv_def numbers_ok_def)
    have "server_inv (s\<lparr>sv_objects := objs\<rparr>)" by (rule server_inv_weaker [OF assms(1) d]) (use b in blast)
    then show ?thesis by (simp add: s')
  qed (use SrvBroadcast assms in \<open>simp add: broadcastEvent_def\<close>)
next
  case SrvPurge
  have "distinct (map fst (m_connections s))" using assms(1) by (simp add: server_inv_def numbers_ok_def m_connections_def distinct_map_filter)
  then have "server_inv (s\<lparr>sv_objects := m_connections s\<rparr>)" by (rule server_inv_weaker [OF assms(1)]) (auto simp: m_connections_def)
  then show ?thesis using SrvPurge assms(2) by auto
next
  case SrvClose
  then have s': "s' = server_close s" using assms(2) by simp
  show ?thesis
    by (cases "sv_listening s") (use assms(1) in \<open>simp_all add: s' server_close_def server_inv_def numbers_ok_def\<close>)
qed

lemma server_inv_run:
  "server_inv s \<Longrightarrow> server_run E cmds s = Some (evs, s') \<Longrightarrow> unat (sv_nextChannelId s) + length cmds < 2 ^ 32 \<Longrightarrow>
   server_inv s' \<and> unat (sv_nextChannelId s') \<le> unat (sv_nextChannelId s) + length cmds"
proof (induction cmds arbitrary: s evs)
  case (Cons cmd cmds)
  obtain e1 s1 e2 where 1: "server_exec E cmd s = Some (e1, s1)" and 2: "server_run E cmds s1 = Some (e2, s')"
    using Cons.prems(2) by (auto split: option.splits)
  have i: "server_inv s1" "unat (sv_nextChannelId s1) \<le> unat (sv_nextChannelId s) + 1"
    using server_inv_exec [OF Cons.prems(1) 1] Cons.prems(3) by simp_all
  then show ?case using Cons.IH [OF i(1) 2] Cons.prems(3) by simp
qed simp

end
