(* ===== verification/Protocol_Properties.thy ===== *)
theory Protocol_Properties imports Inc_Ownership begin

text \<open>
  What iINCProtocol promises its callers: the wire carries the accepted messages, requests
  stay alive until they are finished and are finished once by their reply or by the end of
  the connection, binary data arrives as it was sent, and slots of shared memory come back
  with the acknowledgement (and where they do not).
\<close>

section \<open>Binary payloads\<close>

lemma direct_payload_put:
  assumes "bytes_ok data"
  shows "direct_payload (setData (m_data (putBytes data (putInt64 pos new_tag_struct))) new_tag_struct) = Some (pos, data)"
proof -
  let ?ts = "setData (m_data (putBytes data (putInt64 pos new_tag_struct))) new_tag_struct"
  have d: "m_data ?ts = (tag_code TAG_INT64 # halves pos) @ encBytes data" "m_readIndex ?ts = 0"
    by (simp_all add: setData_def byt.put_data i64.put_data new_tag_struct_def)
  note g1 = i64.get_first [OF TrueI d]
  have "getBytes (?ts\<lparr>m_readIndex := length (tag_code TAG_INT64 # halves pos)\<rparr>) =
      (Some data, ?ts\<lparr>m_readIndex := length (tag_code TAG_INT64 # halves pos) + length (encBytes data)\<rparr>)"
    using byt.get_enc [OF assms, of "?ts\<lparr>m_readIndex := length (tag_code TAG_INT64 # halves pos)\<rparr>" "tag_code TAG_INT64 # halves pos" "[]"] d(1) by simp
  then show ?thesis unfolding direct_payload_def g1 using d(1) by (simp add: eof_def)
qed

definition shm_fields :: "xint64 \<Rightarrow> shm_put \<Rightarrow> nat \<Rightarrow> field list" where
  "shm_fields pos s sz = [FInt64 pos, FUint32 (sp_memType s), FUint32 (sp_blockId s), FUint32 (sp_shmId s),
     FUint64 (sp_offset s + sp_slice s), FUint64 (of_nat sz)]"

lemma shm_payload_fields: "shm_payload pos s sz = put_fields (shm_fields pos s sz) new_tag_struct"
  by (simp add: shm_payload_def put_fields_def shm_fields_def)

lemma shm_reference_put:
  "shm_reference (setData (m_data (shm_payload pos s sz)) new_tag_struct) =
     Some (pos, sp_memType s, sp_blockId s, sp_shmId s, sp_offset s + sp_slice s, of_nat sz)"
proof -
  let ?ts = "setData (m_data (shm_payload pos s sz)) new_tag_struct"
  have "m_data ?ts = concat (map enc_field (shm_fields pos s sz))" "m_readIndex ?ts = 0"
    by (simp_all add: setData_def shm_payload_fields put_fields_data new_tag_struct_def)
  then have "get_fields (map field_tag (shm_fields pos s sz)) ?ts =
      (Some (shm_fields pos s sz), ?ts\<lparr>m_readIndex := length (m_data ?ts)\<rparr>)"
    using msg.get_first [of "shm_fields pos s sz" "shm_fields pos s sz" ?ts "[]"] by (simp add: shm_fields_def)
  then show ?thesis
    by (auto simp: shm_fields_def shm_reference_def eof_def split: prod.splits option.splits)
qed

definition copy_message :: "xuint32 \<Rightarrow> xuint32 \<Rightarrow> bool \<Rightarrow> xint64 \<Rightarrow> bytes \<Rightarrow> inc_message" where
  "copy_message ch sq bc pos data = (new_message INC_MSG_BINARY_DATA ch sq)
     \<lparr>msg_flags := (if bc then INC_MSG_FLAG_NOACK else INC_MSG_FLAG_NONE),
      msg_payload := putBytes data (putInt64 pos new_tag_struct)\<rparr>"

definition shm_message :: "xuint32 \<Rightarrow> xuint32 \<Rightarrow> xint64 \<Rightarrow> shm_put \<Rightarrow> nat \<Rightarrow> inc_message" where
  "shm_message ch sq pos s sz = (new_message INC_MSG_BINARY_DATA ch sq)
     \<lparr>msg_payload := shm_payload pos s sz, msg_flags := INC_MSG_FLAG_SHM_DATA\<rparr>"

lemma sendBinaryData_copy:
  "\<not> p_memPool p \<or> put = None \<Longrightarrow> sendBinaryData D ch bc pos data put p d =
     sendMessage D (copy_message ch (p_seqCounter p) bc pos data)
       (meter (onBinaryFrameSent (length data) \<circ> onShmMiss) (p\<lparr>p_seqCounter := p_seqCounter p + 1\<rparr>)) d"
  by (auto simp: sendBinaryData_def nextSequence_def Let_def copy_message_def)

lemma sendBinaryData_shm:
  "p_memPool p \<Longrightarrow> sendBinaryData D ch bc pos data (Some s) p d =
     (let (op, evs, p2, d2) = sendMessage D (shm_message ch (p_seqCounter p) pos s (length data))
            (meter (onBinaryFrameSent (length data) \<circ> onShmHit)
              (p\<lparr>p_seqCounter := p_seqCounter p + 1, p_exported := p_exported p @ [sp_blockId s]\<rparr>)) d
      in (op, evs, (case op of Some i \<Rightarrow> with_op i (\<lambda>o1. o1\<lparr>op_blockID := sp_blockId s\<rparr>) p2 | None \<Rightarrow> p2), d2))"
  by (simp add: sendBinaryData_def nextSequence_def Let_def shm_message_def)

lemma copy_message_received:
  assumes "bytes_ok data" and "\<not> p_isPassthrough p"
  shows "fst (onMessageReceived D imp (received (copy_message ch sq bc pos data)) p d) = [BinaryDataReceived ch sq bc pos data]"
proof -
  let ?m = "received (copy_message ch sq bc pos data)"
  have p: "direct_payload (msg_payload ?m) = Some (pos, data)"
    using direct_payload_put [OF assms(1), of pos] by (simp add: received_def copy_message_def setData_def new_tag_struct_def)
  have m: "msg_type ?m = INC_MSG_BINARY_DATA" "msg_channelID ?m = ch" "msg_seqNum ?m = sq" "msg_extFd ?m = -1"
    "msg_flags ?m = (if bc then INC_MSG_FLAG_NOACK else INC_MSG_FLAG_NONE)"
    by (simp_all add: received_def copy_message_def new_message_def)
  have pt: "p_isPassthrough (complete_op ?m (meter f (cache_fd (- 1) p))) = p_isPassthrough p" for f
    by (simp add: complete_op_def m INC_MSG_BINARY_DATA_def meter_def cache_fd_def)
  show ?thesis using assms(2) p
    by (simp add: onMessageReceived_def m pt processBinaryDataMessage_def processDirectBinaryData_def Let_def
        INC_MSG_FLAG_NOACK_def INC_MSG_FLAG_NONE_def INC_MSG_FLAG_SHM_DATA_def INC_MSG_BINARY_DATA_def)
qed

lemma shm_message_received:
  assumes "\<not> p_isPassthrough p" and "p_memPool p"
    and "imp (sp_memType s) (sp_blockId s) (sp_shmId s) (p_cachedPeerMemFd p) (sp_offset s + sp_slice s) (of_nat sz) = Some data"
  shows "fst (onMessageReceived D imp (received (shm_message ch sq pos s sz)) p d) = [BinaryDataReceived ch sq False pos data]"
proof -
  let ?m = "received (shm_message ch sq pos s sz)"
  have p: "shm_reference (msg_payload ?m) =
      Some (pos, sp_memType s, sp_blockId s, sp_shmId s, sp_offset s + sp_slice s, of_nat sz)"
    using shm_reference_put [of pos s sz] by (simp add: received_def shm_message_def setData_def new_tag_struct_def)
  have m: "msg_type ?m = INC_MSG_BINARY_DATA" "msg_channelID ?m = ch" "msg_seqNum ?m = sq" "msg_extFd ?m = -1"
    "msg_flags ?m = INC_MSG_FLAG_SHM_DATA"
    by (simp_all add: received_def shm_message_def new_message_def)
  have pt: "complete_op ?m q = q" "cache_fd (- 1) p = p" for q
    by (simp_all add: complete_op_def m INC_MSG_BINARY_DATA_def cache_fd_def)
  show ?thesis using assms p
    by (simp add: onMessageReceived_def m pt processBinaryDataMessage_def processSHMBinaryData_def Let_def
        INC_MSG_FLAG_SHM_DATA_def INC_MSG_BINARY_DATA_def meter_def)
qed

section \<open>Finishing\<close>

definition finished :: "(nat \<Rightarrow> nat) \<Rightarrow> proto \<Rightarrow> nat \<Rightarrow> bool" where
  "finished h p i \<longleftrightarrow> (0 < h i \<longrightarrow> (\<exists>op. p_heap p i = Some op \<and> op_state op \<noteq> STATE_RUNNING))"

lemma setResult_finishes: "op_state (setResult c bs op) \<noteq> STATE_RUNNING"
  by (cases "op_state op") (simp_all add: op_simps)

lemma release_slot_heap: "p_heap (release_slot i p) j = map_option (\<lambda>op. if j = i \<and> p_memPool p \<and> block_of i p \<noteq> 0 then op\<lparr>op_blockID := 0\<rparr> else op) (p_heap p j)"
  by (cases "p_heap p j") (auto simp: release_slot_def with_op_def processRelease_def)

lemma cancel_loop_heap:
  "owned h p \<Longrightarrow> p_operations p = ops \<Longrightarrow> p_heap p j = Some op \<Longrightarrow> 0 < h j \<Longrightarrow>
   \<exists>op'. p_heap (cancel_loop code ops p) j = Some op' \<and>
     (op_state op \<noteq> STATE_RUNNING \<or> j \<in> snd ` set ops \<longrightarrow> op_state op' \<noteq> STATE_RUNNING)"
proof (induction ops arbitrary: p op)
  case (Cons e rest)
  obtain s i where e: "e = (s, i)" by fastforce
  note p = Cons.prems(1) and ops = Cons.prems(2) [unfolded e]
  let ?q = "with_op i (setResult code []) (release_slot i (p\<lparr>p_operations := rest\<rparr>))"
  let ?p = "deref_op i ?q"
  have ow: "owned h ?p"
    unfolding head_entry(1) [OF p ops]
    by (rule owned_finish [OF p head_entry(2) [OF p ops]]) (simp add: owned_with_op owned_release_slot)
  have ex: "\<exists>op1. p_heap ?p j = Some op1" using owned_held [OF ow Cons.prems(4)] .
  then obtain op1 where o1: "p_heap ?p j = Some op1" by blast
  then have "p_heap ?q j = Some op1" by (auto simp: deref_op_def Let_def split: if_splits)
  then have st: "op_state op \<noteq> STATE_RUNNING \<or> j = i \<longrightarrow> op_state op1 \<noteq> STATE_RUNNING"
    using Cons.prems(3) setResult_finishes
    by (auto simp: with_op_def release_slot_heap split: if_splits)
  have "p_operations ?p = rest" by simp
  from Cons.IH [OF ow this o1 Cons.prems(4)] st show ?case using e by auto
qed auto

text \<open>The reply of an operation.\<close>

lemma complete_op_reply:
  assumes "owned h p" and "(s, i) \<in> set (p_operations p)" and "0 < h i"
    and "msg_type msg AND 1 \<noteq> 0" and "msg_seqNum msg = s" and "0 < s"
  shows "\<exists>op. p_heap p i = Some op \<and>
    p_heap (complete_op msg p) i = Some (setResult 0 (m_data (msg_payload msg)) op) \<and>
    s \<notin> fst ` set (p_operations (complete_op msg p)) \<and>
    p_exported (complete_op msg p) =
      (if p_memPool p \<and> msg_type msg = INC_MSG_BINARY_DATA_ACK \<and> op_blockID op \<noteq> 0
       then remove1 (op_blockID op) (p_exported p) else p_exported p)"
proof -
  obtain op where op: "p_heap p i = Some op" using owned_alive(1) [OF assms(1,2)] by blast
  have f: "ops_find s p = Some i" using assms(1,2) by (simp add: ops_find_def owned_def)
  have "1 + 1 \<le> p_refs p i"
  proof -
    have "table_refs p i = 1" using assms(2) by (force simp: table_refs_def)
    then show ?thesis using owned_le [OF assms(1), of i] assms(3) by linarith
  qed
  then show ?thesis using f op assms(4-6)
    by (auto simp: complete_op_def Let_def deref_op_def with_op_def meter_def processRelease_def ops_erase_def block_of_def)
qed

text \<open>A full queue.\<close>

lemma sendMessage_full:
  assumes "owned h p" and "INC_MAX_SEND_QUEUE \<le> length (p_sendQueue p)" and "isValid msg" and "is_tracked msg"
    and "sendMessage D msg p d = (op, evs, p', d')"
  shows "op = Some (p_nextOp p) \<and> evs = [ErrorOccurred INC_ERROR_QUEUE_FULL] \<and> d' = d \<and>
    p_operations p' = p_operations p \<and> p_sendQueue p' = p_sendQueue p \<and> p_exported p' = p_exported p \<and>
    p_memPool p' = p_memPool p \<and> p_seqCounter p' = p_seqCounter p \<and>
    p_heap p' (p_nextOp p) = Some (setResult (int INC_ERROR_QUEUE_FULL) [] (new_operation (msg_seqNum msg)))"
  using assms(2-5)
  by (auto simp: sendMessage_def sendMessageImpl_def Let_def alloc_op_def ref_op_def deref_op_def with_op_def meter_def)

lemma sendMessage_waits:
  assumes "sendMessage D m p d = (op, evs, p', d')" and "length (p_sendQueue p) < INC_MAX_SEND_QUEUE"
    and "isValid m" and "\<not> dv_isWritable D d"
  shows "p_sendQueue p' = p_sendQueue p @ [m] \<and> evs = [] \<and> (op = None \<longleftrightarrow> \<not> is_tracked m) \<and> p_exported p' = p_exported p"
proof (cases "is_tracked m")
  case True
  let ?q = "ref_op (p_nextOp p) (snd (alloc_op (msg_seqNum m) p))"
  have q: "p_sendQueue ?q = p_sendQueue p" "p_exported ?q = p_exported p" by (simp_all add: ref_op_def alloc_op_def)
  have "op = Some (p_nextOp p)" "sendMessageImpl D m (Some (p_nextOp p)) ?q d = (evs, p', d')"
    using assms(1,3) True by (auto simp: sendMessage_def alloc_op_def)
  then show ?thesis using assms(2,4) q True
    by (auto simp: sendMessageImpl_accept onReadyWrite_def enqueue_simps)
next
  case False
  then have "op = None" "sendMessageImpl D m None p d = (evs, p', d')"
    using assms(1,3) by (auto simp: sendMessage_def)
  then show ?thesis using assms(2,4) False
    by (auto simp: sendMessageImpl_accept onReadyWrite_def enqueue_simps)
qed

section \<open>A sample\<close>

definition idle_device :: "unit device" where
  "idle_device = \<lparr>dv_isWritable = (\<lambda>_. False), dv_writeMessage = (\<lambda>m off d. (0, d))\<rparr>"

definition sample_call :: inc_message where "sample_call = new_message INC_MSG_METHOD_CALL 3 1"
definition sample_reply :: inc_message where
  "sample_reply = (new_message INC_MSG_METHOD_REPLY 3 1)\<lparr>msg_payload := setData [42] new_tag_struct\<rparr>"

lemma new_proto_fields:
  "p_sendQueue (new_proto b) = []" "p_seqCounter (new_proto b) = 1" "p_sendQueue (enableMempool (new_proto b)) = []"
  "p_seqCounter (enableMempool (new_proto b)) = 1"
  by (simp_all add: new_proto_def enableMempool_def)

definition sample_put :: shm_put where
  "sample_put = \<lparr>sp_memType = 1, sp_blockId = 6, sp_shmId = 2, sp_offset = 64, sp_slice = 0\<rparr>"

definition called :: proto where
  "called = (case sendMessage idle_device sample_call (new_proto False) () of (_, _, p, _) \<Rightarrow> p)"

lemma isValid_new [simp]: "isValid (new_message INC_MSG_METHOD_CALL c s)"
  by (simp add: isValid_def new_message_def INC_MSG_METHOD_CALL_def INC_MSG_INVALID_def payload_size_def
      new_tag_struct_def)

lemma is_tracked_call [simp]: "is_tracked (new_message INC_MSG_METHOD_CALL c s)"
  by (simp add: is_tracked_def new_message_def INC_MSG_METHOD_CALL_def INC_MSG_FLAG_NONE_def)

lemma called_eq: "sendMessage idle_device sample_call (new_proto False) () = (Some 0, [], called, ())"
  and called_simps: "p_operations called = [(1, 0)]" "p_heap called 0 = Some (new_operation 1)"
    "p_sendQueue called = [sample_call]" "p_memPool called = False"
  unfolding called_def sample_call_def
  by (simp_all add: sendMessage_def alloc_op_def ref_op_def sendMessageImpl_def new_proto_def
      INC_MAX_SEND_QUEUE_def Let_def onReadyWrite_def idle_device_def meter_def ops_put_def)
    (simp_all add: new_message_def)

lemma called_reach: "(proto_step idle_device imp)\<^sup>*\<^sup>* (\<lambda>_. 0, new_proto False, ()) ((\<lambda>_. 0)(0 := 1), called, ())"
  using ps_send [OF called_eq, of imp "\<lambda>_. 0"] by (simp add: r_into_rtranclp)

text \<open>A kernel that takes one whole message, then nothing.\<close>

definition sample_link :: link where
  "sample_link = \<lparr>lk_device = sample_device, lk_script = [Sent 32], lk_wire = []\<rparr>"

definition sample_run :: "bool \<Rightarrow> inc_message list \<times> bool \<times> proto \<times> link" where
  "sample_run unix = sender_run (if unix then unix_sender False else tcp_sender False) [CmdSend sample_call] (new_proto False) sample_link"

lemma sample_size: "total_size sample_call = 32" "sample_call = new_message INC_MSG_METHOD_CALL 3 1"
  "msg_extFd sample_call = -1" "m_data (msg_payload sample_call) = []"
  by (simp_all add: total_size_def sample_call_def new_message_def payload_size_def new_tag_struct_def HEADER_SIZE_def)

lemma sample_iov: "iov_bytes False sample_call 0 = encode_message False sample_call"
  by (simp add: iov_bytes_drop)

lemma sample_run_simps:
  "\<exists>p k. sample_run unix = ([sample_call], False, p, k) \<and> p_sendQueue p = [] \<and> lk_wire k = encode_message False sample_call"
proof -
  let ?k = "sample_link\<lparr>lk_script := [], lk_wire := encode_message False sample_call\<rparr>"
  have w: "tcp_link_write False sample_call 0 sample_link = (32, ?k)" "unix_link_write False sample_call 0 sample_link = (32, ?k)"
    by (simp_all add: tcp_link_write_def unix_link_write_def tcp_writeMessage_def unix_writeMessage_def sample_iov
        kernel_answer_def sample_link_def sample_size(1,3) fd_to_send_def)
  let ?D = "if unix then unix_sender False else tcp_sender False"
  have wr: "dv_isWritable ?D sample_link" "dv_writeMessage ?D sample_call 0 sample_link = (32, ?k)"
    using w by (simp_all add: unix_sender_def tcp_sender_def sample_link_def sample_device_def)
  then have "send_loop ?D [sample_call] 0 sample_link = ([], 0, Some False, [], ?k)"
    by (simp add: sample_size(1) Let_def)
  then have ready: "p_sendQueue q = [sample_call] \<Longrightarrow> p_partialSendOffset q = 0 \<Longrightarrow>
      onReadyWrite ?D q sample_link = ([], q\<lparr>p_sendQueue := [], p_partialSendOffset := 0, p_writeEvents := False\<rparr>, ?k)" for q
    using wr by (simp add: onReadyWrite_def)
  have v: "isValid sample_call" by (simp add: sample_size(2))
  obtain op evs p k where s: "sendMessage ?D sample_call (new_proto False) sample_link = (op, evs, p, k)" by (metis prod_cases4)
  then have "evs = [] \<and> p_sendQueue p = [] \<and> k = ?k"
  proof (cases rule: sendMessage_cases)
    case (sent p1)
    then have "p_sendQueue (enqueue sample_call op p1) = [sample_call]" "p_partialSendOffset (enqueue sample_call op p1) = 0"
      by (simp_all add: enqueue_simps new_proto_def)
    from ready [OF this] sent show ?thesis
      by (auto simp: sendMessageImpl_accept new_proto_def INC_MAX_SEND_QUEUE_def)
  qed (use v in simp)
  then show ?thesis using s v by (simp add: sample_run_def new_proto_def INC_MAX_SEND_QUEUE_def)
qed

text \<open>A protocol with a pool and a queue filled by events that nobody acknowledges.\<close>

definition sample_event :: inc_message where
  "sample_event = (new_message INC_MSG_EVENT 0 0)\<lparr>msg_flags := INC_MSG_FLAG_NOACK\<rparr>"

lemma fill_queue:
  "n \<le> INC_MAX_SEND_QUEUE \<Longrightarrow>
   \<exists>p. (proto_step idle_device imp)\<^sup>*\<^sup>* (\<lambda>_. 0, new_proto False, ()) (\<lambda>_. 0, p, ()) \<and> length (p_sendQueue p) = n \<and> p_memPool p"
proof (induction n)
  case 0
  have "proto_step idle_device imp (\<lambda>_. 0, new_proto False, ()) (\<lambda>_. 0, enableMempool (new_proto False), ())" by (rule ps_pool)
  then show ?case by (intro exI [of _ "enableMempool (new_proto False)"]) (simp add: new_proto_def enableMempool_def r_into_rtranclp)
next
  case (Suc n)
  then obtain p where p: "(proto_step idle_device imp)\<^sup>*\<^sup>* (\<lambda>_. 0, new_proto False, ()) (\<lambda>_. 0, p, ())"
    "length (p_sendQueue p) = n" "p_memPool p" by auto
  have e: "isValid sample_event" "\<not> is_tracked sample_event"
    by (simp_all add: isValid_def is_tracked_def sample_event_def new_message_def INC_MSG_EVENT_def INC_MSG_INVALID_def
        payload_size_def new_tag_struct_def INC_MSG_FLAG_NOACK_def)
  have s: "sendMessage idle_device sample_event p () = (None, [], enqueue sample_event None p, ())"
    using e p(2) Suc.prems
    by (simp add: sendMessage_def sendMessageImpl_accept onReadyWrite_def idle_device_def)
  show ?case using rtranclp.rtrancl_into_rtrancl [OF p(1) ps_send [OF s, of imp "\<lambda>_. 0"]] p(2,3)
    by (intro exI [of _ "enqueue sample_event None p"]) (simp add: enqueue_simps)
qed

section \<open>Properties\<close>

text \<open>
  C1. End to end over TCP: from any device with an empty wire, a caller sends any messages,
  the kernel takes any part of what it is offered at each write, and the receiver reads what
  is on the wire in any pieces. Unless a write failed, the receiver emits a prefix of the
  messages the protocol accepted, in order and unchanged, and all of them when the send
  queue is empty.
\<close>

theorem tcp_end_to_end:
  assumes "sender_run (tcp_sender big) cs (new_proto b) k = (acc, False, p, k')" and "lk_wire k = []"
    and "rx_stream rs = Some (lk_wire k')" and "m_recvBuffer dev = []"
  shows "\<exists>n l. tcp_run big rs dev = (map (RxMessage \<circ> received) (take n acc), dev\<lparr>m_recvBuffer := l\<rparr>) \<and>
    n \<le> length acc \<and> (p_sendQueue p = [] \<and> rs \<noteq> [] \<longrightarrow> n = length acc)"
proof -
  have "tcps.sender_reach big [] False (new_proto b) k"
    by (rule tcps.sr_start) (simp_all add: new_proto_def assms(2))
  from tcps.sender_run_reach [OF this assms(1)] have "tcps.sender_reach big acc False p k'" by simp
  then show ?thesis by (rule tcps.sender_to_receiver) (rule assms(3,4))+
qed

theorem tcp_end_to_end_witness:
  "\<exists>l. tcp_run False [Received (encode_message False sample_call)] sample_device =
     ([RxMessage (received sample_call)], sample_device\<lparr>m_recvBuffer := l\<rparr>)"
proof -
  obtain p k where r: "sender_run (tcp_sender False) [CmdSend sample_call] (new_proto False) sample_link = ([sample_call], False, p, k)"
    "p_sendQueue p = []" "lk_wire k = encode_message False sample_call"
    using sample_run_simps [of False] by (auto simp: sample_run_def)
  have "rx_stream [Received (encode_message False sample_call)] = Some (lk_wire k)" by (simp add: r(3) rx_bytes_def)
  from tcp_end_to_end [OF r(1) _ this, of sample_device] r(2) show ?thesis
    by (auto simp: sample_link_def sample_device_def)
qed

text \<open>
  The same over a Unix socket, whose sender also passes descriptors: the receiver emits
  the accepted messages up to the descriptors attached.
\<close>

theorem unix_end_to_end:
  assumes "sender_run (unix_sender big) cs (new_proto b) k = (acc, False, p, k')" and "lk_wire k = []"
    and "rx_stream (map fst rs) = Some (lk_wire k')" and "m_recvBuffer dev = []"
  shows "\<exists>n. map erase_fd (fst (unix_run big rs dev)) = map (RxMessage \<circ> received) (take n acc) \<and>
    n \<le> length acc \<and> (p_sendQueue p = [] \<and> rs \<noteq> [] \<longrightarrow> n = length acc)"
proof -
  have "unixs.sender_reach big [] False (new_proto b) k"
    by (rule unixs.sr_start) (simp_all add: new_proto_def assms(2))
  from unixs.sender_run_reach [OF this assms(1)] have "unixs.sender_reach big acc False p k'" by simp
  from unixs.sender_to_receiver [OF this assms(3), of "forget_fds dev"] assms(4) obtain n l where
    n: "tcp_run big (map fst rs) (forget_fds dev) = (map (RxMessage \<circ> received) (take n acc), (forget_fds dev)\<lparr>m_recvBuffer := l\<rparr>)"
      "n \<le> length acc" "p_sendQueue p = [] \<and> rs \<noteq> [] \<longrightarrow> n = length acc" by auto
  have "map erase_fd (map (RxMessage \<circ> received) ms) = map (RxMessage \<circ> received) ms" for ms
    by (simp add: received_def)
  then have "map erase_fd (fst (unix_run big rs dev)) = map (RxMessage \<circ> received) (take n acc)"
    using unix_run_erase [of big rs dev] n(1) by simp
  with n(2,3) show ?thesis by blast
qed

theorem unix_end_to_end_witness:
  "map erase_fd (fst (unix_run False [(Received (encode_message False sample_call), 9)] sample_device)) = [RxMessage (received sample_call)]"
proof -
  obtain p k where r: "sender_run (unix_sender False) [CmdSend sample_call] (new_proto False) sample_link = ([sample_call], False, p, k)"
    "p_sendQueue p = []" "lk_wire k = encode_message False sample_call"
    using sample_run_simps [of True] by (auto simp: sample_run_def)
  have "rx_stream (map fst [(Received (encode_message False sample_call), 9::int)]) = Some (lk_wire k)" by (simp add: r(3) rx_bytes_def)
  from unix_end_to_end [OF r(1) _ this, of sample_device] r(2) show ?thesis
    by (auto simp: sample_link_def sample_device_def)
qed

text \<open>
  C12. No use after free: in every state the protocol can reach, with callers, the device
  and the peer acting in any order, the pending sequence numbers are distinct, every entry
  of the table and every handle a caller holds names a live operation, an entry's has the entry's number, and the send
  queue stays within its limit.
\<close>

theorem operations_stay_alive:
  assumes "(proto_step D imp)\<^sup>*\<^sup>* (\<lambda>_. 0, new_proto b, d) (h, p, d')"
  shows "distinct (map fst (p_operations p)) \<and>
    (\<forall>(s, i)\<in>set (p_operations p). \<exists>op. p_heap p i = Some op \<and> op_seqNum op = s) \<and>
    (\<forall>i. 0 < h i \<longrightarrow> p_heap p i \<noteq> None) \<and> length (p_sendQueue p) \<le> INC_MAX_SEND_QUEUE"
proof -
  have ow: "owned h p" by (rule owned_reach [OF assms])
  then have "\<forall>(s, i)\<in>set (p_operations p). \<exists>op. p_heap p i = Some op \<and> op_seqNum op = s" using owned_alive(1) by blast
  moreover have "\<forall>i. 0 < h i \<longrightarrow> p_heap p i \<noteq> None" using owned_held [OF ow] by blast
  moreover have "distinct (map fst (p_operations p))" using ow by (simp add: owned_def)
  moreover have "length (p_sendQueue p) \<le> INC_MAX_SEND_QUEUE" using bounded_reach [OF assms] by (simp add: queue_bounded_def)
  ultimately show ?thesis by blast
qed

theorem operations_stay_alive_witness:
  "p_heap called 0 \<noteq> None \<and> distinct (map fst (p_operations called))"
  using operations_stay_alive [OF called_reach [of "\<lambda>_ _ _ _ _ _. None"]] by auto



text \<open>
  C26. Ending a connection leaves nobody waiting: cancelAllOperations empties the table and
  every operation that was in it and is still held has left STATE_RUNNING.
\<close>

theorem cancelAll_finishes_all:
  assumes "(proto_step D imp)\<^sup>*\<^sup>* (\<lambda>_. 0, new_proto b, d) (h, p, d')"
  shows "p_operations (cancelAllOperations code p) = [] \<and>
    (\<forall>(s, i)\<in>set (p_operations p). finished h (cancelAllOperations code p) i)"
proof -
  have ow: "owned h p" by (rule owned_reach [OF assms])
  have "finished h (cancelAllOperations code p) i" if "(s, i) \<in> set (p_operations p)" for s i
    using cancel_loop_heap [OF ow refl, of i _ code] owned_alive(1) [OF ow that] that
    unfolding finished_def cancelAllOperations_def by force
  then show ?thesis using owned_cancel_loop [OF ow refl] by (auto simp: cancelAllOperations_def)
qed

theorem cancelAll_finishes_all_witness:
  "p_operations (cancelAllOperations 5 called) = [] \<and> finished ((\<lambda>_. 0)(0 := 1)) (cancelAllOperations 5 called) 0"
  using cancelAll_finishes_all [OF called_reach [of "\<lambda>_ _ _ _ _ _. None"], of 5] by (auto simp: called_simps)



text \<open>
  Binary data by reference: the peer announces what its import of the announced block,
  segment, offset (with the slice) and size gives, so the bytes of the block when the two
  pools share memory; the sender holds the slot until then.
\<close>

theorem shared_data_arrives:
  assumes "length (p_sendQueue p) < INC_MAX_SEND_QUEUE" and "\<not> dv_isWritable D d" and "p_memPool p"
    and "sendBinaryData D ch bc pos data (Some s) p d = (op, evs, p', d')"
    and "\<not> p_isPassthrough q" and "p_memPool q"
    and "imp (sp_memType s) (sp_blockId s) (sp_shmId s) (p_cachedPeerMemFd q) (sp_offset s + sp_slice s) (of_nat (length data)) = Some data"
  shows "\<exists>m. p_sendQueue p' = p_sendQueue p @ [m] \<and> p_exported p' = p_exported p @ [sp_blockId s] \<and>
    fst (onMessageReceived D' imp (received m) q e) = [BinaryDataReceived ch (p_seqCounter p) False pos data]"
proof -
  let ?m = "shm_message ch (p_seqCounter p) pos s (length data)"
  have v: "isValid ?m"
    by (simp add: isValid_def shm_message_def new_message_def INC_MSG_BINARY_DATA_def INC_MSG_INVALID_def
        payload_size_def shm_payload_fields put_fields_data shm_fields_def new_tag_struct_def MAX_MESSAGE_SIZE_def HEADER_SIZE_def)
  let ?q = "meter (onBinaryFrameSent (length data) \<circ> onShmHit)
      (p\<lparr>p_seqCounter := p_seqCounter p + 1, p_exported := p_exported p @ [sp_blockId s]\<rparr>)"
  obtain op1 evs1 p2 d2 where sm: "sendMessage D ?m ?q d = (op1, evs1, p2, d2)" by (metis prod_cases4)
  have q: "p_sendQueue ?q = p_sendQueue p" "p_exported ?q = p_exported p @ [sp_blockId s]" by (simp_all add: meter_def)
  have "p_sendQueue p2 = p_sendQueue p @ [?m]" "p_exported p2 = p_exported p @ [sp_blockId s]"
    using sendMessage_waits [OF sm _ v assms(2)] assms(1) q by auto
  moreover have "p' = (case op1 of Some i \<Rightarrow> with_op i (\<lambda>o1. o1\<lparr>op_blockID := sp_blockId s\<rparr>) p2 | None \<Rightarrow> p2)"
    using assms(4) sm by (auto simp: sendBinaryData_shm [OF assms(3)])
  ultimately have "p_sendQueue p' = p_sendQueue p @ [?m] \<and> p_exported p' = p_exported p @ [sp_blockId s]"
    by (simp add: with_op_def split: option.split)
  then show ?thesis
    using shm_message_received [of q imp s "length data" data D' ch "p_seqCounter p" pos e] assms(5,6,7) by blast
qed

theorem shared_data_arrives_witness:
  "\<exists>m. p_sendQueue (fst (snd (snd (sendBinaryData idle_device 4 False 0 [1, 2] (Some sample_put) (enableMempool (new_proto False)) ())))) = [m] \<and>
     fst (onMessageReceived idle_device (\<lambda>_ _ _ _ _ _. Some [1, 2]) (received m) (enableMempool (new_proto False)) ()) =
       [BinaryDataReceived 4 1 False 0 [1, 2]]"
proof -
  let ?p = "enableMempool (new_proto False)"
  obtain op evs p' d' where r: "sendBinaryData idle_device 4 False 0 [1, 2] (Some sample_put) ?p () = (op, evs, p', d')"
    by (metis prod_cases4)
  have "length (p_sendQueue ?p) < INC_MAX_SEND_QUEUE" "\<not> dv_isWritable idle_device ()" "p_memPool ?p" "\<not> p_isPassthrough ?p"
    by (simp_all add: new_proto_def INC_MAX_SEND_QUEUE_def idle_device_def enableMempool_def)
  from shared_data_arrives [OF this(1-3) r this(4,3), of "\<lambda>_ _ _ _ _ _. Some [1, 2]" idle_device "()"]
  show ?thesis by (auto simp: r new_proto_fields)
qed

text \<open>
  The slot that a full queue leaks: when the send queue is full, sendBinaryData by
  reference has exported the block, drops the message and fails the operation, but the
  operation is not in the table, so releaseOperation on it gives nothing back.
\<close>

theorem full_queue_leaks_slot:
  assumes "(proto_step D imp)\<^sup>*\<^sup>* (\<lambda>_. 0, new_proto b, d0) (h, p, d)"
    and "INC_MAX_SEND_QUEUE \<le> length (p_sendQueue p)" and "p_memPool p"
    and "sendBinaryData D ch bc pos data (Some s) p d = (op, evs, p', d')"
  shows "p_exported p' = p_exported p @ [sp_blockId s] \<and> p_sendQueue p' = p_sendQueue p \<and>
    evs = [ErrorOccurred INC_ERROR_QUEUE_FULL] \<and> releaseOperation op p' = p'"
proof -
  let ?m = "shm_message ch (p_seqCounter p) pos s (length data)"
  let ?q = "meter (onBinaryFrameSent (length data) \<circ> onShmHit)
      (p\<lparr>p_seqCounter := p_seqCounter p + 1, p_exported := p_exported p @ [sp_blockId s]\<rparr>)"
  have v: "isValid ?m"
    by (simp add: isValid_def shm_message_def new_message_def INC_MSG_BINARY_DATA_def INC_MSG_INVALID_def
        payload_size_def shm_payload_fields put_fields_data shm_fields_def new_tag_struct_def MAX_MESSAGE_SIZE_def HEADER_SIZE_def)
  have t: "is_tracked ?m"
    by (simp add: is_tracked_def shm_message_def new_message_def INC_MSG_BINARY_DATA_def INC_MSG_FLAG_NOACK_def INC_MSG_FLAG_SHM_DATA_def)
  have ow: "owned h p" by (rule owned_reach [OF assms(1)])
  then have owq: "owned h ?q" by simp
  obtain op1 evs1 p2 d2 where sm: "sendMessage D ?m ?q d = (op1, evs1, p2, d2)" by (metis prod_cases4)
  have full: "INC_MAX_SEND_QUEUE \<le> length (p_sendQueue ?q)" using assms(2) by (simp add: meter_def)
  note sf = sendMessage_full [OF owq full v t sm]
  let ?p' = "with_op (p_nextOp p) (\<lambda>o1. o1\<lparr>op_blockID := sp_blockId s\<rparr>) p2"
  have eqs: "op = Some (p_nextOp p)" "p' = ?p'" "evs = evs1"
    using assms(4) sm sf by (auto simp: sendBinaryData_shm [OF assms(3)] meter_def)
  have fresh: "p_nextOp p \<notin> snd ` set (p_operations p)"
    using owned_le [OF ow, of "p_nextOp p"] ow by (auto simp: owned_def table_refs_def split: if_splits)
  have "ops_find k ?p' \<noteq> Some (p_nextOp p)" for k
  proof
    assume "ops_find k ?p' = Some (p_nextOp p)"
    then have "(k, p_nextOp p) \<in> set (p_operations p)" using ops_find_in [of k ?p'] sf by (simp add: meter_def)
    then show False using fresh by force
  qed
  then have "releaseOperation op p' = p'" unfolding eqs by (simp add: releaseOperation_def split: option.split)
  then show ?thesis using sf eqs by (simp add: meter_def with_op_def)
qed

theorem full_queue_leaks_slot_witness:
  "\<exists>p. p_exported (fst (snd (snd (sendBinaryData idle_device 4 False 0 [1, 2] (Some sample_put) p ())))) = p_exported p @ [6]"
proof -
  obtain p where p: "(proto_step idle_device (\<lambda>_ _ _ _ _ _. None))\<^sup>*\<^sup>* (\<lambda>_. 0, new_proto False, ()) (\<lambda>_. 0, p, ())"
    "INC_MAX_SEND_QUEUE \<le> length (p_sendQueue p)" "p_memPool p"
    using fill_queue [OF order_refl, of "\<lambda>_ _ _ _ _ _. None"] by (metis order_refl)
  obtain op evs p' d' where r: "sendBinaryData idle_device 4 False 0 [1, 2] (Some sample_put) p () = (op, evs, p', d')"
    by (metis prod_cases4)
  have "sp_blockId sample_put = 6" by (simp add: sample_put_def)
  with full_queue_leaks_slot [OF p r] show ?thesis by (intro exI [of _ p]) (simp add: r)
qed

end
