(* ===== verification/Application_Laws.thy ===== *)
theory Application_Laws imports Inc_Context Server_Laws Protocol_Properties begin

text \<open>
  Laws that the properties of server and context share: what a peer reads of the payloads
  they send, what reaches the wire of a connection over a stream device (locale
  transport_sender, interpreted on both stream devices), and the context's invariant.
\<close>


section \<open>Payloads that round-trip\<close>

text \<open>What a peer reads of a payload built from fields.\<close>

definition sent_as :: "field list \<Rightarrow> tag_struct" where
  "sent_as fs = setData (m_data (put_fields fs new_tag_struct)) new_tag_struct"

lemma read_sent:
  assumes "list_all field_ok fs"
  shows "get_fields (map field_tag fs) (sent_as fs) = (Some fs, (sent_as fs)\<lparr>m_readIndex := length (m_data (sent_as fs))\<rparr>)"
proof -
  have "m_data (sent_as fs) = concat (map enc_field fs)" "m_readIndex (sent_as fs) = 0"
    by (simp_all add: sent_as_def setData_def put_fields_data new_tag_struct_def)
  then show ?thesis using msg.get_first [of fs fs "sent_as fs" "[]"] assms by simp
qed

lemma method_payload_sent:
  assumes "string_ok name" and "bytes_ok args"
  shows "method_payload (sent_as [FUint16 v, FString name, FBytes args]) = Some (v, name, args)"
  using read_sent [of "[FUint16 v, FString name, FBytes args]"] assms
  by (auto simp: method_payload_def eof_def split: prod.splits option.splits)

lemma event_payload_sent:
  assumes "string_ok name" and "bytes_ok data"
  shows "event_payload (sent_as [FUint16 v, FString name, FBytes data]) = Some (v, name, data)"
  using read_sent [of "[FUint16 v, FString name, FBytes data]"] assms
  by (auto simp: event_payload_def eof_def split: prod.splits option.splits)

lemma pattern_payload_sent: "string_ok pat \<Longrightarrow> pattern_payload (sent_as [FString pat]) = Some pat"
  using read_sent [of "[FString pat]"] by (auto simp: pattern_payload_def eof_def split: prod.splits option.splits)

lemma stream_open_payload_sent:
  assumes "string_ok name" and "\<forall>t nm. offer = Some (t, nm) \<longrightarrow> bytes_ok nm"
  shows "stream_open_payload (sent_as ([FString name, FUint32 mode, FBool (offer \<noteq> None)] @
    (case offer of None \<Rightarrow> [] | Some (t, nm) \<Rightarrow> [FUint16 t, FBytes nm]))) = Some (name, mode, offer)"
proof (cases offer)
  case None
  then show ?thesis using read_sent [of "[FString name, FUint32 mode, FBool False]"] assms
    by (auto simp: stream_open_payload_def eof_def split: prod.splits option.splits)
next
  case (Some o1)
  obtain t nm where o: "o1 = (t, nm)" by fastforce
  then show ?thesis using read_sent [of "[FString name, FUint32 mode, FBool True, FUint16 t, FBytes nm]"] assms Some
    by (auto simp: stream_open_payload_def eof_def split: prod.splits option.splits)
qed

text \<open>The payloads of the messages, and a method's reply as the caller reads it.\<close>

lemma received_payload: "msg_payload (received m) = setData (m_data (msg_payload m)) new_tag_struct"
  by (simp add: received_def)

lemma sent_payloads:
  "msg_payload (received (call_message cid sq name v args dts)) = sent_as [FUint16 v, FString name, FBytes args]"
  "msg_payload (received (event_message cid sq name v data)) = sent_as [FUint16 v, FString name, FBytes data]"
  "msg_payload (received (pattern_message ty cid sq pat)) = sent_as [FString pat]"
  "msg_payload (received (open_message cid sq name mode offer)) = sent_as ([FString name, FUint32 mode, FBool (offer \<noteq> None)] @
     (case offer of None \<Rightarrow> [] | Some (t, nm) \<Rightarrow> [FUint16 t, FBytes nm]))"
  "msg_payload (received (code_reply ty ch sq code)) = sent_as [FInt32 code]"
  "msg_payload (received (method_reply cid sq code res)) = sent_as [FInt32 code, FBytes res]"
  by (simp_all add: received_payload sent_as_def put_fields_def call_message_def event_message_def pattern_message_def
      open_message_def code_reply_def method_reply_def Let_def split: option.split)

definition read_reply :: "tag_struct \<Rightarrow> (xint32 \<times> bytes) option" where
  "read_reply ts =
     (case getInt32 ts of (Some code, t1) \<Rightarrow> (case getBytes t1 of (Some res, t2) \<Rightarrow> Some (code, res) | _ \<Rightarrow> None) | _ \<Rightarrow> None)"

lemma read_reply_sent: "bytes_ok res \<Longrightarrow> read_reply (sent_as [FInt32 code, FBytes res]) = Some (code, res)"
  using read_sent [of "[FInt32 code, FBytes res]"]
  by (auto simp: read_reply_def split: prod.splits option.splits)

lemma received_fields [simp]:
  "msg_type (received m) = msg_type m" "msg_seqNum (received m) = msg_seqNum m" "msg_channelID (received m) = msg_channelID m"
  "msg_dts (received m) = msg_dts m" "msg_extFd (received m) = -1" "msg_flags (received m) = msg_flags m"
  by (simp_all add: received_def)

lemma message_fields [simp]:
  "msg_type (call_message cid sq name v args dts) = INC_MSG_METHOD_CALL" "msg_seqNum (call_message cid sq name v args dts) = sq"
  "msg_dts (call_message cid sq name v args dts) = dts"
  "msg_type (event_message cid sq name v data) = INC_MSG_EVENT" "msg_seqNum (event_message cid sq name v data) = sq"
  "msg_dts (event_message cid sq name v data) = DTS_FOREVER"
  "msg_type (pattern_message ty cid sq pat) = ty" "msg_seqNum (pattern_message ty cid sq pat) = sq"
  "msg_channelID (pattern_message ty cid sq pat) = cid" "msg_dts (pattern_message ty cid sq pat) = DTS_FOREVER"
  "msg_type (open_message cid sq name mode offer) = INC_MSG_STREAM_OPEN" "msg_seqNum (open_message cid sq name mode offer) = sq"
  "msg_channelID (open_message cid sq name mode offer) = cid" "msg_dts (open_message cid sq name mode offer) = DTS_FOREVER"
  "msg_type (method_reply cid sq code res) = INC_MSG_METHOD_REPLY" "msg_seqNum (method_reply cid sq code res) = sq"
  "msg_type (code_reply ty ch sq code) = ty" "msg_seqNum (code_reply ty ch sq code) = sq"
  "msg_type (handshake_message cid sq bs) = INC_MSG_HANDSHAKE" "msg_seqNum (handshake_message cid sq bs) = sq"
  "msg_dts (handshake_message cid sq bs) = DTS_FOREVER"
  by (simp_all add: call_message_def event_message_def pattern_message_def open_message_def method_reply_def code_reply_def
      handshake_message_def new_message_def Let_def)

lemma never_expires [simp]: "msg_dts m = DTS_FOREVER \<Longrightarrow> \<not> expired now m" by (simp add: expired_def)

section \<open>Sending\<close>

context stream_sender begin

lemma send_reach:
  assumes "sender_reach acc f p d" and "sendMessage D m p d = (op, [], p', d')"
  shows "isValid m \<and> length (p_sendQueue p) < INC_MAX_SEND_QUEUE \<and> sender_reach (acc @ [m]) f p' d'"
  using assms(2)
proof (cases rule: sendMessage_cases)
  case (sent q)
  have r: "sender_reach acc f q d" using sr_other [OF assms(1)] sent by simp
  have l: "length (p_sendQueue q) < INC_MAX_SEND_QUEUE" using sent(4) by (auto simp: sendMessageImpl_def Let_def split: if_splits)
  from sr_send [OF r sent(1,4)] l sent show ?thesis by simp
qed simp

end

text \<open>The transport of a connection over a stream: its device, and what closing leaves on the wire.\<close>

locale transport_sender = stream_sender D wire big for D :: "'d device" and wire :: "'d \<Rightarrow> bytes" and big +
  fixes T :: "'d transport"
  assumes transport_device: "tr_device T = D"
begin

definition conn_reach :: "inc_message list \<Rightarrow> ('d, 'c) connection \<Rightarrow> bool" where
  "conn_reach acc c \<longleftrightarrow> sender_reach acc False (cn_proto c) (cn_device c)"

lemma conn_reach_send:
  assumes "conn_reach acc c" and "conn_sendMessage T m c = (op, [], c')"
  shows "isValid m \<and> conn_reach (acc @ [m]) c'"
proof -
  obtain evs p d where s: "sendMessage D m (cn_proto c) (cn_device c) = (op, evs, p, d)" and "error_codes evs = []"
    and c': "c' = c\<lparr>cn_proto := p, cn_device := d\<rparr>"
    using assms(2) by (auto simp: conn_sendMessage_def transport_device split: prod.splits)
  moreover have "only_errors evs" by (rule sendMessage_errors [OF s])
  ultimately have "evs = []" by (auto simp: only_errors_def)
  with send_reach [OF _ s [unfolded this]] assms(1) show ?thesis by (simp add: conn_reach_def c')
qed

lemma conn_reach_other:
  "conn_reach acc c \<Longrightarrow> p_sendQueue (cn_proto c') = p_sendQueue (cn_proto c) \<Longrightarrow>
   p_partialSendOffset (cn_proto c') = p_partialSendOffset (cn_proto c) \<Longrightarrow> cn_device c' = cn_device c \<Longrightarrow> conn_reach acc c'"
  unfolding conn_reach_def using sr_other by metis

lemma conn_reach_next: "conn_reach acc c \<Longrightarrow> conn_nextSequence c = (sq, c') \<Longrightarrow> conn_reach acc c'"
  by (erule conn_reach_other) (auto simp: conn_nextSequence_def nextSequence_def)

lemma conn_reach_drop: "conn_reach acc c \<Longrightarrow> conn_reach acc (conn_drop op c)"
  by (erule conn_reach_other) (auto simp: conn_drop_def deref_op_def Let_def split: option.splits)

lemma conn_reach_event:
  assumes "conn_reach acc c" and "sendEvent T name v data c = ([], c')"
  shows "conn_reach (acc @ [event_message (cn_connId c) (p_seqCounter (cn_proto c)) name v data]) c'"
proof -
  obtain c1 where n: "conn_nextSequence c = (p_seqCounter (cn_proto c), c1)" by (auto simp: conn_nextSequence_def nextSequence_def)
  obtain op c2 where s: "conn_sendMessage T (event_message (cn_connId c) (p_seqCounter (cn_proto c)) name v data) c1 = (op, [], c2)"
    and c': "c' = conn_drop op c2"
    using assms(2) n by (auto simp: sendEvent_def split: prod.splits)
  show ?thesis unfolding c' by (rule conn_reach_drop) (use conn_reach_send [OF conn_reach_next [OF assms(1) n] s] in simp)
qed

end

text \<open>close of the two stream devices: the event source goes, the wire stays.\<close>

definition link_close :: "link \<Rightarrow> link" where
  "link_close k = k\<lparr>lk_device := (lk_device k)\<lparr>m_attached := False\<rparr>\<rparr>"

definition tcp_transport :: "bool \<Rightarrow> bool \<Rightarrow> link transport" where
  "tcp_transport big near = \<lparr>tr_device = tcp_sender big, tr_isLocal = (\<lambda>_. near), tr_close = link_close\<rparr>"

definition unix_transport :: "bool \<Rightarrow> link transport" where
  "unix_transport big = \<lparr>tr_device = unix_sender big, tr_isLocal = (\<lambda>_. True), tr_close = link_close\<rparr>"

interpretation tcpt: transport_sender "tcp_sender big" lk_wire big "tcp_transport big near"
  by unfold_locales (simp add: tcp_transport_def)

interpretation unixt: transport_sender "unix_sender big" lk_wire big "unix_transport big"
  by unfold_locales (simp add: unix_transport_def)

end
