(* ===== verification/Context_Laws.thy ===== *)
theory Context_Laws imports Application_Laws begin

text \<open>
  Laws of the context: an invariant of its state that every operation, message, timer and
  alarm keeps, and the chain of state changes it announces.
\<close>


section \<open>Operation numbers only grow\<close>

lemma nextOp_frames [simp]:
  "p_nextOp (with_op i f p) = p_nextOp p" "p_nextOp (deref_op i p) = p_nextOp p" "p_nextOp (meter g p) = p_nextOp p"
  "p_nextOp (ref_op i p) = p_nextOp p" "p_nextOp (cache_fd fd p) = p_nextOp p" "p_nextOp (ops_put s i p) = p_nextOp p"
  "p_nextOp (enableMempool p) = p_nextOp p" "p_nextOp (complete_op msg p) = p_nextOp p"
  "p_nextOp (fold deref_op is p) = p_nextOp p" "p_nextOp (cancel_pending is p) = p_nextOp p"
proof -
  show "p_nextOp (fold deref_op is p) = p_nextOp p" by (induction "is" arbitrary: p) (simp_all add: deref_op_def Let_def)
  show "p_nextOp (cancel_pending is p) = p_nextOp p"
    by (induction "is" arbitrary: p) (simp_all add: deref_op_def with_op_def Let_def)
qed (simp_all add: with_op_def deref_op_def meter_def ref_op_def cache_fd_def ops_put_def enableMempool_def Let_def
    complete_op_def ops_erase_def processRelease_def split: option.splits)

lemma nextOp_onReadyWrite: "onReadyWrite D p d = (evs, p', d') \<Longrightarrow> p_nextOp p' = p_nextOp p"
  by (auto dest!: onReadyWrite_frame)

lemma nextOp_sendMessageImpl: "sendMessageImpl D msg op p d = (evs, p', d') \<Longrightarrow> p_nextOp p' = p_nextOp p"
proof (cases "length (p_sendQueue p) < INC_MAX_SEND_QUEUE")
  case True
  assume "sendMessageImpl D msg op p d = (evs, p', d')"
  then show ?thesis using nextOp_onReadyWrite by (fastforce simp: sendMessageImpl_accept [OF True] enqueue_simps)
qed (auto simp: sendMessageImpl_def Let_def split: option.splits)

lemma nextOp_sendMessage: "sendMessage D msg p d = (op, evs, p', d') \<Longrightarrow> p_nextOp p \<le> p_nextOp p'"
  by (auto simp: sendMessage_def alloc_op_def dest!: nextOp_sendMessageImpl split: if_splits)

lemma nextOp_sendBinaryData: "sendBinaryData D ch bc pos data put p d = (op, evs, p', d') \<Longrightarrow> p_nextOp p \<le> p_nextOp p'"
  by (auto simp: sendBinaryData_def nextSequence_def Let_def meter_def dest!: nextOp_sendMessage
      split: if_splits option.splits prod.splits)

lemma nextOp_onMessageReceived:
  assumes "onMessageReceived D imp msg p d = (evs, p', d')"
  shows "p_nextOp p \<le> p_nextOp p'"
proof -
  have r: "send_reply D m q d = (e, q', d2) \<Longrightarrow> p_nextOp q \<le> p_nextOp q'" for m q e q' d2
    unfolding send_reply_def using nextOp_sendMessage by (metis prod.collapse)
  show ?thesis using assms
    by (auto simp: onMessageReceived_def Let_def processBinaryDataMessage_def processDirectBinaryData_def
        processSHMBinaryData_def dest!: r split: if_splits option.splits prod.splits)
qed

section \<open>The context's invariant\<close>

text \<open>A step of a connection that keeps the handshake and the operations known.\<close>

definition conn_le :: "('d, 'c) connection \<Rightarrow> ('d, 'c) connection \<Rightarrow> bool" where
  "conn_le c c' \<longleftrightarrow> cn_handshake c' = cn_handshake c \<and> p_nextOp (cn_proto c) \<le> p_nextOp (cn_proto c')"

lemma conn_le_send:
  "conn_sendMessage T msg c = (op, es, c') \<Longrightarrow> conn_le c c'"
  "conn_sendBinaryData T ch pos data put c = (op, es, c') \<Longrightarrow> conn_le c c'"
  "conn_nextSequence c = (sq, c') \<Longrightarrow> conn_le c c'"
  by (auto simp: conn_le_def conn_sendMessage_def conn_sendBinaryData_def conn_nextSequence_def nextSequence_def
      dest!: nextOp_sendMessage nextOp_sendBinaryData split: prod.splits)

text \<open>The state changes a context has announced: each starts where the last one ended.\<close>

fun announced :: "ctx_state \<Rightarrow> 'c ctx_event list \<Rightarrow> ctx_state \<Rightarrow> bool" where
  "announced s [] t \<longleftrightarrow> s = t"
| "announced s (StateChanged a b # es) t \<longleftrightarrow> a = s \<and> a \<noteq> b \<and> announced b es t"
| "announced s (_ # es) t \<longleftrightarrow> announced s es t"

lemma announced_append: "announced s es u \<Longrightarrow> announced u es' t \<Longrightarrow> announced s (es @ es') t"
  by (induction s es u rule: announced.induct) auto

definition client_handshake :: "handshake option \<Rightarrow> bool" where
  "client_handshake h0 \<longleftrightarrow> (\<exists>h. h0 = Some h \<and> hk_role h = ROLE_CLIENT \<and> (hk_state h = HS_SENDING \<or> hk_state h = HS_COMPLETED))"

text \<open>
  A context has a connection exactly while it connects or is connected; it is connected only
  with a completed handshake, over the URL it has settled on, and that is what it last
  announced; the handshake operations it waits for are operations of that connection; and no
  URL is known and no timer armed before a mode has been chosen.
\<close>

definition ctx_inv :: "('d, 'c) inc_context \<Rightarrow> bool" where
  "ctx_inv x \<longleftrightarrow>
     cx_state x \<noteq> CTX_AUTHORIZING \<and> cx_connectMode x \<in> {0, 1, 2, 4, 8} \<and>
     (cx_connectMode x = 0 \<longrightarrow> cx_serverUrl x = [] \<and> cx_routerUrl x = [] \<and> \<not> cx_timer x \<and> cx_connection x = None) \<and>
     (cx_customState x = CTX_CONNECTED \<longleftrightarrow> cx_state x = CTX_CONNECTED) \<and>
     (case cx_connection x of
        None \<Rightarrow> \<not> connecting_or_connected x \<and> cx_pendingOps x = []
      | Some c \<Rightarrow> connecting_or_connected x \<and> client_handshake (cn_handshake c) \<and>
          (\<forall>i\<in>set (cx_pendingOps x). i < p_nextOp (cn_proto c)) \<and>
          (cx_state x = CTX_CONNECTED \<longrightarrow> map_option hk_state (cn_handshake c) = Some HS_COMPLETED \<and> cx_connectMode x \<in> {4, 8}))"

lemma ctx_inv_new: "ctx_inv (new_context name config)"
  by (simp add: ctx_inv_def new_context_def connecting_or_connected_def)

lemma setState_frame:
  assumes "ctx_setState st x = (evs, x')"
  shows "announced (cx_customState x) evs (cx_customState x')" "cx_state x' = st" "cx_connection x' = cx_connection x"
    "cx_pendingOps x' = cx_pendingOps x" "cx_connectMode x' = cx_connectMode x" "cx_config x' = cx_config x"
    "cx_routerUrl x' = cx_routerUrl x" "cx_serverUrl x' = cx_serverUrl x" "cx_timer x' = cx_timer x"
    "cx_customState x' = CTX_CONNECTED \<longleftrightarrow> st = CTX_CONNECTED"
  using assms by (auto simp: ctx_setState_def ctx_state_of_def Let_def split: if_splits)

lemma ctx_inv_frame:
  assumes "ctx_inv x" and "cx_state x' = cx_state x" and "cx_connectMode x' = cx_connectMode x"
    and "cx_connection x' = cx_connection x" and "cx_pendingOps x' = cx_pendingOps x"
    and "cx_customState x' = cx_customState x" and "cx_serverUrl x' = cx_serverUrl x" and "cx_routerUrl x' = cx_routerUrl x"
    and "cx_timer x' \<longrightarrow> cx_timer x \<or> cx_connectMode x \<noteq> 0"
  shows "ctx_inv x'"
  using assms by (auto simp: ctx_inv_def connecting_or_connected_def split: option.splits)

lemma schedule_frame:
  "cx_state (scheduleReconnect x) = cx_state x" "cx_connectMode (scheduleReconnect x) = cx_connectMode x"
  "cx_connection (scheduleReconnect x) = cx_connection x" "cx_pendingOps (scheduleReconnect x) = cx_pendingOps x"
  "cx_customState (scheduleReconnect x) = cx_customState x" "cx_config (scheduleReconnect x) = cx_config x"
  "cx_serverUrl (scheduleReconnect x) = cx_serverUrl x" "cx_routerUrl (scheduleReconnect x) = cx_routerUrl x"
  "cx_attempts (scheduleReconnect x) = cx_attempts x"
  "cx_timer (scheduleReconnect x) \<Longrightarrow> cx_serverUrl x \<noteq> [] \<or> cx_routerUrl x \<noteq> []"
  by (simp_all split: if_splits add: scheduleReconnect_def Let_def)

lemma ctx_inv_schedule [simp]:
  assumes "ctx_inv x"
  shows "ctx_inv (scheduleReconnect x)"
proof (rule ctx_inv_frame [OF assms])
  show "cx_timer (scheduleReconnect x) \<longrightarrow> cx_timer x \<or> cx_connectMode x \<noteq> 0"
    using schedule_frame(10) [of x] assms by (auto simp: ctx_inv_def)
qed (simp_all add: schedule_frame)

text \<open>What an operation of the context does: it keeps the invariant and announces its state changes.\<close>

definition ctx_good :: "('d, 'c) inc_context \<Rightarrow> 'c ctx_event list \<Rightarrow> ('d, 'c) inc_context \<Rightarrow> bool" where
  "ctx_good x evs x' \<longleftrightarrow> (ctx_inv x \<longrightarrow> ctx_inv x' \<and> announced (cx_customState x) evs (cx_customState x'))"

lemma ctx_good_refl [simp]: "ctx_good x [] x" by (simp add: ctx_good_def)
lemma ctx_good_trans: "ctx_good x es y \<Longrightarrow> ctx_good y es' z \<Longrightarrow> ctx_good x (es @ es') z"
  by (auto simp: ctx_good_def intro: announced_append)

lemma close_good:
  assumes "doClose T st x = (evs, x')" and "st = CTX_FAILED \<or> st = CTX_TERMINATED"
  shows "ctx_good x evs x'"
proof (cases "cx_state x = CTX_READY \<or> cx_state x = CTX_TERMINATED \<or> cx_state x = CTX_FAILED")
  case True
  then have "evs = [] \<and> x' = x" using assms(1) by (auto simp: doClose_def)
  then show ?thesis by simp
next
  case False
  let ?x = "x\<lparr>cx_timer := False, cx_pendingOps := [], cx_connection := None\<rparr>"
  obtain es y where s: "ctx_setState st ?x = (es, y)" by fastforce
  then have e: "evs = es @ [Disconnected]" "x' = y" using assms(1) False by (auto simp: doClose_def Let_def)
  note f = setState_frame [OF s]
  have "announced (cx_customState x) evs (cx_customState x')" unfolding e
    by (rule announced_append [OF f(1) [simplified]]) simp
  moreover have "ctx_inv x'" if "ctx_inv x"
    using that assms(2) f unfolding e by (auto simp: ctx_inv_def connecting_or_connected_def)
  ultimately show ?thesis by (simp add: ctx_good_def)
qed

lemma error_closes:
  assumes "ctx_onErrorOccurred T x = (evs, x')" and "connecting_or_connected x"
  shows "cx_connection x' = None"
  using assms by (auto simp: ctx_onErrorOccurred_def doClose_def connecting_or_connected_def ctx_setState_def schedule_frame Let_def
      split: if_splits)

lemma error_good:
  assumes "ctx_onErrorOccurred T x = (evs, x')"
  shows "ctx_good x evs x'"
proof -
  obtain es y where c: "doClose T CTX_FAILED x = (es, y)" by fastforce
  have "ctx_good x es y" by (rule close_good [OF c]) simp
  moreover have "evs = es" "x' = scheduleReconnect y" using assms c by (auto simp: ctx_onErrorOccurred_def)
  ultimately show ?thesis by (simp add: ctx_good_def schedule_frame)
qed

text \<open>Putting a connection that has only moved on back into the context.\<close>

lemma ctx_inv_conn:
  assumes "ctx_inv x" and "cx_connection x = Some c" and "conn_le c c'"
  shows "ctx_inv (x\<lparr>cx_connection := Some c'\<rparr>)"
  using assms by (auto simp: ctx_inv_def connecting_or_connected_def conn_le_def)

lemma send_good:
  assumes "ctx_send T msg c x = (op, evs, x')"
  shows "ctx_good (x\<lparr>cx_connection := Some c\<rparr>) evs x'"
proof -
  obtain o1 errs c1 where s: "conn_sendMessage T msg c = (o1, errs, c1)" by (metis prod_cases3)
  let ?x = "x\<lparr>cx_connection := Some c\<rparr>" and ?y = "x\<lparr>cx_connection := Some c1\<rparr>"
  have g: "ctx_good ?x [] ?y"
    using ctx_inv_conn [of ?x c c1] conn_le_send(1) [OF s] by (simp add: ctx_good_def)
  show ?thesis
  proof (cases "errs = []")
    case True
    then show ?thesis using assms s g by (simp add: ctx_send_def)
  next
    case False
    then have "ctx_onErrorOccurred T ?y = (evs, x')" using assms s by (auto simp: ctx_send_def)
    from ctx_good_trans [OF g error_good [OF this]] show ?thesis by simp
  qed
qed

lemma conn_le_other:
  "conn_enableMempool pool c = Some c' \<Longrightarrow> conn_le c c'"
  "registerChannel ch obj c = (r, c') \<Longrightarrow> conn_le c c'"
  "conn_le c (snd (unregisterChannel ch c))"
  "onBinaryDataReceived T ch sq bc c = Some (found, es, c') \<Longrightarrow> conn_le c c'"
  by (auto simp: conn_le_def conn_enableMempool_def registerChannel_def unregisterChannel_def onBinaryDataReceived_def
      conn_sendMessage_def dest!: nextOp_sendMessage split: if_splits option.splits prod.splits)

lemma conn_le_trans: "conn_le a b \<Longrightarrow> conn_le b c \<Longrightarrow> conn_le a c"
  by (simp add: conn_le_def)

lemma conn_good: "cx_connection x = Some c \<Longrightarrow> conn_le c c' \<Longrightarrow> ctx_good x [] (x\<lparr>cx_connection := Some c'\<rparr>)"
  using ctx_inv_conn [of x c c'] by (simp add: ctx_good_def)

text \<open>Sending on a connection of the context, after it has moved on.\<close>

lemma send_good':
  assumes "cx_connection x = Some c" and "conn_le c c1" and "ctx_send T msg c1 x = (op, evs, x')"
  shows "ctx_good x evs x'"
  using ctx_good_trans [OF conn_good [OF assms(1,2)] send_good [OF assms(3)]] by simp

lemma with_proto_good: "p_nextOp (f (the (map_option cn_proto (cx_connection x)))) = p_nextOp (the (map_option cn_proto (cx_connection x))) \<Longrightarrow>
   ctx_good x [] (with_proto f x)"
  by (cases "cx_connection x") (auto simp: with_proto_def ctx_good_def ctx_inv_def connecting_or_connected_def)

lemma timeout_good [simp]: "ctx_good x [] (set_op_timeout ms op x)"
  by (auto simp: set_op_timeout_def intro!: with_proto_good split: option.split)

lemma request_good:
  assumes "ctx_request T msg x = (op, evs, x')"
  shows "ctx_good x evs x'"
proof (cases "cx_connection x")
  case (Some c)
  obtain sq c1 where n: "conn_nextSequence c = (sq, c1)" by fastforce
  show ?thesis using assms Some n send_good' [OF Some conn_le_send(3) [OF n]]
    by (auto simp: ctx_request_def split: if_splits)
qed (use assms in \<open>simp add: ctx_request_def\<close>)

lemma timed_good: "ctx_good x evs x' \<Longrightarrow> ctx_good x evs (set_op_timeout ms op x')"
  using ctx_good_trans [OF _ timeout_good] by fastforce

lemma calls_good:
  "callMethod T now method version args timeout x = (op, evs, x') \<Longrightarrow> ctx_good x evs x'"
  "subscribe T pattern x = (op, evs, x') \<Longrightarrow> ctx_good x evs x'"
  "unsubscribe T pattern x = (op, evs, x') \<Longrightarrow> ctx_good x evs x'"
  "ctx_pingpong T x = (op, evs, x') \<Longrightarrow> ctx_good x evs x'"
  "requestChannel T name mode x = (op, evs, x') \<Longrightarrow> ctx_good x evs x'"
  "releaseChannel T channelId x = (op, evs, x') \<Longrightarrow> ctx_good x evs x'"
  by (auto simp: callMethod_def subscribe_def unsubscribe_def ctx_pingpong_def requestChannel_def releaseChannel_def Let_def
      split: prod.splits dest: request_good intro: timed_good)

section \<open>Connecting keeps the invariant\<close>

lemma track_good:
  assumes "\<forall>c i. op = Some i \<longrightarrow> cx_connection x = Some c \<longrightarrow> i < p_nextOp (cn_proto c)"
  shows "ctx_good x [] (track_handshake op x)"
proof (cases op)
  case (Some i)
  show ?thesis
  proof (cases "cx_connection x")
    case (Some c)
    then show ?thesis using assms \<open>op = Some i\<close>
      by (auto simp: track_handshake_def with_proto_def ctx_good_def ctx_inv_def connecting_or_connected_def Let_def
          split: option.splits)
  qed (use Some in \<open>simp add: track_handshake_def\<close>)
qed (simp add: track_handshake_def)

lemma sendMessage_op: "sendMessage D msg p d = (Some i, evs, p', d') \<Longrightarrow> i < p_nextOp p'"
  by (auto simp: sendMessage_def alloc_op_def dest!: nextOp_sendMessageImpl split: if_splits)

lemma send_op:
  assumes "ctx_send T msg c x = (Some i, evs, x')" and "cx_connection x' = Some c'"
  shows "i < p_nextOp (cn_proto c')"
proof -
  obtain o1 errs c1 where s: "conn_sendMessage T msg c = (o1, errs, c1)" by (metis prod_cases3)
  have i: "o1 = Some i" using assms(1) s by (auto simp: ctx_send_def Let_def split: if_splits)
  have "i < p_nextOp (cn_proto c1)" using s i by (auto simp: conn_sendMessage_def dest: sendMessage_op split: prod.splits)
  moreover have "c' = c1" if "errs = []" using assms s that by (auto simp: ctx_send_def)
  moreover have "cx_connection x' = Some c1" if "errs \<noteq> []"
  proof -
    have e: "ctx_onErrorOccurred T (x\<lparr>cx_connection := Some c1\<rparr>) = (evs, x')" using assms(1) s that by (auto simp: ctx_send_def Let_def)
    show ?thesis using e assms(2)
      by (auto simp: ctx_onErrorOccurred_def doClose_def Let_def schedule_frame setState_frame(3) split: prod.splits if_splits)
  qed
  ultimately show ?thesis using assms(2) by fastforce
qed

lemma good_of_setState:
  assumes "ctx_setState st x = (evs, x')" and "ctx_inv x \<Longrightarrow> ctx_inv x'"
  shows "ctx_good x evs x'"
  using setState_frame(1) [OF assms(1)] assms(2) by (simp add: ctx_good_def)

lemma start_client:
  "start (setLocalData nid d (new_handshake nid ROLE_CLIENT)) = (hello, h) \<Longrightarrow> client_handshake (Some h)"
  by (auto simp: client_handshake_def start_def setLocalData_def new_handshake_def)

lemma doConnect_good:
  fixes x :: "('d, 'c) inc_context"
  assumes "doConnect T dev nid x = (code, evs, x')" and "cx_connectMode x \<noteq> 0"
  shows "ctx_good x evs x'"
proof (cases "connecting_or_connected x")
  case False
  obtain e1 x1 where s1: "ctx_setState CTX_CONNECTING x = (e1, x1)" by fastforce
  note f1 = setState_frame [OF s1]
  show ?thesis
  proof (cases dev)
    case None
    obtain e2 x2 where s2: "ctx_setState CTX_FAILED x1 = (e2, x2)" by fastforce
    note f2 = setState_frame [OF s2]
    have e: "evs = e1 @ e2" "x' = scheduleReconnect x2" using assms(1) None False s1 s2 by (simp_all add: doConnect_def)
    have a: "announced (cx_customState x) evs (cx_customState x2)" unfolding e by (rule announced_append [OF f1(1) f2(1)])
    have "ctx_inv x2" if "ctx_inv x"
      using that False f1 f2 assms(2) by (auto simp: ctx_inv_def connecting_or_connected_def split: option.splits)
    then show ?thesis using a by (simp add: ctx_good_def e(2) schedule_frame)
  next
    case (Some dv)
    obtain d opened where dv: "dv = (d, opened)" by fastforce
    obtain hello h where h: "start (setLocalData nid (local_data x1) (new_handshake nid ROLE_CLIENT)) = (hello, h)" by fastforce
    define c :: "('d, 'c) connection" where "c = (new_connection d opened 0)\<lparr>cn_handshake := Some h\<rparr>"
    obtain sq c1 where n: "conn_nextSequence c = (sq, c1)" by fastforce
    obtain op e2 x2 where s2: "ctx_send T (handshake_message 0 sq hello) c1 x1 = (op, e2, x2)" by (metis prod_cases3)
    have e: "evs = e1 @ e2" "x' = track_handshake op x2"
      using assms(1) Some dv False s1 h n s2 by (simp_all add: doConnect_def c_def)
    let ?y = "x1\<lparr>cx_connection := Some c1\<rparr>"
    have le: "conn_le c c1" by (rule conn_le_send(3) [OF n])
    then have hs: "cn_handshake c1 = Some h" by (simp add: conn_le_def c_def)
    have "ctx_inv ?y" if "ctx_inv x"
      using that False f1 assms(2) hs start_client [OF h]
      by (auto simp: ctx_inv_def connecting_or_connected_def split: option.splits)
    then have g1: "ctx_good x e1 ?y" using f1(1) by (simp add: ctx_good_def)
    have g2: "ctx_good ?y e2 x2" using send_good [OF s2] by simp
    have g3: "ctx_good x2 [] (track_handshake op x2)" by (rule track_good) (use s2 send_op in blast)
    show ?thesis using ctx_good_trans [OF ctx_good_trans [OF g1 g2] g3] by (simp add: e)
  qed
qed (use assms in \<open>simp add: doConnect_def\<close>)

lemma connectTo_good:
  assumes "connectTo T dev nid server router x = (code, evs, x')"
  shows "ctx_good x evs x'"
proof -
  let ?s = "if server = [] then co_defaultServer (cx_config x) else server"
  let ?y = "x\<lparr>cx_serverUrl := ?s, cx_routerUrl := router, cx_connectMode := 0x01\<rparr>"
  show ?thesis
  proof (cases "connecting_or_connected x \<or> ?s = []")
    case True
    then have "evs = [] \<and> x' = x" using assms by (auto simp: connectTo_def Let_def split: if_splits)
    then show ?thesis by simp
  next
    case False
    then have "doConnect T dev nid ?y = (code, evs, x')" using assms by (auto simp: connectTo_def Let_def split: if_splits)
    then have "ctx_good ?y evs x'" by (rule doConnect_good) simp
    moreover have "ctx_inv x \<Longrightarrow> ctx_inv ?y" using False by (auto simp: ctx_inv_def connecting_or_connected_def split: option.splits)
    ultimately show ?thesis by (simp add: ctx_good_def)
  qed
qed

lemma mode_toggle: "(m :: xuint32) \<in> {0, 1, 2, 4, 8} \<Longrightarrow> m \<noteq> 0 \<Longrightarrow> m AND 0x0C = 0 \<Longrightarrow> m XOR 0x03 \<in> {1, 2}"
  by auto

lemma timer_good:
  assumes "ctx_timer_event T tf nid x = (evs, x')"
  shows "ctx_good x evs x'"
proof (cases "cx_timer x \<and> ctx_inv x")
  case True
  let ?a = "x\<lparr>cx_timer := False, cx_attempts := cx_attempts x + 1\<rparr>"
  let ?b = "if cx_connectMode ?a AND 0x0C = 0 \<and> cx_routerUrl ?a \<noteq> [] then ?a\<lparr>cx_connectMode := cx_connectMode ?a XOR 0x03\<rparr> else ?a"
  obtain code e y where d: "doConnect T (tf (if cx_connectMode ?b AND 0x0A \<noteq> 0 then cx_routerUrl ?b else cx_serverUrl ?b)) nid ?b = (code, e, y)"
    by (metis prod_cases3)
  have e: "evs = e" "x' = (if code \<noteq> INC_OK then scheduleReconnect y else y)"
    using assms True d by (auto simp: ctx_timer_event_def Let_def)
  have m: "cx_connectMode x \<in> {0, 1, 2, 4, 8}" "cx_connectMode x \<noteq> 0" using True by (auto simp: ctx_inv_def)
  have mb: "cx_connectMode ?b \<in> {1, 2, 4, 8}" using m mode_toggle [OF m] by auto
  have "ctx_inv ?b"
    using True m mode_toggle [OF m] by (auto simp: ctx_inv_def connecting_or_connected_def split: option.splits)
  moreover have "ctx_good ?b e y" by (rule doConnect_good [OF d]) (use mb in auto)
  ultimately show ?thesis using e by (auto simp: ctx_good_def schedule_frame split: if_splits)
next
  case False
  show ?thesis using False assms by (auto simp: ctx_timer_event_def ctx_good_def)
qed

section \<open>Messages, alarms and runs keep the invariant\<close>

lemma doClose_conn: "connecting_or_connected x \<Longrightarrow> doClose T st (x\<lparr>cx_connection := c\<rparr>) = doClose T st x"
  by (auto simp: doClose_def connecting_or_connected_def Let_def)

lemma reap_good: "ctx_good x [] (reap x)"
  by (cases "cx_connection x")
    (auto simp: reap_def with_proto_def ctx_good_def ctx_inv_def connecting_or_connected_def Let_def)

lemma reap_conn: "cx_connection x = Some c \<Longrightarrow> \<exists>c'. cx_connection (reap x) = Some c'"
  by (simp add: reap_def with_proto_def Let_def)

lemma ack_good:
  assumes "ctx_handleHandshakeAck T msg c x = (evs, x')" and "cx_connection x = Some c"
  shows "ctx_good x evs x'"
proof (cases "ctx_inv x")
  case True
  obtain h where h: "cn_handshake c = Some h" "hk_role h = ROLE_CLIENT" "hk_state h = HS_SENDING \<or> hk_state h = HS_COMPLETED"
    and con: "connecting_or_connected x" and m: "cx_connectMode x \<in> {1, 2, 4, 8}"
    using True assms(2) by (auto simp: ctx_inv_def client_handshake_def)
  show ?thesis
  proof (cases "hk_state h = HS_COMPLETED")
    case False
    obtain out h1 where p: "processHandshake (m_data (msg_payload msg)) h = (out, h1)" by fastforce
    have s: "hk_state h1 = HS_FAILED \<or> hk_state h1 = HS_COMPLETED" "hk_role h1 = ROLE_CLIENT"
      using p h False by (auto simp: processHandshake_def validateRemoteData_def Let_def split: if_splits prod.splits option.splits)
    show ?thesis
    proof (cases "hk_state h1 = HS_FAILED")
      case True
      obtain e y where c: "doClose T CTX_FAILED x = (e, y)" by fastforce
      have "evs = e" "x' = scheduleReconnect y"
        using assms(1) h False p True c con by (simp_all add: ctx_handleHandshakeAck_def doClose_conn)
      then show ?thesis using close_good [OF c] by (simp add: ctx_good_def schedule_frame)
    next
      case False
      define c1 where "c1 = c\<lparr>cn_handshake := Some h1, cn_connId := msg_channelID msg,
        cn_peerName := hs_nodeName (hk_remoteData h1), cn_peerProtocol := hs_protocolVersion (hk_remoteData h1)\<rparr>"
      define mode where "mode = (if cx_connectMode x = 0x01 then 0x04 else if cx_connectMode x = 0x02 then 0x08 else cx_connectMode x)"
      have st: "ctx_setState CTX_CONNECTED (x\<lparr>cx_connection := Some c1, cx_connectMode := mode\<rparr>) = (evs, x')"
        using assms(1) h p False \<open>hk_state h \<noteq> HS_COMPLETED\<close> unfolding c1_def mode_def by (simp add: ctx_handleHandshakeAck_def)
      note f = setState_frame [OF st]
      have "mode = 4 \<or> mode = 8" using m unfolding mode_def by auto
      then have "ctx_inv x'"
        using True assms(2) f s False
        by (auto simp: ctx_inv_def client_handshake_def connecting_or_connected_def c1_def split: option.splits)
      then show ?thesis using f(1) by (simp add: ctx_good_def)
    qed
  qed (use assms h in \<open>simp add: ctx_handleHandshakeAck_def\<close>)
qed (simp add: ctx_good_def)

lemma announced_events: "announced s (handleEvent msg) t \<longleftrightarrow> s = t"
  by (auto simp: handleEvent_def split: option.split)

lemma message_good:
  assumes "ctx_onMessageReceived T now msg c x = (evs, x')" and "cx_connection x = Some c"
  shows "ctx_good x evs x'"
proof -
  have "ctx_good x (handleEvent msg) x" by (simp add: ctx_good_def announced_events)
  moreover have "ctx_good x e y" if "snd (ctx_send T m c x) = (e, y)" for m e y
    using send_good' [OF assms(2), of c T m] that by (cases "ctx_send T m c x") (simp add: conn_le_def)
  ultimately show ?thesis
    using assms ack_good [OF _ assms(2)] by (auto simp: ctx_onMessageReceived_def split: if_splits)
qed

lemma receive_good:
  assumes "ctx_receive T imp now msg x = Some (evs, x')"
  shows "ctx_good x evs x'"
proof (cases "cx_connection x")
  case (Some c)
  obtain pevs p d where m: "onMessageReceived (tr_device T) imp msg (cn_proto c) (cn_device c) = (pevs, p, d)" by (metis prod_cases3)
  let ?y = "x\<lparr>cx_connection := Some (c\<lparr>cn_proto := p, cn_device := d\<rparr>)\<rparr>"
  have "conn_le c (c\<lparr>cn_proto := p, cn_device := d\<rparr>)" using nextOp_onMessageReceived [OF m] by (simp add: conn_le_def)
  from ctx_good_trans [OF conn_good [OF Some this] reap_good] have g: "ctx_good x [] (reap ?y)" by simp
  obtain c2 where c2: "cx_connection (reap ?y) = Some c2" using reap_conn [of ?y] by auto
  have r: "ctx_good (reap ?y) evs x'"
  proof (cases pevs)
    case Nil
    then show ?thesis using assms Some m c2 by (simp add: ctx_receive_def)
  next
    case (Cons ev rest)
    note k = Cons Some m c2
    show ?thesis
    proof (cases ev)
      case (MessageReceived msg')
      then show ?thesis using assms k message_good [OF _ c2] by (simp add: ctx_receive_def)
    next
      case (ErrorOccurred code)
      then show ?thesis using assms k error_good by (simp add: ctx_receive_def)
    next
      case (BinaryDataReceived ch sq bc pos data)
      obtain found errs c3 where b: "onBinaryDataReceived T ch sq bc c2 = Some (found, errs, c3)"
        using assms k BinaryDataReceived by (cases "onBinaryDataReceived T ch sq bc c2") (auto simp: ctx_receive_def)
      let ?z = "(reap ?y)\<lparr>cx_connection := Some c3\<rparr>"
      have z: "ctx_good (reap ?y) [] ?z" by (rule conn_good [OF c2 conn_le_other(4) [OF b]])
      show ?thesis
      proof (cases found)
        case None
        then have "(if errs \<noteq> [] then ctx_onErrorOccurred T ?z else ([], ?z)) = (evs, x')"
          using assms k BinaryDataReceived b by (auto simp: ctx_receive_def Let_def)
        then show ?thesis using z ctx_good_trans [OF z error_good, of T evs x'] by (simp split: if_splits)
      next
        case (Some obj)
        then have "evs = [ChannelData obj ch sq bc pos data]" "x' = reap ?y"
          using assms k BinaryDataReceived b by (simp_all add: ctx_receive_def)
        then show ?thesis by (simp add: ctx_good_def)
      qed
    qed
  qed
  from ctx_good_trans [OF g r] show ?thesis by simp
qed (use assms in \<open>simp add: ctx_receive_def\<close>)


text \<open>The alarm: it never finds the handshake past sending, so the assertion on its data holds.\<close>

lemma serialize_nonempty: "serializeHandshakeData d \<noteq> []"
  by (simp add: serialize_fields required_fields_def)

lemma alarm_good:
  assumes "ctx_handshake_timeout T i x = Some (evs, x')"
  shows "ctx_good x evs x'"
proof (cases "i \<in> set (cx_pendingOps x)")
  case True
  let ?w = "with_proto (deref_op i \<circ> with_op i onTimeout) x"
  let ?y = "?w\<lparr>cx_pendingOps := remove1 i (cx_pendingOps x)\<rparr>"
  have w: "ctx_good x [] ?w" by (rule with_proto_good) simp
  have wp: "cx_pendingOps ?w = cx_pendingOps x" by (simp add: with_proto_def)
  have "ctx_inv ?y" if "ctx_inv ?w"
    using that wp set_remove1_subset [of i "cx_pendingOps x"]
    by (auto simp: ctx_inv_def connecting_or_connected_def split: option.splits)
  then have y: "ctx_good x [] ?y" using w by (simp add: ctx_good_def)
  have r: "ctx_good ?y evs x'"
  proof (cases "cx_connection ?y")
    case (Some c)
    show ?thesis
    proof (cases "cn_handshake c")
      case (Some h)
      note k = True \<open>cx_connection ?y = Some c\<close> Some
      consider (quiet) "evs = []" "x' = ?y" | (give_up) "doClose T CTX_FAILED ?y = (evs, x')"
        | (again) hello h1 sq c1 op x2 where "start h = (hello, h1)" "hello \<noteq> []"
            "conn_nextSequence (c\<lparr>cn_handshake := Some h1\<rparr>) = (sq, c1)"
            "ctx_send T (handshake_message (cn_connId c) sq hello) c1 (?y\<lparr>cx_attempts := cx_attempts ?y + 1\<rparr>) = (op, evs, x2)"
            "x' = track_handshake op x2"
        using assms k by (auto simp: ctx_handshake_timeout_def Let_def split: if_splits prod.splits)
      then show ?thesis
      proof cases
        case give_up
        then show ?thesis using close_good by blast
      next
        case again
        have s: "client_handshake (Some h) \<Longrightarrow> client_handshake (Some h1) \<and> hk_state h = HS_SENDING"
          "hk_state h1 = HS_SENDING"
          using again(1,2) by (auto simp: start_def client_handshake_def split: if_splits)
        let ?v = "?y\<lparr>cx_attempts := cx_attempts ?y + 1, cx_connection := Some c1\<rparr>"
        have le: "cn_handshake c1 = Some h1" "p_nextOp (cn_proto c) \<le> p_nextOp (cn_proto c1)"
          using conn_le_send(3) [OF again(3)] by (simp_all add: conn_le_def)
        have "ctx_inv ?v" if "ctx_inv ?y"
          using that k(2) Some s le by (auto simp: ctx_inv_def connecting_or_connected_def)
        then have v: "ctx_good ?y [] ?v" by (simp add: ctx_good_def)
        have "ctx_good ?v evs x2" using send_good [OF again(4)] by simp
        moreover have "ctx_good x2 [] (track_handshake op x2)" by (rule track_good) (use again(4) send_op in blast)
        ultimately show ?thesis using ctx_good_trans [OF v] ctx_good_trans again(5) by fastforce
      qed simp
    qed (use assms True \<open>cx_connection ?y = Some c\<close> in \<open>simp add: ctx_handshake_timeout_def\<close>)
  qed (use assms True in \<open>simp add: ctx_handshake_timeout_def\<close>)
  from ctx_good_trans [OF y r] show ?thesis by simp
qed (use assms in \<open>simp add: ctx_handshake_timeout_def\<close>)

lemma alarm_total: "ctx_inv x \<Longrightarrow> ctx_handshake_timeout T i x \<noteq> None"
  using serialize_nonempty
  by (auto simp: ctx_handshake_timeout_def with_proto_def ctx_inv_def client_handshake_def start_def Let_def split: option.splits prod.splits)


lemma ready_good: "ctx_ready T x = (evs, x') \<Longrightarrow> ctx_good x evs x'"
proof (cases "cx_connection x")
  case (Some c)
  assume a: "ctx_ready T x = (evs, x')"
  obtain pevs p d where r: "onReadyWrite (tr_device T) (cn_proto c) (cn_device c) = (pevs, p, d)" by (metis prod_cases3)
  let ?y = "x\<lparr>cx_connection := Some (c\<lparr>cn_proto := p, cn_device := d\<rparr>)\<rparr>"
  have y: "ctx_good x [] ?y" by (rule conn_good [OF Some]) (use nextOp_onReadyWrite [OF r] in \<open>simp add: conn_le_def\<close>)
  have "ctx_good ?y evs x'" using a Some r error_good by (auto simp: ctx_ready_def Let_def split: if_splits)
  from ctx_good_trans [OF y this] show ?thesis by simp
qed (simp add: ctx_ready_def)

lemma opened_good: "ctx_opened T dev x = (evs, x') \<Longrightarrow> ctx_good x evs x'"
proof (cases "cx_connection x")
  case (Some c)
  assume a: "ctx_opened T dev x = (evs, x')"
  obtain pevs p d where r: "onDeviceConnected (tr_device T) (cn_proto c) dev = (pevs, p, d)" by (metis prod_cases3)
  let ?y = "x\<lparr>cx_connection := Some (c\<lparr>cn_proto := p, cn_device := d, cn_open := True\<rparr>)\<rparr>"
  have y: "ctx_good x [] ?y"
    by (rule conn_good [OF Some]) (use nextOp_onReadyWrite r in \<open>fastforce simp: conn_le_def onDeviceConnected_def\<close>)
  have "ctx_good ?y evs x'" using a Some r error_good by (auto simp: ctx_opened_def Let_def split: if_splits)
  from ctx_good_trans [OF y this] show ?thesis by simp
qed (simp add: ctx_opened_def)

lemma channel_good:
  "ctx_registerChannel create ch obj type nm x = Some (r, x') \<Longrightarrow> ctx_good x [] x'"
  "ctx_unregisterChannel ch x = Some x' \<Longrightarrow> ctx_good x [] x'"
  "ctx_sendBinaryData T ch pos data put x = Some (op, evs, x') \<Longrightarrow> ctx_good x evs x'"
  "ctx_ackDataReceived T ch sq n x = Some (evs, x') \<Longrightarrow> ctx_good x evs x'"
proof -
  assume a: "ctx_registerChannel create ch obj type nm x = Some (r, x')"
  then obtain c c1 c2 where c: "cx_connection x = Some c" "conn_le c c1" "registerChannel ch obj c1 = (r, c2)"
      and x': "x' = x\<lparr>cx_connection := Some c2\<rparr>"
    by (auto simp: ctx_registerChannel_def conn_le_def Let_def dest!: conn_le_other(1) split: option.splits if_splits prod.splits)
  show "ctx_good x [] x'" unfolding x' by (rule conn_good [OF c(1)]) (use conn_le_trans c(2) conn_le_other(2) [OF c(3)] in blast)
next
  assume "ctx_unregisterChannel ch x = Some x'"
  then show "ctx_good x [] x'" using conn_good conn_le_other(3) by (fastforce simp: ctx_unregisterChannel_def split: option.splits if_splits)
next
  assume a: "ctx_sendBinaryData T ch pos data put x = Some (op, evs, x')"
  then obtain c errs c1 where c: "cx_connection x = Some c" "conn_sendBinaryData T ch pos data put c = (op, errs, c1)"
    by (auto simp: ctx_sendBinaryData_def Let_def split: option.splits if_splits prod.splits)
  let ?y = "x\<lparr>cx_connection := Some c1\<rparr>"
  have y: "ctx_good x [] ?y" by (rule conn_good [OF c(1) conn_le_send(2) [OF c(2)]])
  have "ctx_good ?y evs x'" using a c error_good by (auto simp: ctx_sendBinaryData_def Let_def split: if_splits)
  from ctx_good_trans [OF y this] show "ctx_good x evs x'" by simp
next
  assume a: "ctx_ackDataReceived T ch sq n x = Some (evs, x')"
  then obtain c where c: "cx_connection x = Some c" "snd (ctx_send T (code_reply INC_MSG_BINARY_DATA_ACK ch sq n) c x) = (evs, x')"
    by (auto simp: ctx_ackDataReceived_def split: option.splits if_splits)
  then show "ctx_good x evs x'"
    using send_good' [OF c(1), of c T] by (cases "ctx_send T (code_reply INC_MSG_BINARY_DATA_ACK ch sq n) c x") (simp add: conn_le_def)
qed

lemma exec_good:
  assumes "ctx_exec E cmd x = Some (evs, x')"
  shows "ctx_good x evs x'"
proof (cases cmd)
  case (CtxConnect server router dev nid)
  then show ?thesis using assms connectTo_good [of "ce_transport E" dev nid server router x]
    by (cases "connectTo (ce_transport E) dev nid server router x") simp
next
  case CtxClose
  then show ?thesis using assms close_good [of _ CTX_TERMINATED] by (auto simp: ctx_close_def)
next
  case (CtxTimer tf nid)
  then show ?thesis using assms timer_good by auto
next
  case (CtxReceive msg)
  then show ?thesis using assms receive_good by auto
next
  case CtxReady
  then show ?thesis using assms ready_good by auto
next
  case CtxDeviceError
  then show ?thesis using assms error_good by (auto split: if_splits)
next
  case (CtxHandshakeTimeout i)
  then show ?thesis using assms alarm_good by auto
next
  case (CtxCall nm v args timeout)
  then show ?thesis using assms calls_good(1) by (metis ctx_exec.simps(8) option.inject prod.collapse)
next
  case (CtxSubscribe pat)
  then show ?thesis using assms calls_good(2) by (metis ctx_exec.simps(9) option.inject prod.collapse)
next
  case (CtxUnsubscribe pat)
  then show ?thesis using assms calls_good(3) by (metis ctx_exec.simps(10) option.inject prod.collapse)
next
  case CtxPing
  then show ?thesis using assms calls_good(4) by (metis ctx_exec.simps(11) option.inject prod.collapse)
next
  case (CtxRequestChannel nm mode)
  then show ?thesis using assms calls_good(5) by (metis ctx_exec.simps(12) option.inject prod.collapse)
next
  case (CtxReleaseChannel ch)
  then show ?thesis using assms calls_good(6) by (metis ctx_exec.simps(13) option.inject prod.collapse)
next
  case (CtxRegisterChannel ch c type nm)
  then show ?thesis using assms channel_good(1) by (auto split: prod.splits)
next
  case (CtxUnregisterChannel ch)
  then show ?thesis using assms channel_good(2) by auto
next
  case (CtxSendBinary ch pos data put)
  then show ?thesis using assms channel_good(3) by auto
next
  case (CtxAckData ch sq n)
  then show ?thesis using assms channel_good(4) by auto
next
  case (CtxOpened dev)
  then show ?thesis using assms opened_good by auto
qed

lemma run_good: "ctx_run E cmds x = Some (evs, x') \<Longrightarrow> ctx_good x evs x'"
proof (induction cmds arbitrary: x evs)
  case (Cons cmd cmds)
  obtain e1 x1 e2 where 1: "ctx_exec E cmd x = Some (e1, x1)" "ctx_run E cmds x1 = Some (e2, x')" "evs = e1 @ e2"
    using Cons.prems by (auto split: option.splits)
  show ?case unfolding 1(3) by (rule ctx_good_trans [OF exec_good [OF 1(1)] Cons.IH [OF 1(2)]])
qed simp

end
