(* ===== verification/Channel_Laws.thy ===== *)
theory Channel_Laws imports Inc_Channel Context_Laws begin

text \<open>
  Laws of the client's stream over its context: an invariant that ties its state to its operations
  and to the context, kept by every call, timer, alarm and step of the context, and the chain of
  state changes it announces.
\<close>

fun stream_announced :: "stream_state \<Rightarrow> stream_event list \<Rightarrow> stream_state \<Rightarrow> bool" where
  "stream_announced s [] t \<longleftrightarrow> s = t"
| "stream_announced s (StreamStateChanged a b # es) t \<longleftrightarrow> a = s \<and> a \<noteq> b \<and> stream_announced b es t"
| "stream_announced s (_ # es) t \<longleftrightarrow> stream_announced s es t"

lemma stream_announced_append:
  "stream_announced s es u \<Longrightarrow> stream_announced u es' t \<Longrightarrow> stream_announced s (es @ es') t"
  by (induction s es u rule: stream_announced.induct) auto

section \<open>The invariant\<close>

fun callback_state :: "stream_callback \<Rightarrow> stream_state" where
  "callback_state onChannelAllocated = STREAM_ATTACHING"
| "callback_state onChannelReleased = STREAM_DETACHING"

text \<open>
  At most one operation is tracked, and it is the one the state waits for; the stream reports
  that it is attached exactly when it is; it has a channel only while attached or detaching.
\<close>

definition stream_core :: "inc_stream \<Rightarrow> bool" where
  "stream_core st \<longleftrightarrow> length (st_pendingOps st) \<le> 1 \<and> (\<forall>(i, k)\<in>set (st_pendingOps st). st_state st = callback_state k) \<and>
     (st_customState st = STREAM_ATTACHED \<longleftrightarrow> st_state st = STREAM_ATTACHED) \<and>
     (st_state st = STREAM_DETACHED \<or> st_state st = STREAM_ATTACHING \<longrightarrow> st_channelId st = 0)"

text \<open>A stream that is not detached has a connected context.\<close>

definition stream_inv :: "'d client_context \<Rightarrow> inc_stream \<Rightarrow> bool" where
  "stream_inv x st \<longleftrightarrow> ctx_inv x \<and> stream_core st \<and> (st_state st \<noteq> STREAM_DETACHED \<longrightarrow> cx_state x = CTX_CONNECTED)"

lemma stream_inv_new: "stream_inv (new_context name config) (new_stream sname config)"
  by (simp add: stream_inv_def stream_core_def ctx_inv_new) (simp add: new_stream_def)

lemma stream_setState_frame:
  assumes "stream_setState cs ns st = (evs, st')"
  shows "stream_announced (st_customState st) evs (st_customState st')" "st_state st' = ns" "st_mode st' = st_mode st"
    "st_channelId st' = st_channelId st" "st_timer st' = st_timer st" "st_pendingOps st' = st_pendingOps st"
    "st_name st' = st_name st" "st_customState st' = STREAM_ATTACHED \<longleftrightarrow> ns = STREAM_ATTACHED"
  using assms by (auto simp: stream_setState_def stream_state_of_def Let_def split: if_splits)

lemma stream_schedule_frame [simp]:
  "st_state (stream_scheduleReconnect cs st) = st_state st" "st_customState (stream_scheduleReconnect cs st) = st_customState st"
  "st_mode (stream_scheduleReconnect cs st) = st_mode st" "st_channelId (stream_scheduleReconnect cs st) = st_channelId st"
  "st_pendingOps (stream_scheduleReconnect cs st) = st_pendingOps st" "st_name (stream_scheduleReconnect cs st) = st_name st"
  by (simp_all add: stream_scheduleReconnect_def Let_def)

text \<open>A context whose operations only change in the heap.\<close>

definition same_context :: "'d client_context \<Rightarrow> 'd client_context \<Rightarrow> bool" where
  "same_context x x' \<longleftrightarrow> (ctx_inv x \<longrightarrow> ctx_inv x') \<and> cx_state x' = cx_state x \<and> ctx_state_of x' = ctx_state_of x \<and>
     (cx_connection x' = None \<longleftrightarrow> cx_connection x = None)"

lemma same_context_refl [simp]: "same_context x x" by (simp add: same_context_def)
lemma same_context_trans: "same_context x y \<Longrightarrow> same_context y z \<Longrightarrow> same_context x z" by (simp add: same_context_def)

lemma same_with_proto: "(\<And>p. p_nextOp (f p) = p_nextOp p) \<Longrightarrow> same_context x (with_proto f x)"
  using with_proto_good [of f x] by (auto simp: same_context_def ctx_good_def with_proto_def ctx_state_of_def)

lemma foldr_nextOp: "(\<And>a p. p_nextOp (f a p) = p_nextOp p) \<Longrightarrow> p_nextOp (foldr f xs p) = p_nextOp p"
  by (induction xs) auto

lemma cleanup_frame:
  assumes "cleanupPendingOps x st = (x', st')"
  shows "same_context x x'" "st' = st\<lparr>st_pendingOps := []\<rparr>"
proof -
  have "x' = with_proto (\<lambda>p. foldr (\<lambda>(i, k) q. deref_op i (with_op i (cancel \<circ> setFinishedCallback False) q)) (st_pendingOps st) p) x"
    using assms by (simp add: cleanupPendingOps_def)
  then show "same_context x x'" by (auto intro!: same_with_proto foldr_nextOp)
qed (use assms in \<open>simp add: cleanupPendingOps_def\<close>)

lemma forget_frame:
  assumes "forget_op i x st = (x', st')"
  shows "same_context x x'" "st' = st\<lparr>st_pendingOps := filter (\<lambda>(j, k). j \<noteq> i) (st_pendingOps st)\<rparr>"
proof -
  have "filter (\<lambda>(j, k). j \<noteq> i) ps = ps" if "i \<notin> fst ` set ps" for ps :: "(nat \<times> stream_callback) list"
    using that by (force simp: filter_id_conv)
  then show "st' = st\<lparr>st_pendingOps := filter (\<lambda>(j, k). j \<noteq> i) (st_pendingOps st)\<rparr>"
    using assms by (auto simp: forget_op_def split: if_splits)
  show "same_context x x'" using assms by (auto simp: forget_op_def intro: same_with_proto split: if_splits)
qed


section \<open>Callbacks\<close>

lemma same_connection:
  assumes "ctx_good x [] (x\<lparr>cx_connection := Some c2\<rparr>)" and "cx_connection x = Some c"
  shows "same_context x (x\<lparr>cx_connection := Some c2\<rparr>)"
  using assms by (simp add: same_context_def ctx_good_def ctx_state_of_def)

lemma same_register:
  assumes "ctx_registerChannel create ch obj type nm x = Some (r, x')"
  shows "same_context x x'"
proof -
  obtain c c2 where c: "cx_connection x = Some c" "x' = x\<lparr>cx_connection := Some c2\<rparr>"
    using assms by (clarsimp simp: ctx_registerChannel_def Let_def split: option.splits if_split_asm prod.splits)
  show ?thesis using same_connection [OF _ c(1)] channel_good(1) [OF assms] unfolding c(2) by blast
qed

lemma same_unregister:
  assumes "ctx_unregisterChannel ch x = Some x'"
  shows "same_context x x'"
proof -
  obtain c c2 where c: "cx_connection x = Some c" "x' = x\<lparr>cx_connection := Some c2\<rparr>"
    using assms by (clarsimp simp: ctx_unregisterChannel_def split: option.splits if_split_asm)
  show ?thesis using same_connection [OF _ c(1)] channel_good(2) [OF assms] unfolding c(2) by blast
qed

text \<open>What a callback or a signal may do: a stream that was detached stays so.\<close>

definition stream_le :: "inc_stream \<Rightarrow> stream_event list \<Rightarrow> inc_stream \<Rightarrow> bool" where
  "stream_le st evs st' \<longleftrightarrow> (stream_core st \<longrightarrow> stream_core st') \<and>
     stream_announced (st_customState st) evs (st_customState st') \<and> (st_state st = STREAM_DETACHED \<longrightarrow> st_state st' = STREAM_DETACHED)"

lemma stream_le_refl [simp]: "stream_le st [] st" by (simp add: stream_le_def)
lemma stream_le_trans: "stream_le st es st1 \<Longrightarrow> stream_le st1 es' st2 \<Longrightarrow> stream_le st (es @ es') st2"
  by (auto simp: stream_le_def intro: stream_announced_append)

text \<open>
  A callback runs when its operation is tracked, in the state that waits for it or, when the
  context was closed by sending the request, already detached.
\<close>

definition callback_core :: "stream_callback \<Rightarrow> inc_stream \<Rightarrow> bool" where
  "callback_core k st \<longleftrightarrow> stream_core (st\<lparr>st_pendingOps := []\<rparr>) \<and> (st_state st = callback_state k \<or> st_state st = STREAM_DETACHED)"

definition callback_le :: "stream_callback \<Rightarrow> inc_stream \<Rightarrow> stream_event list \<Rightarrow> inc_stream \<Rightarrow> bool" where
  "callback_le k st evs st' \<longleftrightarrow> (callback_core k st \<longrightarrow> stream_core st') \<and> st_pendingOps st' = [] \<and>
     stream_announced (st_customState st) evs (st_customState st') \<and> (st_state st = STREAM_DETACHED \<longrightarrow> st_state st' = STREAM_DETACHED)"

text \<open>Leaving for a state with no operation tracked.\<close>

lemma core_settled:
  assumes "stream_setState cs ns st = (evs, st')" and "st_pendingOps st = []"
    and "ns = STREAM_DETACHED \<or> ns = STREAM_ATTACHING \<Longrightarrow> st_channelId st = 0"
  shows "stream_core st'"
  using stream_setState_frame [OF assms(1)] assms(2,3) by (simp add: stream_core_def)

lemma announced_extra [simp]:
  "stream_announced s (es @ [StreamError n]) t \<longleftrightarrow> stream_announced s es t"
  by (induction s es t rule: stream_announced.induct) auto

lemma channel_allocated_le:
  assumes r: "channel_allocated create cs i oe x st = Some (evs, x', st')" and p: "st_pendingOps st = [(i, onChannelAllocated)]"
  shows "same_context x x' \<and> callback_le onChannelAllocated st evs st'"
proof -
  let ?s = "st\<lparr>st_pendingOps := []\<rparr>"
  obtain y s where f: "forget_op i x st = (y, s)" by fastforce
  then have y: "same_context x y" and s: "s = ?s" using forget_frame [OF f] p by simp_all
  have core: "callback_core onChannelAllocated st \<longrightarrow> stream_core ?s \<and> st_channelId st = 0"
    by (auto simp: stream_core_def callback_core_def)
  have settled: "callback_le onChannelAllocated st es t"
    if "stream_setState cs ns (?s\<lparr>st_channelId := ch\<rparr>) = (es, t)" and "ns = STREAM_DETACHED \<and> ch = st_channelId st \<or>
      ns = STREAM_ATTACHED \<and> st_state st = STREAM_ATTACHING" for ns ch es t
    using that core stream_setState_frame [OF that(1)] core_settled [OF that(1)] by (auto simp: callback_le_def)
  show ?thesis
  proof (cases "oe_state oe = STATE_FAILED \<or> oe_state oe = STATE_TIMEOUT")
    case True
    obtain es t where t: "stream_setState cs STREAM_DETACHED ?s = (es, t)" by fastforce
    then have e: "evs = es @ [StreamError (oe_code oe)]" "x' = y" "st' = stream_scheduleReconnect cs t"
      using r f s True by (auto simp: channel_allocated_def)
    show ?thesis using settled [of STREAM_DETACHED "st_channelId st" es t] t y unfolding e
      by (simp add: callback_le_def stream_core_def)
  next
    case False
    note nf = this
    show ?thesis
    proof (cases "oe_state oe = STATE_DONE")
      case False
      then have "evs = [] \<and> x' = y \<and> st' = ?s" using r f s nf by (auto simp: channel_allocated_def)
      then show ?thesis using y core by (simp add: callback_le_def)
    next
      case True
      show ?thesis
      proof (cases "allocation_payload (setData (oe_result oe) new_tag_struct)")
        case None
        obtain es t where t: "stream_setState cs STREAM_DETACHED ?s = (es, t)" by fastforce
        then have e: "evs = es @ [StreamError (sint INC_ERROR_INVALID_MESSAGE)]" "x' = y" "st' = t"
          using r f s True None by (auto simp: channel_allocated_def)
        show ?thesis using settled [of STREAM_DETACHED "st_channelId st" es t] t y unfolding e by (simp add: callback_le_def)
      next
        case (Some a)
        then obtain ch shm where a: "allocation_payload (setData (oe_result oe) new_tag_struct) = Some (ch, shm)" by fastforce
        obtain type nm where tn: "(case shm of None \<Rightarrow> (0, []) | Some (t, nm, sz) \<Rightarrow> (t, nm)) = (type, nm)" by fastforce
        have st: "st_state st = STREAM_ATTACHING" using r f s True a by (auto simp: channel_allocated_def split: if_splits)
        obtain q y1 where reg: "ctx_registerChannel create ch () type nm y = Some (q, y1)"
          using r f s True a tn st by (auto simp: channel_allocated_def Let_def split: option.splits)
        obtain es t where t: "stream_setState cs STREAM_ATTACHED (?s\<lparr>st_channelId := ch\<rparr>) = (es, t)" by fastforce
        have e: "evs = es" "x' = y1" "st' = t" using r f s True a tn st reg t by (auto simp: channel_allocated_def Let_def)
        show ?thesis unfolding e using settled [OF t] st same_context_trans [OF y same_register [OF reg]] by simp
      qed
    qed
  qed
qed

lemma channel_released_le:
  assumes r: "channel_released closing cs i oe x st = Some (evs, x', st')" and p: "st_pendingOps st = [(i, onChannelReleased)]"
  shows "same_context x x' \<and> callback_le onChannelReleased st evs st'"
proof -
  let ?s = "st\<lparr>st_pendingOps := []\<rparr>"
  obtain y s where f: "forget_op i x st = (y, s)" by fastforce
  then have y: "same_context x y" and s: "s = ?s" using forget_frame [OF f] p by simp_all
  show ?thesis
  proof (cases "oe_state oe = STATE_CANCELLED")
    case True
    then have "evs = [] \<and> x' = y \<and> st' = ?s" using r f s by (auto simp: channel_released_def)
    then show ?thesis using y by (auto simp: callback_le_def callback_core_def)
  next
    case False
    then have st: "st_state st = STREAM_DETACHING" using r f s by (auto simp: channel_released_def split: if_splits)
    obtain y1 where u: "(if closing then Some y else ctx_unregisterChannel (st_channelId ?s) y) = Some y1"
      using r f s False st by (auto simp: channel_released_def split: option.splits)
    have y1: "same_context y y1" using u same_unregister by (auto split: if_splits)
    obtain es t where t: "stream_setState cs STREAM_DETACHED (?s\<lparr>st_mode := MODE_NONE, st_channelId := 0\<rparr>) = (es, t)" by fastforce
    have e: "evs = es" "x' = y1" "st' = t" using r f s False st u t by (simp_all add: channel_released_def)
    show ?thesis unfolding e using stream_setState_frame [OF t] core_settled [OF t] same_context_trans [OF y y1]
      by (simp add: callback_le_def)
  qed
qed

lemma run_callback_le:
  assumes "run_stream_callback E closing cs i k oe x st = Some (evs, x', st')" and "st_pendingOps st = [(i, k)]"
  shows "same_context x x' \<and> callback_le k st evs st'"
proof (cases k)
  case onChannelAllocated
  then show ?thesis using channel_allocated_le assms unfolding run_stream_callback_def by (simp only: stream_callback.case)
next
  case onChannelReleased
  then show ?thesis using channel_released_le assms unfolding run_stream_callback_def by (simp only: stream_callback.case)
qed

lemma core_callback: "stream_core st \<Longrightarrow> st_pendingOps st = [(i, k)] \<Longrightarrow> callback_core k st"
  by (simp add: stream_core_def callback_core_def)

lemma run_callbacks_le:
  assumes r: "run_callbacks E cs c (st_pendingOps st) x st = Some (evs, x', st')" and "length (st_pendingOps st) \<le> 1"
  shows "same_context x x' \<and> stream_le st evs st' \<and> set (st_pendingOps st') \<subseteq> set (st_pendingOps st)"
proof (cases "st_pendingOps st")
  case (Cons o1 ops)
  obtain i k where o1: "o1 = (i, k)" by fastforce
  have p: "st_pendingOps st = [(i, k)]" using assms(2) Cons o1 by simp
  show ?thesis
  proof (cases "op_fate (ce_transport E) c x i")
    case None
    then show ?thesis using r p by simp
  next
    case (Some oe)
    then obtain es y s where cb: "run_stream_callback E (cx_connection x = None) cs i k oe x st = Some (es, y, s)"
      using r p by (auto split: option.splits)
    then have "evs = es \<and> x' = y \<and> st' = s" using r p Some by simp
    then show ?thesis using run_callback_le [OF cb p] core_callback [OF _ p] by (auto simp: callback_le_def stream_le_def)
  qed
qed (use r in simp)


section \<open>Steps of the context\<close>

lemma onContextStateChanged_le:
  assumes r: "onContextStateChanged current x st = (evs, x', st')"
  shows "same_context x x' \<and> stream_le st evs st' \<and> (current \<noteq> CTX_CONNECTED \<longrightarrow> st_state st' = STREAM_DETACHED)"
proof (cases "current = CTX_CONNECTED")
  case True
  then show ?thesis using r by (auto simp: onContextStateChanged_def stream_le_def stream_core_def)
next
  case False
  let ?s1 = "if current = CTX_FAILED \<or> current = CTX_TERMINATED then stream_scheduleReconnect current st else st"
  obtain x1 s2 where c: "cleanupPendingOps x ?s1 = (x1, s2)" by fastforce
  obtain es s3 where t: "stream_setState current STREAM_DETACHED s2 = (es, s3)" by fastforce
  have e: "evs = es" "x' = x1" "st' = s3\<lparr>st_channelId := 0\<rparr>"
    using r False c t by (simp_all add: onContextStateChanged_def Let_def del: if_split split del: if_split)
  have s2: "s2 = ?s1\<lparr>st_pendingOps := []\<rparr>" and x1: "same_context x x1" using cleanup_frame [OF c] by auto
  have "st_customState s2 = st_customState st" using s2 by auto
  moreover have "stream_core (s3\<lparr>st_channelId := 0\<rparr>)" using stream_setState_frame [OF t] s2 by (simp add: stream_core_def)
  ultimately show ?thesis unfolding e using stream_setState_frame [OF t] x1 by (simp add: stream_le_def)
qed

lemma on_ctx_events_le:
  assumes "announced s cevs t" and "on_ctx_events cevs x st = (evs, x', st')"
  shows "same_context x x' \<and> stream_le st evs st' \<and>
    (st_state st = STREAM_DETACHED \<or> s = CTX_CONNECTED \<longrightarrow> st_state st' = STREAM_DETACHED \<or> t = CTX_CONNECTED)"
  using assms
proof (induction cevs x st arbitrary: s evs rule: on_ctx_events.induct)
  case (2 previous current cevs x st)
  obtain e1 x1 s1 where o1: "onContextStateChanged current x st = (e1, x1, s1)" by (metis prod_cases3)
  obtain e2 x2 s2 where o2: "on_ctx_events cevs x1 s1 = (e2, x2, s2)" by (metis prod_cases3)
  have e: "evs = e1 @ e2" "x' = x2" "st' = s2" using "2.prems"(2) o1 o2 by auto
  have a: "announced current cevs t" using "2.prems"(1) by simp
  have l: "same_context x1 x2 \<and> stream_le s1 e2 s2 \<and>
      (st_state s1 = STREAM_DETACHED \<or> current = CTX_CONNECTED \<longrightarrow> st_state s2 = STREAM_DETACHED \<or> t = CTX_CONNECTED)"
    using "2.IH" [OF o1 [symmetric] refl refl a] o2 e by simp
  note f = onContextStateChanged_le [OF o1]
  have "stream_le st (e1 @ e2) s2" using stream_le_trans f l by blast
  moreover have "same_context x x2" using same_context_trans f l by blast
  ultimately show ?case unfolding e using f l by blast
next
  case (3 channel ch seqNum broadcast pos data cevs x st)
  obtain e2 x2 s2 where o2: "on_ctx_events cevs x st = (e2, x2, s2)" by (metis prod_cases3)
  then have e: "evs = DataReceived seqNum broadcast pos data # e2" "x' = x2" "st' = s2" using "3.prems"(2) by auto
  show ?case using "3.IH" [of s e2] "3.prems"(1) o2 unfolding e by (simp add: stream_le_def)
qed auto

lemma after_context_good:
  assumes r: "after_context E x cevs x1 st = Some (evs, x', st')" and i: "stream_inv x st" and g: "ctx_good x cevs x1"
  shows "stream_inv x' st' \<and> stream_le st evs st' \<and> same_context x1 x'"
proof -
  obtain e1 x2 s2 where cb: "run_callbacks E (ctx_state_of x) (cx_connection x) (st_pendingOps st) x1 st = Some (e1, x2, s2)"
    using r by (auto simp: after_context_def split: option.splits)
  obtain e2 x3 s3 where ce: "on_ctx_events cevs x2 s2 = (e2, x3, s3)" by (metis prod_cases3)
  have e: "evs = e1 @ e2" "x' = x3" "st' = s3" using r cb ce by (auto simp: after_context_def)
  have inv: "ctx_inv x" "stream_core st" "st_state st \<noteq> STREAM_DETACHED \<longrightarrow> cx_state x = CTX_CONNECTED" using i by (simp_all add: stream_inv_def)
  have x1: "ctx_inv x1" "announced (cx_customState x) cevs (cx_customState x1)" using g inv(1) by (simp_all add: ctx_good_def)
  have conn: "cx_customState x = CTX_CONNECTED \<longleftrightarrow> cx_state x = CTX_CONNECTED" "cx_customState x1 = CTX_CONNECTED \<longleftrightarrow> cx_state x1 = CTX_CONNECTED"
    using inv(1) x1(1) by (simp_all add: ctx_inv_def)
  have 1: "same_context x1 x2 \<and> stream_le st e1 s2"
    using run_callbacks_le [OF cb] inv(2) by (simp add: stream_core_def)
  have 2: "same_context x2 x3 \<and> stream_le s2 e2 s3 \<and>
    (st_state s2 = STREAM_DETACHED \<or> cx_customState x = CTX_CONNECTED \<longrightarrow> st_state s3 = STREAM_DETACHED \<or> cx_customState x1 = CTX_CONNECTED)"
    by (rule on_ctx_events_le [OF x1(2) ce])
  have same: "same_context x1 x3" using 1 2 same_context_trans by blast
  have le: "stream_le st (e1 @ e2) s3" using 1 2 stream_le_trans by blast
  have "st_state s3 \<noteq> STREAM_DETACHED \<longrightarrow> cx_state x3 = CTX_CONNECTED"
    using 1 2 inv(3) conn same by (auto simp: stream_le_def same_context_def)
  then show ?thesis unfolding e using same le inv(2) x1(1) by (auto simp: stream_inv_def stream_le_def same_context_def)
qed


section \<open>Operations of the stream\<close>

text \<open>A request leaves its context connected and says nothing, or has closed it.\<close>

lemma send_outcome:
  assumes "ctx_send T msg c x = (op, cevs, x')" and "connecting_or_connected x"
  shows "cevs = [] \<and> cx_connection x' \<noteq> None \<and> cx_state x' = cx_state x \<or> cx_connection x' = None"
proof -
  obtain o1 errs c1 where s: "conn_sendMessage T msg c = (o1, errs, c1)" by (metis prod_cases3)
  show ?thesis
  proof (cases "errs = []")
    case False
    then have e: "ctx_onErrorOccurred T (x\<lparr>cx_connection := Some c1\<rparr>) = (cevs, x')" using assms(1) s by (auto simp: ctx_send_def)
    show ?thesis using error_closes [OF e] assms(2) by (simp add: connecting_or_connected_def)
  qed (use assms(1) s in \<open>auto simp: ctx_send_def\<close>)
qed

lemma request_outcome:
  assumes "ctx_request T msg x = (op, cevs, x')" and "cx_state x = CTX_CONNECTED" and "cx_connection x \<noteq> None"
  shows "cevs = [] \<and> cx_connection x' \<noteq> None \<or> cx_connection x' = None"
proof -
  obtain c where c: "cx_connection x = Some c" using assms(3) by blast
  obtain sq c1 where n: "conn_nextSequence c = (sq, c1)" by fastforce
  have "ctx_send T (msg c sq) c1 x = (op, cevs, x')" using assms c n by (simp add: ctx_request_def)
  from send_outcome [OF this] show ?thesis using assms(2) by (auto simp: connecting_or_connected_def)
qed

lemma timeout_connection: "cx_connection (set_op_timeout ms op x) = None \<longleftrightarrow> cx_connection x = None"
  by (auto simp: set_op_timeout_def with_proto_def split: option.splits)

lemma channel_request_outcome:
  assumes "requestChannel T name mode x = (op, cevs, x') \<or> releaseChannel T ch x = (op, cevs, x')"
    and "cx_state x = CTX_CONNECTED" and "cx_connection x \<noteq> None"
  shows "cevs = [] \<and> cx_connection x' \<noteq> None \<or> cx_connection x' = None"
proof -
  have "\<exists>msg ms y. ctx_request T msg x = (op, cevs, y) \<and> x' = set_op_timeout ms op y"
    using assms(1) unfolding requestChannel_def releaseChannel_def by (auto split: prod.splits)
  then obtain msg ms y where y: "ctx_request T msg x = (op, cevs, y)" "x' = set_op_timeout ms op y" by blast
  show ?thesis using request_outcome [OF y(1) assms(2,3)] unfolding y(2) timeout_connection .
qed

text \<open>What an operation of the stream does.\<close>

definition stream_good :: "'d client_context \<Rightarrow> inc_stream \<Rightarrow> stream_event list \<Rightarrow> 'd client_context \<Rightarrow> inc_stream \<Rightarrow> bool" where
  "stream_good x st evs x' st' \<longleftrightarrow>
     (stream_inv x st \<longrightarrow> stream_inv x' st' \<and> stream_announced (st_customState st) evs (st_customState st'))"

lemma stream_good_refl [simp]: "stream_good x st [] x st" by (simp add: stream_good_def)
lemma stream_good_trans: "stream_good x st es y s \<Longrightarrow> stream_good y s es' z t \<Longrightarrow> stream_good x st (es @ es') z t"
  by (auto simp: stream_good_def intro: stream_announced_append)

lemma after_good: "after_context E x cevs x1 st = Some (evs, x', st') \<Longrightarrow> ctx_good x cevs x1 \<Longrightarrow> stream_good x st evs x' st'"
  using after_context_good by (fastforce simp: stream_good_def stream_le_def)

lemma cleanup_good:
  assumes "cleanupPendingOps x st = (x', st')"
  shows "stream_good x st [] x' st'"
  using cleanup_frame [OF assms] by (auto simp: stream_good_def stream_inv_def stream_core_def same_context_def)

text \<open>Detaching at once.\<close>

lemma detached_good:
  assumes "stream_setState cs STREAM_DETACHED (st\<lparr>st_channelId := 0\<rparr>) = (evs, st')" and "st_pendingOps st = []"
  shows "stream_good x st evs x st'"
  using stream_setState_frame [OF assms(1)] core_settled [OF assms(1)] assms(2) by (auto simp: stream_good_def stream_inv_def)

text \<open>Tracking the operation of a request that was sent while the context was connected.\<close>

lemma track_op_good:
  assumes r: "track_op E c i k x st = Some (evs, x', st')" and i: "stream_inv x st" and p: "st_pendingOps st = []"
    and o1: "cx_connection x \<noteq> None \<Longrightarrow> st_state st = callback_state k"
  shows "stream_inv x' st' \<and> stream_announced (st_customState st) evs (st_customState st')"
proof (cases "op_fate (ce_transport E) c x i")
  case None
  then have e: "evs = []" "x' = with_proto (with_op i (setFinishedCallback True)) x" "st' = st\<lparr>st_pendingOps := [(i, k)]\<rparr>"
    using r p by (simp_all add: track_op_def Let_def)
  have "cx_connection x \<noteq> None" using None by (auto simp: op_fate_def split: option.splits)
  moreover have "same_context x x'" unfolding e by (rule same_with_proto) simp
  ultimately show ?thesis using i o1 p unfolding e by (auto simp: stream_inv_def stream_core_def same_context_def)
next
  case (Some oe)
  let ?s = "st\<lparr>st_pendingOps := [(i, k)]\<rparr>"
  have cb: "run_stream_callback E False (ctx_state_of x) i k oe x ?s = Some (evs, x', st')" using r p Some by (simp add: track_op_def Let_def)
  have "same_context x x' \<and> callback_le k ?s evs st'" by (rule run_callback_le [OF cb]) simp
  moreover have "callback_core k ?s"
  proof (cases "cx_connection x = None")
    case True
    then have "st_state st = STREAM_DETACHED" using i by (auto simp: stream_inv_def ctx_inv_def connecting_or_connected_def)
    then show ?thesis using i p by (simp add: callback_core_def stream_inv_def stream_core_def)
  next
    case False
    then show ?thesis using o1 i p by (simp add: callback_core_def stream_inv_def stream_core_def)
  qed
  ultimately show ?thesis using i by (auto simp: callback_le_def stream_inv_def same_context_def)
qed


lemma core_settled_pending:
  assumes "stream_core st" and "st_state st = STREAM_DETACHED \<or> st_state st = STREAM_ATTACHED"
  shows "st_pendingOps st = []"
proof (cases "st_pendingOps st")
  case (Cons a as)
  obtain i k where "a = (i, k)" by fastforce
  then have "st_state st = callback_state k" using assms(1) Cons by (simp add: stream_core_def)
  then show ?thesis using assms(2) by (cases k) auto
qed

lemma map_option_Some: "map_option f a = Some b \<Longrightarrow> \<exists>c. a = Some c \<and> b = f c" by (cases a) auto

text \<open>After a request that the connected context has sent, or closed itself over.\<close>

lemma request_settles:
  assumes a: "after_context E x1 cevs x2 s2 = Some (e2, x3, s3)" and i1: "stream_inv x1 s2" and p: "st_pendingOps s2 = []"
    and g: "ctx_good x1 cevs x2" and con: "cx_state x1 = CTX_CONNECTED"
    and q: "requestChannel T name mode x1 = (op, cevs, x2) \<or> releaseChannel T ch x1 = (op, cevs, x2)"
  shows "stream_inv x3 s3" "stream_announced (st_customState s2) e2 (st_customState s3)" "st_pendingOps s3 = []"
    "cx_connection x3 \<noteq> None \<Longrightarrow> s3 = s2" "cx_connection x3 = None \<Longrightarrow> st_state s3 = STREAM_DETACHED"
proof -
  have cn: "cx_connection x1 \<noteq> None" using con i1
    by (auto simp: stream_inv_def ctx_inv_def connecting_or_connected_def split: option.splits)
  show i3: "stream_inv x3 s3" and "stream_announced (st_customState s2) e2 (st_customState s3)"
    using after_good [OF a g] i1 by (simp_all add: stream_good_def)
  have x3: "cx_connection x3 = None \<longleftrightarrow> cx_connection x2 = None"
    using after_context_good [OF a i1 g] by (simp add: same_context_def)
  show quiet: "s3 = s2" if "cx_connection x3 \<noteq> None"
  proof -
    have "cevs = []" using channel_request_outcome [OF q con cn] that x3 by auto
    then show ?thesis using a p by (simp add: after_context_def)
  qed
  show gone: "st_state s3 = STREAM_DETACHED" if "cx_connection x3 = None"
    using i3 that by (auto simp: stream_inv_def ctx_inv_def connecting_or_connected_def)
  show "st_pendingOps s3 = []"
    using i3 p quiet gone core_settled_pending by (cases "cx_connection x3 = None") (simp_all add: stream_inv_def)
qed

lemma connected_iff: "ctx_state_of x = CTX_CONNECTED \<longleftrightarrow> cx_state x = CTX_CONNECTED"
  by (simp add: ctx_state_of_def)

lemma attach_good:
  assumes r: "attach E mode x st = Some (ok, evs, x', st')"
  shows "stream_good x st evs x' st'"
proof (cases "st_state st \<noteq> STREAM_DETACHED \<or> ctx_state_of x \<noteq> CTX_CONNECTED")
  case False
  obtain x1 s1 where c: "cleanupPendingOps x (st\<lparr>st_mode := mode\<rparr>) = (x1, s1)" by fastforce
  obtain e1 s2 where t: "stream_setState (ctx_state_of x1) STREAM_ATTACHING s1 = (e1, s2)" by fastforce
  obtain op cevs x2 where q: "requestChannel (ce_transport E) (st_name st) mode x1 = (op, cevs, x2)" by (metis prod_cases3)
  obtain e2 x3 s3 where a: "after_context E x1 cevs x2 s2 = Some (e2, x3, s3)"
    using r False c t q by (auto simp: attach_def split: option.splits)
  obtain e3 s4 where t4: "stream_setState (ctx_state_of x3) STREAM_DETACHED s3 = (e3, s4)" by fastforce
  define conn where "conn = request_conn (ce_transport E)
    (\<lambda>c sq. open_message (cn_connId c) sq (st_name st) mode (shm_offer (cx_config x1) c)) x1"
  have ctl: "(case op of None \<Rightarrow> Some (False, e1 @ e2 @ e3, x3, s4)
     | Some i \<Rightarrow> map_option (\<lambda>(e3, x4, s4). (True, e1 @ e2 @ e3, x4, s4)) (track_op E conn i onChannelAllocated x3 s3)) = Some (ok, evs, x', st')"
    using r False c t q a t4 by (simp add: attach_def conn_def split: option.splits)
  show ?thesis unfolding stream_good_def
  proof
    assume i: "stream_inv x st"
    have s1: "s1 = st\<lparr>st_mode := mode, st_pendingOps := []\<rparr>" and x1: "same_context x x1" using cleanup_frame [OF c] by simp_all
    have s2: "stream_announced (st_customState st) e1 (st_customState s2)" "st_state s2 = STREAM_ATTACHING" "st_pendingOps s2 = []"
        "stream_core s2"
      using stream_setState_frame [OF t] core_settled [OF t] s1 i False by (auto simp: stream_inv_def stream_core_def)
    have con: "cx_state x1 = CTX_CONNECTED" using False x1 by (simp add: connected_iff same_context_def)
    have i1: "stream_inv x1 s2" using i s2 con x1 by (simp add: stream_inv_def same_context_def)
    have g2: "ctx_good x1 cevs x2" using calls_good(5) q by blast
    note s3 = request_settles [OF a i1 s2(3) g2 con disjI1 [OF q]]
    show "stream_inv x' st' \<and> stream_announced (st_customState st) evs (st_customState st')"
    proof (cases op)
      case None
      have e: "evs = e1 @ e2 @ e3" "x' = x3" "st' = s4" using ctl None by auto
      have "st_channelId s3 = 0" using s3 s2 by (cases "cx_connection x3 = None") (auto simp: stream_inv_def stream_core_def)
      then have "stream_inv x3 s4" using s3(1) core_settled [OF t4 s3(3)] stream_setState_frame [OF t4] by (simp add: stream_inv_def)
      then show ?thesis unfolding e using s2(1) s3(2) stream_setState_frame(1) [OF t4] by (blast intro: stream_announced_append)
    next
      case (Some j)
      then obtain e3 where k: "track_op E conn j onChannelAllocated x3 s3 = Some (e3, x', st')" "evs = e1 @ e2 @ e3"
        using ctl by (auto dest!: map_option_Some)
      have "stream_inv x' st' \<and> stream_announced (st_customState s3) e3 (st_customState st')"
        by (rule track_op_good [OF k(1) s3(1,3)]) (use s3(4) s2(2) in simp)
      then show ?thesis unfolding k(2) using s2(1) s3(2) by (blast intro: stream_announced_append)
    qed
  qed
qed (use r in \<open>auto simp: attach_def split: if_split_asm\<close>)

lemma detach_good:
  assumes r: "detach E x st = Some (evs, x', st')"
  shows "stream_good x st evs x' st'"
proof (cases "st_state st = STREAM_DETACHED \<or> st_state st = STREAM_DETACHING")
  case False
  obtain x1 s1 where c: "cleanupPendingOps x st = (x1, s1)" by fastforce
  have s1: "s1 = st\<lparr>st_pendingOps := []\<rparr>" and x1: "same_context x x1" using cleanup_frame [OF c] by simp_all
  note r' = r [unfolded detach_def, simplified False c, simplified]
  have cg: "stream_good x st [] x1 s1" by (rule cleanup_good [OF c])
  show ?thesis
  proof (cases "st_state s1 = STREAM_ATTACHING \<or> st_channelId s1 = 0")
    case True
    obtain e s2 where t: "stream_setState (ctx_state_of x1) STREAM_DETACHED (s1\<lparr>st_channelId := 0\<rparr>) = (e, s2)" by fastforce
    have "s1 = s1\<lparr>st_channelId := 0\<rparr>" if "st_channelId s1 = 0" using that by simp
    then have e: "evs = e" "x' = x1" "st' = s2" using r' True t by (cases "st_state s1 = STREAM_ATTACHING"; simp)+
    show ?thesis unfolding e using stream_good_trans [OF cg detached_good [OF t]] s1 by simp
  next
    case nz: False
    obtain e1 s2 where t: "stream_setState (ctx_state_of x1) STREAM_DETACHING s1 = (e1, s2)" by fastforce
    obtain op cevs x2 where q: "releaseChannel (ce_transport E) (st_channelId s2) x1 = (op, cevs, x2)" by (metis prod_cases3)
    obtain e2 x3 s3 where a: "after_context E x1 cevs x2 s2 = Some (e2, x3, s3)"
      using r' nz t q by (auto split: option.splits)
    obtain e3 s4 where t4: "stream_setState (ctx_state_of x3) STREAM_DETACHED (s3\<lparr>st_channelId := 0\<rparr>) = (e3, s4)" by fastforce
    define conn where "conn = request_conn (ce_transport E) (\<lambda>c sq. new_message INC_MSG_STREAM_CLOSE (st_channelId s2) sq) x1"
    have ctl: "(case op of None \<Rightarrow> Some (e1 @ e2 @ e3, x3, s4)
       | Some i \<Rightarrow> map_option (\<lambda>(e3, x4, s4). (e1 @ e2 @ e3, x4, s4)) (track_op E conn i onChannelReleased x3 s3)) = Some (evs, x', st')"
      using r' nz t q a t4 by (simp add: conn_def Let_def split: option.splits)
    show ?thesis unfolding stream_good_def
    proof
      assume i: "stream_inv x st"
      have con: "cx_state x1 = CTX_CONNECTED" and i0: "ctx_inv x1" using i False x1 by (auto simp: same_context_def stream_inv_def)
      have s2: "stream_announced (st_customState st) e1 (st_customState s2)" "st_state s2 = STREAM_DETACHING" "st_pendingOps s2 = []"
          "stream_core s2"
        using stream_setState_frame [OF t] core_settled [OF t] s1 by auto
      have i1: "stream_inv x1 s2" using i0 s2 con by (simp add: stream_inv_def)
      have g2: "ctx_good x1 cevs x2" using calls_good(6) q by blast
      note s3 = request_settles [OF a i1 s2(3) g2 con disjI2 [OF q]]
      show "stream_inv x' st' \<and> stream_announced (st_customState st) evs (st_customState st')"
      proof (cases op)
        case None
        have e: "evs = e1 @ e2 @ e3" "x' = x3" "st' = s4" using ctl None by auto
        show ?thesis unfolding e using detached_good [OF t4 s3(3), of x3] s2(1) s3 by (auto simp: stream_good_def intro: stream_announced_append)
      next
        case (Some j)
        then obtain e3 where k: "track_op E conn j onChannelReleased x3 s3 = Some (e3, x', st')" "evs = e1 @ e2 @ e3"
          using ctl by (auto dest!: map_option_Some)
        have "stream_inv x' st' \<and> stream_announced (st_customState s3) e3 (st_customState st')"
          by (rule track_op_good [OF k(1) s3(1,3)]) (use s3(4) s2(2) in simp)
        then show ?thesis unfolding k(2) using s2(1) s3(2) by (blast intro: stream_announced_append)
      qed
    qed
  qed
qed (use r in \<open>auto simp: detach_def\<close>)


lemma data_calls_good:
  "stream_write E pos data put x st = Some (op, evs, x', st') \<Longrightarrow> stream_good x st evs x' st'"
  "stream_ackDataReceived E seqNum broadcast sz x st = Some (evs, x', st') \<Longrightarrow> stream_good x st evs x' st'"
proof -
  assume w: "stream_write E pos data put x st = Some (op, evs, x', st')"
  show "stream_good x st evs x' st'"
  proof (cases "st_state st \<noteq> STREAM_ATTACHED \<or> st_mode st AND MODE_WRITE = 0 \<or> cx_connection x = None")
    case True
    then have "Some (op, evs, x', st') = Some (None, [], x, st)" using w by (simp add: stream_write_def split: if_split_asm)
    then show ?thesis by simp
  next
    case False
    then obtain op' cevs x1 where s: "ctx_sendBinaryData (ce_transport E) (st_channelId st) pos data put x = Some (op', cevs, x1)"
        "after_context E x cevs x1 st = Some (evs, x', st')"
      using w by (auto simp: stream_write_def split: option.splits)
    show ?thesis by (rule after_good [OF s(2) channel_good(3) [OF s(1)]])
  qed
next
  assume w: "stream_ackDataReceived E seqNum broadcast sz x st = Some (evs, x', st')"
  show "stream_good x st evs x' st'"
  proof (cases broadcast)
    case False
    then obtain cevs x1 where s: "ctx_ackDataReceived (ce_transport E) (st_channelId st) seqNum sz x = Some (cevs, x1)"
        "after_context E x cevs x1 st = Some (evs, x', st')"
      using w by (auto simp: stream_ackDataReceived_def split: option.splits)
    show ?thesis by (rule after_good [OF s(2) channel_good(4) [OF s(1)]])
  qed (use w in \<open>simp add: stream_ackDataReceived_def\<close>)
qed

lemma stream_inv_frame:
  assumes "stream_inv x st" and "st_state st' = st_state st" "st_customState st' = st_customState st" "st_channelId st' = st_channelId st"
    "st_pendingOps st' = st_pendingOps st"
  shows "stream_inv x st'"
  using assms by (simp add: stream_inv_def stream_core_def)

lemma stream_timer_good:
  assumes r: "stream_timer_event E x st = Some (evs, x', st')"
  shows "stream_good x st evs x' st'"
proof (cases "st_timer st")
  case True
  let ?s = "st\<lparr>st_timer := False, st_attempts := st_attempts st + 1\<rparr>"
  obtain ok s1 where a: "attach E (st_mode st) x ?s = Some (ok, evs, x', s1)"
      and st': "st' = (if ok then s1 else stream_scheduleReconnect (ctx_state_of x') s1)"
    using r True by (fastforce simp: stream_timer_event_def split: option.splits)
  have "stream_inv x ?s" if "stream_inv x st" using stream_inv_frame [OF that, of ?s] by simp
  moreover have "stream_inv x' st'" if "stream_inv x' s1" using stream_inv_frame [OF that, of st'] st' by simp
  ultimately show ?thesis using attach_good [OF a] st' by (auto simp: stream_good_def)
qed (use r in \<open>simp add: stream_timer_event_def\<close>)

lemma stream_op_timeout_good:
  assumes r: "stream_op_timeout E i x st = Some (evs, x', st')"
  shows "stream_good x st evs x' st'"
proof (cases "i \<in> fst ` set (st_pendingOps st)")
  case True
  have g: "ctx_good x [] (with_proto (with_op i onTimeout) x)" by (rule with_proto_good) simp
  have "after_context E x [] (with_proto (with_op i onTimeout) x) st = Some (evs, x', st')"
    using r True by (simp add: stream_op_timeout_def)
  from after_good [OF this g] show ?thesis .
qed (use r in \<open>simp add: stream_op_timeout_def\<close>)

lemma destroy_good:
  assumes r: "destroy_stream E x st = Some (evs, x', st')"
  shows "stream_good x st evs x' st'"
proof -
  obtain x1 s1 where d: "detach E x (st\<lparr>st_timer := False\<rparr>) = Some (evs, x1, s1)" "cleanupPendingOps x1 s1 = (x', st')"
    using r by (auto simp: destroy_stream_def split: option.splits prod.splits)
  have "stream_good x (st\<lparr>st_timer := False\<rparr>) evs x' st'"
    using stream_good_trans [OF detach_good [OF d(1)] cleanup_good [OF d(2)]] by simp
  then show ?thesis using stream_inv_frame [of x st "st\<lparr>st_timer := False\<rparr>"] by (simp add: stream_good_def)
qed

lemma stream_exec_good:
  assumes "stream_exec E cmd x st = Some (evs, x', st')"
  shows "stream_good x st evs x' st'"
proof (cases cmd)
  case (StreamAttach mode)
  then show ?thesis using assms attach_good by (fastforce dest!: map_option_Some)
next
  case StreamDetach
  then show ?thesis using assms detach_good by simp
next
  case (StreamWrite pos data put)
  then obtain op where "stream_write E pos data put x st = Some (op, evs, x', st')" using assms by (auto dest!: map_option_Some)
  then show ?thesis by (rule data_calls_good(1))
next
  case (StreamAck sq b n)
  then show ?thesis using assms data_calls_good(2) by simp
next
  case StreamTimer
  then show ?thesis using assms stream_timer_good by simp
next
  case (StreamOpTimeout i)
  then show ?thesis using assms stream_op_timeout_good by simp
next
  case (StreamContext c)
  then obtain cevs x1 where e: "ctx_exec E c x = Some (cevs, x1)" "after_context E x cevs x1 st = Some (evs, x', st')"
    using assms by (auto split: option.splits)
  show ?thesis by (rule after_good [OF e(2) exec_good [OF e(1)]])
qed

lemma stream_run_good: "stream_run E cmds x st = Some (evs, x', st') \<Longrightarrow> stream_good x st evs x' st'"
proof (induction cmds arbitrary: x st evs)
  case (Cons cmd cmds)
  obtain e1 x1 s1 e2 where 1: "stream_exec E cmd x st = Some (e1, x1, s1)" "stream_run E cmds x1 s1 = Some (e2, x', st')" "evs = e1 @ e2"
    using Cons.prems by (auto split: option.splits)
  show ?case unfolding 1(3) by (rule stream_good_trans [OF stream_exec_good [OF 1(1)] Cons.IH [OF 1(2)]])
qed simp

end
