(* ===== verification/Server_Properties.thy ===== *)
theory Server_Properties imports Application_Laws begin

text \<open>
  Properties of the server (iINCServer): its numbers and limits, the delivery of events, the
  life of a stream, and the messages that stop it.
\<close>

section \<open>A sample server\<close>

definition sample_transport :: "unit transport" where
  "sample_transport = \<lparr>tr_device = idle_device, tr_isLocal = (\<lambda>_. True), tr_close = id\<rparr>"

definition sample_env :: "unit server_env" where
  "sample_env = \<lparr>se_transport = sample_transport, se_import = (\<lambda>_ _ _ _ _ _. None), se_allow = (\<lambda>_ _. True),
     se_createPool = (\<lambda>_ nm t. Some \<lparr>pool_type = t, pool_prefix = nm, pool_size = 4096, pool_fd = 9\<rparr>), se_now = 0\<rparr>"

text \<open>The default values on Linux of what the model reads, without the I/O thread.\<close>

definition default_options :: server_options where
  "default_options = server_config.extend new_server_config
     \<lparr>so_maxConnections = 100, so_sharedMemoryType = MEMTYPE_SHARED_POSIX OR MEMTYPE_PRIVATE, so_sharedMemoryName = [0x69, 0x78, 0x2D, 0x73, 0x68, 0x6D],
      so_enableIOThread = False\<rparr>"

definition default_context_options :: context_options where
  "default_context_options = context_config.extend new_context_config
     \<lparr>co_defaultServer = [], co_sharedMemoryType = MEMTYPE_SHARED_POSIX, co_sharedMemoryName = [0x69, 0x78, 0x2D, 0x73, 0x68, 0x6D], co_sharedMemorySize = 4194304,
      co_autoReconnect = True, co_maxReconnectAttempts = 5, co_protocolTimeoutMs = 500\<rparr>"

definition sample_server_state :: "unit server" where
  "sample_server_state = (new_server [] default_options)\<lparr>sv_listening := True, sv_nextChannelId := 1,
     sv_objects := [(1, new_connection () True 1)]\<rparr>"

text \<open>A link whose device takes nothing: messages stay in the send queue.\<close>

definition quiet_link :: link where "quiet_link = sample_link\<lparr>lk_device := sample_device\<lparr>m_attached := False\<rparr>\<rparr>"

lemma quiet_send:
  assumes "\<not> dv_isWritable (tr_device T) (cn_device c)" and "length (p_sendQueue (cn_proto c)) < INC_MAX_SEND_QUEUE" and "isValid m"
  obtains op c' where "conn_sendMessage T m c = (op, [], c')"
proof -
  have "sendMessageImpl (tr_device T) m op p (cn_device c) = ([], enqueue m op p, cn_device c)"
    if "p_sendQueue p = p_sendQueue (cn_proto c)" for op p
    using assms(1,2) that by (simp add: sendMessageImpl_accept onReadyWrite_def)
  then have "\<exists>op c'. conn_sendMessage T m c = (op, [], c')"
    using assms(3) by (auto simp: conn_sendMessage_def sendMessage_def alloc_op_def ref_op_def)
  then show ?thesis using that by blast
qed

lemma quiet_event:
  assumes "\<not> dv_isWritable (tr_device T) (cn_device c)" and "length (p_sendQueue (cn_proto c)) < INC_MAX_SEND_QUEUE"
    and "isValid (event_message (cn_connId c) (p_seqCounter (cn_proto c)) name v data)"
  shows "\<exists>c'. sendEvent T name v data c = ([], c')"
proof -
  obtain c1 where n: "conn_nextSequence c = (p_seqCounter (cn_proto c), c1)" and c1: "cn_device c1 = cn_device c"
    "p_sendQueue (cn_proto c1) = p_sendQueue (cn_proto c)"
    by (auto simp: conn_nextSequence_def nextSequence_def)
  obtain op c2 where "conn_sendMessage T (event_message (cn_connId c) (p_seqCounter (cn_proto c)) name v data) c1 = (op, [], c2)"
    using quiet_send [of T c1] assms c1 by metis
  then show ?thesis using n by (simp add: sendEvent_def)
qed

section \<open>Counting connections\<close>

definition no_reopen :: "(xuint32 \<times> 'd client) list \<Rightarrow> (xuint32 \<times> 'd client) list \<Rightarrow> bool" where
  "no_reopen xs ys \<longleftrightarrow> list_all2 (\<lambda>x y. cn_open (snd y) \<longrightarrow> cn_open (snd x)) xs ys"

lemma no_reopen_length: "no_reopen xs ys \<Longrightarrow> length (filter (\<lambda>(i, c). cn_open c) ys) \<le> length (filter (\<lambda>(i, c). cn_open c) xs)"
  unfolding no_reopen_def by (induction rule: list_all2_induct) auto

lemma no_reopen_put:
  assumes "distinct (map fst (sv_objects s))" and "map_of (sv_objects s) i = Some c" and "cn_open c' \<longrightarrow> cn_open c"
  shows "no_reopen (sv_objects s) (sv_objects (put_client i c' s))"
proof -
  have "x = c" if "(i, x) \<in> set (sv_objects s)" for x using assms(1,2) that by auto
  then have "\<forall>p\<in>set (sv_objects s). cn_open (snd (case p of (k, x) \<Rightarrow> if k = i then (k, c') else (k, x))) \<longrightarrow> cn_open (snd p)"
    using assms(3) by (auto split: if_splits)
  then show ?thesis unfolding no_reopen_def put_client_objects list_all2_map2
    by (auto simp: list_all2_same)
qed

lemma no_reopen_broadcast: "broadcast_loop T name v data objs = Some objs' \<Longrightarrow> no_reopen objs objs'"
  unfolding no_reopen_def
proof (induction objs arbitrary: objs')
  case (Cons x objs)
  obtain i c where x: "x = (i, c)" by fastforce
  obtain errs c1 where e: "sendEvent T name v data c = (errs, c1)" by fastforce
  have "cn_open c1 = cn_open c" by (rule conn_frame_simps(1) [OF conn_frame_sendEvent [OF e]])
  then show ?case using Cons e unfolding x by (auto split: if_splits)
qed simp

lemma connections_exec:
  assumes "server_inv s" and "server_exec E cmd s = Some (evs, s')" and "0 < so_maxConnections (sv_options s)"
    and "int (length (m_connections s)) \<le> so_maxConnections (sv_options s)"
  shows "sv_options s' = sv_options s \<and> int (length (m_connections s')) \<le> so_maxConnections (sv_options s)"
proof -
  have d: "distinct (map fst (sv_objects s))" using assms(1) by (simp add: server_inv_def numbers_ok_def)
  have put: "length (m_connections (put_client i c' (s\<lparr>sv_nextChannelId := n\<rparr>))) \<le> length (m_connections s)"
    if "map_of (sv_objects s) i = Some c" "cn_open c' \<longrightarrow> cn_open c" for i c c' n
    using no_reopen_length [OF no_reopen_put [OF d that]] by (simp add: m_connections_def put_client_def)
  have call: "sv_options s' = sv_options s \<and> int (length (m_connections s')) \<le> so_maxConnections (sv_options s)"
    if "on_client i f s = Some (evs, s')" "\<And>c e c'. f c = (e, c') \<Longrightarrow> keeps c c'" for i f
  proof (cases "map_of (sv_objects s) i")
    case (Some c)
    obtain e c' where f: "f c = (e, c')" by fastforce
    have s': "s' = put_client i c' s" using that(1) Some f by (simp add: on_client_def)
    show ?thesis using put [OF Some, of c' "sv_nextChannelId s"] that(2) [OF f] assms(4) by (simp add: s' put_client_def keeps_def)
  qed (use that assms(4) in \<open>simp add: on_client_def\<close>)
  show ?thesis
  proof (cases cmd)
    case (SrvAccept dev started nid)
    have "length (filter (\<lambda>(i, c). cn_open c) (filter (\<lambda>(k, _). k \<noteq> n) objs)) \<le> length (filter (\<lambda>(i, c). cn_open c) objs)" for n objs
      by (induction objs) auto
    then have "length (m_connections s') \<le> length (m_connections s) + 1 \<and> sv_options s' = sv_options s \<and>
        (int (length (m_connections s)) \<ge> so_maxConnections (sv_options s) \<longrightarrow> s' = s)"
      using SrvAccept assms(2,3) by (auto simp: handleNewConnection_def m_connections_def new_connection_def Let_def split: if_splits)
    then show ?thesis using assms(4) by (cases "int (length (m_connections s)) \<ge> so_maxConnections (sv_options s)") auto
  next
    case (SrvReceive i msg)
    show ?thesis
    proof (cases "map_of (sv_objects s) i")
      case (Some c)
      obtain pevs p dd where m: "onMessageReceived (tr_device (se_transport E)) (se_import E) msg (cn_proto c) (cn_device c) = (pevs, p, dd)"
        by (metis prod_cases3)
      obtain n' c' where dp: "dispatch E (sv_options s) (sv_globalPool s) pevs (sv_nextChannelId s) (c\<lparr>cn_proto := p, cn_device := dd\<rparr>) = Some (evs, n', c')"
        and s': "s' = put_client i c' (s\<lparr>sv_nextChannelId := n'\<rparr>)"
        using assms(2) Some m SrvReceive by (auto simp: server_receive_def split: option.splits)
      have "cn_open c' \<longrightarrow> cn_open c" using takes_dispatch [OF m dp] by (simp add: takes_def)
      from put [OF Some this, of n'] show ?thesis using assms(4) by (simp add: s' put_client_def)
    qed (use SrvReceive assms in \<open>auto simp: server_receive_def\<close>)
  next
    case (SrvBroadcast name v data)
    show ?thesis
    proof (cases "broadcast_loop (se_transport E) name v data (sv_objects s)")
      case (Some objs)
      from no_reopen_length [OF no_reopen_broadcast [OF Some]] show ?thesis using SrvBroadcast assms(2,4) Some
        by (auto simp: broadcastEvent_def m_connections_def split: if_splits)
    qed (use SrvBroadcast assms(2,4) in \<open>auto simp: broadcastEvent_def split: if_splits\<close>)
  next
    case SrvPurge
    then show ?thesis using assms by (auto simp: m_connections_def)
  next
    case SrvClose
    then show ?thesis using assms by (auto simp: server_close_def m_connections_def split: if_splits)
  next
    case (SrvReady i)
    from call [OF _ keeps_replies(3)] assms(2) show ?thesis by (simp add: SrvReady)
  next
    case (SrvDeviceError i)
    from call [OF _ keeps_close] assms(2) show ?thesis by (simp add: SrvDeviceError)
  next
    case (SrvCloseClient i)
    from call [OF _ keeps_close] assms(2) show ?thesis by (simp add: SrvCloseClient)
  next
    case (SrvMethodReply i sq code result)
    from call [OF _ keeps_replies(1)] assms(2) show ?thesis by (simp add: SrvMethodReply)
  next
    case (SrvBinaryReply i ch sq bc n)
    from call [OF _ keeps_replies(2)] assms(2) show ?thesis by (simp add: SrvBinaryReply)
  next
    case (SrvSendBinary i ch pos data put)
    from call [OF _ keeps_replies(4)] assms(2) show ?thesis by (simp add: SrvSendBinary)
  qed
qed

lemma listen_start:
  assumes "listenOn create url n (new_server name opts) = Some (code, s)"
  shows "sv_objects s = []" "sv_nextChannelId s = 0" "sv_options s = opts"
  using assms by (auto simp: listenOn_def new_server_def server_close_def Let_def split: if_splits option.splits)

lemma listen_inv: "listenOn create url n (new_server name opts) = Some (code, s) \<Longrightarrow> server_inv s"
  by (simp add: listen_start server_inv_def numbers_ok_def)

lemma connections_run:
  "server_inv s \<Longrightarrow> server_run E cmds s = Some (evs, s') \<Longrightarrow> unat (sv_nextChannelId s) + length cmds < 2 ^ 32 \<Longrightarrow>
   0 < so_maxConnections (sv_options s) \<Longrightarrow> int (length (m_connections s)) \<le> so_maxConnections (sv_options s) \<Longrightarrow>
   int (length (m_connections s')) \<le> so_maxConnections (sv_options s)"
proof (induction cmds arbitrary: s evs)
  case (Cons cmd cmds)
  obtain e1 s1 e2 where 1: "server_exec E cmd s = Some (e1, s1)" and 2: "server_run E cmds s1 = Some (e2, s')"
    using Cons.prems(2) by (auto split: option.splits)
  have i: "server_inv s1" "unat (sv_nextChannelId s1) \<le> unat (sv_nextChannelId s) + 1"
    using server_inv_exec [OF Cons.prems(1) 1] Cons.prems(3) by simp_all
  have o: "sv_options s1 = sv_options s" "int (length (m_connections s1)) \<le> so_maxConnections (sv_options s)"
    using connections_exec [OF Cons.prems(1) 1 Cons.prems(4,5)] by simp_all
  show ?case using Cons.IH [OF i(1) 2] Cons.prems(3,4) i(2) o by simp
qed simp

lemma sample_listen:
  "listenOn (\<lambda>t. Some \<lparr>pool_type = t, pool_prefix = [], pool_size = 4096, pool_fd = 9\<rparr>) [0x75] 1 (new_server [] default_options :: unit server) =
     Some (INC_OK, (new_server [] default_options)\<lparr>sv_listening := True,
       sv_globalPool := Some \<lparr>pool_type = MEMTYPE_SHARED_POSIX, pool_prefix = [], pool_size = 4096, pool_fd = 9\<rparr>\<rparr>)"
  by (simp add: listenOn_def new_server_def default_options_def new_server_config_def server_config.defs pool_type_wanted_def
      MEMTYPE_SHARED_MEMFD_def MEMTYPE_SHARED_POSIX_def MEMTYPE_PRIVATE_def Let_def)

section \<open>Properties\<close>



text \<open>
  The server never holds more live connections than its configured limit, over any such
  run.
\<close>

theorem connection_limit_holds:
  assumes "listenOn create url n (new_server name opts) = Some (code, s0)" and "server_run E cmds s0 = Some (evs, s)"
    and "length cmds < 2 ^ 32" and "0 < so_maxConnections opts"
  shows "int (length (m_connections s)) \<le> so_maxConnections opts"
  using connections_run [OF listen_inv [OF assms(1)] assms(2)] assms(3,4) listen_start [OF assms(1)]
  by (simp add: m_connections_def)

theorem connection_limit_holds_witness:
  "int (length (m_connections (snd (the (server_run sample_env [SrvAccept () True [], SrvAccept () True []]
     (snd (the (listenOn (\<lambda>_. None) [0x75] 1 (new_server [] (default_options\<lparr>so_maxConnections := 1, sc_disableSharedMemory := True\<rparr>)))))))))) \<le> 1"
proof -
  let ?o = "default_options\<lparr>so_maxConnections := 1, sc_disableSharedMemory := True\<rparr>"
  have l: "listenOn (\<lambda>_. None) [0x75] 1 (new_server [] ?o :: unit server) = Some (INC_OK, (new_server [] ?o)\<lparr>sv_listening := True\<rparr>)"
    by (simp add: listenOn_def new_server_def default_options_def new_server_config_def server_config.defs)
  have "server_run sample_env [SrvAccept () True [], SrvAccept () True []] ((new_server [] ?o)\<lparr>sv_listening := True\<rparr>) \<noteq> None"
    by (simp split: prod.split)
  then obtain evs s where r: "server_run sample_env [SrvAccept () True [], SrvAccept () True []] ((new_server [] ?o)\<lparr>sv_listening := True\<rparr>) = Some (evs, s)"
    by fastforce
  have "int (length (m_connections s)) \<le> so_maxConnections ?o"
    by (rule connection_limit_holds [OF l r]) (simp_all add: default_options_def server_config.defs)
  then show ?thesis unfolding l option.sel snd_conv r by (simp add: default_options_def server_config.defs)
qed


text \<open>
  Broadcasting an event is undefined exactly when sending fails to one of the subscribed
  connections of a listening server; a subscriber that has stopped reading, whose send queue
  is full, is enough.
\<close>

theorem broadcast_fails_exactly:
  "(broadcastEvent T name v data s = None \<longleftrightarrow> sv_listening s \<and>
      (\<exists>(i, c)\<in>set (sv_objects s). cn_open c \<and> isSubscribed name c \<and> fst (sendEvent T name v data c) \<noteq> [])) \<and>
   ((i, c) \<in> set (sv_objects s) \<and> sv_listening s \<and> cn_open c \<and> isSubscribed name c \<and>
      INC_MAX_SEND_QUEUE \<le> length (p_sendQueue (cn_proto c)) \<longrightarrow> broadcastEvent T name v data s = None)"
proof -
  have l: "broadcast_loop T name v data objs = None \<longleftrightarrow>
      (\<exists>(i, c)\<in>set objs. cn_open c \<and> isSubscribed name c \<and> fst (sendEvent T name v data c) \<noteq> [])" for objs
  proof (induction objs)
    case (Cons x objs)
    obtain i c where x: "x = (i, c)" by fastforce
    obtain errs c1 where e: "sendEvent T name v data c = (errs, c1)" by fastforce
    show ?case using Cons e by (auto simp: x)
  qed simp
  have f: "fst (sendEvent T name v data c) \<noteq> []" if "INC_MAX_SEND_QUEUE \<le> length (p_sendQueue (cn_proto c))" for c :: "'a client"
    using that by (auto simp: sendEvent_def conn_nextSequence_def nextSequence_def conn_sendMessage_def sendMessage_def
        sendMessageImpl_def alloc_op_def ref_op_def Let_def split: prod.splits)
  show ?thesis unfolding broadcastEvent_def using l f by (auto simp: split_beta intro!: bexI [of _ "(i, c)"])
qed

theorem broadcast_fails_exactly_witness:
  "broadcastEvent sample_transport [0x78] 1 [] (sample_server_state\<lparr>sv_objects :=
     [(1, (new_connection () True 1)\<lparr>cn_subscriptions := [[0x78]], cn_proto := (new_proto False)\<lparr>p_sendQueue := replicate 100 sample_event\<rparr>\<rparr>)]\<rparr>) = None"
proof -
  let ?c = "(new_connection () True 1)\<lparr>cn_subscriptions := [[0x78]], cn_proto := (new_proto False)\<lparr>p_sendQueue := replicate 100 sample_event\<rparr>\<rparr> :: unit client"
  show ?thesis
    using broadcast_fails_exactly [of sample_transport "[0x78]" 1 "[]" "sample_server_state\<lparr>sv_objects := [(1, ?c)]\<rparr>" 1 ?c]
    by (simp add: sample_server_state_def isSubscribed_def new_connection_def matchesPattern_def ends_with_def DOT_STAR_def INC_MAX_SEND_QUEUE_def)
qed

text \<open>What a broadcast leaves of each connection.\<close>

lemma broadcast_each:
  "broadcast_loop T name v data objs = Some objs' \<Longrightarrow> (i, c) \<in> set objs \<Longrightarrow>
   (if cn_open c \<and> isSubscribed name c then \<exists>c'. sendEvent T name v data c = ([], c') \<and> (i, c') \<in> set objs'
    else (i, c) \<in> set objs')"
proof (induction objs arbitrary: objs')
  case (Cons x objs)
  obtain j e where x: "x = (j, e)" by fastforce
  obtain errs e1 where e: "sendEvent T name v data e = (errs, e1)" by fastforce
  obtain rest where rest: "broadcast_loop T name v data objs = Some rest"
    and o: "objs' = (j, if cn_open e \<and> isSubscribed name e then e1 else e) # rest"
      "cn_open e \<and> isSubscribed name e \<Longrightarrow> errs = []"
    using Cons.prems(1) x e by (auto split: if_splits)
  show ?case
  proof (cases "(i, c) = x")
    case True
    then show ?thesis using o e x by auto
  next
    case False
    then have "(i, c) \<in> set objs" using Cons.prems(2) by simp
    from Cons.IH [OF rest this] show ?thesis unfolding o by (auto split: if_splits)
  qed
qed simp

lemma event_handled:
  assumes "string_ok name" and "bytes_ok data"
  shows "ctx_onMessageReceived T now (received (event_message cid sq name v data)) c x = ([EventReceived name v data], x)"
  using event_payload_sent [OF assms, of v]
  by (simp add: ctx_onMessageReceived_def handleEvent_def sent_payloads INC_MSG_EVENT_def INC_MSG_HANDSHAKE_ACK_def)

text \<open>
  C19. A broadcast event reaches every subscriber and nobody else: when the broadcast is
  defined, each open connection with a matching pattern has had exactly one event message
  accepted for its wire, with its next number, every other connection is as it was; and a
  context that receives that message announces the event with its name, version and bytes,
  and answers nothing.
\<close>

theorem events_reach_subscribers:
  assumes "broadcastEvent (tcp_transport big near) name v data s = Some s'" and "sv_listening s"
    and "(i, c) \<in> set (sv_objects s)" and "tcpt.conn_reach big acc c" and "string_ok name" and "bytes_ok data"
  defines "m \<equiv> event_message (cn_connId c) (p_seqCounter (cn_proto c)) name v data"
  shows "if cn_open c \<and> isSubscribed name c
    then (\<exists>c'. (i, c') \<in> set (sv_objects s') \<and> tcpt.conn_reach big (acc @ [m]) c') \<and>
      ctx_onMessageReceived T now (received m) c2 x = ([EventReceived name v data], x)
    else (i, c) \<in> set (sv_objects s')"
proof -
  obtain objs where l: "broadcast_loop (tcp_transport big near) name v data (sv_objects s) = Some objs" and s': "sv_objects s' = objs"
    using assms(1,2) by (auto simp: broadcastEvent_def)
  note b = broadcast_each [OF l assms(3)]
  show ?thesis
  proof (cases "cn_open c \<and> isSubscribed name c")
    case True
    then obtain c' where c': "sendEvent (tcp_transport big near) name v data c = ([], c')" "(i, c') \<in> set objs" using b by auto
    have "tcpt.conn_reach big (acc @ [m]) c'" unfolding m_def by (rule tcpt.conn_reach_event [OF assms(4) c'(1)])
    then show ?thesis using True c'(2) s' event_handled [OF assms(5,6)] unfolding m_def by auto
  qed (use b s' in auto)
qed

theorem events_reach_subscribers_witness:
  "\<exists>c'. tcpt.conn_reach False [event_message 1 1 [0x78] 1 [7]] (c' :: link client) \<and>
     ctx_onMessageReceived (tcp_transport False False) 0 (received (event_message 1 1 [0x78] 1 [7])) (new_connection quiet_link True 0)
       (new_context [] default_context_options) =
       ([EventReceived [0x78] 1 [7]], new_context [] default_context_options)"
proof -
  let ?c = "addSubscription [0x78] (new_connection quiet_link True 1) :: link client"
  let ?s = "(new_server [] default_options)\<lparr>sv_listening := True, sv_objects := [(1, ?c)]\<rparr>"
  have sub: "cn_open ?c \<and> isSubscribed [0x78] ?c" "cn_connId ?c = 1" "p_seqCounter (cn_proto ?c) = 1"
    by (simp_all add: new_connection_def addSubscription_def isSubscribed_def matchesPattern_def ends_with_def DOT_STAR_def new_proto_def)
  have v: "isValid (event_message 1 1 [0x78] 1 [7])"
    using encode_length [of "[0x78]"]
    by (simp add: isValid_def event_message_def new_message_def payload_size_def INC_MSG_EVENT_def INC_MSG_INVALID_def
        MAX_MESSAGE_SIZE_def HEADER_SIZE_def byt.put_data str.put_data u16.put_data new_tag_struct_def encBytes_def encString_def Let_def)
  have q: "\<not> dv_isWritable (tr_device (tcp_transport False False)) (cn_device ?c)" "length (p_sendQueue (cn_proto ?c)) < INC_MAX_SEND_QUEUE"
    by (simp_all add: tcp_transport_def tcp_sender_def new_connection_def addSubscription_def quiet_link_def new_proto_def INC_MAX_SEND_QUEUE_def)
  obtain c' where e: "sendEvent (tcp_transport False False) [0x78] 1 [7] ?c = ([], c')"
    using quiet_event [OF q] v unfolding sub(2,3) by blast
  have b: "broadcastEvent (tcp_transport False False) [0x78] 1 [7] ?s = Some (?s\<lparr>sv_objects := [(1, c')]\<rparr>)"
    using sub(1) e by (simp add: broadcastEvent_def)
  have r: "tcpt.conn_reach False [] ?c"
    unfolding tcpt.conn_reach_def by (rule tcps.sr_start) (simp_all add: addSubscription_def new_connection_def new_proto_def quiet_link_def sample_link_def)
  have ok: "string_ok [0x78]" "bytes_ok [7]" by (simp_all add: string_ok_def bytes_ok_def isSurrogate_def isHighSurrogate_def isLowSurrogate_def)
  show ?thesis
    using events_reach_subscribers [OF b _ _ r ok, of 1 "tcp_transport False False" 0 "new_connection quiet_link True 0" "new_context [] default_context_options"] sub
    by auto
qed

section \<open>Operations of messages sent\<close>

lemma sent_operation:
  assumes "sendMessage D m p d = (op, [], p', d')" and "is_tracked m"
  shows "\<exists>i. op = Some i \<and> i = p_nextOp p \<and> ops_find (msg_seqNum m) p' = Some i \<and> p_heap p' i = Some (new_operation (msg_seqNum m)) \<and> p_refs p' i = 2"
proof -
  let ?i = "p_nextOp p" and ?q = "ref_op (p_nextOp p) (snd (alloc_op (msg_seqNum m) p))"
  have i: "op = Some ?i" "sendMessageImpl D m (Some ?i) ?q d = ([], p', d')"
    using assms by (auto simp: sendMessage_def alloc_op_def split: if_splits)
  have l: "length (p_sendQueue ?q) < INC_MAX_SEND_QUEUE" using i(2) by (auto simp: sendMessageImpl_def Let_def split: if_splits)
  from i(2) have "onReadyWrite D (enqueue m (Some ?i) ?q) d = ([], p', d')" by (simp only: sendMessageImpl_accept [OF l])
  from onReadyWrite_frame [OF this] show ?thesis using i(1)
    by (auto simp: ops_find_def enqueue_simps ref_op_def alloc_op_def)
qed

section \<open>Messages that stop the server\<close>

definition request :: "inc_message \<Rightarrow> bool" where
  "request msg \<longleftrightarrow> msg_type msg AND 1 = 0 \<and> msg_type msg \<noteq> INC_MSG_BINARY_DATA"

text \<open>A request is announced as it is, and its protocol only counts it and keeps its descriptor.\<close>

lemma request_received:
  assumes "request msg" and "\<not> p_isPassthrough p"
  shows "onMessageReceived D imp msg p d =
    ([MessageReceived msg], meter (onMessageReceivedMetric (payload_size msg)) (cache_fd (msg_extFd msg) p), d)"
proof -
  have "p_isPassthrough (meter f (cache_fd fd p)) = p_isPassthrough p" for f fd by (simp add: meter_def cache_fd_def)
  moreover have "msg_type msg \<noteq> INC_MSG_BINARY_DATA_ACK" using assms(1) by (auto simp: request_def INC_MSG_BINARY_DATA_ACK_def)
  ultimately show ?thesis using assms by (simp add: onMessageReceived_def complete_op_def request_def Let_def)
qed

text \<open>The server's part of a request.\<close>

definition fed :: "'d server_env \<Rightarrow> inc_message \<Rightarrow> 'd client \<Rightarrow> 'd client" where
  "fed E msg c = c\<lparr>cn_proto := meter (onMessageReceivedMetric (payload_size msg)) (cache_fd (msg_extFd msg) (cn_proto c))\<rparr>"

lemma server_request:
  assumes "map_of (sv_objects s) i = Some c" and "request msg" and "\<not> p_isPassthrough (cn_proto c)"
  shows "server_receive E i msg s =
    (case onConnectionMessageReceived E (sv_options s) (sv_globalPool s) msg (sv_nextChannelId s) (fed E msg c) of
       None \<Rightarrow> None | Some (evs, n, c1) \<Rightarrow> Some (evs, put_client i c1 (s\<lparr>sv_nextChannelId := n\<rparr>)))"
proof -
  have "c\<lparr>cn_proto := q, cn_device := cn_device c\<rparr> = c\<lparr>cn_proto := q\<rparr>" for q by simp
  then show ?thesis using assms(1) request_received [OF assms(2,3), of "tr_device (se_transport E)" "se_import E" "cn_device c"]
    by (auto simp: server_receive_def fed_def split: option.split)
qed

definition bad_pool :: "mem_pool option \<Rightarrow> bool" where
  "bad_pool pool \<longleftrightarrow> (\<forall>m. pool = Some m \<longrightarrow> \<not> pool_isShared m)"

lemma enable_none: "conn_enableMempool pool c = None \<longleftrightarrow> cn_mempool c = None \<and> bad_pool pool"
  by (auto simp: conn_enableMempool_def bad_pool_def split: option.splits)

lemma streamOpen_none:
  "handleStreamOpen E opts global msg n c = None \<longleftrightarrow>
   (\<exists>name mode types nm pool. stream_open_payload (msg_payload msg) = Some (name, mode, Some (types, nm)) \<and>
      snd (negotiate_shm E opts global types nm c) = Some pool \<and> cn_mempool c = None \<and> bad_pool pool)"
  by (auto simp: handleStreamOpen_def Let_def enable_none [symmetric] split: option.splits prod.splits)

lemma message_none:
  "onConnectionMessageReceived E opts global msg n c = None \<longleftrightarrow>
   msg_type msg = INC_MSG_STREAM_OPEN \<and> \<not> expired (se_now E) msg \<and> handleStreamOpen E opts global msg n c = None"
  by (auto simp: onConnectionMessageReceived_def Let_def INC_MSG_STREAM_OPEN_def INC_MSG_HANDSHAKE_def INC_MSG_METHOD_CALL_def split: prod.splits)




text \<open>
  Any client can stop the server with one message, before or without a handshake:
  broadcast data for a channel it has not opened, and, when the server's configuration allows
  private memory (as the default does) and the client is local, the offer of private memory
  alone in a stream request.
\<close>

theorem client_can_stop_server:
  assumes "map_of (sv_objects s) i = Some c" and "\<not> p_isPassthrough (cn_proto c)"
    and "cn_channels c ch = None" and "bytes_ok data"
    and "\<not> sc_disableSharedMemory (sv_options s)" and "so_sharedMemoryType (sv_options s) AND MEMTYPE_PRIVATE \<noteq> 0"
    and "isLocal (se_transport E) c" and "cn_mempool c = None" and "\<forall>g. sv_globalPool s = Some g \<longrightarrow> pool_isShared g"
    and "\<forall>nm k t m. se_createPool E nm k t = Some m \<longrightarrow> pool_type m = t" and "string_ok name" and "bytes_ok nm"
  shows "server_receive E i (received (copy_message ch sq True pos data)) s = None \<and>
    server_receive E i (received (open_message cid sq name mode (Some (MEMTYPE_PRIVATE, nm)))) s = None"
proof
  obtain p d where m: "onMessageReceived (tr_device (se_transport E)) (se_import E) (received (copy_message ch sq True pos data)) (cn_proto c) (cn_device c)
      = ([BinaryDataReceived ch sq True pos data], p, d)"
    using copy_message_received [OF assms(4,2)] by (metis prod.collapse)
  show "server_receive E i (received (copy_message ch sq True pos data)) s = None"
    using assms(1,3) m by (simp add: server_receive_def onBinaryDataReceived_def)
next
  let ?m = "received (open_message cid sq name mode (Some (MEMTYPE_PRIVATE, nm)))"
  have q: "request ?m" by (simp add: request_def INC_MSG_STREAM_OPEN_def INC_MSG_BINARY_DATA_def)
  have pl: "stream_open_payload (msg_payload ?m) = Some (name, mode, Some (MEMTYPE_PRIVATE, nm))"
    unfolding sent_payloads by (rule stream_open_payload_sent) (use assms(11,12) in auto)
  have b4: "bit MEMTYPE_PRIVATE n \<longleftrightarrow> n = 2" for n
  proof -
    have e: "MEMTYPE_PRIVATE = push_bit 2 1" by (simp add: MEMTYPE_PRIVATE_def)
    show ?thesis unfolding e by (simp only: bit_push_bit_iff bit_1_iff) (auto simp: possible_bit_def)
  qed
  have "bit (so_sharedMemoryType (sv_options s)) 2"
  proof (rule ccontr)
    assume "\<not> bit (so_sharedMemoryType (sv_options s)) 2"
    then have "so_sharedMemoryType (sv_options s) AND MEMTYPE_PRIVATE = 0" by (intro bit_word_eqI) (auto simp: bit_simps b4)
    then show False using assms(6) by simp
  qed
  then have t: "MEMTYPE_PRIVATE AND so_sharedMemoryType (sv_options s) = MEMTYPE_PRIVATE"
    by (intro bit_word_eqI) (auto simp: bit_simps b4)
  have nz: "MEMTYPE_PRIVATE \<noteq> 0" by (simp add: MEMTYPE_PRIVATE_def)
  have one: "push_bit (count_trailing_zeros MEMTYPE_PRIVATE) 1 = MEMTYPE_PRIVATE"
    by (simp add: count_trailing_zeros_def MEMTYPE_PRIVATE_def Let_def)
  have g: "MEMTYPE_PRIVATE AND pool_type g = 0" if "sv_globalPool s = Some g" for g
    using assms(9) that by (auto simp: pool_isShared_def MEMTYPE_PRIVATE_def MEMTYPE_SHARED_POSIX_def MEMTYPE_SHARED_MEMFD_def)
  have loc: "isLocal (se_transport E) (fed E ?m c)" "cn_mempool (fed E ?m c) = None" using assms(7,8) by (simp_all add: isLocal_def fed_def)
  obtain pool where n: "snd (negotiate_shm E (sv_options s) (sv_globalPool s) MEMTYPE_PRIVATE nm (fed E ?m c)) = Some pool" and b: "bad_pool pool"
  proof
    show "snd (negotiate_shm E (sv_options s) (sv_globalPool s) MEMTYPE_PRIVATE nm (fed E ?m c)) =
        Some (se_createPool E (cn_peerName (fed E ?m c)) nm MEMTYPE_PRIVATE)"
      using assms(5) loc(1) g by (cases "sv_globalPool s") (simp_all add: negotiate_shm_def t one nz Let_def del: push_bit_of_1)
    have "\<not> pool_isShared k" if "se_createPool E (cn_peerName (fed E ?m c)) nm MEMTYPE_PRIVATE = Some k" for k
      using assms(10) that by (auto simp: pool_isShared_def MEMTYPE_PRIVATE_def MEMTYPE_SHARED_POSIX_def MEMTYPE_SHARED_MEMFD_def)
    then show "bad_pool (se_createPool E (cn_peerName (fed E ?m c)) nm MEMTYPE_PRIVATE)" by (simp add: bad_pool_def)
  qed
  have "onConnectionMessageReceived E (sv_options s) (sv_globalPool s) ?m (sv_nextChannelId s) (fed E ?m c) = None"
    unfolding message_none streamOpen_none using pl n b loc(2) by auto
  then show "server_receive E i ?m s = None" using server_request [OF assms(1) q assms(2)] by simp
qed


theorem client_can_stop_server_witness:
  "server_receive sample_env 1 (received (open_message 0 1 [0x78] 1 (Some (MEMTYPE_PRIVATE, [0x6D])))) sample_server_state = None"
proof -
  let ?c = "new_connection () True 1 :: unit client"
  have 1: "map_of (sv_objects sample_server_state) 1 = Some ?c" "\<not> p_isPassthrough (cn_proto ?c)" "cn_channels ?c 5 = None"
    "isLocal (se_transport sample_env) ?c" "cn_mempool ?c = None"
    by (simp_all add: sample_server_state_def new_connection_def new_proto_def isLocal_def sample_env_def sample_transport_def)
  have 2: "\<not> sc_disableSharedMemory (sv_options sample_server_state)" "so_sharedMemoryType (sv_options sample_server_state) AND MEMTYPE_PRIVATE \<noteq> 0"
    by (simp_all add: sample_server_state_def new_server_def default_options_def new_server_config_def server_config.defs
        MEMTYPE_PRIVATE_def MEMTYPE_SHARED_POSIX_def)
  have 3: "\<forall>g. sv_globalPool sample_server_state = Some g \<longrightarrow> pool_isShared g"
    "\<forall>nm k t m. se_createPool sample_env nm k t = Some m \<longrightarrow> pool_type m = t"
    by (auto simp: sample_server_state_def new_server_def sample_env_def)
  have 4: "bytes_ok [1]" "string_ok [0x78]" "bytes_ok [0x6D]"
    by (simp_all add: string_ok_def bytes_ok_def isSurrogate_def isHighSurrogate_def isLowSurrogate_def)
  show ?thesis
    using client_can_stop_server [OF 1(1-3) 4(1) 2 1(4,5) 3 4(2,3)] by blast
qed

section \<open>Streams\<close>

text \<open>
  The memory type granted for a stream is one that both sides have offered: the type of
  the server's own pool if it is among them, and otherwise, for a local client, the lowest
  common bit; with no common type, or for a remote client, none is granted.
\<close>

theorem granted_type_is_common:
  assumes "negotiate_shm E opts global types nm c = (t, enable)"
  shows "(enable = None \<longleftrightarrow> t = 0) \<and>
    (t \<noteq> 0 \<longrightarrow> t AND types AND so_sharedMemoryType opts \<noteq> 0) \<and>
    (\<forall>g. global = Some g \<and> types AND so_sharedMemoryType opts AND pool_type g \<noteq> 0 \<longrightarrow> t = pool_type g \<and> enable = Some (Some g)) \<and>
    (t \<noteq> 0 \<and> (\<forall>g. global = Some g \<longrightarrow> types AND so_sharedMemoryType opts AND pool_type g = 0) \<longrightarrow>
      (\<exists>k. t = push_bit k 1 \<and> bit types k \<and> bit (so_sharedMemoryType opts) k \<and>
         (\<forall>j<k. \<not> (bit types j \<and> bit (so_sharedMemoryType opts) j))))"
proof -
  define v where "v = types AND so_sharedMemoryType opts"
  consider (own) g where "global = Some g" "v AND pool_type g \<noteq> 0" "t = pool_type g" "enable = Some (Some g)"
    | (none) "\<forall>g. global = Some g \<longrightarrow> v AND pool_type g = 0" "t = 0" "enable = None"
    | (new) "\<forall>g. global = Some g \<longrightarrow> v AND pool_type g = 0" "v \<noteq> 0" "t = push_bit (count_trailing_zeros v) 1" "enable \<noteq> None"
    using assms unfolding negotiate_shm_def v_def [symmetric] Let_def by (cases global) (auto split: if_splits)
  then show ?thesis
  proof cases
    case own
    then have "pool_type g \<noteq> 0" by auto
    then show ?thesis using own by (auto simp: v_def ac_simps)
  next
    case none
    then show ?thesis by (auto simp: v_def ac_simps)
  next
    case new
    let ?k = "count_trailing_zeros v"
    have k: "bit v ?k" "\<forall>j<?k. \<not> bit v j" using count_trailing_zeros_lowest [OF new(2)] by blast+
    then have b: "bit types ?k" "bit (so_sharedMemoryType opts) ?k" "\<forall>j<?k. \<not> (bit types j \<and> bit (so_sharedMemoryType opts) j)"
      by (auto simp: v_def bit_and_iff)
    have k16: "?k < 16" using bit_imp_le_length [OF k(1)] by simp
    have bt: "bit t ?k" using k16 unfolding new(3) by (simp only: bit_push_bit_iff bit_1_iff) (auto simp: possible_bit_def)
    have "bit (t AND types AND so_sharedMemoryType opts) ?k" using bt b by (simp add: bit_and_iff)
    then have "t AND types AND so_sharedMemoryType opts \<noteq> 0" by auto
    moreover have "t \<noteq> 0" using bt by auto
    moreover have "types AND so_sharedMemoryType opts AND pool_type g = 0" if "global = Some g" for g
      using new(1) that by (simp add: v_def ac_simps)
    ultimately show ?thesis using new(3,4) b by (auto simp del: push_bit_of_1)
  qed
qed

theorem granted_type_is_common_witness:
  "fst (negotiate_shm sample_env default_options None 7 [] (new_connection () True 1)) AND 6 \<noteq> 0"
proof -
  have "negotiate_shm sample_env default_options None 7 [] (new_connection () True 1) =
      (2, Some (Some \<lparr>pool_type = 2, pool_prefix = [], pool_size = 4096, pool_fd = 9\<rparr>))"
    by (simp add: negotiate_shm_def sample_env_def sample_transport_def isLocal_def default_options_def server_config.defs
        new_server_config_def MEMTYPE_SHARED_POSIX_def MEMTYPE_PRIVATE_def count_trailing_zeros_def Let_def)
  from granted_type_is_common [OF this] show ?thesis
    by (simp add: negotiate_shm_def sample_env_def sample_transport_def isLocal_def default_options_def server_config.defs
        new_server_config_def MEMTYPE_SHARED_POSIX_def MEMTYPE_PRIVATE_def count_trailing_zeros_def Let_def)
qed


lemma map_of_put: "map_of (sv_objects s) i = Some c \<Longrightarrow> map_of (sv_objects (put_client i c' s)) i = Some c'"
proof -
  have "map_of objs i = Some c \<Longrightarrow> map_of (map (\<lambda>(k, x). if k = i then (k, c') else (k, x)) objs) i = Some c'" for objs
    by (induction objs) (auto split: if_splits)
  then show "map_of (sv_objects s) i = Some c \<Longrightarrow> map_of (sv_objects (put_client i c' s)) i = Some c'"
    by (simp add: put_client_objects)
qed

text \<open>Sending a reply without closing leaves everything but the protocol and the device.\<close>

lemma send_client_alive:
  assumes "send_client T msg c = (evs, c')" and "\<forall>j. ClientDisconnected j \<notin> set evs" and "cn_open c"
  shows "evs = [] \<and> conn_frame c c' \<and> (\<exists>op. conn_sendMessage T msg c = (op, [], c'))"
proof -
  obtain op errs c1 where s: "conn_sendMessage T msg c = (op, errs, c1)" by (metis prod_cases3)
  have f: "conn_frame c c1" by (rule conn_frame_send(1) [OF s])
  have "errs = []"
  proof (rule ccontr)
    assume e: "errs \<noteq> []"
    have "cn_open c1" using conn_frame_simps(1) [OF f] assms(3) by simp
    then show False using assms(1,2) s e by (auto simp: send_client_def close_client_def conn_close_def)
  qed
  then show ?thesis using assms(1) s f by (simp add: send_client_def)
qed

lemma fed_simps [simp]:
  "cn_open (fed E m c) = cn_open c" "cn_connId (fed E m c) = cn_connId c" "cn_channels (fed E m c) = cn_channels c"
  "cn_mempool (fed E m c) = cn_mempool c" "p_isPassthrough (cn_proto (fed E m c)) = p_isPassthrough (cn_proto c)"
  by (simp_all add: fed_def meter_def cache_fd_def)

lemma passthrough_kept:
  assumes "conn_sendMessage T m c = (op, es, c')"
  shows "p_isPassthrough (cn_proto c') = p_isPassthrough (cn_proto c)"
proof -
  have i: "p_isPassthrough p' = p_isPassthrough p" if "sendMessageImpl D msg op p d = (evs, p', d')" for D msg op p d evs p' d'
  proof (cases "length (p_sendQueue p) < INC_MAX_SEND_QUEUE")
    case True
    then show ?thesis using that onReadyWrite_frame [of D "enqueue msg op p" d evs p' d']
      by (auto simp: sendMessageImpl_accept enqueue_def meter_def ops_put_def Let_def split: option.splits)
  next
    case False
    then show ?thesis using that
      by (auto simp: sendMessageImpl_def meter_def with_op_def deref_op_def Let_def split: option.splits)
  qed
  show ?thesis using assms
    by (auto simp: conn_sendMessage_def sendMessage_def alloc_op_def ref_op_def with_op_def dest!: i split: prod.splits if_splits)
qed

lemma send_client_passthrough:
  "send_client T msg c = (evs, c') \<Longrightarrow> \<forall>j. ClientDisconnected j \<notin> set evs \<Longrightarrow> cn_open c \<Longrightarrow>
   p_isPassthrough (cn_proto c') = p_isPassthrough (cn_proto c)"
  using send_client_alive [of T msg c evs c'] passthrough_kept [of T msg c _ "[]" c'] by blast

text \<open>Binary data of a channel that is there.\<close>

lemma data_handled:
  assumes "map_of (sv_objects s) i = Some c" and "\<not> p_isPassthrough (cn_proto c)" and "findChannel ch c = Some ps" and "bytes_ok data"
  shows "\<exists>s2. server_receive E i (received (copy_message ch sq bc pos data)) s =
    Some ([HandleBinaryData (cn_connId c) ch sq bc pos data], s2)"
proof -
  obtain p d where m: "onMessageReceived (tr_device (se_transport E)) (se_import E) (received (copy_message ch sq bc pos data)) (cn_proto c) (cn_device c)
      = ([BinaryDataReceived ch sq bc pos data], p, d)"
    using copy_message_received [OF assms(4,2)] by (metis prod.collapse)
  then show ?thesis using assms(1,3) by (simp add: server_receive_def onBinaryDataReceived_def findChannel_def)
qed

text \<open>Acknowledged data of a channel that is not there is refused.\<close>

lemma data_refused:
  assumes "map_of (sv_objects s) i = Some c" and "\<not> p_isPassthrough (cn_proto c)" and "findChannel ch c = None" and "bytes_ok data"
  shows "\<exists>evs s2. server_receive E i (received (copy_message ch sq False pos data)) s = Some (evs, s2) \<and>
    (\<forall>a b e f g h. HandleBinaryData a b e f g h \<notin> set evs)"
proof -
  obtain p d where m: "onMessageReceived (tr_device (se_transport E)) (se_import E) (received (copy_message ch sq False pos data)) (cn_proto c) (cn_device c)
      = ([BinaryDataReceived ch sq False pos data], p, d)"
    using copy_message_received [OF assms(4,2)] by (metis prod.collapse)
  then show ?thesis using assms(1,3)
    by (auto simp: server_receive_def onBinaryDataReceived_def findChannel_def close_client_def conn_close_def split: prod.splits)
qed




text \<open>
  Events are sent as requests but nobody answers them: each event a connection sends
  leaves its operation in the table, running and referred to by the table alone, under the
  event's number, and the context that receives the event sends nothing and only announces it.
\<close>

theorem events_are_never_acknowledged:
  assumes "sendEvent T name v data c = ([], c')"
  shows "(\<exists>i. ops_find (p_seqCounter (cn_proto c)) (cn_proto c') = Some i \<and> p_refs (cn_proto c') i = 1 \<and>
      (\<exists>op. p_heap (cn_proto c') i = Some op \<and> op_state op = STATE_RUNNING)) \<and>
    snd (ctx_onMessageReceived T2 now (received (event_message (cn_connId c) (p_seqCounter (cn_proto c)) name v data)) c2 x) = x"
proof
  let ?m = "event_message (cn_connId c) (p_seqCounter (cn_proto c)) name v data"
  obtain c1 op c3 where n: "conn_nextSequence c = (p_seqCounter (cn_proto c), c1)"
    and s: "conn_sendMessage T ?m c1 = (op, [], c3)" and c': "c' = conn_drop op c3"
    using assms by (auto simp: sendEvent_def conn_nextSequence_def nextSequence_def split: prod.splits)
  obtain p d where ms: "sendMessage (tr_device T) ?m (cn_proto c1) (cn_device c1) = (op, [], p, d)" and c3: "cn_proto c3 = p"
    using sendMessage_errors s by (fastforce simp: conn_sendMessage_def only_errors_def split: prod.splits)
  have t: "is_tracked ?m" by (simp add: is_tracked_def event_message_def new_message_def INC_MSG_EVENT_def INC_MSG_FLAG_NONE_def)
  obtain i where op: "op = Some i" "ops_find (msg_seqNum ?m) p = Some i" "p_heap p i = Some (new_operation (msg_seqNum ?m))" "p_refs p i = 2"
    using sent_operation [OF ms t] by blast
  then show "\<exists>i. ops_find (p_seqCounter (cn_proto c)) (cn_proto c') = Some i \<and> p_refs (cn_proto c') i = 1 \<and>
      (\<exists>op. p_heap (cn_proto c') i = Some op \<and> op_state op = STATE_RUNNING)"
    by (simp add: c' c3 conn_drop_def deref_op_def ops_find_def Let_def new_operation_def)
next
  show "snd (ctx_onMessageReceived T2 now (received (event_message (cn_connId c) (p_seqCounter (cn_proto c)) name v data)) c2 x) = x"
    by (simp add: ctx_onMessageReceived_def INC_MSG_EVENT_def INC_MSG_HANDSHAKE_ACK_def)
qed


theorem events_are_never_acknowledged_witness:
  "\<exists>c'. sendEvent sample_transport [0x78] 1 [7] (new_connection () True 1 :: unit client) = ([], c') \<and>
     (\<exists>i. ops_find 1 (cn_proto c') = Some i \<and> p_refs (cn_proto c') i = 1)"
proof -
  let ?c = "new_connection () True 1 :: unit client"
  have k: "\<not> dv_isWritable (tr_device sample_transport) (cn_device ?c)" "length (p_sendQueue (cn_proto ?c)) < INC_MAX_SEND_QUEUE"
    "cn_connId ?c = 1" "p_seqCounter (cn_proto ?c) = 1"
    by (simp_all add: sample_transport_def idle_device_def new_connection_def new_proto_def INC_MAX_SEND_QUEUE_def)
  have "isValid (event_message 1 1 [0x78] 1 [7])"
    using encode_length [of "[0x78]"]
    by (simp add: isValid_def event_message_def new_message_def payload_size_def INC_MSG_EVENT_def INC_MSG_INVALID_def
        MAX_MESSAGE_SIZE_def HEADER_SIZE_def byt.put_data str.put_data u16.put_data new_tag_struct_def encBytes_def encString_def Let_def)
  then obtain c' where e: "sendEvent sample_transport [0x78] 1 [7] ?c = ([], c')" using quiet_event [OF k(1,2)] unfolding k(3,4) by blast
  from events_are_never_acknowledged [OF e, of sample_transport 0 ?c "new_context [] default_context_options"] e k(4) show ?thesis by auto
qed

end
