(* ===== verification/Context_Properties.thy ===== *)
theory Context_Properties imports Context_Laws Server_Properties begin

text \<open>
  Properties of the context (iINCContext): the coherence of its state over any run, connecting
  to a server, calling its methods, and what closing, timeouts and the reconnect timer do.
\<close>

section \<open>The exchange of handshakes\<close>

lemma compatible_versions: "isCompatible (ucast (a :: 16 word)) (ucast (b :: 16 word))"
proof -
  have "drop_bit 16 (ucast v :: xuint32) = 0" for v :: "16 word"
    by (rule bit_word_eqI) (auto simp: bit_drop_bit_eq bit_ucast_iff dest: bit_imp_le_length)
  then show ?thesis by (simp add: isCompatible_def)
qed

text \<open>The data of two sides that have not been given a configuration, as server and context leave them.\<close>

definition peer_data :: "ustring \<Rightarrow> 16 word \<Rightarrow> ustring \<Rightarrow> handshake_data \<Rightarrow> bool" where
  "peer_data name v nid d \<longleftrightarrow> hs_nodeName d = name \<and> hs_protocolVersion d = ucast v \<and> hs_capabilities d = CAP_STREAM \<and>
     handshake_ok d"

lemma unconfigured_accepts:
  assumes "hk_contextConfig h = None" and "hk_serverConfig h = None" and "hs_protocolVersion (hk_localData h) = ucast (a :: 16 word)"
    and "hs_protocolVersion d = ucast (b :: 16 word)"
  shows "accepts h d"
  using compatible_versions [of a b] assms by (cases "hk_role h") (simp_all add: accepts_def verdict_def)

definition client_hello :: "('d, 'c) inc_context \<Rightarrow> ustring \<Rightarrow> handshake_data" where
  "client_hello x nid = new_handshake_data\<lparr>hs_nodeId := nid, hs_nodeName := cx_name x,
     hs_protocolVersion := ucast (cc_protocolVersionCurrent (cx_config x)), hs_capabilities := CAP_STREAM\<rparr>"

text \<open>What connectTo leaves when it has sent its handshake.\<close>

lemma connect_sends:
  fixes x :: "(link, 'c) inc_context"
  assumes "\<not> connecting_or_connected x" and "connectTo (tcp_transport big near) (Some (d, True)) nid server router x = (INC_OK, evs, x1)"
    and "cx_connection x1 = Some c" and "lk_wire d = []"
  shows "\<exists>sq h. tcpt.conn_reach big [handshake_message 0 sq (serializeHandshakeData (client_hello x nid))] c \<and>
    cn_handshake c = Some h \<and> hk_role h = ROLE_CLIENT \<and> hk_state h = HS_SENDING \<and> hk_localData h = client_hello x nid \<and>
    hk_contextConfig h = None \<and> hk_serverConfig h = None \<and> cx_state x1 = CTX_CONNECTING \<and> cx_customState x1 = CTX_CONNECTING \<and>
    cx_connectMode x1 = 1"
proof -
  let ?T = "tcp_transport big near"
  define y where "y = x\<lparr>cx_serverUrl := (if server = [] then co_defaultServer (cx_config x) else server), cx_routerUrl := router, cx_connectMode := 0x01\<rparr>"
  have dc: "doConnect ?T (Some (d, True)) nid y = (INC_OK, evs, x1)" unfolding y_def
    using assms(1,2) by (auto simp: connectTo_def Let_def INC_ERROR_INVALID_ARGS_def INC_OK_def split: if_splits)
  have ny: "\<not> connecting_or_connected y" using assms(1) by (simp add: y_def connecting_or_connected_def)
  obtain e1 y1 where s1: "ctx_setState CTX_CONNECTING y = (e1, y1)" by fastforce
  note f1 = setState_frame [OF s1]
  have cs: "cx_customState y1 = CTX_CONNECTING" "cx_name y1 = cx_name x"
    using s1 by (auto simp: y_def ctx_setState_def ctx_state_of_def Let_def split: if_splits)
  define h where "h = (setLocalData nid (local_data y1) (new_handshake nid ROLE_CLIENT))\<lparr>hk_state := HS_SENDING\<rparr>"
  have ld: "hk_localData h = client_hello x nid"
    by (simp add: h_def setLocalData_def local_data_def client_hello_def f1 cs(2) y_def new_handshake_data_def)
  have st: "start (setLocalData nid (local_data y1) (new_handshake nid ROLE_CLIENT)) = (serializeHandshakeData (client_hello x nid), h)"
    using ld by (simp add: start_def h_def setLocalData_def new_handshake_def)
  define c0 :: "(link, 'c) connection" where "c0 = (new_connection d True 0)\<lparr>cn_handshake := Some h\<rparr>"
  obtain sq c1 where n: "conn_nextSequence c0 = (sq, c1)" by fastforce
  let ?m = "handshake_message 0 sq (serializeHandshakeData (client_hello x nid))"
  obtain op e2 y2 where cs2: "ctx_send ?T ?m c1 y1 = (op, e2, y2)" by (metis prod_cases3)
  have x1: "x1 = track_handshake op y2"
    using dc ny s1 st n cs2 by (simp add: doConnect_def c0_def)
  obtain o2 errs c2 where sm: "conn_sendMessage ?T ?m c1 = (o2, errs, c2)" by (metis prod_cases3)
  have r1: "tcpt.conn_reach big [] c1"
    by (rule tcpt.conn_reach_next [OF _ n])
      (unfold tcpt.conn_reach_def, rule tcps.sr_start, simp_all add: c0_def new_connection_def new_proto_def assms(4))
  have tr: "cx_connection (track_handshake op y2) = Some c \<Longrightarrow> \<exists>c2. cx_connection y2 = Some c2 \<and>
      cn_handshake c = cn_handshake c2 \<and> p_sendQueue (cn_proto c) = p_sendQueue (cn_proto c2) \<and>
      p_partialSendOffset (cn_proto c) = p_partialSendOffset (cn_proto c2) \<and> cn_device c = cn_device c2"
    by (cases op; cases "cx_connection y2")
      (auto simp: track_handshake_def with_proto_def with_op_def deref_op_def Let_def split: option.splits if_splits)
  have fr: "cx_state (track_handshake op y2) = cx_state y2" "cx_customState (track_handshake op y2) = cx_customState y2"
    "cx_connectMode (track_handshake op y2) = cx_connectMode y2"
    by (auto simp: track_handshake_def with_proto_def Let_def split: option.splits)
  have e: "errs = []"
  proof (rule ccontr)
    assume "errs \<noteq> []"
    then have "ctx_onErrorOccurred ?T (y1\<lparr>cx_connection := Some c2\<rparr>) = (e2, y2)" using cs2 sm by (auto simp: ctx_send_def Let_def)
    then have "cx_connection y2 = None"
      using f1(2) by (auto simp: ctx_onErrorOccurred_def doClose_def schedule_frame setState_frame(3) Let_def split: prod.splits)
    then show False using assms(3) tr unfolding x1 by auto
  qed
  have y2: "y2 = y1\<lparr>cx_connection := Some c2\<rparr>" using cs2 sm e by (simp add: ctx_send_def)
  have r2: "tcpt.conn_reach big [?m] c2" using tcpt.conn_reach_send [OF r1 sm [unfolded e]] by simp
  have hs: "cn_handshake c2 = Some h"
    using conn_frame_simps(5) [OF conn_frame_send(1) [OF sm]] conn_frame_simps(5) [OF conn_frame_send(3) [OF n]] by (simp add: c0_def)
  obtain c2' where "cx_connection y2 = Some c2'" "cn_handshake c = cn_handshake c2'" "p_sendQueue (cn_proto c) = p_sendQueue (cn_proto c2')"
      "p_partialSendOffset (cn_proto c) = p_partialSendOffset (cn_proto c2')" "cn_device c = cn_device c2'"
    using tr assms(3) unfolding x1 by blast
  then have c: "cn_handshake c = Some h" "tcpt.conn_reach big [?m] c" using tcpt.conn_reach_other [OF r2, of c] hs y2 by auto
  show ?thesis
    using c ld f1 cs x1 fr y2 by (intro exI [of _ sq] exI [of _ h]) (simp add: h_def setLocalData_def new_handshake_def y_def)
qed


definition server_hello :: "'d server \<Rightarrow> ustring \<Rightarrow> handshake_data" where
  "server_hello s nid = new_handshake_data\<lparr>hs_nodeId := nid, hs_nodeName := sv_name s,
     hs_protocolVersion := ucast (sc_protocolVersionCurrent (sv_options s)), hs_capabilities := CAP_STREAM\<rparr>"

definition handshake_ack :: "xuint32 \<Rightarrow> xuint32 \<Rightarrow> bytes \<Rightarrow> inc_message" where
  "handshake_ack k sq bs = (new_message INC_MSG_HANDSHAKE_ACK k sq)\<lparr>msg_payload := setData bs new_tag_struct\<rparr>"

lemma handshake_payload:
  "m_data (msg_payload (received (handshake_message cid sq bs))) = bs" "m_data (msg_payload (received (handshake_ack k sq bs))) = bs"
  "msg_channelID (handshake_ack k sq bs) = k" "msg_type (handshake_ack k sq bs) = INC_MSG_HANDSHAKE_ACK" "msg_dts (handshake_ack k sq bs) = DTS_FOREVER"
  by (simp_all add: received_payload setData_def handshake_message_def handshake_ack_def new_message_def)

lemma hello_ok:
  "string_ok (cx_name x) \<Longrightarrow> string_ok nid \<Longrightarrow> handshake_ok (client_hello x nid)"
  "string_ok (sv_name s) \<Longrightarrow> string_ok nid \<Longrightarrow> handshake_ok (server_hello s nid)"
  by (simp_all add: handshake_ok_def client_hello_def server_hello_def new_handshake_data_def string_ok_def bytes_ok_def)

text \<open>What the server makes of the handshake of a connection it has just accepted.\<close>

lemma server_answers:
  fixes s :: "link server"
  assumes "handleNewConnection dev True nid s = ([ClientConnected k], s1)" and "lk_wire dev = []"
    and "se_transport E = tcp_transport big near" and "handshake_ok dc" and "hs_protocolVersion dc = ucast (a :: 16 word)"
    and "server_receive E k (received (handshake_message 0 sq (serializeHandshakeData dc))) s1 = Some (evs, s2)"
    and "\<forall>j. ClientDisconnected j \<notin> set evs"
  shows "\<exists>cs hs. map_of (sv_objects s2) k = Some cs \<and> tcpt.conn_reach big [handshake_ack k sq (serializeHandshakeData (server_hello s nid))] cs \<and>
    cn_handshake cs = Some hs \<and> hk_state hs = HS_COMPLETED \<and> hk_localData hs = server_hello s nid \<and> hk_remoteData hs = dc \<and>
    cn_peerName cs = hs_nodeName dc \<and> cn_peerProtocol cs = hs_protocolVersion dc"
proof -
  let ?m = "received (handshake_message 0 sq (serializeHandshakeData dc))"
  define h where "h = setLocalData nid (new_handshake_data\<lparr>hs_nodeName := sv_name s,
      hs_protocolVersion := ucast (sc_protocolVersionCurrent (sv_options s)), hs_capabilities := CAP_STREAM\<rparr>) (new_handshake nid ROLE_SERVER)"
  define c :: "link client" where "c = (new_connection dev True k)\<lparr>cn_handshake := Some h\<rparr>"
  have s1: "map_of (sv_objects s1) k = Some c"
    using assms(1) unfolding c_def h_def by (auto simp: handleNewConnection_def Let_def split: if_splits)
  have h: "hk_localData h = server_hello s nid" "hk_role h = ROLE_SERVER" "hk_state h = HS_IDLE" "hk_contextConfig h = None" "hk_serverConfig h = None"
    by (simp_all add: h_def setLocalData_def new_handshake_def server_hello_def new_handshake_data_def)
  have acc: "accepts h dc" by (rule unconfigured_accepts [OF h(4,5)]) (simp_all add: h(1) server_hello_def assms(5))
  let ?h1 = "h\<lparr>hk_remoteData := dc, hk_state := HS_COMPLETED\<rparr>"
  have pr: "processHandshake (serializeHandshakeData dc) h = (serializeHandshakeData (server_hello s nid), ?h1)"
    using process_serialized [OF _ assms(4), of h] acc h by simp
  have q: "request ?m" "\<not> expired (se_now E) ?m" "msg_type ?m = INC_MSG_HANDSHAKE" "msg_seqNum ?m = sq"
    by (simp_all add: request_def INC_MSG_HANDSHAKE_def INC_MSG_BINARY_DATA_def)
  have pt: "\<not> p_isPassthrough (cn_proto c)" by (simp add: c_def new_connection_def new_proto_def)
  let ?c1 = "(fed E ?m c)\<lparr>cn_handshake := Some ?h1\<rparr>" and ?a = "handshake_ack k sq (serializeHandshakeData (server_hello s nid))"
  obtain es c2 where sc: "send_client (se_transport E) ?a ?c1 = (es, c2)" by fastforce
  let ?c3 = "c2\<lparr>cn_peerName := hs_nodeName dc, cn_peerProtocol := hs_protocolVersion dc\<rparr>"
  have cs: "cn_handshake (fed E ?m c) = Some h" "cn_connId c = k" by (simp_all add: fed_def c_def new_connection_def)
  have "handleHandshake (se_transport E) ?m (fed E ?m c) = (es, ?c3)"
    using sc by (simp add: handleHandshake_def handshake_payload(1) cs pr q(4) handshake_ack_def)
  then have "onConnectionMessageReceived E (sv_options s1) (sv_globalPool s1) ?m (sv_nextChannelId s1) (fed E ?m c) = Some (es, sv_nextChannelId s1, ?c3)"
    using q by (simp add: onConnectionMessageReceived_def INC_MSG_HANDSHAKE_def)
  then have e: "evs = es" "s2 = put_client k ?c3 s1" using assms(6) server_request [OF s1 q(1) pt, of E] by simp_all
  have op: "cn_open ?c1" by (simp add: c_def new_connection_def)
  obtain o1 where al: "conn_frame ?c1 c2" "conn_sendMessage (tcp_transport big near) ?a ?c1 = (o1, [], c2)"
    using send_client_alive [OF sc _ op] assms(3,7) e(1) by auto
  have "tcpt.conn_reach big [] ?c1"
    by (unfold tcpt.conn_reach_def, rule tcps.sr_start)
      (simp_all add: fed_def c_def new_connection_def new_proto_def assms(2) meter_def cache_fd_def)
  from tcpt.conn_reach_send [OF this al(2)] have r: "tcpt.conn_reach big [?a] ?c3" by (simp add: tcpt.conn_reach_def)
  have "map_of (sv_objects s2) k = Some ?c3" unfolding e(2) by (rule map_of_put [OF s1])
  then show ?thesis using r conn_frame_simps(5) [OF al(1)] h(1) by (intro exI [of _ ?c3] exI [of _ ?h1]) simp
qed

text \<open>A sample context that connects over a quiet link.\<close>

definition sample_context :: "(link, unit) inc_context" where
  "sample_context = new_context [] default_context_options"

lemma default_context_fields [simp]:
  "co_autoReconnect default_context_options" "co_maxReconnectAttempts default_context_options = 5"
  "co_defaultServer default_context_options = []"
  by (simp_all add: default_context_options_def context_config.defs)

lemma sample_connect:
  fixes w :: "(link, unit) inc_context"
  assumes "cx_name w = []" and "\<not> connecting_or_connected w"
  obtains evs x1 c where "connectTo (tcp_transport False False) (Some (quiet_link, True)) [] [0x75] router w = (INC_OK, evs, x1)"
    and "cx_connection x1 = Some c"
proof -
  let ?T = "tcp_transport False False"
  define y where "y = w\<lparr>cx_serverUrl := [0x75], cx_routerUrl := router, cx_connectMode := 0x01\<rparr>"
  obtain e1 y1 where s1: "ctx_setState CTX_CONNECTING y = (e1, y1)" by fastforce
  obtain hello h where st: "start (setLocalData [] (local_data y1) (new_handshake [] ROLE_CLIENT)) = (hello, h)" by fastforce
  define c0 :: "(link, unit) connection" where "c0 = (new_connection quiet_link True 0)\<lparr>cn_handshake := Some h\<rparr>"
  obtain sq c1 where n: "conn_nextSequence c0 = (sq, c1)" by fastforce
  have y1: "cx_name y1 = []" "cx_serverUrl y1 = [0x75]" "cx_connectMode y1 = 1"
    using s1 assms(1) by (auto simp: y_def ctx_setState_def ctx_state_of_def Let_def split: if_splits)
  have hello: "hello = serializeHandshakeData (local_data y1)"
    using st by (simp add: start_def setLocalData_def new_handshake_def local_data_def new_handshake_data_def split: if_splits)
  have "length hello \<le> 100"
    unfolding hello serialize_fields
    by (simp add: required_fields_def optional_fields_def local_data_def y1 new_handshake_data_def encString_def encBytes_def convertFromUnicode_def Let_def)
  then have v: "isValid (handshake_message 0 sq hello)"
    by (simp add: isValid_def handshake_message_def new_message_def payload_size_def setData_def INC_MSG_HANDSHAKE_def INC_MSG_INVALID_def
        MAX_MESSAGE_SIZE_def HEADER_SIZE_def)
  have w: "\<not> dv_isWritable (tr_device ?T) (cn_device c1)" "length (p_sendQueue (cn_proto c1)) < INC_MAX_SEND_QUEUE"
    using n by (auto simp: conn_nextSequence_def nextSequence_def c0_def new_connection_def new_proto_def tcp_transport_def tcp_sender_def
        quiet_link_def INC_MAX_SEND_QUEUE_def)
  obtain op c2 where sm: "conn_sendMessage ?T (handshake_message 0 sq hello) c1 = (op, [], c2)" using quiet_send [OF w v] by blast
  have "connectTo ?T (Some (quiet_link, True)) [] [0x75] router w =
      (INC_OK, e1, track_handshake op (y1\<lparr>cx_connection := Some c2\<rparr>))"
    using s1 st n sm assms(2) unfolding y_def c0_def
    by (simp add: connectTo_def doConnect_def ctx_send_def connecting_or_connected_def)
  moreover have "\<exists>c. cx_connection (track_handshake op (y1\<lparr>cx_connection := Some c2\<rparr>)) = Some c"
    by (auto simp: track_handshake_def with_proto_def Let_def split: option.splits)
  ultimately show ?thesis using that by blast
qed


section \<open>Properties\<close>




text \<open>
  C5. The context stays coherent over any run of calls, messages, errors, timers and alarms:
  it has a connection exactly while it connects or is connected; it is connected only with a
  completed handshake and over a URL it has settled on; the handshake operations it waits for
  belong to that connection; the state changes it has announced form a chain from READY to
  the state last announced, each a real change; and it has announced CONNECTED exactly when it
  is.
\<close>

theorem context_is_coherent:
  fixes x :: "('d, 'c) inc_context"
  assumes "ctx_run E cmds (new_context name config) = Some (evs, x)"
  shows "(cx_connection x \<noteq> None \<longleftrightarrow> cx_state x \<in> {CTX_CONNECTING, CTX_CONNECTED}) \<and>
    (cx_state x = CTX_CONNECTED \<longrightarrow> (\<exists>c h. cx_connection x = Some c \<and> cn_handshake c = Some h \<and> hk_state h = HS_COMPLETED) \<and>
       cx_connectMode x \<in> {4, 8}) \<and>
    (\<forall>i\<in>set (cx_pendingOps x). \<exists>c. cx_connection x = Some c \<and> i < p_nextOp (cn_proto c)) \<and>
    announced CTX_READY evs (cx_customState x) \<and> (cx_customState x = CTX_CONNECTED \<longleftrightarrow> cx_state x = CTX_CONNECTED)"
proof -
  have start: "ctx_inv (new_context name config :: ('d, 'c) inc_context)" by (rule ctx_inv_new)
  have inv: "ctx_inv x" and ann: "announced CTX_READY evs (cx_customState x)"
    using run_good [OF assms] start by (simp_all add: ctx_good_def) (simp add: new_context_def)
  show ?thesis
  proof (cases "cx_connection x")
    case None
    then show ?thesis using inv ann by (auto simp: ctx_inv_def connecting_or_connected_def)
  next
    case (Some c)
    then show ?thesis using inv ann by (auto simp: ctx_inv_def connecting_or_connected_def)
  qed
qed

theorem context_is_coherent_witness:
  "\<exists>evs x. ctx_run (\<lparr>ce_transport = tcp_transport False False, ce_import = (\<lambda>_ _ _ _ _ _. None), ce_createPool = (\<lambda>_ _ _. None), ce_now = 0\<rparr>)
     [CtxConnect [0x75] [] (Some (quiet_link, True)) [], CtxClose] sample_context = Some (evs, x) \<and> announced CTX_READY evs (cx_customState x)"
proof -
  let ?E = "\<lparr>ce_transport = tcp_transport False False, ce_import = (\<lambda>_ _ _ _ _ _. None), ce_createPool = (\<lambda>_ _ _. None), ce_now = 0\<rparr>"
  have "ctx_run ?E [CtxConnect [0x75] [] (Some (quiet_link, True)) [], CtxClose] sample_context \<noteq> None"
    by (simp split: prod.split)
  then obtain evs x where r: "ctx_run ?E [CtxConnect [0x75] [] (Some (quiet_link, True)) [], CtxClose] sample_context = Some (evs, x)"
    by fastforce
  from context_is_coherent [OF r [unfolded sample_context_def]] r show ?thesis by blast
qed


section \<open>Calls\<close>

text \<open>Operation i of the context waits for the reply with the number sq; its caller holds it.\<close>

definition awaits :: "('d, 'c) inc_context \<Rightarrow> xuint32 \<Rightarrow> nat \<Rightarrow> bool" where
  "awaits y sq i \<longleftrightarrow> (\<exists>c op. cx_connection y = Some c \<and> ops_find sq (cn_proto c) = Some i \<and> p_heap (cn_proto c) i = Some op \<and>
     op_state op = STATE_RUNNING \<and> 2 \<le> p_refs (cn_proto c) i \<and> i \<notin> set (cx_pendingOps y))"

lemma fold_deref_heap: "i \<notin> set is \<Longrightarrow> p_heap (fold deref_op is p) i = p_heap p i"
  by (induction "is" arbitrary: p) (auto simp: deref_op_def Let_def)

lemma setTimeout_running: "op_state (setTimeout ms op) = op_state op"
  by (simp add: setTimeout_def timer_toggleAlarm_def Let_def)

lemma awaits_with_op:
  assumes "awaits y sq i" and "\<And>op. op_state (f op) = op_state op"
  shows "awaits (with_proto (with_op i f) y) sq i"
  using assms by (fastforce simp: awaits_def with_proto_def with_op_def ops_find_def)

text \<open>A request that leaves its context connected is on the wire, and its operation waits.\<close>

lemma request_sends:
  fixes x :: "(link, 'c) inc_context"
  assumes "ctx_request (tcp_transport big near) msg x = (Some i, evs, x')" and "cx_connection x = Some c"
    and "cx_connection x' = Some c'" and "tcpt.conn_reach big acc c" and "\<forall>j\<in>set (cx_pendingOps x). j < p_nextOp (cn_proto c)"
    and "is_tracked (msg c (p_seqCounter (cn_proto c)))" and "msg_seqNum (msg c (p_seqCounter (cn_proto c))) = p_seqCounter (cn_proto c)"
  shows "evs = []" "tcpt.conn_reach big (acc @ [msg c (p_seqCounter (cn_proto c))]) c'" "awaits x' (p_seqCounter (cn_proto c)) i"
    "x' = x\<lparr>cx_connection := Some c'\<rparr>"
proof -
  let ?T = "tcp_transport big near" and ?sq = "p_seqCounter (cn_proto c)"
  let ?m = "msg c ?sq"
  obtain c1 where n: "conn_nextSequence c = (?sq, c1)" and c1: "p_nextOp (cn_proto c1) = p_nextOp (cn_proto c)"
    by (auto simp: conn_nextSequence_def nextSequence_def)
  have st: "cx_state x = CTX_CONNECTED" using assms(1,2) by (auto simp: ctx_request_def split: if_splits)
  have cs: "ctx_send ?T ?m c1 x = (Some i, evs, x')" using assms(1,2) st n by (simp add: ctx_request_def)
  obtain o2 errs c2 where sm: "conn_sendMessage ?T ?m c1 = (o2, errs, c2)" by (metis prod_cases3)
  have "errs = []"
  proof (rule ccontr)
    assume "errs \<noteq> []"
    then have "ctx_onErrorOccurred ?T (x\<lparr>cx_connection := Some c2\<rparr>) = (evs, x')" using cs sm by (auto simp: ctx_send_def Let_def)
    from error_closes [OF this] show False using st assms(3) by (simp add: connecting_or_connected_def)
  qed
  then have y: "o2 = Some i" "evs = []" "x' = x\<lparr>cx_connection := Some c2\<rparr>" using cs sm by (auto simp: ctx_send_def)
  have c': "c' = c2" using assms(3) y(3) by simp
  show "evs = []" "x' = x\<lparr>cx_connection := Some c'\<rparr>" using y c' by simp_all
  show "tcpt.conn_reach big (acc @ [?m]) c'"
    using tcpt.conn_reach_send [OF tcpt.conn_reach_next [OF assms(4) n] sm [unfolded \<open>errs = []\<close>]] c' by simp
  obtain p d where ms: "sendMessage (tr_device ?T) ?m (cn_proto c1) (cn_device c1) = (Some i, [], p, d)" and c2: "cn_proto c2 = p"
    using sendMessage_errors sm y(1) \<open>errs = []\<close> by (fastforce simp: conn_sendMessage_def only_errors_def split: prod.splits)
  have op: "i = p_nextOp (cn_proto c)" "ops_find ?sq p = Some i" "p_heap p i = Some (new_operation ?sq)" "p_refs p i = 2"
    using sent_operation [OF ms assms(6)] c1 assms(7) by auto
  then show "awaits x' ?sq i" using y c2 assms(5) by (auto simp: awaits_def new_operation_def)
qed

lemma awaits_timeout: "awaits y sq i \<Longrightarrow> awaits (set_op_timeout ms (Some i) y) sq i"
  unfolding set_op_timeout_def option.case by (erule awaits_with_op) (rule setTimeout_running)

lemma call_sends:
  fixes x :: "(link, 'c) inc_context"
  assumes "callMethod (tcp_transport big near) now method v args timeout x = (Some i, evs, x')" and "cx_connection x = Some c"
    and "cx_connection x' = Some c'" and "tcpt.conn_reach big acc c" and "\<forall>j\<in>set (cx_pendingOps x). j < p_nextOp (cn_proto c)"
  shows "\<exists>dts. dts = (if 0 <s timeout then deadline_after now timeout else DTS_FOREVER) \<and> evs = [] \<and>
    tcpt.conn_reach big (acc @ [call_message (cn_connId c) (p_seqCounter (cn_proto c)) method v args dts]) c' \<and>
    awaits x' (p_seqCounter (cn_proto c)) i"
proof -
  let ?T = "tcp_transport big near" and ?sq = "p_seqCounter (cn_proto c)"
  define dts where "dts = (if 0 <s timeout then deadline_after now timeout else DTS_FOREVER)"
  define msg where "msg = (\<lambda>(c :: (link, 'c) connection) sq. call_message (cn_connId c) sq method v args dts)"
  obtain op es y where r: "ctx_request ?T msg x = (op, es, y)" by (metis prod_cases3)
  have e: "op = Some i" "evs = es" "x' = set_op_timeout (sint timeout) op y" using assms(1) r by (auto simp: callMethod_def dts_def msg_def Let_def)
  obtain c2 where y: "cx_connection y = Some c2"
      and c': "c' = c2\<lparr>cn_proto := with_op i (setTimeout (sint timeout)) (cn_proto c2)\<rparr>"
    using assms(3) e by (cases "cx_connection y") (auto simp: set_op_timeout_def with_proto_def)
  have t: "is_tracked (msg c ?sq)" "msg_seqNum (msg c ?sq) = ?sq"
    by (simp_all add: is_tracked_def msg_def call_message_def new_message_def INC_MSG_METHOD_CALL_def INC_MSG_FLAG_NONE_def)
  note q = request_sends [OF r [unfolded e(1)] assms(2) y assms(4,5) t]
  have "tcpt.conn_reach big (acc @ [msg c ?sq]) c'" unfolding c' by (rule tcpt.conn_reach_other [OF q(2)]) (simp_all add: with_op_def)
  then show ?thesis using q(1) e awaits_timeout [OF q(3)] by (intro exI [of _ dts]) (simp add: dts_def msg_def)
qed

text \<open>A reply ends the operation that waits for it, with its payload, and changes nothing else of the context.\<close>

lemma reply_completes:
  assumes "awaits y sq i" and "sq \<noteq> 0" and "msg_seqNum m = sq" and "msg_extFd m = -1" and "msg_type m AND 1 \<noteq> 0"
    and "msg_type m \<notin> {INC_MSG_BINARY_DATA, INC_MSG_BINARY_DATA_ACK, INC_MSG_HANDSHAKE_ACK}" and "cx_connection y = Some c0"
  shows "\<exists>y' c op. ctx_receive T imp now m y = Some ([], y') \<and>
    cx_connection y' = Some c \<and> p_heap (cn_proto c) i = Some op \<and> op_state op = STATE_DONE \<and> op_errorCode op = 0 \<and>
    op_resultData op = m_data (msg_payload m) \<and> ops_find sq (cn_proto c) = None \<and> cx_state y' = cx_state y \<and>
    cx_config y' = cx_config y \<and> cx_name y' = cx_name y \<and> cn_channels c = cn_channels c0 \<and> cn_mempool c = cn_mempool c0"
proof -
  obtain op where a: "ops_find sq (cn_proto c0) = Some i" "p_heap (cn_proto c0) i = Some op"
    "op_state op = STATE_RUNNING" "2 \<le> p_refs (cn_proto c0) i" "i \<notin> set (cx_pendingOps y)"
    using assms(1,7) by (auto simp: awaits_def)
  let ?q = "meter (onMessageReceivedMetric (payload_size m)) (cn_proto c0)"
  let ?p = "complete_op m ?q"
  have r: "onMessageReceived (tr_device T) imp m (cn_proto c0) (cn_device c0) = ([MessageReceived m], ?p, cn_device c0)"
    using assms(4,6) by (simp add: onMessageReceived_def cache_fd_def Let_def)
  have pos: "0 < sq" using assms(2) by (simp add: word_gt_0)
  have h: "p_heap ?p i = Some (setResult 0 (m_data (msg_payload m)) op)" "ops_find sq ?p = None"
    using a(1-4) assms(3,5,6) pos
    by (auto simp: complete_op_def Let_def deref_op_def with_op_def meter_def ops_erase_def ops_find_def block_of_def map_of_eq_None_iff)
  define y1 where "y1 = reap (y\<lparr>cx_connection := Some (c0\<lparr>cn_proto := ?p, cn_device := cn_device c0\<rparr>)\<rparr>)"
  define over where "over = filter (finished_op ?p) (cx_pendingOps y)"
  define c2 where "c2 = c0\<lparr>cn_proto := fold deref_op over ?p, cn_device := cn_device c0\<rparr>"
  have c2: "cx_connection y1 = Some c2" by (simp add: y1_def c2_def over_def reap_def with_proto_def)
  have fr: "cx_state y1 = cx_state y" "cx_config y1 = cx_config y" "cx_name y1 = cx_name y"
    by (simp_all add: y1_def reap_def with_proto_def)
  have "i \<notin> set over" using a(5) by (simp add: over_def)
  then have h2: "p_heap (cn_proto c2) i = Some (setResult 0 (m_data (msg_payload m)) op)"
    using fold_deref_heap [of i over ?p] h(1) by (simp add: c2_def)
  have f2: "ops_find sq (cn_proto c2) = None"
  proof -
    have "p_operations (fold deref_op is p) = p_operations p" for "is" p
      by (induction "is" arbitrary: p) (simp_all add: deref_op_def Let_def)
    then show ?thesis using h(2) by (simp add: c2_def ops_find_def)
  qed
  have rc: "ctx_receive T imp now m y = Some ([], y1)"
    using assms(5-7) r c2 by (simp add: ctx_receive_def y1_def ctx_onMessageReceived_def)
  have "op_state (setResult 0 (m_data (msg_payload m)) op) = STATE_DONE" "op_errorCode (setResult 0 (m_data (msg_payload m)) op) = 0"
    "op_resultData (setResult 0 (m_data (msg_payload m)) op) = m_data (msg_payload m)"
    using a(3) by (simp_all add: op_simps Let_def)
  moreover have "cn_channels c2 = cn_channels c0" "cn_mempool c2 = cn_mempool c0" by (simp_all add: c2_def)
  ultimately show ?thesis using rc c2 h2 f2 fr by blast
qed

lemma reply_arrives:
  assumes "awaits y sq i" and "sq \<noteq> 0" and "bytes_ok res"
  shows "\<exists>y' c op. ctx_receive T imp now (received (method_reply cid sq code res)) y = Some ([], y') \<and>
    cx_connection y' = Some c \<and> p_heap (cn_proto c) i = Some op \<and> op_state op = STATE_DONE \<and> op_errorCode op = 0 \<and>
    read_reply (resultData op) = Some (code, res) \<and> ops_find sq (cn_proto c) = None"
proof -
  let ?m = "received (method_reply cid sq code res)"
  obtain c0 where c0: "cx_connection y = Some c0" using assms(1) by (auto simp: awaits_def)
  have odd: "msg_type ?m AND 1 \<noteq> 0" "msg_type ?m \<notin> {INC_MSG_BINARY_DATA, INC_MSG_BINARY_DATA_ACK, INC_MSG_HANDSHAKE_ACK}"
    by (simp_all add: INC_MSG_METHOD_REPLY_def INC_MSG_BINARY_DATA_def INC_MSG_BINARY_DATA_ACK_def INC_MSG_HANDSHAKE_ACK_def)
  obtain y' c op where r: "ctx_receive T imp now ?m y = Some ([], y')" "cx_connection y' = Some c" "p_heap (cn_proto c) i = Some op"
    "op_state op = STATE_DONE" "op_errorCode op = 0" "op_resultData op = m_data (msg_payload ?m)" "ops_find sq (cn_proto c) = None"
    using reply_completes [OF assms(1,2) _ _ odd c0, of T imp now] by auto
  have "resultData op = sent_as [FInt32 code, FBytes res]"
    using r(6) sent_payloads(6) [of cid sq code res] by (simp add: resultData_def received_payload setData_def new_tag_struct_def sent_as_def)
  then have "read_reply (resultData op) = Some (code, res)" using read_reply_sent [OF assms(3)] by simp
  then show ?thesis using r by blast
qed

text \<open>
  C2. A remote call round-trips. When a connected context calls a method and the call is sent,
  one message has been accepted for its wire; a server that receives that message before its deadline, for
  any of its connections, hands its subclass the method, version and arguments of the
  caller with the call's number (whether or not that connection has completed a handshake); and when the context,
  still waiting, receives the reply the server sends under that number, the caller's
  operation is done, without an error of its own, holding exactly the code and the result given.
\<close>

theorem rpc_round_trip:
  fixes x :: "(link, 'c) inc_context"
  assumes "callMethod (tcp_transport big near) now method v args timeout x = (Some i, evs, x')" and "cx_connection x = Some c"
    and "cx_connection x' = Some c'" and "tcpt.conn_reach big acc c" and "\<forall>j\<in>set (cx_pendingOps x). j < p_nextOp (cn_proto c)"
    and "string_ok method" and "bytes_ok args" and "bytes_ok res" and "p_seqCounter (cn_proto c) \<noteq> 0"
  defines "sq \<equiv> p_seqCounter (cn_proto c)"
  defines "m \<equiv> call_message (cn_connId c) sq method v args (if 0 <s timeout then deadline_after now timeout else DTS_FOREVER)"
  shows "tcpt.conn_reach big (acc @ [m]) c' \<and> awaits x' sq i \<and>
    (map_of (sv_objects s) k = Some cs \<and> \<not> p_isPassthrough (cn_proto cs) \<and> \<not> expired (se_now E) m \<longrightarrow>
       (\<exists>s'. server_receive E k (received m) s = Some ([HandleMethod (cn_connId cs) sq method v args], s'))) \<and>
    (awaits y sq i \<longrightarrow> (\<exists>y' c2 op. ctx_receive T imp now' (received (method_reply cid sq code res)) y = Some ([], y') \<and>
       cx_connection y' = Some c2 \<and> p_heap (cn_proto c2) i = Some op \<and> op_state op = STATE_DONE \<and> op_errorCode op = 0 \<and>
       read_reply (resultData op) = Some (code, res)))"
proof -
  define dts where "dts = (if 0 <s timeout then deadline_after now timeout else DTS_FOREVER)"
  let ?m = "call_message (cn_connId c) sq method v args dts"
  have m: "m = ?m" by (simp add: m_def dts_def)
  have call: "tcpt.conn_reach big (acc @ [?m]) c'" "awaits x' sq i"
    using call_sends [OF assms(1-5)] unfolding sq_def dts_def by blast+
  have server: "\<exists>s'. server_receive E k (received ?m) s = Some ([HandleMethod (cn_connId cs) sq method v args], s')"
    if "map_of (sv_objects s) k = Some cs" "\<not> p_isPassthrough (cn_proto cs)" "\<not> expired (se_now E) ?m"
  proof -
    have q: "request (received ?m)" by (simp add: request_def INC_MSG_METHOD_CALL_def INC_MSG_BINARY_DATA_def)
    have pl: "method_payload (msg_payload (received ?m)) = Some (v, method, args)"
      unfolding sent_payloads by (rule method_payload_sent [OF assms(6,7)])
    have ne: "\<not> expired (se_now E) (received ?m)" using that(3) by (simp add: expired_def)
    have "onConnectionMessageReceived E (sv_options s) (sv_globalPool s) (received ?m) (sv_nextChannelId s) (fed E (received ?m) cs) =
        Some ([HandleMethod (cn_connId cs) sq method v args], sv_nextChannelId s, fed E (received ?m) cs)"
      using pl ne by (simp add: onConnectionMessageReceived_def handleMethodCall_def INC_MSG_METHOD_CALL_def INC_MSG_HANDSHAKE_def)
    then show ?thesis using server_request [OF that(1) q that(2), of E] by simp
  qed
  have reply: "\<exists>y' c2 op. ctx_receive T imp now' (received (method_reply cid sq code res)) y = Some ([], y') \<and>
       cx_connection y' = Some c2 \<and> p_heap (cn_proto c2) i = Some op \<and> op_state op = STATE_DONE \<and> op_errorCode op = 0 \<and>
       read_reply (resultData op) = Some (code, res)" if "awaits y sq i"
    using reply_arrives [OF that _ assms(8)] assms(9) unfolding sq_def by blast
  show ?thesis using call server reply unfolding m by blast
qed

definition connected_context :: "(link, unit) inc_context" where
  "connected_context = sample_context\<lparr>cx_state := CTX_CONNECTED, cx_customState := CTX_CONNECTED, cx_connectMode := 4,
     cx_serverUrl := [0x75], cx_connection := Some (new_connection quiet_link True 3)\<rparr>"

lemma connected_call:
  obtains x' c' where "callMethod (tcp_transport False False) 0 [0x78] 2 [5] 0 connected_context = (Some 0, [], x')" and "cx_connection x' = Some c'"
proof -
  let ?T = "tcp_transport False False" and ?c = "new_connection quiet_link True 3 :: (link, unit) connection"
  let ?m = "call_message 3 1 [0x78] 2 [5] DTS_FOREVER"
  obtain c1 where n: "conn_nextSequence ?c = (1, c1)" and c1: "p_nextOp (cn_proto c1) = 0" "cn_device c1 = quiet_link" "p_sendQueue (cn_proto c1) = []"
    by (simp add: conn_nextSequence_def nextSequence_def new_connection_def new_proto_def)
  have v: "isValid ?m"
    using encode_length [of "[0x78]"]
    by (simp add: isValid_def call_message_def new_message_def payload_size_def INC_MSG_METHOD_CALL_def INC_MSG_INVALID_def
        MAX_MESSAGE_SIZE_def HEADER_SIZE_def byt.put_data str.put_data u16.put_data new_tag_struct_def encBytes_def encString_def Let_def)
  have w: "\<not> dv_isWritable (tr_device ?T) (cn_device c1)" "length (p_sendQueue (cn_proto c1)) < INC_MAX_SEND_QUEUE"
    by (simp_all add: c1 tcp_transport_def tcp_sender_def quiet_link_def INC_MAX_SEND_QUEUE_def)
  obtain op c2 where sm: "conn_sendMessage ?T ?m c1 = (op, [], c2)" using quiet_send [OF w v] by blast
  have t: "is_tracked ?m" by (simp add: is_tracked_def call_message_def new_message_def INC_MSG_METHOD_CALL_def INC_MSG_FLAG_NONE_def)
  have op: "op = Some 0" using sm t v c1(1) by (auto simp: conn_sendMessage_def sendMessage_def alloc_op_def split: prod.splits)
  have "callMethod ?T 0 [0x78] 2 [5] 0 connected_context = (Some 0, [], set_op_timeout 0 (Some 0) (connected_context\<lparr>cx_connection := Some c2\<rparr>))"
    using n sm op by (simp add: callMethod_def ctx_request_def ctx_send_def connected_context_def new_connection_def)
  then show ?thesis by (rule that) (simp add: set_op_timeout_def with_proto_def)
qed

theorem rpc_round_trip_witness:
  "(\<exists>s'. server_receive sample_env 1 (received (call_message 3 1 [0x78] 2 [5] DTS_FOREVER)) sample_server_state =
     Some ([HandleMethod 1 1 [0x78] 2 [5]], s'))"
proof -
  obtain x' c' where x: "callMethod (tcp_transport False False) 0 [0x78] 2 [5] 0 connected_context = (Some 0, [], x')" "cx_connection x' = Some c'"
    by (rule connected_call)
  let ?c = "new_connection quiet_link True 3 :: (link, unit) connection" and ?cs = "new_connection () True 1 :: unit client"
  have c: "cx_connection connected_context = Some ?c" "p_seqCounter (cn_proto ?c) = 1" "cn_connId ?c = 3" "cx_pendingOps connected_context = []"
    by (simp_all add: connected_context_def new_connection_def new_proto_def sample_context_def new_context_def)
  have r: "tcpt.conn_reach False [] ?c"
    unfolding tcpt.conn_reach_def by (rule tcps.sr_start) (simp_all add: new_connection_def new_proto_def quiet_link_def sample_link_def)
  have ok: "string_ok [0x78]" "bytes_ok [5]" "p_seqCounter (cn_proto ?c) \<noteq> 0" "\<forall>j\<in>set (cx_pendingOps connected_context). j < p_nextOp (cn_proto ?c)"
    using c by (simp_all add: string_ok_def bytes_ok_def isSurrogate_def isHighSurrogate_def isLowSurrogate_def)
  have s: "map_of (sv_objects sample_server_state) 1 = Some ?cs \<and> \<not> p_isPassthrough (cn_proto ?cs) \<and>
      \<not> expired (se_now sample_env) (call_message 3 1 [0x78] 2 [5] DTS_FOREVER)"
    by (simp add: sample_server_state_def new_connection_def new_proto_def)
  have "cn_connId ?cs = 1" by (simp add: new_connection_def)
  then show ?thesis
    using rpc_round_trip [OF x(1) c(1) x(2) r ok(4) ok(1,2,2,3), of sample_server_state 1 ?cs sample_env x' "tcp_transport False False" "\<lambda>_ _ _ _ _ _. None" 0 1 0] s c(2,3) by auto
qed


section \<open>Closing, timeouts and the reconnect timer\<close>

lemma setState_attempts: "ctx_setState st x = (evs, x') \<Longrightarrow> st \<noteq> CTX_CONNECTED \<Longrightarrow> cx_attempts x' = cx_attempts x"
  by (auto simp: ctx_setState_def Let_def split: if_splits)

lemma send_keeps:
  assumes "ctx_send T msg c x = (op, evs, x')" and "cx_connection x' \<noteq> None" and "connecting_or_connected x"
  shows "\<exists>c'. evs = [] \<and> x' = x\<lparr>cx_connection := Some c'\<rparr>"
proof -
  obtain o1 errs c1 where s: "conn_sendMessage T msg c = (o1, errs, c1)" by (metis prod_cases3)
  have "errs = []"
  proof (rule ccontr)
    assume "errs \<noteq> []"
    then have "ctx_onErrorOccurred T (x\<lparr>cx_connection := Some c1\<rparr>) = (evs, x')" using assms(1) s by (auto simp: ctx_send_def Let_def)
    from error_closes [OF this] assms(2,3) show False by (simp add: connecting_or_connected_def)
  qed
  then show ?thesis using assms(1) s by (auto simp: ctx_send_def)
qed

lemma track_frame:
  "cx_state (track_handshake op x) = cx_state x" "cx_timer (track_handshake op x) = cx_timer x"
  "cx_connectMode (track_handshake op x) = cx_connectMode x" "cx_routerUrl (track_handshake op x) = cx_routerUrl x"
  "cx_serverUrl (track_handshake op x) = cx_serverUrl x" "cx_config (track_handshake op x) = cx_config x"
  "cx_attempts (track_handshake op x) = cx_attempts x"
  "cx_connection (track_handshake op x) = None \<longleftrightarrow> cx_connection x = None"
  by (auto simp: track_handshake_def with_proto_def Let_def split: option.splits)

lemma doConnect_sends:
  fixes y :: "('d, 'c) inc_context"
  assumes "doConnect T (Some (d, opened)) nid y = (code, evs, y')" and "\<not> connecting_or_connected y"
    and "ctx_setState CTX_CONNECTING y = (e1, y1)"
  obtains op m k e2 y2 where "ctx_send T m k y1 = (op, e2, y2)" and "y' = track_handshake op y2" and "code = INC_OK"
proof -
  obtain hello h where st: "start (setLocalData nid (local_data y1) (new_handshake nid ROLE_CLIENT)) = (hello, h)" by fastforce
  define c0 :: "('d, 'c) connection" where "c0 = (new_connection d opened 0)\<lparr>cn_handshake := Some h\<rparr>"
  obtain sq c1 where n: "conn_nextSequence c0 = (sq, c1)" by fastforce
  obtain op e2 y2 where cs: "ctx_send T (handshake_message 0 sq hello) c1 y1 = (op, e2, y2)" by (metis prod_cases3)
  show ?thesis by (rule that [OF cs]) (use assms st n cs in \<open>simp_all add: doConnect_def c0_def\<close>)
qed

lemma connect_frame:
  fixes x :: "('d, 'c) inc_context"
  assumes "connectTo T (Some (d, opened)) nid server router x = (INC_OK, evs, x1)" and "cx_connection x1 = Some c"
    and "\<not> connecting_or_connected x"
  shows "cx_timer x1 = cx_timer x \<and> cx_connectMode x1 = 1 \<and> cx_routerUrl x1 = router \<and> cx_state x1 = CTX_CONNECTING"
proof -
  define y where "y = x\<lparr>cx_serverUrl := (if server = [] then co_defaultServer (cx_config x) else server), cx_routerUrl := router, cx_connectMode := 0x01\<rparr>"
  have dc: "doConnect T (Some (d, opened)) nid y = (INC_OK, evs, x1)" unfolding y_def
    using assms(1,3) by (auto simp: connectTo_def Let_def INC_ERROR_INVALID_ARGS_def INC_OK_def split: if_splits)
  have ny: "\<not> connecting_or_connected y" using assms(3) by (simp add: y_def connecting_or_connected_def)
  obtain e1 y1 where s1: "ctx_setState CTX_CONNECTING y = (e1, y1)" by fastforce
  note f1 = setState_frame [OF s1]
  obtain op m k e2 y2 where cs: "ctx_send T m k y1 = (op, e2, y2)" and x1: "x1 = track_handshake op y2"
    using doConnect_sends [OF dc ny s1] by metis
  have "cx_connection y2 \<noteq> None" using assms(2) track_frame(8) [of op y2] by (simp add: x1)
  from send_keeps [OF cs this] f1(2) obtain c2 where "y2 = y1\<lparr>cx_connection := Some c2\<rparr>" by (auto simp: connecting_or_connected_def)
  then show ?thesis using f1 by (simp add: x1 track_frame y_def)
qed

text \<open>What the reconnect timer connects with.\<close>

definition timer_next :: "('d, 'c) inc_context \<Rightarrow> ('d, 'c) inc_context" where
  "timer_next x = x\<lparr>cx_timer := False, cx_attempts := cx_attempts x + 1,
     cx_connectMode := (if cx_connectMode x AND 0x0C = 0 \<and> cx_routerUrl x \<noteq> [] then cx_connectMode x XOR 0x03 else cx_connectMode x)\<rparr>"

lemma timer_step:
  assumes "cx_timer x"
  shows "\<exists>dev code e z. doConnect T dev nid (timer_next x) = (code, e, z) \<and>
    dev = tf (if cx_connectMode (timer_next x) AND 0x0A \<noteq> 0 then cx_routerUrl x else cx_serverUrl x) \<and>
    ctx_timer_event T tf nid x = (e, if code \<noteq> INC_OK then scheduleReconnect z else z)"
proof -
  let ?x1 = "x\<lparr>cx_timer := False, cx_attempts := cx_attempts x + 1\<rparr>"
  have n: "(if cx_connectMode ?x1 AND 0x0C = 0 \<and> cx_routerUrl ?x1 \<noteq> [] then ?x1\<lparr>cx_connectMode := cx_connectMode ?x1 XOR 0x03\<rparr> else ?x1) = timer_next x"
    by (simp add: timer_next_def)
  define u where "u = tf (if cx_connectMode (timer_next x) AND 0x0A \<noteq> 0 then cx_routerUrl (timer_next x) else cx_serverUrl (timer_next x))"
  obtain code e z where d: "doConnect T u nid (timer_next x) = (code, e, z)" by (metis prod_cases3)
  have "ctx_timer_event T tf nid x = (let (code, evs, x3) = doConnect T u nid (timer_next x)
      in (evs, if code \<noteq> INC_OK then scheduleReconnect x3 else x3))"
    using assms unfolding ctx_timer_event_def Let_def n u_def by simp
  then have "ctx_timer_event T tf nid x = (e, if code \<noteq> INC_OK then scheduleReconnect z else z)" by (simp add: d)
  moreover have "u = tf (if cx_connectMode (timer_next x) AND 0x0A \<noteq> 0 then cx_routerUrl x else cx_serverUrl x)"
    by (simp add: u_def timer_next_def)
  ultimately show ?thesis using d by blast
qed

text \<open>
  Closing a context that waits for its reconnect timer changes nothing: the timer stays
  armed, and when it fires the context connects again; it never reaches TERMINATED.
\<close>

theorem close_leaves_reconnect_timer:
  assumes "cx_state x = CTX_FAILED" and "cx_timer x"
  shows "ctx_close T x = ([], x) \<and> cx_timer (snd (ctx_close T x)) \<and>
    (\<forall>evs x'. ctx_timer_event T transport_for nid (snd (ctx_close T x)) = (evs, x') \<longrightarrow>
       cx_state x' \<in> {CTX_CONNECTING, CTX_FAILED} \<and> cx_attempts x' = cx_attempts x + 1)"
proof -
  have c: "ctx_close T x = ([], x)" using assms(1) by (simp add: ctx_close_def doClose_def)
  have cl: "cx_state y' \<in> {CTX_CONNECTING, CTX_FAILED} \<and> cx_attempts y' = cx_attempts y"
    if "ctx_send T m k y = (op, e, y')" "cx_state y = CTX_CONNECTING" for m k y op e y'
    using that
    by (auto simp: ctx_send_def ctx_onErrorOccurred_def doClose_def schedule_frame setState_frame(2) setState_attempts Let_def
        split: prod.splits if_splits)
  have dc: "cx_state y' \<in> {CTX_CONNECTING, CTX_FAILED} \<and> cx_attempts y' = cx_attempts y"
    if "doConnect T dev nid y = (code, e, y')" "cx_state y = CTX_FAILED" for dev y code e y'
  proof -
    obtain e1 y1 where s1: "ctx_setState CTX_CONNECTING y = (e1, y1)" by fastforce
    have a1: "cx_attempts y1 = cx_attempts y" "cx_state y1 = CTX_CONNECTING" using setState_attempts [OF s1] setState_frame(2) [OF s1] by simp_all
    show ?thesis
    proof (cases dev)
      case None
      obtain e2 y2 where s2: "ctx_setState CTX_FAILED y1 = (e2, y2)" by fastforce
      have "y' = scheduleReconnect y2" using that None s1 s2 by (auto simp: doConnect_def connecting_or_connected_def)
      then show ?thesis using setState_attempts [OF s2] setState_frame(2) [OF s2] a1 by (simp add: schedule_frame)
    next
      case (Some dd)
      obtain d opened where dd: "dd = (d, opened)" by fastforce
      note dc0 = that(1) [unfolded Some dd]
      have ny: "\<not> connecting_or_connected y" using that(2) by (simp add: connecting_or_connected_def)
      obtain op m k e2 y2 where cs: "ctx_send T m k y1 = (op, e2, y2)" and y': "y' = track_handshake op y2"
        using doConnect_sends [OF dc0 ny s1] by metis
      show ?thesis using cl [OF cs a1(2)] a1(1) by (simp add: y' track_frame)
    qed
  qed
  have "cx_state x' \<in> {CTX_CONNECTING, CTX_FAILED} \<and> cx_attempts x' = cx_attempts x + 1"
    if "ctx_timer_event T transport_for nid x = (evs, x')" for evs x'
  proof -
    let ?y = "timer_next x"
    have y: "cx_state ?y = CTX_FAILED" "cx_attempts ?y = cx_attempts x + 1" using assms(1) by (simp_all add: timer_next_def)
    obtain dev code e z where d: "doConnect T dev nid ?y = (code, e, z)"
      and te: "ctx_timer_event T transport_for nid x = (e, if code \<noteq> INC_OK then scheduleReconnect z else z)"
      using timer_step [OF assms(2), of T nid transport_for] by blast
    have "x' = (if code \<noteq> INC_OK then scheduleReconnect z else z)" using te that by simp
    then show ?thesis using dc [OF d y(1)] y(2) by (auto simp: schedule_frame)
  qed
  then show ?thesis using c assms(2) by simp
qed


definition waiting_context :: "ustring \<Rightarrow> (link, unit) inc_context" where
  "waiting_context router = sample_context\<lparr>cx_state := CTX_FAILED, cx_customState := CTX_CONNECTING, cx_connectMode := 1,
     cx_serverUrl := [0x75], cx_routerUrl := router, cx_timer := True\<rparr>"

theorem close_leaves_reconnect_timer_witness:
  "cx_timer (snd (ctx_close (tcp_transport False False) (waiting_context [])))"
  using close_leaves_reconnect_timer [of "waiting_context []" "tcp_transport False False" "\<lambda>_. None" "[]"]
  by (simp add: waiting_context_def)

text \<open>
  A timer left armed by a failed attempt goes on when the user connects by hand: it fires
  during the new attempt, leaves its connection and state alone, counts an attempt and
  switches the mode to the router's, so that the handshake of the direct connection, when
  it completes, settles the context on the router's URL.
\<close>

theorem stale_timer_switches_mode:
  assumes "cx_timer x" and "\<not> connecting_or_connected x" and "router \<noteq> []"
    and "connectTo T (Some (d, opened)) nid server router x = (INC_OK, evs, x1)" and "cx_connection x1 = Some c"
    and "ctx_timer_event T transport_for nid' x1 = (evs2, x2)"
    and "cn_handshake c = Some h" and "hk_state h = HS_SENDING" and "hk_role h = ROLE_CLIENT"
    and "handshake_ok sd" and "accepts h sd" and "ctx_onMessageReceived T now (received (handshake_ack k sq (serializeHandshakeData sd))) c x2 = (evs3, x3)"
  shows "cx_connectMode x1 = 1 \<and> evs2 = [] \<and> cx_connection x2 = Some c \<and> cx_state x2 = CTX_CONNECTING \<and> cx_connectMode x2 = 2 \<and>
    cx_attempts x2 = cx_attempts x1 + 1 \<and> cx_state x3 = CTX_CONNECTED \<and> cx_connectMode x3 = 8"
proof -
  have f: "cx_timer x1" "cx_connectMode x1 = 1" "cx_routerUrl x1 = router" "cx_state x1 = CTX_CONNECTING"
    using connect_frame [OF assms(4,5,2)] assms(1) by simp_all
  let ?y = "timer_next x1"
  have y: "connecting_or_connected ?y" "cx_connection ?y = Some c" "cx_state ?y = CTX_CONNECTING" "cx_connectMode ?y = 2" "cx_attempts ?y = cx_attempts x1 + 1"
    using f assms(3,5) by (simp_all add: timer_next_def connecting_or_connected_def)
  have dc: "doConnect T dev nid' ?y = (INC_ERROR_ALREADY_CONNECTED, [], ?y)" for dev using y(1) by (simp add: doConnect_def)
  have ne: "INC_ERROR_ALREADY_CONNECTED \<noteq> INC_OK" by (simp add: INC_ERROR_ALREADY_CONNECTED_def INC_OK_def)
  have x2: "evs2 = []" "x2 = scheduleReconnect ?y" using timer_step [OF f(1), of T nid' transport_for] assms(6) dc ne by auto
  have r: "cx_connection x2 = Some c" "cx_state x2 = CTX_CONNECTING" "cx_connectMode x2 = 2" "cx_attempts x2 = cx_attempts x1 + 1"
    using y by (simp_all add: x2 schedule_frame)
  let ?h2 = "h\<lparr>hk_remoteData := sd, hk_state := HS_COMPLETED\<rparr>"
  have pr: "processHandshake (serializeHandshakeData sd) h = ([], ?h2)"
    using process_serialized [OF _ assms(10), of h] assms(8,9,11) by simp
  define c2 where "c2 = c\<lparr>cn_handshake := Some ?h2, cn_connId := k, cn_peerName := hs_nodeName sd, cn_peerProtocol := hs_protocolVersion sd\<rparr>"
  have "ctx_handleHandshakeAck T (received (handshake_ack k sq (serializeHandshakeData sd))) c x2 =
      ctx_setState CTX_CONNECTED (x2\<lparr>cx_connection := Some c2, cx_connectMode := 8\<rparr>)"
    using pr assms(7,8) r(3) by (simp add: ctx_handleHandshakeAck_def handshake_payload c2_def)
  then have "ctx_setState CTX_CONNECTED (x2\<lparr>cx_connection := Some c2, cx_connectMode := 8\<rparr>) = (evs3, x3)"
    using assms(12) by (simp add: ctx_onMessageReceived_def handshake_payload)
  from setState_frame [OF this] show ?thesis using r x2(1) f(2) by simp
qed

theorem stale_timer_switches_mode_witness:
  "\<exists>x3. cx_state (x3 :: (link, unit) inc_context) = CTX_CONNECTED \<and> cx_connectMode x3 = 8"
proof -
  let ?T = "tcp_transport False False" and ?w = "waiting_context []"
  have nc: "\<not> connecting_or_connected ?w" "cx_timer ?w" "[0x72] \<noteq> ([] :: ustring)" "string_ok []" "cx_name ?w = []"
    by (simp_all add: waiting_context_def connecting_or_connected_def string_ok_def sample_context_def new_context_def)
  obtain evs x1 c where x: "connectTo ?T (Some (quiet_link, True)) [] [0x75] [0x72] ?w = (INC_OK, evs, x1)" "cx_connection x1 = Some c"
    by (rule sample_connect [OF nc(5,1)])
  have q: "lk_wire quiet_link = []" by (simp add: quiet_link_def sample_link_def)
  obtain h where h: "cn_handshake c = Some h" "hk_role h = ROLE_CLIENT" "hk_state h = HS_SENDING" "hk_localData h = client_hello ?w []"
    "hk_contextConfig h = None" "hk_serverConfig h = None"
    using connect_sends [OF nc(1) x q] by blast
  let ?sd = "server_hello (new_server [] default_options :: link server) []"
  have sd: "handshake_ok ?sd" by (rule hello_ok(2)) (simp_all add: nc(4) new_server_def)
  have acc: "accepts h ?sd"
    by (rule unconfigured_accepts [OF h(5,6)]) (simp_all add: h(4) client_hello_def server_hello_def)
  obtain evs2 x2 where t: "ctx_timer_event ?T (\<lambda>_. None) [] x1 = (evs2, x2)" by fastforce
  obtain evs3 x3 where m: "ctx_onMessageReceived ?T 0 (received (handshake_ack 1 1 (serializeHandshakeData ?sd))) c x2 = (evs3, x3)" by fastforce
  show ?thesis
    using stale_timer_switches_mode [OF nc(2,1,3) x t h(1,3,2) sd acc m] by blast
qed

text \<open>
  When the handshake times out and automatic reconnection is off, the context only
  forgets the operation: it stays CONNECTING with its connection, announces nothing, arms
  no timer, and from then on refuses every new connectTo.
\<close>

theorem handshake_timeout_hangs:
  assumes "i \<in> set (cx_pendingOps x)" and "\<not> co_autoReconnect (cx_config x)" and "cx_state x = CTX_CONNECTING"
    and "cx_connection x = Some c" and "cn_handshake c \<noteq> None" and "\<not> cx_timer x" and "distinct (cx_pendingOps x)"
  shows "\<exists>x'. ctx_handshake_timeout T i x = Some ([], x') \<and> cx_state x' = CTX_CONNECTING \<and> cx_connection x' \<noteq> None \<and>
    \<not> cx_timer x' \<and> set (cx_pendingOps x') = set (cx_pendingOps x) - {i} \<and>
    connectTo T dev nid server router x' = (INC_ERROR_ALREADY_CONNECTED, [], x')"
proof -
  let ?x' = "(with_proto (deref_op i \<circ> with_op i onTimeout) x)\<lparr>cx_pendingOps := remove1 i (cx_pendingOps x)\<rparr>"
  have wp: "cx_config (with_proto f x) = cx_config x" for f by (simp add: with_proto_def)
  obtain c' h where c': "cx_connection ?x' = Some c'" "cn_handshake c' = Some h" using assms(4,5) by (auto simp: with_proto_def)
  have "ctx_handshake_timeout T i x = Some ([], ?x')"
    using assms(1,2) c' wp by (simp add: ctx_handshake_timeout_def)
  then show ?thesis using assms c'
    by (intro exI [of _ ?x']) (simp add: with_proto_def connectTo_def connecting_or_connected_def)
qed

theorem handshake_timeout_hangs_witness:
  "\<exists>x'. ctx_handshake_timeout (tcp_transport False False) 0 (sample_context\<lparr>cx_state := CTX_CONNECTING, cx_pendingOps := [0],
       cx_config := default_context_options\<lparr>co_autoReconnect := False\<rparr>,
       cx_connection := Some ((new_connection quiet_link True 0)\<lparr>cn_handshake := Some sample_client\<rparr>)\<rparr>) = Some ([], x') \<and> cx_state x' = CTX_CONNECTING"
  using handshake_timeout_hangs [of 0 "sample_context\<lparr>cx_state := CTX_CONNECTING, cx_pendingOps := [0],
       cx_config := default_context_options\<lparr>co_autoReconnect := False\<rparr>,
       cx_connection := Some ((new_connection quiet_link True 0)\<lparr>cn_handshake := Some sample_client\<rparr>)\<rparr>"
      "(new_connection quiet_link True 0)\<lparr>cn_handshake := Some sample_client\<rparr>" "tcp_transport False False" None "[]" "[]" "[]"]
  by (auto simp: sample_context_def new_context_def)

section \<open>Reconnection gives up\<close>

text \<open>n events of the reconnect timer while no transport can be created.\<close>

primrec ticks :: "'d transport \<Rightarrow> ustring \<Rightarrow> nat \<Rightarrow> ('d, 'c) inc_context \<Rightarrow> ('d, 'c) inc_context" where
  "ticks T nid 0 x = x"
| "ticks T nid (Suc n) x = snd (ctx_timer_event T (\<lambda>_. None) nid (ticks T nid n x))"

lemma schedule_again: "scheduleReconnect (scheduleReconnect x) = scheduleReconnect x"
  by (simp add: scheduleReconnect_def Let_def)

lemma tick_fields:
  fixes x :: "('d, 'c) inc_context" and T :: "'d transport" and nid :: ustring
  assumes "cx_timer x" and "\<not> connecting_or_connected x"
  defines "y \<equiv> snd (ctx_timer_event T (\<lambda>_. None) nid x)"
  shows "\<not> connecting_or_connected y" "cx_attempts y = cx_attempts x + 1" "cx_config y = cx_config x"
    "cx_serverUrl y = cx_serverUrl x" "cx_routerUrl y = cx_routerUrl x" "cx_connectMode y = cx_connectMode (timer_next x)"
    "cx_timer y \<longleftrightarrow> (cx_routerUrl x \<noteq> [] \<and> cx_connectMode y = 1) \<or>
       (co_autoReconnect (cx_config x) \<and> cx_serverUrl x \<noteq> [] \<and> cx_attempts x + 1 < co_maxReconnectAttempts (cx_config x))"
    "cx_serverUrl x \<noteq> [] \<Longrightarrow> \<not> cx_timer y \<Longrightarrow> cx_customState y = CTX_FAILED"
    "cx_state y = CTX_FAILED"
proof -
  let ?n = "timer_next x"
  have nf: "cx_attempts ?n = cx_attempts x + 1" "cx_config ?n = cx_config x" "cx_serverUrl ?n = cx_serverUrl x" "cx_routerUrl ?n = cx_routerUrl x"
    "\<not> connecting_or_connected ?n"
    using assms(2) by (simp_all add: timer_next_def connecting_or_connected_def)
  obtain e1 x1 where s1: "ctx_setState CTX_CONNECTING ?n = (e1, x1)" by fastforce
  obtain e2 x2 where s2: "ctx_setState CTX_FAILED x1 = (e2, x2)" by fastforce
  note f1 = setState_frame [OF s1] and f2 = setState_frame [OF s2]
  have dc: "doConnect T None nid ?n = (INC_ERROR_CONNECTION_FAILED, e1 @ e2, scheduleReconnect x2)"
    using nf(5) s1 s2 by (simp add: doConnect_def)
  have y: "y = scheduleReconnect x2"
    using timer_step [OF assms(1), of T nid "\<lambda>_. None"] dc schedule_again [of x2] by (auto simp: y_def INC_ERROR_CONNECTION_FAILED_def INC_OK_def)
  have a: "cx_attempts x2 = cx_attempts x + 1" using setState_attempts [OF s1] setState_attempts [OF s2] nf(1) by simp
  show "\<not> connecting_or_connected y" "cx_attempts y = cx_attempts x + 1" "cx_config y = cx_config x"
    "cx_serverUrl y = cx_serverUrl x" "cx_routerUrl y = cx_routerUrl x" "cx_connectMode y = cx_connectMode ?n" "cx_state y = CTX_FAILED"
    using a nf f1 f2 by (simp_all add: y schedule_frame connecting_or_connected_def)
  show t: "cx_timer y \<longleftrightarrow> (cx_routerUrl x \<noteq> [] \<and> cx_connectMode y = 1) \<or>
       (co_autoReconnect (cx_config x) \<and> cx_serverUrl x \<noteq> [] \<and> cx_attempts x + 1 < co_maxReconnectAttempts (cx_config x))"
    using a nf f1 f2 unfolding y schedule_frame by (auto simp: scheduleReconnect_def Let_def)
  have "cx_customState x2 = ctx_state_of (x1\<lparr>cx_state := CTX_FAILED\<rparr>)"
    using s2 by (auto simp: ctx_setState_def Let_def split: if_splits)
  moreover have "cx_attempts x1 = cx_attempts x + 1" using setState_attempts [OF s1] nf(1) by simp
  ultimately show "cx_customState y = CTX_FAILED" if "cx_serverUrl x \<noteq> []" "\<not> cx_timer y"
    using that t nf f1 f2 by (auto simp: y schedule_frame ctx_state_of_def)
qed


lemma ticks_fields:
  assumes "\<not> connecting_or_connected x" and "\<forall>k\<le>n. cx_timer (ticks T nid k x)"
  shows "\<not> connecting_or_connected (ticks T nid n x) \<and> cx_attempts (ticks T nid n x) = cx_attempts x + int n \<and>
    cx_config (ticks T nid n x) = cx_config x \<and> cx_routerUrl (ticks T nid n x) = cx_routerUrl x \<and> cx_serverUrl (ticks T nid n x) = cx_serverUrl x"
  using assms(2)
proof (induction n)
  case (Suc n)
  then have ih: "\<not> connecting_or_connected (ticks T nid n x)" "cx_attempts (ticks T nid n x) = cx_attempts x + int n"
    "cx_config (ticks T nid n x) = cx_config x" "cx_routerUrl (ticks T nid n x) = cx_routerUrl x" "cx_serverUrl (ticks T nid n x) = cx_serverUrl x" by simp_all
  have t: "cx_timer (ticks T nid n x)" using Suc.prems by simp
  show ?case using tick_fields(1-5) [OF t ih(1), of T nid] ih by simp
qed (use assms(1) in simp)

text \<open>
  C25. Reconnecting to a server that is not there ends: while no transport can be created, the
  timer is no longer armed after at most the attempts that are left plus two events, whatever
  mode and URLs the context has, and by then the context has announced FAILED.
\<close>

theorem reconnection_gives_up:
  assumes "cx_timer x" and "\<not> connecting_or_connected x" and "cx_serverUrl x \<noteq> []" and "cx_connectMode x \<in> {1, 2, 4, 8}"
  shows "\<exists>n \<le> nat (co_maxReconnectAttempts (cx_config x) - cx_attempts x) + 2.
    \<not> cx_timer (ticks T nid n x) \<and> cx_state (ticks T nid n x) = CTX_FAILED \<and> cx_customState (ticks T nid n x) = CTX_FAILED"
proof -
  let ?N = "nat (co_maxReconnectAttempts (cx_config x) - cx_attempts x)"
  have "\<exists>n \<le> ?N + 2. \<not> cx_timer (ticks T nid n x)"
  proof (rule ccontr)
    assume "\<not> (\<exists>n \<le> ?N + 2. \<not> cx_timer (ticks T nid n x))"
    then have on: "\<forall>k\<le>?N + 2. cx_timer (ticks T nid k x)" by blast
    have on': "\<forall>k\<le>n. cx_timer (ticks T nid k x)" if "n \<le> ?N + 2" for n using on that by auto
    let ?a = "ticks T nid ?N x" and ?b = "ticks T nid (Suc ?N) x" and ?c = "ticks T nid (Suc (Suc ?N)) x"
    have a: "\<not> connecting_or_connected ?a" "cx_attempts ?a = cx_attempts x + int ?N" "cx_config ?a = cx_config x" "cx_timer ?a"
      using ticks_fields [OF assms(2) on'] on by simp_all
    have b: "\<not> connecting_or_connected ?b" "cx_attempts ?b = cx_attempts x + int (Suc ?N)" "cx_config ?b = cx_config x" "cx_timer ?b" "cx_timer ?c"
      using ticks_fields [OF assms(2) on', of "Suc ?N"] on by (simp_all del: ticks.simps)
    note ta = tick_fields [OF a(4,1), of T nid, folded ticks.simps(2)] and tb = tick_fields [OF b(4,1), of T nid, folded ticks.simps(2)]
    have "cx_attempts ?a + 1 \<ge> co_maxReconnectAttempts (cx_config ?a)" "cx_attempts ?b + 1 \<ge> co_maxReconnectAttempts (cx_config ?b)"
      using a(2,3) b(2,3) by simp_all
    then have m: "cx_connectMode ?b = 1" "cx_routerUrl ?b \<noteq> []" "cx_connectMode ?c = 1" using ta(5,7) tb(7) b(4,5) by (auto simp del: ticks.simps)
    have "cx_connectMode ?c = 2" using tb(6) m(1,2) by (simp add: timer_next_def del: ticks.simps)
    with m(3) show False by simp
  qed
  then obtain n0 where n0: "n0 \<le> ?N + 2" "\<not> cx_timer (ticks T nid n0 x)" by blast
  define n where "n = (LEAST n. \<not> cx_timer (ticks T nid n x))"
  have n: "\<not> cx_timer (ticks T nid n x)" unfolding n_def by (rule LeastI [of "\<lambda>n. \<not> cx_timer (ticks T nid n x)", OF n0(2)])
  have le: "n \<le> n0" unfolding n_def by (rule Least_le [of "\<lambda>n. \<not> cx_timer (ticks T nid n x)", OF n0(2)])
  have pre: "cx_timer (ticks T nid k x)" if "k < n" for k using not_less_Least that unfolding n_def by blast
  have "n \<noteq> 0" using n assms(1) by (auto intro: ccontr)
  then obtain k where k: "n = Suc k" by (cases n) auto
  have f: "\<not> connecting_or_connected (ticks T nid k x)" "cx_serverUrl (ticks T nid k x) = cx_serverUrl x" "cx_timer (ticks T nid k x)"
    using ticks_fields [OF assms(2), of k T nid] pre k by auto
  from tick_fields(8,9) [OF f(3,1), of T nid] n f(2) assms(3)
  show ?thesis using n0(1) le n by (intro exI [of _ n]) (simp add: k)
qed

theorem reconnection_gives_up_witness:
  "\<exists>n \<le> 7. \<not> cx_timer (ticks (tcp_transport False False) [] n (waiting_context [0x72]))"
  using reconnection_gives_up [of "waiting_context [0x72]" "tcp_transport False False" "[]"]
  by (auto simp: waiting_context_def connecting_or_connected_def sample_context_def new_context_def)

end
