(* ===== verification/Channel_Properties.thy ===== *)
theory Channel_Properties imports Channel_Laws Context_Properties begin

text \<open>
  Properties of the client's stream (iINCStream): the coherence of its state over any run, how it
  attaches to a server and what the reply may do, and what detaching and destroying it leave.
\<close>

section \<open>Attaching\<close>

lemma with_proto_id: "with_proto (\<lambda>p. p) x = x"
  by (simp add: with_proto_def option.map_ident)

lemma cleanup_none: "st_pendingOps st = [] \<Longrightarrow> cleanupPendingOps x st = (x, st)"
  using with_proto_id [of x] by (simp add: cleanupPendingOps_def)

lemma setFinished_running: "op_state (setFinishedCallback cb op) = op_state op"
  by (simp add: setFinishedCallback_def run_callback_def Let_def)

lemma attach_sends:
  fixes x :: "link client_context"
  assumes a: "attach E mode x st = Some (True, evs, x', st')" and i: "stream_inv x st"
    and T: "ce_transport E = tcp_transport big near" and c: "cx_connection x = Some c" and c': "cx_connection x' = Some c'"
    and r: "tcpt.conn_reach big acc c"
  defines "sq \<equiv> p_seqCounter (cn_proto c)"
  shows "\<exists>j. st_state st' = STREAM_ATTACHING \<and> st_pendingOps st' = [(j, onChannelAllocated)] \<and> st_mode st' = mode \<and> st_customState st' = STREAM_ATTACHING \<and> awaits x' sq j \<and>
    tcpt.conn_reach big (acc @ [open_message (cn_connId c) sq (st_name st) mode (shm_offer (cx_config x) c)]) c'"
proof -
  have d: "st_state st = STREAM_DETACHED" "cx_state x = CTX_CONNECTED"
    using a by (auto simp: attach_def connected_iff split: if_split_asm)
  have inv: "ctx_inv x" "stream_core st" using i by (simp_all add: stream_inv_def)
  have p: "st_pendingOps (st\<lparr>st_mode := mode\<rparr>) = []" using core_settled_pending [of st] inv(2) d(1) by simp
  note cl = cleanup_none [OF p, of x]
  obtain e1 s2 where t: "stream_setState (ctx_state_of x) STREAM_ATTACHING (st\<lparr>st_mode := mode\<rparr>) = (e1, s2)" by fastforce
  note f = stream_setState_frame [OF t]
  let ?T = "tcp_transport big near"
  define msg where "msg = (\<lambda>(c :: (link, unit) connection) sq. open_message (cn_connId c) sq (st_name st) mode (shm_offer (cx_config x) c))"
  obtain op cevs y where q: "ctx_request ?T msg x = (op, cevs, y)" by (metis prod_cases3)
  define x2 where "x2 = set_op_timeout (co_protocolTimeoutMs (cx_config x)) op y"
  have rq: "requestChannel ?T (st_name st) mode x = (op, cevs, x2)" using q by (simp add: requestChannel_def msg_def x2_def)
  have at: "attach E mode x st = (case after_context E x cevs x2 s2 of None \<Rightarrow> None | Some (e2, x3, s3) \<Rightarrow>
     (case op of None \<Rightarrow> (let (e3, s4) = stream_setState (ctx_state_of x3) STREAM_DETACHED s3 in Some (False, e1 @ e2 @ e3, x3, s4))
      | Some j \<Rightarrow> map_option (\<lambda>(e3, x4, s4). (True, e1 @ e2 @ e3, x4, s4)) (track_op E (request_conn (ce_transport E) msg x) j onChannelAllocated x3 s3)))"
    unfolding msg_def by (simp add: attach_def connected_iff d cl t rq [folded T])
  obtain e2 x3 s3 where ac: "after_context E x cevs x2 s2 = Some (e2, x3, s3)"
    using a unfolding at by (cases "after_context E x cevs x2 s2") auto
  note ctl = a [unfolded at ac option.case prod.case]
  have s2p: "st_pendingOps s2 = []" using f(6) p by simp
  have "st_channelId st = 0" using inv(2) d(1) by (simp add: stream_core_def)
  then have "stream_core s2" using core_settled [OF t p] by simp
  then have is2: "stream_inv x s2" using inv(1) d(2) by (simp add: stream_inv_def)
  have g: "ctx_good x cevs x2" using calls_good(5) rq by blast
  note st = request_settles [OF ac is2 s2p g d(2) disjI1 [OF rq]]
  obtain j where j: "op = Some j" using ctl by (cases op) (auto split: prod.splits)
  then obtain e3 where k: "track_op E (request_conn (ce_transport E) msg x) j onChannelAllocated x3 s3 = Some (e3, x', st')" "evs = e1 @ e2 @ e3"
    using ctl by (auto dest!: map_option_Some)
  have x3: "cx_connection x3 \<noteq> None"
  proof
    assume "cx_connection x3 = None"
    moreover have "same_context x3 x'"
    proof (cases "op_fate (ce_transport E) (request_conn (ce_transport E) msg x) x3 j")
      case None
      then show ?thesis using k(1) same_with_proto [of "with_op j (setFinishedCallback True)" x3] by (simp add: track_op_def Let_def)
    next
      case (Some oe)
      then have "run_stream_callback E False (ctx_state_of x3) j onChannelAllocated oe x3 (s3\<lparr>st_pendingOps := [(j, onChannelAllocated)]\<rparr>) = Some (e3, x', st')"
        using k(1) st(3) by (simp add: track_op_def Let_def)
      from run_callback_le [OF this] show ?thesis by simp
    qed
    ultimately show False using c' by (simp add: same_context_def)
  qed
  have s3: "s3 = s2" using st(4) x3 .
  have "same_context x2 x3" using after_context_good [OF ac is2 g] by blast
  then have "cx_connection x2 \<noteq> None" using x3 by (simp add: same_context_def)
  then have "cx_connection y \<noteq> None" by (simp add: x2_def timeout_connection)
  then obtain cy where cy: "cx_connection y = Some cy" by blast
  have pend: "\<forall>j\<in>set (cx_pendingOps x). j < p_nextOp (cn_proto c)" using inv(1) c by (simp add: ctx_inv_def)
  have tr: "is_tracked (msg c sq)" "msg_seqNum (msg c sq) = sq"
    by (simp_all add: is_tracked_def msg_def open_message_def new_message_def INC_MSG_STREAM_OPEN_def INC_MSG_FLAG_NONE_def Let_def)
  note rs = request_sends [OF q [unfolded j] c cy r pend tr [unfolded sq_def], folded sq_def]
  have x3': "x3 = x2" using ac rs(1) s2p by (simp add: after_context_def)
  have aw: "awaits x2 sq j" unfolding x2_def j by (rule awaits_timeout [OF rs(3)])
  have nf: "op_fate (ce_transport E) (request_conn (ce_transport E) msg x) x3 j = None"
    using aw x3' by (auto simp: op_fate_def awaits_def)
  then have x': "x' = with_proto (with_op j (setFinishedCallback True)) x2" "st' = s2\<lparr>st_pendingOps := [(j, onChannelAllocated)]\<rparr>"
    using k(1) x3' s3 s2p by (simp_all add: track_op_def Let_def)
  have "awaits x' sq j" unfolding x' by (rule awaits_with_op [OF aw setFinished_running])
  moreover have "tcpt.conn_reach big (acc @ [msg c sq]) c'"
    by (rule tcpt.conn_reach_other [OF rs(2)])
      (use c' cy in \<open>auto simp: x' x2_def j set_op_timeout_def with_proto_def with_op_def\<close>)
  moreover have "st_customState s2 = STREAM_ATTACHING" using t by (auto simp: stream_setState_def stream_state_of_def Let_def split: if_splits)
  ultimately show ?thesis using x' f by (intro exI [of _ j]) (simp add: msg_def)
qed


section \<open>The server's reply\<close>

definition reply_ok :: "mem_pool option \<Rightarrow> bool" where
  "reply_ok pool \<longleftrightarrow> (\<forall>m. pool = Some m \<longrightarrow> bytes_ok (pool_prefix m))"

text \<open>What the reply grants: the type, the name and the size of the server's memory.\<close>

definition grant_of :: "xuint16 option \<Rightarrow> mem_pool option \<Rightarrow> (xuint16 \<times> bytes \<times> xint32) option" where
  "grant_of granted pool =
     (case granted of
        None \<Rightarrow> None
      | Some t \<Rightarrow>
          if t = 0 then None
          else Some (t, (case pool of Some m \<Rightarrow> pool_prefix m | None \<Rightarrow> []), (case pool of Some m \<Rightarrow> pool_size m | None \<Rightarrow> 0)))"

lemma stream_open_reply_fields [simp]:
  "msg_type (stream_open_reply msg ch granted pool) = INC_MSG_STREAM_OPEN_ACK"
  "msg_seqNum (stream_open_reply msg ch granted pool) = msg_seqNum msg"
  by (simp_all add: stream_open_reply_def new_message_def Let_def split: option.split)

lemma reply_payload:
  "msg_payload (received (stream_open_reply msg ch granted pool)) = sent_as ([FUint32 ch, FBool (granted \<noteq> None)] @
     (case granted of None \<Rightarrow> [] | Some t \<Rightarrow> [FUint16 t, FBytes (case pool of Some m \<Rightarrow> pool_prefix m | None \<Rightarrow> []),
        FInt32 (case pool of Some m \<Rightarrow> pool_size m | None \<Rightarrow> 0)]))"
  by (auto simp: received_payload sent_as_def put_fields_def stream_open_reply_def Let_def split: option.split)

lemma field_read:
  "map_prod (map_option FUint32) id p = (Some (FUint32 a), t) \<longleftrightarrow> p = (Some a, t)"
  "map_prod (map_option FBool) id q = (Some (FBool b), t) \<longleftrightarrow> q = (Some b, t)"
  "map_prod (map_option FUint16) id r = (Some (FUint16 c), t) \<longleftrightarrow> r = (Some c, t)"
  "map_prod (map_option FBytes) id u = (Some (FBytes d), t) \<longleftrightarrow> u = (Some d, t)"
  "map_prod (map_option FInt32) id v = (Some (FInt32 e), t) \<longleftrightarrow> v = (Some e, t)"
  by (cases p; cases q; cases r; cases u; cases v; auto)+

lemma allocation_payload_sent:
  assumes "reply_ok pool"
  shows "allocation_payload (msg_payload (received (stream_open_reply msg ch granted pool))) = Some (ch, grant_of granted pool)"
proof (cases granted)
  case None
  then show ?thesis using read_sent [of "[FUint32 ch, FBool False]"] unfolding reply_payload
    by (auto simp: allocation_payload_def grant_of_def split: prod.splits option.splits)
next
  case (Some t)
  define nm where "nm = (case pool of Some m \<Rightarrow> pool_prefix m | None \<Rightarrow> [])"
  define sz where "sz = (case pool of Some m \<Rightarrow> pool_size m | None \<Rightarrow> 0)"
  let ?S = "sent_as [FUint32 ch, FBool True, FUint16 t, FBytes nm, FInt32 sz]"
  have "bytes_ok nm" using assms by (auto simp: nm_def reply_ok_def bytes_ok_def split: option.split)
  then obtain t1 t2 t3 t4 t5 where "getUint32 ?S = (Some ch, t1)" "getBool t1 = (Some True, t2)" "getUint16 t2 = (Some t, t3)"
      "getBytes t3 = (Some nm, t4)" "getInt32 t4 = (Some sz, t5)" "eof t5"
    using read_sent [of "[FUint32 ch, FBool True, FUint16 t, FBytes nm, FInt32 sz]"]
    by (auto simp: eof_def field_read split: prod.splits option.splits)
  then have "allocation_payload ?S = Some (ch, if t = 0 then None else Some (t, nm, sz))" by (simp add: allocation_payload_def)
  then show ?thesis unfolding reply_payload Some nm_def sz_def by (simp add: grant_of_def)
qed

text \<open>The pool that a grant makes the context create, when it has none.\<close>

definition granted_pool :: "'d ctx_env \<Rightarrow> 'd client_context \<Rightarrow> (xuint16 \<times> bytes \<times> xint32) option \<Rightarrow> mem_pool option" where
  "granted_pool E y grant =
     (case grant of
        None \<Rightarrow> None
      | Some (t, nm, sz) \<Rightarrow> ce_createPool E (cx_name y) (if nm = [] then co_sharedMemoryName (cx_config y) else nm) t)"

lemma grant_nonzero: "grant_of granted pool = Some (t, nm, sz) \<Longrightarrow> t \<noteq> 0"
  by (auto simp: grant_of_def split: option.splits if_splits)

lemma register_on:
  assumes "cx_connection y = Some c" and "cx_state y = CTX_CONNECTED" and g: "grant = grant_of granted pool"
    and tn: "(case grant of None \<Rightarrow> (0, []) | Some (t, nm, sz) \<Rightarrow> (t, nm)) = (type, shm)"
  shows "(if grant \<noteq> None \<and> cn_mempool c = None \<and> bad_pool (granted_pool E y grant)
     then ctx_registerChannel (ce_createPool E) ch () type shm y = None
     else \<exists>r y' c'. ctx_registerChannel (ce_createPool E) ch () type shm y = Some (r, y') \<and> cx_connection y' = Some c' \<and>
       cx_state y' = CTX_CONNECTED \<and> ctx_state_of y' = CTX_CONNECTED \<and> cn_proto c' = cn_proto c\<lparr>p_memPool := p_memPool (cn_proto c')\<rparr> \<and>
       cn_device c' = cn_device c \<and>
       cn_channels c' = (if ch = 0 then cn_channels c else (cn_channels c)(ch \<mapsto> ())))"
proof (cases grant)
  case None
  then have "type = 0" using tn by simp
  then show ?thesis using None assms(1,2)
    by (auto simp: ctx_registerChannel_def registerChannel_def connected_iff)
next
  case (Some gr)
  obtain t nm sz where gr: "gr = (t, nm, sz)" by (metis prod_cases3)
  have t: "type = t" "shm = nm" "t \<noteq> 0" using Some gr tn g grant_nonzero by auto
  let ?pool = "granted_pool E y grant"
  define use where "use = (if nm = [] then co_sharedMemoryName (cx_config y) else nm)"
  have pl: "?pool = ce_createPool E (cx_name y) use t" by (simp add: granted_pool_def Some gr use_def)
  have rg: "ctx_registerChannel (ce_createPool E) ch () type shm y =
    (case (if type \<noteq> 0 \<and> cn_mempool c = None then conn_enableMempool ?pool c else Some c) of None \<Rightarrow> None
     | Some c1 \<Rightarrow> (let (r, c2) = registerChannel ch () c1 in Some (r, y\<lparr>cx_connection := Some c2\<rparr>)))"
    using assms(1,2) t unfolding ctx_registerChannel_def pl use_def by simp
  show ?thesis
  proof (cases "cn_mempool c = None \<and> bad_pool ?pool")
    case True
    then have "conn_enableMempool ?pool c = None" by (simp add: enable_none)
    then show ?thesis using True Some t rg by simp
  next
    case False
    have "(if type \<noteq> 0 \<and> cn_mempool c = None then conn_enableMempool ?pool c else Some c) \<noteq> None"
      using False enable_none [of ?pool c] by auto
    then obtain c1 where c1: "(if type \<noteq> 0 \<and> cn_mempool c = None then conn_enableMempool ?pool c else Some c) = Some c1" by auto
    have f: "cn_channels c1 = cn_channels c" "cn_device c1 = cn_device c" "cn_proto c1 = cn_proto c\<lparr>p_memPool := p_memPool (cn_proto c1)\<rparr>"
      using c1 by (auto simp: conn_enableMempool_def enableMempool_def split: if_splits option.splits)
    obtain r c2 where rc: "registerChannel ch () c1 = (r, c2)" by fastforce
    have "ctx_registerChannel (ce_createPool E) ch () type shm y = Some (r, y\<lparr>cx_connection := Some c2\<rparr>)"
      unfolding rg c1 using rc by simp
    moreover have "cn_channels c2 = (if ch = 0 then cn_channels c1 else (cn_channels c1)(ch \<mapsto> ()))" "cn_proto c2 = cn_proto c1" "cn_device c2 = cn_device c1"
      using rc by (auto simp: registerChannel_def split: if_splits)
    ultimately show ?thesis using False Some f assms(2) by (auto simp: connected_iff)
  qed
qed


text \<open>A stream that waits, when its context receives the server's reply.\<close>

lemma reply_attaches:
  fixes y :: "'d client_context" and granted :: "xuint16 option" and ch :: xuint32
  assumes "awaits y sq j" and "sq \<noteq> 0" and "cx_connection y = Some c" and con: "cx_state y = CTX_CONNECTED"
    and s: "st_state st = STREAM_ATTACHING" "st_pendingOps st = [(j, onChannelAllocated)]" "st_customState st \<noteq> STREAM_ATTACHED"
    and ok: "reply_ok pool" and "msg_seqNum msg = sq"
  defines "m \<equiv> received (stream_open_reply msg ch granted pool)" and "grant \<equiv> grant_of granted pool"
  shows "if grant \<noteq> None \<and> cn_mempool c = None \<and> bad_pool (granted_pool E y grant)
    then stream_exec E (StreamContext (CtxReceive m)) y st = None
    else \<exists>y' st' c'. stream_exec E (StreamContext (CtxReceive m)) y st = Some ([StreamStateChanged (st_customState st) STREAM_ATTACHED], y', st') \<and>
      st_state st' = STREAM_ATTACHED \<and> st_channelId st' = ch \<and> st_attempts st' = 0 \<and> st_pendingOps st' = [] \<and> st_mode st' = st_mode st \<and>
      cx_state y' = CTX_CONNECTED \<and> cx_connection y' = Some c' \<and>
      cn_channels c' = (if ch = 0 then cn_channels c else (cn_channels c)(ch \<mapsto> ()))"
proof -
  have ty: "msg_seqNum m = sq" "msg_extFd m = -1" "msg_type m AND 1 \<noteq> 0"
    "msg_type m \<notin> {INC_MSG_BINARY_DATA, INC_MSG_BINARY_DATA_ACK, INC_MSG_HANDSHAKE_ACK}"
    using assms(9) by (simp_all add: m_def INC_MSG_STREAM_OPEN_ACK_def INC_MSG_BINARY_DATA_def INC_MSG_BINARY_DATA_ACK_def INC_MSG_HANDSHAKE_ACK_def)
  obtain y1 c1 op where r: "ctx_receive (ce_transport E) (ce_import E) (ce_now E) m y = Some ([], y1)" "cx_connection y1 = Some c1"
    "p_heap (cn_proto c1) j = Some op" "op_state op = STATE_DONE" "op_resultData op = m_data (msg_payload m)" "cx_state y1 = cx_state y"
    "cx_config y1 = cx_config y" "cx_name y1 = cx_name y" "cn_channels c1 = cn_channels c" "cn_mempool c1 = cn_mempool c"
    using reply_completes [OF assms(1,2) ty assms(3), of "ce_transport E" "ce_import E" "ce_now E"] by blast
  have "setData (m_data (msg_payload m)) new_tag_struct = msg_payload m" by (simp add: m_def received_payload setData_def new_tag_struct_def)
  then have pl: "allocation_payload (setData (oe_result (op_ended op)) new_tag_struct) = Some (ch, grant)"
    using allocation_payload_sent [OF ok, of msg ch granted] r(5) by (simp add: op_ended_def m_def grant_def)
  have fate: "op_fate (ce_transport E) (cx_connection y) y1 j = Some (op_ended op)" using r(2-4) by (simp add: op_fate_def)
  define y2 where "y2 = with_proto (deref_op j) y1"
  define s2 where "s2 = st\<lparr>st_pendingOps := []\<rparr>"
  have fo: "forget_op j y1 st = (y2, s2)" by (simp add: forget_op_def s(2) y2_def s2_def)
  obtain c2 where c2: "cx_connection y2 = Some c2" "cn_channels c2 = cn_channels c" "cn_mempool c2 = cn_mempool c"
    "cx_state y2 = CTX_CONNECTED" "granted_pool E y2 grant = granted_pool E y grant"
    using r con by (auto simp: y2_def with_proto_def granted_pool_def split: option.split)
  obtain type shm where tn: "(case grant of None \<Rightarrow> (0, []) | Some (t, nm, sz) \<Rightarrow> (t, nm)) = (type, shm)" by fastforce
  note reg = register_on [OF c2(1,4) grant_def [THEN meta_eq_to_obj_eq] tn, of E ch, unfolded c2]
  obtain t1 where t1: "stream_setState (ctx_state_of y) STREAM_ATTACHED (s2\<lparr>st_channelId := ch\<rparr>) = ([StreamStateChanged (st_customState st) STREAM_ATTACHED], t1)"
    and f1: "st_state t1 = STREAM_ATTACHED" "st_channelId t1 = ch" "st_attempts t1 = 0" "st_pendingOps t1 = []" "st_mode t1 = st_mode st"
    using s by (auto simp: stream_setState_def stream_state_of_def s2_def Let_def)
  have al: "channel_allocated (ce_createPool E) (ctx_state_of y) j (op_ended op) y1 st =
    (case ctx_registerChannel (ce_createPool E) ch () type shm y2 of None \<Rightarrow> None
     | Some (r, y3) \<Rightarrow> Some ([StreamStateChanged (st_customState st) STREAM_ATTACHED], y3, t1))"
    using r(4) pl s(1) tn t1 by (simp add: channel_allocated_def fo op_ended_def s2_def Let_def split: option.split)
  have ex: "stream_exec E (StreamContext (CtxReceive m)) y st = channel_allocated (ce_createPool E) (ctx_state_of y) j (op_ended op) y1 st"
    using r(1) fate s(2) by (auto simp: after_context_def run_stream_callback_def split: option.split)
  show ?thesis
  proof (cases "grant \<noteq> None \<and> cn_mempool c = None \<and> bad_pool (granted_pool E y grant)")
    case True
    then have "ctx_registerChannel (ce_createPool E) ch () type shm y2 = None" using reg unfolding if_P [OF True] by simp
    then show ?thesis using True ex al by simp
  next
    case False
    then obtain r' y3 c3 where "ctx_registerChannel (ce_createPool E) ch () type shm y2 = Some (r', y3)" "cx_connection y3 = Some c3"
        "cx_state y3 = CTX_CONNECTED" "cn_channels c3 = (if ch = 0 then cn_channels c else (cn_channels c)(ch \<mapsto> ()))"
      using reg unfolding if_not_P [OF False] by blast
    then have "stream_exec E (StreamContext (CtxReceive m)) y st = Some ([StreamStateChanged (st_customState st) STREAM_ATTACHED], y3, t1) \<and>
      cx_state y3 = CTX_CONNECTED \<and> cx_connection y3 = Some c3 \<and> cn_channels c3 = (if ch = 0 then cn_channels c else (cn_channels c)(ch \<mapsto> ()))"
      using ex al by simp
    then show ?thesis unfolding if_not_P [OF False] using f1 by blast
  qed
qed

text \<open>The reply of a server that grants no shared memory, on its wire.\<close>

lemma open_answered:
  assumes "map_of (sv_objects s) i = Some cs" and "\<not> p_isPassthrough (cn_proto cs)" and "cn_open cs" and "string_ok name"
    and "se_transport E = tcp_transport big near" and "tcpt.conn_reach big acc cs"
    and "server_receive E i (received (open_message cid sq name mode None)) s = Some (evs, s1)"
    and "\<forall>j. ClientDisconnected j \<notin> set evs"
  defines "n \<equiv> sv_nextChannelId s + 1"
  assumes "n \<noteq> 0"
  shows "evs = [StreamOpened (cn_connId cs) n name mode] \<and> (\<exists>c1. map_of (sv_objects s1) i = Some c1 \<and>
     tcpt.conn_reach big (acc @ [stream_open_reply (received (open_message cid sq name mode None)) n None (cn_mempool cs)]) c1 \<and>
     cn_channels c1 = (cn_channels cs)(n \<mapsto> \<lparr>ps_channelId = n, ps_name = name, ps_mode = mode\<rparr>))"
proof -
  let ?m = "received (open_message cid sq name mode None)"
  let ?ps = "\<lparr>ps_channelId = n, ps_name = name, ps_mode = mode\<rparr>"
  let ?c2 = "(fed E ?m cs)\<lparr>cn_channels := (cn_channels cs)(n \<mapsto> ?ps)\<rparr>"
  have q: "request ?m" by (simp add: request_def INC_MSG_STREAM_OPEN_def INC_MSG_BINARY_DATA_def)
  have ty: "msg_type ?m AND 1 = 0" "\<not> expired (se_now E) ?m" "msg_type ?m = INC_MSG_STREAM_OPEN"
    by (simp_all add: INC_MSG_STREAM_OPEN_def)
  have pl: "stream_open_payload (msg_payload ?m) = Some (name, mode, None)"
    unfolding sent_payloads by (rule stream_open_payload_sent) (use assms(4) in auto)
  obtain es c3 where sc: "send_client (se_transport E) (stream_open_reply ?m n None (cn_mempool cs)) ?c2 = (es, c3)" by fastforce
  have h: "onConnectionMessageReceived E (sv_options s) (sv_globalPool s) ?m (sv_nextChannelId s) (fed E ?m cs) =
      Some (es @ [StreamOpened (cn_connId c3) n name mode], n, c3)"
    using pl ty sc \<open>n \<noteq> 0\<close>
    by (simp add: onConnectionMessageReceived_def handleStreamOpen_def registerChannel_def n_def Let_def
        INC_MSG_STREAM_OPEN_def INC_MSG_HANDSHAKE_def INC_MSG_METHOD_CALL_def)
  have e: "evs = es @ [StreamOpened (cn_connId c3) n name mode]" "s1 = put_client i c3 (s\<lparr>sv_nextChannelId := n\<rparr>)"
    using assms(7) server_request [OF assms(1) q assms(2), of E] h by simp_all
  obtain op where al: "es = []" "conn_frame ?c2 c3" "conn_sendMessage (tcp_transport big near) (stream_open_reply ?m n None (cn_mempool cs)) ?c2 = (op, [], c3)"
    using send_client_alive [OF sc] assms(3,5,8) e(1) by auto
  note f = conn_frame_simps [OF al(2), simplified]
  have m1: "map_of (sv_objects s1) i = Some c3" unfolding e(2) by (rule map_of_put) (simp add: assms(1))
  have "tcpt.conn_reach big acc ?c2" by (rule tcpt.conn_reach_other [OF assms(6)]) (simp_all add: fed_def meter_def cache_fd_def)
  from tcpt.conn_reach_send [OF this al(3)] show ?thesis using m1 e al(1) f by auto
qed


section \<open>Properties\<close>

text \<open>
  C6. The client's stream stays coherent over any run of its calls, timers and alarms and of
  everything its context may do: unless it is detached its context is connected; it tracks at
  most one operation, a request for a channel only while attaching and a release only while
  detaching; it has no channel while detached or attaching; the changes of state it has
  announced form a chain from DETACHED to the state last announced, each a real change;
  and it has announced ATTACHED exactly when it is.
\<close>

theorem stream_is_coherent:
  assumes "stream_run E cmds (new_context name config) (new_stream sname config) = Some (evs, x, st)"
  shows "(st_state st \<noteq> STREAM_DETACHED \<longrightarrow> cx_state x = CTX_CONNECTED) \<and> length (st_pendingOps st) \<le> 1 \<and>
    (\<forall>(i, k)\<in>set (st_pendingOps st). st_state st = callback_state k) \<and>
    (st_state st \<in> {STREAM_DETACHED, STREAM_ATTACHING} \<longrightarrow> st_channelId st = 0) \<and>
    stream_announced STREAM_DETACHED evs (st_customState st) \<and>
    (st_customState st = STREAM_ATTACHED \<longleftrightarrow> st_state st = STREAM_ATTACHED)"
proof -
  have g: "stream_inv x st" "stream_announced (st_customState (new_stream sname config)) evs (st_customState st)"
    using stream_run_good [OF assms] by (simp_all add: stream_good_def stream_inv_new)
  have "st_customState (new_stream sname config) = STREAM_DETACHED" by (simp add: new_stream_def)
  with g have "stream_inv x st" "stream_announced STREAM_DETACHED evs (st_customState st)" by simp_all
  then show ?thesis by (auto simp: stream_inv_def stream_core_def)
qed

definition sample_stream_env :: "link ctx_env" where
  "sample_stream_env = \<lparr>ce_transport = tcp_transport False False, ce_import = (\<lambda>_ _ _ _ _ _. None), ce_createPool = (\<lambda>_ _ _. None), ce_now = 0\<rparr>"

theorem stream_is_coherent_witness:
  "\<exists>evs x st. stream_run sample_stream_env [StreamAttach 3, StreamTimer, StreamDetach] (new_context [] default_context_options)
     (new_stream [0x73] default_context_options) = Some (evs, x, st) \<and> stream_announced STREAM_DETACHED evs (st_customState st)"
proof -
  have r: "stream_run sample_stream_env [StreamAttach 3, StreamTimer, StreamDetach] (new_context [] default_context_options)
     (new_stream [0x73] default_context_options) = Some ([], new_context [] default_context_options, new_stream [0x73] default_context_options)"
    by (simp add: attach_def detach_def stream_timer_event_def new_stream_def new_context_def ctx_state_of_def)
  from stream_is_coherent [OF r] r show ?thesis by blast
qed



text \<open>A connected context without shared memory, over a quiet link.\<close>

definition stream_connection :: "(link, unit) connection" where
  "stream_connection = (new_connection quiet_link True 3)\<lparr>cn_handshake := Some ((new_handshake [] ROLE_CLIENT)\<lparr>hk_state := HS_COMPLETED\<rparr>)\<rparr>"

definition stream_context :: "link client_context" where
  "stream_context = (new_context [] (default_context_options\<lparr>cc_disableSharedMemory := True\<rparr>))\<lparr>cx_state := CTX_CONNECTED,
     cx_customState := CTX_CONNECTED, cx_connectMode := 4, cx_serverUrl := [0x75], cx_connection := Some stream_connection\<rparr>"

lemma stream_context_inv: "ctx_inv stream_context"
  by (simp add: ctx_inv_def stream_context_def stream_connection_def new_context_def connecting_or_connected_def client_handshake_def
      new_handshake_def)

lemma sample_attach:
  obtains evs x' c' st' where "attach sample_stream_env 3 stream_context (new_stream [0x73] default_context_options) = Some (True, evs, x', st')"
    and "cx_connection x' = Some c'"
proof -
  let ?T = "tcp_transport False False" and ?st = "new_stream [0x73] default_context_options"
  let ?m = "open_message 3 1 [0x73] 3 None"
  obtain c1 where n: "conn_nextSequence stream_connection = (1, c1)"
      and c1: "p_nextOp (cn_proto c1) = 0" "cn_device c1 = quiet_link" "p_sendQueue (cn_proto c1) = []" "cn_proto c1 = (new_proto False)\<lparr>p_seqCounter := 2\<rparr>"
    by (simp add: conn_nextSequence_def nextSequence_def stream_connection_def new_connection_def new_proto_def)
  have v: "isValid ?m"
    using encode_length [of "[0x73]"]
    by (simp add: isValid_def open_message_def new_message_def payload_size_def INC_MSG_STREAM_OPEN_def INC_MSG_INVALID_def
        MAX_MESSAGE_SIZE_def HEADER_SIZE_def str.put_data u32.put_data new_tag_struct_def encString_def putBool_def writeTag_def append_data_def Let_def)
  have w: "\<not> dv_isWritable (tr_device ?T) (cn_device c1)" "length (p_sendQueue (cn_proto c1)) < INC_MAX_SEND_QUEUE"
    by (simp_all add: c1(2,3) tcp_transport_def tcp_sender_def quiet_link_def INC_MAX_SEND_QUEUE_def)
  obtain op c2 where sm: "conn_sendMessage ?T ?m c1 = (op, [], c2)" using quiet_send [OF w v] by blast
  have t: "is_tracked ?m" by (simp add: is_tracked_def open_message_def new_message_def INC_MSG_STREAM_OPEN_def INC_MSG_FLAG_NONE_def Let_def)
  obtain p d where ms: "sendMessage (tr_device ?T) ?m (cn_proto c1) (cn_device c1) = (op, [], p, d)" and c2: "cn_proto c2 = p"
    using sendMessage_errors sm by (fastforce simp: conn_sendMessage_def only_errors_def split: prod.splits)
  have op: "op = Some 0" "p_heap p 0 = Some (new_operation 1)"
    using sent_operation [OF ms t] c1 by (auto simp: open_message_def new_message_def Let_def)
  have "requestChannel ?T [0x73] 3 stream_context = (Some 0, [], set_op_timeout 500 (Some 0) (stream_context\<lparr>cx_connection := Some c2\<rparr>))"
    using n sm op by (simp add: requestChannel_def ctx_request_def ctx_send_def stream_context_def shm_offer_def new_context_def
        stream_connection_def new_connection_def default_context_options_def context_config.defs)
  then have rq: "requestChannel (ce_transport sample_stream_env) [0x73] 3 stream_context = (Some 0, [], set_op_timeout 500 (Some 0) (stream_context\<lparr>cx_connection := Some c2\<rparr>))"
    by (simp add: sample_stream_env_def)
  let ?x2 = "set_op_timeout 500 (Some 0) (stream_context\<lparr>cx_connection := Some c2\<rparr>)"
  have fate: "op_fate T q ?x2 0 = None" for T q
    using op c2 by (simp add: op_fate_def set_op_timeout_def with_proto_def with_op_def setTimeout_running new_operation_def)
  obtain e1 s2 where s2: "stream_setState (ctx_state_of stream_context) STREAM_ATTACHING (?st\<lparr>st_mode := 3\<rparr>) = (e1, s2)" by fastforce
  have s2p: "st_pendingOps s2 = []" using stream_setState_frame [OF s2] by (simp add: new_stream_def)
  have f: "st_state ?st = STREAM_DETACHED" "st_pendingOps (?st\<lparr>st_mode := 3\<rparr>) = []" "st_name ?st = [0x73]" "ctx_state_of stream_context = CTX_CONNECTED"
    by (simp_all add: new_stream_def stream_context_def ctx_state_of_def)
  have "attach sample_stream_env 3 stream_context ?st = Some (True, e1, with_proto (with_op 0 (setFinishedCallback True)) ?x2,
      s2\<lparr>st_pendingOps := [(0, onChannelAllocated)]\<rparr>)"
    using f rq s2 s2p fate cleanup_none [OF f(2), of stream_context]
    by (simp add: attach_def after_context_def track_op_def Let_def)
  then show ?thesis by (rule that) (simp add: set_op_timeout_def with_proto_def)
qed



section \<open>Detaching\<close>

text \<open>Detaching an attached stream, once its release request has been sent.\<close>

lemma detach_attached:
  fixes x :: "'d client_context"
  assumes "st_state st = STREAM_ATTACHED" and "st_channelId st \<noteq> 0" and "st_pendingOps st = []"
    and "stream_setState (ctx_state_of x) STREAM_DETACHING st = (e1, s2)"
    and "releaseChannel (ce_transport E) (st_channelId st) x = (op, cevs, x2)"
  shows "detach E x st = (case after_context E x cevs x2 s2 of None \<Rightarrow> None | Some (e2, x3, s3) \<Rightarrow>
     (case op of
        None \<Rightarrow> (let (e3, s4) = stream_setState (ctx_state_of x3) STREAM_DETACHED (s3\<lparr>st_channelId := 0\<rparr>) in Some (e1 @ e2 @ e3, x3, s4))
      | Some j \<Rightarrow> map_option (\<lambda>(e3, x4, s4). (e1 @ e2 @ e3, x4, s4)) (track_op E
          (request_conn (ce_transport E) (\<lambda>c sq. new_message INC_MSG_STREAM_CLOSE (st_channelId st) sq) x) j onChannelReleased x3 s3)))"
proof -
  have "st_channelId s2 = st_channelId st" using stream_setState_frame(4) [OF assms(4)] .
  then show ?thesis using assms cleanup_none [OF assms(3), of x] by (auto simp: detach_def Let_def split: option.split)
qed

text \<open>A tracked message on a full queue: its operation fails, and the error is signalled.\<close>

lemma full_send:
  assumes "INC_MAX_SEND_QUEUE \<le> length (p_sendQueue p)" and "is_tracked m" and "isValid m"
  obtains p' where "sendMessage D m p d = (Some (p_nextOp p), [ErrorOccurred INC_ERROR_QUEUE_FULL], p', d)"
    and "p_heap p' (p_nextOp p) = Some (setResult (int INC_ERROR_QUEUE_FULL) [] (new_operation (msg_seqNum m)))"
    and "p_operations p' = p_operations p"
proof -
  obtain p' where "sendMessage D m p d = (Some (p_nextOp p), [ErrorOccurred INC_ERROR_QUEUE_FULL], p', d)"
    and p': "p' = deref_op (p_nextOp p) (with_op (p_nextOp p) (setResult (int INC_ERROR_QUEUE_FULL) [])
      (meter onSendQueueDrop (ref_op (p_nextOp p) (snd (alloc_op (msg_seqNum m) p)))))"
    using assms by (simp add: sendMessage_def sendMessageImpl_def alloc_op_def ref_op_def Let_def)
  moreover have "p_heap p' (p_nextOp p) = Some (setResult (int INC_ERROR_QUEUE_FULL) [] (new_operation (msg_seqNum m)))"
    "p_operations p' = p_operations p"
    by (simp_all add: p' deref_op_def with_op_def meter_def ref_op_def alloc_op_def Let_def)
  ultimately show ?thesis using that by blast
qed

lemma cancel_loop_other: "i \<notin> snd ` set ops \<Longrightarrow> p_heap (cancel_loop code ops p) i = p_heap p i"
  by (induction code ops p rule: cancel_loop.induct)
    (simp_all add: deref_op_def with_op_def release_slot_def processRelease_def Let_def)

text \<open>
  Detaching when the release request cannot be queued stops the client: the error of
  sending it closes the context, which detaches the stream at once, and the callback of the
  failed operation then finds the stream detached where it asserts that it is detaching.
\<close>

theorem release_failure_stops_client:
  fixes x :: "'d client_context"
  assumes "stream_inv x st" and "st_state st = STREAM_ATTACHED" and "st_channelId st \<noteq> 0" and "cx_connection x = Some c"
    and "INC_MAX_SEND_QUEUE \<le> length (p_sendQueue (cn_proto c))" and "p_nextOp (cn_proto c) \<notin> snd ` set (p_operations (cn_proto c))"
  shows "detach E x st = None"
proof -
  let ?T = "ce_transport E" and ?ch = "st_channelId st" and ?i = "p_nextOp (cn_proto c)"
  let ?msg = "\<lambda>(c :: ('d, unit) connection) sq. new_message INC_MSG_STREAM_CLOSE ?ch sq"
  have inv: "ctx_inv x" "stream_core st" "cx_state x = CTX_CONNECTED" using assms(1,2) by (simp_all add: stream_inv_def)
  have p: "st_pendingOps st = []" by (rule core_settled_pending) (use inv assms(2) in simp_all)
  obtain e1 s2 where t: "stream_setState (ctx_state_of x) STREAM_DETACHING st = (e1, s2)" by fastforce
  note f = stream_setState_frame [OF t]
  obtain c1 where n: "conn_nextSequence c = (p_seqCounter (cn_proto c), c1)"
      and c1: "p_nextOp (cn_proto c1) = ?i" "p_sendQueue (cn_proto c1) = p_sendQueue (cn_proto c)" "p_operations (cn_proto c1) = p_operations (cn_proto c)"
    by (simp add: conn_nextSequence_def nextSequence_def)
  let ?m = "new_message INC_MSG_STREAM_CLOSE ?ch (p_seqCounter (cn_proto c))"
  have m: "is_tracked ?m" "isValid ?m"
    by (simp_all add: is_tracked_def isValid_def new_message_def payload_size_def new_tag_struct_def INC_MSG_STREAM_CLOSE_def INC_MSG_INVALID_def
        INC_MSG_FLAG_NONE_def MAX_MESSAGE_SIZE_def HEADER_SIZE_def)
  obtain p' where p': "sendMessage (tr_device ?T) ?m (cn_proto c1) (cn_device c1) = (Some ?i, [ErrorOccurred INC_ERROR_QUEUE_FULL], p', cn_device c1)"
      "p_heap p' ?i = Some (setResult (int INC_ERROR_QUEUE_FULL) [] (new_operation (msg_seqNum ?m)))" "p_operations p' = p_operations (cn_proto c)"
    using full_send [of "cn_proto c1" ?m "tr_device ?T" "cn_device c1"] assms(5) m c1 by metis
  define c2 where "c2 = c1\<lparr>cn_proto := p', cn_device := cn_device c1\<rparr>"
  have sm: "conn_sendMessage ?T ?m c1 = (Some ?i, [INC_ERROR_QUEUE_FULL], c2)" using p'(1) by (simp add: conn_sendMessage_def c2_def)
  obtain cevs y where er: "ctx_onErrorOccurred ?T (x\<lparr>cx_connection := Some c2\<rparr>) = (cevs, y)" by fastforce
  have y: "cx_connection y = None" by (rule error_closes [OF er]) (simp add: connecting_or_connected_def inv)
  have "releaseChannel ?T ?ch x = (Some ?i, cevs, set_op_timeout (co_protocolTimeoutMs (cx_config x)) (Some ?i) y)"
    using assms(4) inv(3) n sm er by (simp add: releaseChannel_def ctx_request_def ctx_send_def)
  moreover have "set_op_timeout ms op y = y" for ms op using y by (cases op) (simp_all add: set_op_timeout_def with_proto_def)
  ultimately have rl: "releaseChannel ?T ?ch x = (Some ?i, cevs, y)" by simp
  have rc: "request_conn ?T ?msg x = Some c2" using assms(4) n sm by (simp add: request_conn_def)
  have is2: "stream_inv x s2" using core_settled [OF t p] inv f by (simp add: stream_inv_def)
  note dt = detach_attached [OF assms(2,3) p t rl]
  show ?thesis
  proof (cases "after_context E x cevs y s2")
    case None
    then show ?thesis using dt by simp
  next
    case (Some r)
    obtain e2 x3 s3 where ac: "after_context E x cevs y s2 = Some (e2, x3, s3)" using Some by (metis prod_cases3)
    have g: "ctx_good x cevs y" using calls_good(6) rl by blast
    note s3 = request_settles [OF ac is2 _ g inv(3) disjI2 [OF rl], unfolded f(6), OF p]
    have x3: "cx_connection x3 = None" using after_context_good [OF ac is2 g] y by (simp add: same_context_def)
    have "p_heap (cn_proto (snd (conn_close ?T c2))) ?i = p_heap p' ?i"
      using assms(6) p'(3) by (simp add: conn_close_def cancelAllOperations_def c2_def cancel_loop_other)
    then have "op_fate ?T (Some c2) x3 ?i = Some (op_ended (cancel (setResult (int INC_ERROR_QUEUE_FULL) [] (new_operation (msg_seqNum ?m)))))"
      using x3 p'(2) by (simp add: op_fate_def)
    moreover have "oe_state (op_ended (cancel (setResult (int INC_ERROR_QUEUE_FULL) [] (new_operation sq)))) = STATE_FAILED" for sq
      by (simp add: op_ended_def op_simps new_operation_def INC_ERROR_QUEUE_FULL_def)
    moreover have "channel_released False cs i oe x3 (s3\<lparr>st_pendingOps := ps\<rparr>) = None" if "oe_state oe = STATE_FAILED" for cs i oe ps
    proof -
      obtain z u where fo: "forget_op i x3 (s3\<lparr>st_pendingOps := ps\<rparr>) = (z, u)" by fastforce
      then have "st_state u = STREAM_DETACHED" using forget_frame(2) [OF fo] s3(5) [OF x3] by simp
      then show ?thesis using fo that by (simp add: channel_released_def)
    qed
    ultimately have "track_op E (request_conn ?T ?msg x) ?i onChannelReleased x3 s3 = None"
      by (simp add: track_op_def rc run_stream_callback_def Let_def)
    then show ?thesis using dt ac by simp
  qed
qed


text \<open>A stream attached to channel 5 of that context.\<close>

definition attached_stream :: inc_stream where
  "attached_stream = (new_stream [0x73] default_context_options)\<lparr>st_state := STREAM_ATTACHED, st_customState := STREAM_ATTACHED,
     st_mode := 3, st_channelId := 5\<rparr>"

lemma attached_stream_fields [simp]:
  "st_state attached_stream = STREAM_ATTACHED" "st_customState attached_stream = STREAM_ATTACHED" "st_mode attached_stream = 3"
  "st_channelId attached_stream = 5" "st_pendingOps attached_stream = []" "st_attempts attached_stream = 0"
  "st_maxAttempts attached_stream = 5"
  by (simp_all add: attached_stream_def new_stream_def)

lemma stream_context_fields [simp]:
  "cx_state stream_context = CTX_CONNECTED" "cx_connection stream_context = Some stream_connection"
  "p_operations (cn_proto stream_connection) = []" "p_sendQueue (cn_proto stream_connection) = []"
  "cn_connId stream_connection = 3" "cn_channels stream_connection = (\<lambda>_. None)" "\<not> p_isPassthrough (cn_proto stream_connection)"
  by (simp_all add: stream_context_def stream_connection_def new_connection_def new_proto_def)

lemma stream_context_with:
  assumes "cn_handshake c = cn_handshake stream_connection" and "p_nextOp (cn_proto c) = 0"
  shows "stream_inv (stream_context\<lparr>cx_connection := Some c\<rparr>) attached_stream"
proof -
  have "conn_le stream_connection c" using assms by (simp add: conn_le_def stream_connection_def new_connection_def new_proto_def)
  then have "ctx_inv (stream_context\<lparr>cx_connection := Some c\<rparr>)" by (intro ctx_inv_conn [OF stream_context_inv]) simp_all
  then show ?thesis by (simp add: stream_inv_def stream_core_def)
qed

definition full_connection :: "(link, unit) connection" where
  "full_connection = stream_connection\<lparr>cn_proto := (cn_proto stream_connection)\<lparr>p_sendQueue := replicate INC_MAX_SEND_QUEUE (new_message INC_MSG_PING 3 1)\<rparr>\<rparr>"

theorem release_failure_stops_client_witness:
  "detach sample_stream_env (stream_context\<lparr>cx_connection := Some full_connection\<rparr>) attached_stream = None"
proof (rule release_failure_stops_client)
  show "stream_inv (stream_context\<lparr>cx_connection := Some full_connection\<rparr>) attached_stream"
    by (rule stream_context_with) (simp_all add: full_connection_def stream_connection_def new_connection_def new_proto_def)
  show "cx_connection (stream_context\<lparr>cx_connection := Some full_connection\<rparr>) = Some full_connection" by simp
qed (simp_all add: full_connection_def)


text \<open>What a request leaves when its context stays connected: a running operation, and the connection's channels.\<close>

lemma request_tracked:
  assumes "ctx_request T msg x = (op, cevs, y)" and "cx_connection x = Some c" and "cx_state x = CTX_CONNECTED"
    and "cx_connection y = Some cy" and "is_tracked (msg c (p_seqCounter (cn_proto c)))"
  obtains j where "op = Some j" and "cevs = []" and "conn_frame c cy"
    and "p_heap (cn_proto cy) j = Some (new_operation (msg_seqNum (msg c (p_seqCounter (cn_proto c)))))"
proof -
  let ?m = "msg c (p_seqCounter (cn_proto c))"
  obtain c1 where n: "conn_nextSequence c = (p_seqCounter (cn_proto c), c1)" by (simp add: conn_nextSequence_def nextSequence_def)
  have cs: "ctx_send T ?m c1 x = (op, cevs, y)" using assms(1-3) n by (simp add: ctx_request_def)
  obtain o2 errs c2 where sm: "conn_sendMessage T ?m c1 = (o2, errs, c2)" by (metis prod_cases3)
  have "errs = []"
  proof (rule ccontr)
    assume "errs \<noteq> []"
    then have "ctx_onErrorOccurred T (x\<lparr>cx_connection := Some c2\<rparr>) = (cevs, y)" using cs sm by (auto simp: ctx_send_def Let_def)
    from error_closes [OF this] show False using assms(3,4) by (simp add: connecting_or_connected_def)
  qed
  then have y: "o2 = op" "cevs = []" "cy = c2" using cs sm assms(4) by (auto simp: ctx_send_def)
  obtain p d where ms: "sendMessage (tr_device T) ?m (cn_proto c1) (cn_device c1) = (op, [], p, d)" and c2: "cn_proto c2 = p"
    using sendMessage_errors sm y(1) \<open>errs = []\<close> by (fastforce simp: conn_sendMessage_def only_errors_def split: prod.splits)
  have "conn_frame c cy" unfolding y(3) by (rule conn_frame_trans [OF conn_frame_send(3) [OF n] conn_frame_send(1) [OF sm]])
  then show ?thesis using that sent_operation [OF ms assms(5)] y c2 by metis
qed

lemma channels_timeout: "cx_connection (set_op_timeout ms op y) = Some c' \<Longrightarrow> \<exists>c. cx_connection y = Some c \<and> cn_channels c' = cn_channels c"
  by (auto simp: set_op_timeout_def with_proto_def split: option.splits)

text \<open>Detaching an attached stream, as long as its context stays connected.\<close>

lemma detach_keeps_channels:
  assumes r: "detach E x st = Some (evs, x', st')" and i: "stream_inv x st" and s: "st_state st = STREAM_ATTACHED"
    and c: "cx_connection x = Some c" and c': "cx_connection x' = Some c'"
  shows "cn_channels c' = cn_channels c"
proof -
  let ?T = "ce_transport E" and ?msg = "\<lambda>c sq. new_message INC_MSG_STREAM_CLOSE (st_channelId st) sq"
  have inv: "ctx_inv x" "stream_core st" "cx_state x = CTX_CONNECTED" using i s by (simp_all add: stream_inv_def)
  have p: "st_pendingOps st = []" by (rule core_settled_pending) (use inv s in simp_all)
  note cl = cleanup_none [OF p, of x]
  show ?thesis
  proof (cases "st_channelId st = 0")
    case True
    then have "x' = x" using r s cl by (auto simp: detach_def split: prod.splits)
    then show ?thesis using c c' by simp
  next
    case False
    obtain e1 s2 where t: "stream_setState (ctx_state_of x) STREAM_DETACHING st = (e1, s2)" by fastforce
    note f = stream_setState_frame [OF t]
    obtain op cevs y where q: "ctx_request ?T ?msg x = (op, cevs, y)" by (metis prod_cases3)
    define x2 where "x2 = set_op_timeout (co_protocolTimeoutMs (cx_config x)) op y"
    have rl: "releaseChannel ?T (st_channelId st) x = (op, cevs, x2)" using q by (simp add: releaseChannel_def x2_def)
    note dt = detach_attached [OF s False p t rl]
    obtain e2 x3 s3 where ac: "after_context E x cevs x2 s2 = Some (e2, x3, s3)"
      using r unfolding dt by (cases "after_context E x cevs x2 s2") auto
    have is2: "stream_inv x s2" using core_settled [OF t p] inv f by (simp add: stream_inv_def)
    have g: "ctx_good x cevs x2" using calls_good(6) rl by blast
    have s3: "st_pendingOps s3 = []" using request_settles(3) [OF ac is2 _ g inv(3) disjI2 [OF rl], unfolded f(6), OF p] .
    have same: "same_context x2 x3" using after_context_good [OF ac is2 g] by blast
    have "cx_connection y \<noteq> None"
    proof
      assume "cx_connection y = None"
      then have x3: "cx_connection x3 = None" using same by (simp add: x2_def timeout_connection same_context_def)
      have "same_context x3 x'" if "track_op E (request_conn ?T ?msg x) j onChannelReleased x3 s3 = Some (e, x', st')" for j e
      proof -
        have "op_fate ?T (request_conn ?T ?msg x) x3 j \<noteq> None" using x3 by (auto simp: op_fate_def split: option.splits)
        then obtain oe where "op_fate ?T (request_conn ?T ?msg x) x3 j = Some oe" by blast
        then have "run_stream_callback E False (ctx_state_of x3) j onChannelReleased oe x3 (s3\<lparr>st_pendingOps := [(j, onChannelReleased)]\<rparr>) = Some (e, x', st')"
          using that s3 by (simp add: track_op_def Let_def)
        from run_callback_le [OF this] show ?thesis by simp
      qed
      moreover have "x' = x3 \<or> (\<exists>j e. track_op E (request_conn ?T ?msg x) j onChannelReleased x3 s3 = Some (e, x', st'))"
        using r unfolding dt ac by (cases op) (auto split: prod.splits dest!: map_option_Some)
      ultimately show False using x3 c' by (auto simp: same_context_def)
    qed
    then obtain cy where cy: "cx_connection y = Some cy" by blast
    have tr: "is_tracked (?msg c (p_seqCounter (cn_proto c)))"
      by (simp add: is_tracked_def new_message_def INC_MSG_STREAM_CLOSE_def INC_MSG_FLAG_NONE_def)
    obtain j where j: "op = Some j" "cevs = []" "conn_frame c cy" "p_heap (cn_proto cy) j = Some (new_operation (msg_seqNum (?msg c (p_seqCounter (cn_proto c)))))"
      by (rule request_tracked [OF q c inv(3) cy tr])
    have x3: "x3 = x2" using ac j(2) f(6) p by (simp add: after_context_def)
    have "op_fate ?T (request_conn ?T ?msg x) x2 j = None"
      using cy j(1,4) by (simp add: op_fate_def x2_def set_op_timeout_def with_proto_def with_op_def setTimeout_running new_operation_def)
    then have "x' = with_proto (with_op j (setFinishedCallback True)) x2"
      using r unfolding dt ac by (auto simp: j(1) track_op_def x3 Let_def)
    then obtain c2 where "cx_connection x2 = Some c2" "cn_channels c' = cn_channels c2" using c' by (auto simp: with_proto_def)
    then show ?thesis using channels_timeout [of _ op y c2] cy conn_frame_simps(7) [OF j(3)] by (auto simp: x2_def)
  qed
qed

text \<open>Data for a registered channel is handed to its object.\<close>

lemma channel_data:
  assumes "cx_connection x = Some c" and "\<not> p_isPassthrough (cn_proto c)" and "cn_channels c ch = Some obj" and "bytes_ok data"
  shows "\<exists>x2. ctx_receive T imp now (received (copy_message ch sq bc pos data)) x = Some ([ChannelData obj ch sq bc pos data], x2)"
proof -
  obtain p d where m: "onMessageReceived (tr_device T) imp (received (copy_message ch sq bc pos data)) (cn_proto c) (cn_device c)
      = ([BinaryDataReceived ch sq bc pos data], p, d)"
    using copy_message_received [OF assms(4,2)] by (metis prod.collapse)
  then show ?thesis using assms(1,3) by (simp add: ctx_receive_def reap_def with_proto_def onBinaryDataReceived_def)
qed

text \<open>
  A stream that is destroyed while attached leaves its pointer behind: the release
  request that its destructor sends is dropped with its callback, so the channel stays
  registered with the connection, and the next data the server sends for it is handed to the
  destroyed object.
\<close>

theorem destroyed_stream_stays_registered:
  fixes x :: "'d client_context"
  assumes "destroy_stream E x st = Some (evs, x', st')" and "stream_inv x st" and "st_state st = STREAM_ATTACHED"
    and "cx_connection x = Some c" and "cn_channels c (st_channelId st) = Some ()" and "cx_connection x' = Some c'"
    and "\<not> p_isPassthrough (cn_proto c')" and "bytes_ok data"
  shows "st_pendingOps st' = [] \<and> cn_channels c' (st_channelId st) = Some () \<and>
    (\<exists>x2. ctx_receive T imp now (received (copy_message (st_channelId st) sq bc pos data)) x' =
       Some ([ChannelData () (st_channelId st) sq bc pos data], x2))"
proof -
  obtain x1 s1 where d: "detach E x (st\<lparr>st_timer := False\<rparr>) = Some (evs, x1, s1)" "cleanupPendingOps x1 s1 = (x', st')"
    using assms(1) by (auto simp: destroy_stream_def split: option.splits prod.splits)
  have ch: "st_channelId st \<noteq> 0 \<or> st_channelId st = 0" by blast
  obtain c1 where c1: "cx_connection x1 = Some c1" "cn_channels c' = cn_channels c1" using d(2) assms(6)
    by (auto simp: cleanupPendingOps_def with_proto_def)
  have i: "stream_inv x (st\<lparr>st_timer := False\<rparr>)" using stream_inv_frame [OF assms(2), of "st\<lparr>st_timer := False\<rparr>"] by simp
  have "cn_channels c1 = cn_channels c" using detach_keeps_channels [OF d(1) i _ assms(4) c1(1)] assms(3) by simp
  then have f: "cn_channels c' (st_channelId st) = Some ()" using c1 assms(5) by simp
  have "st_pendingOps st' = []" using cleanup_frame(2) [OF d(2)] by simp
  moreover have "\<exists>x2. ctx_receive T imp now (received (copy_message (st_channelId st) sq bc pos data)) x' =
       Some ([ChannelData () (st_channelId st) sq bc pos data], x2)"
    by (rule channel_data [OF assms(6,7) f assms(8)])
  ultimately show ?thesis using f by blast
qed


definition open_connection :: "(link, unit) connection" where
  "open_connection = stream_connection\<lparr>cn_channels := (\<lambda>_. None)(5 \<mapsto> ())\<rparr>"

lemma sample_detach:
  obtains e1 x' st' c' where "detach sample_stream_env (stream_context\<lparr>cx_connection := Some open_connection\<rparr>) attached_stream = Some (e1, x', st')"
    and "cx_connection x' = Some c'" and "\<not> p_isPassthrough (cn_proto c')"
proof -
  let ?T = "tcp_transport False False" and ?x = "stream_context\<lparr>cx_connection := Some open_connection\<rparr>"
  let ?m = "new_message INC_MSG_STREAM_CLOSE 5 1"
  obtain c1 where n: "conn_nextSequence open_connection = (1, c1)"
      and c1: "p_nextOp (cn_proto c1) = 0" "cn_device c1 = quiet_link" "p_sendQueue (cn_proto c1) = []" "\<not> p_isPassthrough (cn_proto c1)"
    by (simp add: conn_nextSequence_def nextSequence_def open_connection_def stream_connection_def new_connection_def new_proto_def)
  have v: "isValid ?m" "is_tracked ?m"
    by (simp_all add: is_tracked_def isValid_def new_message_def payload_size_def new_tag_struct_def INC_MSG_STREAM_CLOSE_def INC_MSG_INVALID_def
        INC_MSG_FLAG_NONE_def MAX_MESSAGE_SIZE_def HEADER_SIZE_def)
  have w: "\<not> dv_isWritable (tr_device ?T) (cn_device c1)" "length (p_sendQueue (cn_proto c1)) < INC_MAX_SEND_QUEUE"
    by (simp_all add: c1 tcp_transport_def tcp_sender_def quiet_link_def INC_MAX_SEND_QUEUE_def)
  obtain op c2 where sm: "conn_sendMessage ?T ?m c1 = (op, [], c2)" using quiet_send [OF w v(1)] by blast
  obtain p d where ms: "sendMessage (tr_device ?T) ?m (cn_proto c1) (cn_device c1) = (op, [], p, d)" and c2: "cn_proto c2 = p"
    using sendMessage_errors sm by (fastforce simp: conn_sendMessage_def only_errors_def split: prod.splits)
  have op: "op = Some 0" "p_heap p 0 = Some (new_operation 1)"
    using sent_operation [OF ms v(2)] c1 by (auto simp: new_message_def)
  let ?x2 = "set_op_timeout 500 (Some 0) (?x\<lparr>cx_connection := Some c2\<rparr>)"
  have rl: "releaseChannel (ce_transport sample_stream_env) (st_channelId attached_stream) ?x = (Some 0, [], ?x2)"
    using n sm op by (simp add: sample_stream_env_def releaseChannel_def ctx_request_def ctx_send_def)
      (simp add: stream_context_def new_context_def default_context_options_def context_config.defs)
  obtain e1 s2 where s2: "stream_setState (ctx_state_of ?x) STREAM_DETACHING attached_stream = (e1, s2)" by fastforce
  have s2p: "st_pendingOps s2 = []" using stream_setState_frame [OF s2] by simp
  have fate: "op_fate T q ?x2 0 = None" for T q
    using op c2 by (simp add: op_fate_def set_op_timeout_def with_proto_def with_op_def setTimeout_running new_operation_def)
  have "detach sample_stream_env ?x attached_stream = Some (e1, with_proto (with_op 0 (setFinishedCallback True)) ?x2,
      s2\<lparr>st_pendingOps := [(0, onChannelReleased)]\<rparr>)"
    using detach_attached [OF _ _ _ s2 rl] s2p fate by (simp add: after_context_def track_op_def Let_def)
  moreover have "\<not> p_isPassthrough (cn_proto c2)" using passthrough_kept [OF sm] c1(4) by simp
  ultimately show ?thesis
    using that [of e1 _ _ "c2\<lparr>cn_proto := with_op 0 (setFinishedCallback True) (with_op 0 (setTimeout 500) (cn_proto c2))\<rparr>"]
    by (simp add: set_op_timeout_def with_proto_def with_op_def)
qed

lemma open_stream_inv: "stream_inv (stream_context\<lparr>cx_connection := Some open_connection\<rparr>) attached_stream"
  by (rule stream_context_with) (simp_all add: open_connection_def stream_connection_def new_connection_def new_proto_def)

theorem destroyed_stream_stays_registered_witness:
  "\<exists>evs x' st' c' x2. destroy_stream sample_stream_env (stream_context\<lparr>cx_connection := Some open_connection\<rparr>) attached_stream = Some (evs, x', st') \<and>
     cx_connection x' = Some c' \<and> cn_channels c' 5 = Some () \<and>
     ctx_receive (tcp_transport False False) (\<lambda>_ _ _ _ _ _. None) 0 (received (copy_message 5 1 True 0 [9])) x' = Some ([ChannelData () 5 1 True 0 [9]], x2)"
proof -
  let ?x = "stream_context\<lparr>cx_connection := Some open_connection\<rparr>"
  obtain e1 x1 s1 c1 where d: "detach sample_stream_env ?x attached_stream = Some (e1, x1, s1)" "cx_connection x1 = Some c1"
    "\<not> p_isPassthrough (cn_proto c1)" by (rule sample_detach)
  have "attached_stream\<lparr>st_timer := False\<rparr> = attached_stream" by (simp add: attached_stream_def new_stream_def)
  moreover obtain x' s' where c: "cleanupPendingOps x1 s1 = (x', s')" by fastforce
  ultimately have r: "destroy_stream sample_stream_env ?x attached_stream = Some (e1, x', s')" using d(1) by (simp add: destroy_stream_def)
  have pt: "p_isPassthrough (foldr (\<lambda>(i, k) q. deref_op i (with_op i f q)) ps p) = p_isPassthrough p" for f and ps :: "(nat \<times> stream_callback) list" and p
    by (induction ps) (auto simp: deref_op_def with_op_def Let_def)
  obtain c' where c': "cx_connection x' = Some c'" "\<not> p_isPassthrough (cn_proto c')"
    using c d(2,3) by (auto simp: cleanupPendingOps_def with_proto_def pt)
  have k: "cx_connection ?x = Some open_connection" "cn_channels open_connection (st_channelId attached_stream) = Some ()" "bytes_ok [9]"
    "st_state attached_stream = STREAM_ATTACHED"
    by (simp_all add: open_connection_def bytes_ok_def)
  from destroyed_stream_stays_registered [OF r open_stream_inv k(4,1,2) c'(1,2) k(3),
      of "tcp_transport False False" "\<lambda>_ _ _ _ _ _. None" 0 1 True 0] r c'(1)
  show ?thesis by auto
qed

text \<open>
  Detaching is announced as attaching: while the stream's mode is set, it has attempts left
  and its context is connected, an attached stream that detaches first announces that it is
  ATTACHING, not DETACHING; and one that detaches while it attaches announces nothing, asks the
  server for nothing, and goes on reporting ATTACHING although it is detached.
\<close>

theorem detaching_is_announced_as_attaching:
  fixes x :: "'d client_context"
  assumes "detach E x st = Some (evs, x', st')" and "stream_inv x st" and "st_state st = st_customState st"
    and "st_mode st AND MODE_READWRITE \<noteq> 0" and "st_attempts st < st_maxAttempts st"
  shows "(st_state st = STREAM_ATTACHED \<longrightarrow> (\<exists>es. evs = StreamStateChanged STREAM_ATTACHED STREAM_ATTACHING # es)) \<and>
    (st_state st = STREAM_ATTACHING \<longrightarrow> evs = [] \<and> st_state st' = STREAM_DETACHED \<and> st_customState st' = STREAM_ATTACHING \<and>
       (\<forall>c c'. cx_connection x = Some c \<longrightarrow> cx_connection x' = Some c' \<longrightarrow>
          p_sendQueue (cn_proto c') = p_sendQueue (cn_proto c) \<and> cn_device c' = cn_device c \<and> cn_channels c' = cn_channels c))"
proof (intro conjI impI allI)
  assume s: "st_state st = STREAM_ATTACHED"
  have con: "ctx_state_of x = CTX_CONNECTED" using assms(2) s by (simp add: stream_inv_def connected_iff)
  have p: "st_pendingOps st = []" by (rule core_settled_pending) (use assms(2) s in \<open>simp_all add: stream_inv_def\<close>)
  have "\<exists>s2. stream_setState (ctx_state_of x) ns st = ([StreamStateChanged STREAM_ATTACHED STREAM_ATTACHING], s2)"
    if "ns = STREAM_DETACHED \<or> ns = STREAM_DETACHING" for ns
    using that assms(3-5) s con by (auto simp: stream_setState_def stream_state_of_def Let_def)
  then obtain sd sg where t: "stream_setState (ctx_state_of x) STREAM_DETACHED st = ([StreamStateChanged STREAM_ATTACHED STREAM_ATTACHING], sd)"
    "stream_setState (ctx_state_of x) STREAM_DETACHING st = ([StreamStateChanged STREAM_ATTACHED STREAM_ATTACHING], sg)" by blast
  show "\<exists>es. evs = StreamStateChanged STREAM_ATTACHED STREAM_ATTACHING # es"
  proof (cases "st_channelId st = 0")
    case True
    then show ?thesis using assms(1) s cleanup_none [OF p, of x] t(1) by (auto simp: detach_def)
  next
    case False
    obtain op cevs x2 where rl: "releaseChannel (ce_transport E) (st_channelId st) x = (op, cevs, x2)" by (metis prod_cases3)
    show ?thesis using assms(1) unfolding detach_attached [OF s False p t(2) rl]
      by (auto split: option.splits prod.splits dest!: map_option_Some)
  qed
next
  assume s: "st_state st = STREAM_ATTACHING"
  obtain x1 s1 where c: "cleanupPendingOps x st = (x1, s1)" by fastforce
  note f = cleanup_frame [OF c]
  have con: "ctx_state_of x1 = CTX_CONNECTED" using assms(2) s f(1) by (simp add: stream_inv_def connected_iff same_context_def)
  obtain s2 where t: "stream_setState (ctx_state_of x1) STREAM_DETACHED (s1\<lparr>st_channelId := 0\<rparr>) = ([], s2)"
    and s2: "st_state s2 = STREAM_DETACHED" "st_customState s2 = STREAM_ATTACHING"
    using assms(3-5) s con f(2) by (simp add: stream_setState_def stream_state_of_def Let_def)
  have e: "evs = []" "x' = x1" "st' = s2" using assms(1) s c f(2) t by (simp_all add: detach_def)
  show "evs = []" "st_state st' = STREAM_DETACHED" "st_customState st' = STREAM_ATTACHING" using e s2 by simp_all
  fix c c'
  assume k: "cx_connection x = Some c" "cx_connection x' = Some c'"
  have "p_sendQueue (foldr (\<lambda>(i, k) q. deref_op i (with_op i f q)) ps p) = p_sendQueue p" for f and ps :: "(nat \<times> stream_callback) list" and p
    by (induction ps) (auto simp: deref_op_def with_op_def Let_def)
  then show "p_sendQueue (cn_proto c') = p_sendQueue (cn_proto c)" "cn_device c' = cn_device c" "cn_channels c' = cn_channels c"
    using k c e(2) by (auto simp: cleanupPendingOps_def with_proto_def)
qed

theorem detaching_is_announced_as_attaching_witness:
  "\<exists>evs x' st'. detach sample_stream_env (stream_context\<lparr>cx_connection := Some open_connection\<rparr>) attached_stream =
     Some (StreamStateChanged STREAM_ATTACHED STREAM_ATTACHING # evs, x', st')"
proof -
  obtain e1 x1 s1 where d: "detach sample_stream_env (stream_context\<lparr>cx_connection := Some open_connection\<rparr>) attached_stream = Some (e1, x1, s1)"
    by (rule sample_detach)
  have "st_state attached_stream = st_customState attached_stream" "st_mode attached_stream AND MODE_READWRITE \<noteq> 0"
    "st_attempts attached_stream < st_maxAttempts attached_stream"
    by (simp_all add: MODE_READWRITE_def MODE_READ_def MODE_WRITE_def)
  from detaching_is_announced_as_attaching [OF d open_stream_inv this] d show ?thesis by auto
qed


section \<open>Abandoned channels, lost contexts and timeouts\<close>

text \<open>
  Data that the server broadcasts on a channel the client has not registered (one it stopped
  attaching to, or released after a timeout) dereferences the end of the channel map.
\<close>

theorem unregistered_channel_data_stops_client:
  assumes "cx_connection x = Some c" and "\<not> p_isPassthrough (cn_proto c)" and "cn_channels c ch = None" and "bytes_ok data"
  shows "stream_exec E (StreamContext (CtxReceive (received (copy_message ch sq True pos data)))) x st = None"
proof -
  obtain p d where m: "onMessageReceived (tr_device (ce_transport E)) (ce_import E) (received (copy_message ch sq True pos data)) (cn_proto c) (cn_device c)
      = ([BinaryDataReceived ch sq True pos data], p, d)"
    using copy_message_received [OF assms(4,2)] by (metis prod.collapse)
  then show ?thesis using assms(1,3) by (simp add: ctx_receive_def reap_def with_proto_def onBinaryDataReceived_def)
qed

text \<open>An allocation that times out is reported as error 0, the code of success, and asked for again.\<close>

theorem allocation_timeout_reports_ok:
  assumes "stream_op_timeout E i x st = Some (evs, x', st')" and "st_pendingOps st = [(i, onChannelAllocated)]"
    and "cx_connection x = Some c" and "p_heap (cn_proto c) i = Some op" and "op_state op = STATE_RUNNING" and "op_errorCode op = 0"
    and "st_state st = STREAM_ATTACHING" and "ctx_state_of x = CTX_CONNECTED" and "st_mode st AND MODE_READWRITE \<noteq> 0"
    and "st_attempts st < st_maxAttempts st"
  shows "StreamError (sint INC_OK) \<in> set evs \<and> st_state st' = STREAM_DETACHED \<and> st_timer st'"
proof -
  let ?x = "with_proto (with_op i onTimeout) x"
  obtain c1 where c1: "cx_connection ?x = Some c1" "p_heap (cn_proto c1) i = Some (onTimeout op)"
    using assms(3,4) by (auto simp: with_proto_def with_op_def)
  have o: "op_state (onTimeout op) = STATE_TIMEOUT" "op_errorCode (onTimeout op) = 0"
    using assms(5,6) by (simp_all add: op_simps)
  have fate: "op_fate (ce_transport E) (cx_connection x) ?x i = Some (op_ended (onTimeout op))" using c1 o by (simp add: op_fate_def)
  obtain y s where fo: "forget_op i ?x st = (y, s)" by fastforce
  have s: "s = st\<lparr>st_pendingOps := []\<rparr>" using forget_frame(2) [OF fo] assms(2) by simp
  obtain es t where t: "stream_setState CTX_CONNECTED STREAM_DETACHED s = (es, t)" by fastforce
  have tf: "st_state t = STREAM_DETACHED" "st_mode t = st_mode st" "st_attempts t = st_attempts st" "st_maxAttempts t = st_maxAttempts st"
    using t s by (auto simp: stream_setState_def Let_def split: if_splits)
  have "channel_allocated (ce_createPool E) CTX_CONNECTED i (op_ended (onTimeout op)) ?x st =
      Some (es @ [StreamError 0], y, stream_scheduleReconnect CTX_CONNECTED t)"
    using fo t o by (simp add: channel_allocated_def op_ended_def)
  then have "evs = es @ [StreamError 0] \<and> st' = stream_scheduleReconnect CTX_CONNECTED t"
    using assms(1,2,8) fate by (simp add: stream_op_timeout_def after_context_def run_stream_callback_def)
  moreover have "st_timer (stream_scheduleReconnect CTX_CONNECTED t)"
    using tf assms(9,10) by (simp add: stream_scheduleReconnect_def Let_def)
  ultimately show ?thesis using tf by (simp add: INC_OK_def)
qed

text \<open>
  While the context is not connected each tick of the stream's timer uses up an attempt; when they
  are used up the stream does not attach again although the context comes back.
\<close>

theorem attempts_run_out_while_disconnected:
  assumes "st_state st = STREAM_DETACHED" and "st_timer st" and "ctx_state_of x = CTX_CONNECTING"
    and "st_attempts st + 1 = st_maxAttempts st"
  shows "\<exists>st'. stream_timer_event E x st = Some ([], x, st') \<and> \<not> st_timer st' \<and> st_attempts st' = st_maxAttempts st' \<and>
    (\<forall>x'. onContextStateChanged CTX_CONNECTED x' st' = ([], x', st'))"
proof -
  let ?s = "st\<lparr>st_timer := False, st_attempts := st_attempts st + 1\<rparr>"
  have "attach E (st_mode st) x ?s = Some (False, [], x, ?s)" using assms(1,3) by (simp add: attach_def)
  then have "stream_timer_event E x st = Some ([], x, ?s)"
    using assms(2-4) by (simp add: stream_timer_event_def stream_scheduleReconnect_def)
  moreover have "onContextStateChanged CTX_CONNECTED x' ?s = ([], x', ?s)" for x' :: "'b client_context"
    using assms(4) by (simp add: onContextStateChanged_def stream_scheduleReconnect_def)
  ultimately show ?thesis using assms(4) by (intro exI [of _ ?s]) simp
qed

end
