(* ===== verification/Inc_Router.thy ===== *)
theory Inc_Router imports Inc_Server begin

text \<open>
  iINCRouter (src/core/inc/iincrouter.cpp, iincrouter.h): a server that opens a connection of its
  own to the routed target for each client, and forwards what comes in on either side. Clients are the
  connections of the underlying server; a bridge holds the other side. Signals are direct calls, as
  without an I/O thread. A protocol that is deleted later is kept until the event loop purges it.
  None is a use of an object that has been deleted, or a failed assertion.
\<close>

section \<open>State\<close>

definition CAP_ROUTER :: xuint32 where "CAP_ROUTER = 0x40"
definition INC_ERROR_SERVER_NOT_FOUND :: xint32 where "INC_ERROR_SERVER_NOT_FOUND = 0xE00A"
definition INC_ERROR_UPSTREAM_UNREACHABLE :: xint32 where "INC_ERROR_UPSTREAM_UNREACHABLE = 0xE00B"

record pending_forward =
  pf_op :: nat
  pf_data :: bytes
  pf_channel :: xuint32
  pf_seqNum :: xuint32

text \<open>ClientBridge; its downstream connection is the one whose number it is stored under.\<close>

record 'd bridge =
  br_device :: 'd
  br_proto :: proto
  br_upPayload :: bytes
  br_clientSeqNum :: xuint32
  br_handshakeComplete :: bool
  br_clientTargetServer :: ustring
  br_resolvedUrl :: ustring
  br_shmPassthrough :: bool
  br_pendingForwards :: "pending_forward list"

record route =
  ro_fromPattern :: ustring
  ro_toTarget :: ustring

text \<open>
  rt_relayed holds the connections whose own slot for binary data has been disconnected, rt_doomed
  the bridges' protocols that wait for their deletion.
\<close>

record 'd router =
  rt_server :: "'d server"
  rt_bridges :: "xuint32 \<Rightarrow> 'd bridge option"
  rt_routes :: "route list"
  rt_maxHopCount :: xuint8
  rt_relayed :: "xuint32 \<Rightarrow> bool"
  rt_doomed :: "(proto \<times> 'd) list"

text \<open>
  The surroundings: iRegularExpression (None: not a valid pattern), the device's address with its
  scheme, and the engine (None: no transport; else the device, whether it is open at once, and whether
  its monitoring starts).
\<close>

record 'd router_env =
  re_server :: "'d server_env"
  re_matches :: "ustring \<Rightarrow> ustring \<Rightarrow> bool option"
  re_peerAddress :: "'d \<Rightarrow> ustring"
  re_connect :: "ustring \<Rightarrow> ('d \<times> bool \<times> bool) option"

abbreviation re_transport :: "'d router_env \<Rightarrow> 'd transport" where
  "re_transport E \<equiv> se_transport (re_server E)"

datatype router_event =
    FromServer server_event
  | UpstreamConnected xuint32 ustring
  | UpstreamFailed xuint32 ustring xint32

type_synonym 'd routed = "(router_event list \<times> 'd router) option"

definition new_router :: "ustring \<Rightarrow> server_options \<Rightarrow> 'd router" where
  "new_router name opts = \<lparr>rt_server = new_server name opts, rt_bridges = (\<lambda>_. None), rt_routes = [], rt_maxHopCount = 8,
     rt_relayed = (\<lambda>_. False), rt_doomed = []\<rparr>"

definition addRoute :: "ustring \<Rightarrow> ustring \<Rightarrow> 'd router \<Rightarrow> 'd router" where
  "addRoute fromPattern toTarget r = r\<lparr>rt_routes := rt_routes r @ [\<lparr>ro_fromPattern = fromPattern, ro_toTarget = toTarget\<rparr>]\<rparr>"

definition clearRoutes :: "'d router \<Rightarrow> 'd router" where
  "clearRoutes r = r\<lparr>rt_routes := []\<rparr>"

definition setMaxHopCount :: "xuint8 \<Rightarrow> 'd router \<Rightarrow> 'd router" where
  "setMaxHopCount maxHops r = r\<lparr>rt_maxHopCount := maxHops\<rparr>"

fun route_lookup :: "(ustring \<Rightarrow> ustring \<Rightarrow> bool option) \<Rightarrow> ustring \<Rightarrow> route list \<Rightarrow> ustring" where
  "route_lookup matches addr [] = []"
| "route_lookup matches addr (e # es) =
     (case matches (ro_fromPattern e) addr of
        None \<Rightarrow> route_lookup matches addr es
      | Some hit \<Rightarrow> if hit then ro_toTarget e else route_lookup matches addr es)"

definition resolveRoute :: "'d router_env \<Rightarrow> 'd client \<Rightarrow> 'd router \<Rightarrow> ustring" where
  "resolveRoute E c r = route_lookup (re_matches E) (re_peerAddress E (cn_device c)) (rt_routes r)"

section \<open>Bridges\<close>

definition findBridge :: "xuint32 \<Rightarrow> 'd router \<Rightarrow> 'd bridge option" where
  "findBridge i r = rt_bridges r i"

definition put_bridge :: "xuint32 \<Rightarrow> 'd bridge \<Rightarrow> 'd router \<Rightarrow> 'd router" where
  "put_bridge i b r = r\<lparr>rt_bridges := (rt_bridges r)(i \<mapsto> b)\<rparr>"

definition cancelPendingForwards :: "'d bridge \<Rightarrow> 'd bridge" where
  "cancelPendingForwards b = b\<lparr>br_proto := fold (\<lambda>pf p. deref_op (pf_op pf) (with_op (pf_op pf) (setFinishedCallback False) p))
     (br_pendingForwards b) (br_proto b), br_pendingForwards := []\<rparr>"

definition removeBridge :: "xuint32 \<Rightarrow> 'd router \<Rightarrow> 'd router" where
  "removeBridge i r =
     (case rt_bridges r i of
        None \<Rightarrow> r
      | Some b \<Rightarrow>
          let b1 = cancelPendingForwards b
          in r\<lparr>rt_bridges := (rt_bridges r)(i := None), rt_doomed := rt_doomed r @ [(br_proto b1, br_device b1)]\<rparr>)"

text \<open>
  A call on the connection of client i. The server's signal clientDisconnected, the only one such a
  call emits, runs slotClientDisconnected. A connection that has been deleted is gone.
\<close>

definition slotClientDisconnected :: "server_event list \<Rightarrow> xuint32 \<Rightarrow> 'd router \<Rightarrow> 'd router" where
  "slotClientDisconnected evs i r = (if evs = [] then r else removeBridge i r)"

definition put_downstream :: "xuint32 \<Rightarrow> 'd client \<Rightarrow> 'd router \<Rightarrow> 'd router" where
  "put_downstream i c r = r\<lparr>rt_server := put_client i c (rt_server r)\<rparr>"

definition on_downstream :: "('d client \<Rightarrow> server_event list \<times> 'd client) \<Rightarrow> xuint32 \<Rightarrow> 'd router \<Rightarrow> 'd routed" where
  "on_downstream f i r =
     (case map_of (sv_objects (rt_server r)) i of
        None \<Rightarrow> None
      | Some c \<Rightarrow> (let (evs, c1) = f c in Some (map FromServer evs, slotClientDisconnected evs i (put_downstream i c1 r))))"

text \<open>Sending on a connection; the handle of the operation, if there is one, is dropped.\<close>

definition relay_client :: "'d transport \<Rightarrow> inc_message \<Rightarrow> 'd client \<Rightarrow> server_event list \<times> 'd client" where
  "relay_client T msg c =
     (let (op, errs, c1) = conn_sendMessage T msg c;
          (evs, c2) = (if errs \<noteq> [] then close_client T c1 else ([], c1))
      in (evs, conn_drop op c2))"

definition onUpstreamError :: "'d router_env \<Rightarrow> xuint32 \<Rightarrow> 'd router \<Rightarrow> 'd routed" where
  "onUpstreamError E i r = on_downstream (close_client (re_transport E)) i r"

definition onUpstreamDisconnected :: "'d router_env \<Rightarrow> xuint32 \<Rightarrow> 'd router \<Rightarrow> 'd routed" where
  "onUpstreamDisconnected E i r = on_downstream (close_client (re_transport E)) i r"

text \<open>A call on the upstream protocol, with the slot onUpstreamError; the handle is dropped.\<close>

definition drop_op :: "nat option \<Rightarrow> proto \<Rightarrow> proto" where
  "drop_op op p = (case op of None \<Rightarrow> p | Some j \<Rightarrow> deref_op j p)"

definition up_events :: "'d router_env \<Rightarrow> xuint32 \<Rightarrow> proto_event list \<Rightarrow> 'd router \<Rightarrow> 'd routed" where
  "up_events E i evs r = (if error_codes evs \<noteq> [] then onUpstreamError E i r else Some ([], r))"

definition up_send :: "'d router_env \<Rightarrow> inc_message \<Rightarrow> xuint32 \<Rightarrow> 'd router \<Rightarrow> 'd routed" where
  "up_send E msg i r =
     (case rt_bridges r i of
        None \<Rightarrow> None
      | Some b \<Rightarrow>
          (let (op, evs, p, d) = sendMessage (tr_device (re_transport E)) msg (br_proto b) (br_device b)
           in up_events E i evs (put_bridge i (b\<lparr>br_proto := drop_op op p, br_device := d\<rparr>) r)))"

text \<open>Two calls in a row.\<close>

definition routed_bind :: "'d routed \<Rightarrow> ('d router \<Rightarrow> 'd routed) \<Rightarrow> 'd routed" where
  "routed_bind x f =
     (case x of
        None \<Rightarrow> None
      | Some (evs, r) \<Rightarrow> (case f r of None \<Rightarrow> None | Some (evs', r') \<Rightarrow> Some (evs @ evs', r')))"

section \<open>From upstream\<close>

definition upstream_hello :: "xuint32 \<Rightarrow> bytes \<Rightarrow> inc_message" where
  "upstream_hello seqNum payload = (new_message INC_MSG_HANDSHAKE 0 seqNum)\<lparr>msg_payload := setData payload new_tag_struct\<rparr>"

definition handleUpstreamConnected :: "'d router_env \<Rightarrow> xuint32 \<Rightarrow> 'd router \<Rightarrow> 'd routed" where
  "handleUpstreamConnected E i r =
     (case rt_bridges r i of
        None \<Rightarrow> None
      | Some b \<Rightarrow>
          (let (sq, p) = nextSequence (br_proto b)
           in up_send E (upstream_hello sq (br_upPayload b)) i (put_bridge i (b\<lparr>br_proto := p\<rparr>) r)))"

text \<open>removeBridge, then close: the slot finds no bridge any more.\<close>

definition drop_client :: "'d router_env \<Rightarrow> xuint32 \<Rightarrow> 'd router \<Rightarrow> 'd routed" where
  "drop_client E i r = on_downstream (close_client (re_transport E)) i (removeBridge i r)"

definition identity_ok :: "'d bridge \<Rightarrow> handshake_data \<Rightarrow> bool" where
  "identity_ok b d \<longleftrightarrow> br_clientTargetServer b = [] \<or> br_clientTargetServer b = br_resolvedUrl b \<or>
     ends_with (br_clientTargetServer b) (hs_nodeName d)"

definition ack_data :: "handshake_data \<Rightarrow> handshake_data" where
  "ack_data d = new_handshake_data\<lparr>hs_protocolVersion := hs_protocolVersion d, hs_nodeName := hs_nodeName d, hs_nodeId := hs_nodeId d,
     hs_capabilities := hs_capabilities d OR CAP_ROUTER, hs_hopCount := hs_hopCount d\<rparr>"

definition client_ack :: "xuint32 \<Rightarrow> xuint32 \<Rightarrow> handshake_data \<Rightarrow> inc_message" where
  "client_ack connId seqNum d =
     (new_message INC_MSG_HANDSHAKE_ACK connId seqNum)\<lparr>msg_payload := setData (serializeHandshakeData (ack_data d)) new_tag_struct\<rparr>"

text \<open>
  An error while the acknowledgement is sent closes the client and deletes the bridge, which the rest of the
  function goes on using.
\<close>

definition router_handleHandshakeAck :: "'d router_env \<Rightarrow> inc_message \<Rightarrow> xuint32 \<Rightarrow> 'd router \<Rightarrow> 'd routed" where
  "router_handleHandshakeAck E msg i r =
     (case rt_bridges r i of
        None \<Rightarrow> None
      | Some b \<Rightarrow>
          (let (ok, d) = deserializeHandshakeData (m_data (msg_payload msg)) new_handshake_data in
           if \<not> ok \<or> \<not> identity_ok b d then drop_client E i r
           else
             (case map_of (sv_objects (rt_server r)) i of
                None \<Rightarrow> None
              | Some c \<Rightarrow>
                  (let (evs, c1) = relay_client (re_transport E) (client_ack (cn_connId c) (br_clientSeqNum b) d) c in
                   if evs \<noteq> [] then None
                   else
                     let c2 = c1\<lparr>cn_peerName := hs_nodeName d, cn_peerProtocol := hs_protocolVersion d,
                           cn_proto := (cn_proto c1)\<lparr>p_writeEvents := False\<rparr>, cn_handshake := None\<rparr>
                     in Some ([UpstreamConnected (cn_connId c2) (hs_nodeName d)],
                          put_bridge i (b\<lparr>br_handshakeComplete := True\<rparr>) (put_downstream i c2 r))))))"

text \<open>What is read of an acknowledged stream: whether a type of shared memory was granted.\<close>

definition stream_ack_shm :: "tag_struct \<Rightarrow> bool \<times> tag_struct" where
  "stream_ack_shm ts =
     (let (channelId, t1) = getUint32 ts; (info, t2) = getBool t1 in
      if info \<noteq> Some True then (False, t2)
      else let (type, t3) = getUint16 t2 in ((case type of None \<Rightarrow> False | Some t \<Rightarrow> t \<noteq> 0), t3))"

definition router_handleStreamOpenAck :: "inc_message \<Rightarrow> 'd bridge \<Rightarrow> inc_message \<times> 'd bridge" where
  "router_handleStreamOpenAck msg b =
     (let (granted, ts) = stream_ack_shm (msg_payload msg)
      in (msg\<lparr>msg_payload := ts\<rparr>, if granted then b\<lparr>br_shmPassthrough := True\<rparr> else b))"

definition onUpstreamMessage :: "'d router_env \<Rightarrow> inc_message \<Rightarrow> xuint32 \<Rightarrow> 'd router \<Rightarrow> 'd routed" where
  "onUpstreamMessage E msg i r =
     (if msg_type msg = INC_MSG_PING then up_send E (new_message INC_MSG_PONG (msg_channelID msg) (msg_seqNum msg)) i r
      else on_downstream (relay_client (re_transport E) msg) i r)"

definition handleUpstreamRawMessage :: "'d router_env \<Rightarrow> inc_message \<Rightarrow> xuint32 \<Rightarrow> 'd router \<Rightarrow> 'd routed" where
  "handleUpstreamRawMessage E msg i r =
     (case rt_bridges r i of
        None \<Rightarrow> None
      | Some b \<Rightarrow>
          if \<not> br_handshakeComplete b \<and> msg_type msg = INC_MSG_HANDSHAKE_ACK then router_handleHandshakeAck E msg i r
          else if \<not> br_handshakeComplete b then Some ([], r)
          else if msg_type msg = INC_MSG_STREAM_OPEN_ACK then
            (let (msg1, b1) = router_handleStreamOpenAck msg b in onUpstreamMessage E msg1 i (put_bridge i b1 r))
          else onUpstreamMessage E msg i r)"

text \<open>Binary data that the upstream protocol announces. A client closed while it is sent takes the bridge with it.\<close>

definition onUpstreamBinaryData :: "'d router_env \<Rightarrow> xuint32 \<Rightarrow> xuint32 \<Rightarrow> bool \<Rightarrow> xint64 \<Rightarrow> bytes \<Rightarrow> xuint32 \<Rightarrow> 'd router \<Rightarrow> 'd routed" where
  "onUpstreamBinaryData E channel seqNum broadcast pos data i r =
     routed_bind (on_downstream (\<lambda>c.
         (let (op, errs, c1) = conn_sendBinaryData (re_transport E) channel pos data None c;
              (evs, c2) = (if errs \<noteq> [] then close_client (re_transport E) c1 else ([], c1))
          in (evs, conn_drop op c2))) i r)
       (\<lambda>r1. if broadcast then Some ([], r1)
         else up_send E (code_reply INC_MSG_BINARY_DATA_ACK channel seqNum (word_of_int (int (length data)))) i r1)"

section \<open>From the client\<close>

definition forward_written :: "int \<Rightarrow> bytes \<Rightarrow> xint32" where
  "forward_written code data = (if code = 0 then word_of_int (int (length data)) else -1)"

text \<open>
  The finished callback of a forward whose operation ended with the code. When its reply cannot be sent
  the client is closed, and the forward and its bridge are deleted under the callback.
\<close>

definition onUpstreamForwardComplete :: "'d router_env \<Rightarrow> int \<Rightarrow> pending_forward \<Rightarrow> xuint32 \<Rightarrow> 'd router \<Rightarrow> 'd routed" where
  "onUpstreamForwardComplete E code pf i r =
     (case on_downstream (sendBinaryReply (re_transport E) (pf_channel pf) (pf_seqNum pf) False (forward_written code (pf_data pf))) i r of
        None \<Rightarrow> None
      | Some (evs, r1) \<Rightarrow>
          if evs \<noteq> [] then None
          else
            (case rt_bridges r1 i of
               None \<Rightarrow> None
             | Some b \<Rightarrow> Some ([], put_bridge i (b\<lparr>br_proto := deref_op (pf_op pf) (br_proto b),
                 br_pendingForwards := filter (\<lambda>x. pf_op x \<noteq> pf_op pf) (br_pendingForwards b)\<rparr>) r1)))"

text \<open>
  A reliable frame is forwarded with an operation, whose handle the pending forward keeps. An error
  deletes the bridge before the forward is added to its list.
\<close>

definition onDownstreamBinaryData :: "'d router_env \<Rightarrow> xuint32 \<Rightarrow> xuint32 \<Rightarrow> bool \<Rightarrow> xint64 \<Rightarrow> bytes \<Rightarrow> xuint32 \<Rightarrow> 'd router \<Rightarrow> 'd routed" where
  "onDownstreamBinaryData E channel seqNum broadcast pos data i r =
     (case rt_bridges r i of
        None \<Rightarrow> None
      | Some b \<Rightarrow>
          if \<not> br_handshakeComplete b then Some ([], r)
          else
            (let (op, evs, p, d) = sendBinaryData (tr_device (re_transport E)) channel broadcast pos data None (br_proto b) (br_device b) in
             if broadcast then up_events E i evs (put_bridge i (b\<lparr>br_proto := drop_op op p, br_device := d\<rparr>) r)
             else if error_codes evs \<noteq> [] then None
             else
               (case op of
                  None \<Rightarrow> on_downstream (sendBinaryReply (re_transport E) channel seqNum False (word_of_int (int (length data)))) i
                            (put_bridge i (b\<lparr>br_proto := p, br_device := d\<rparr>) r)
                | Some j \<Rightarrow>
                    let pf = \<lparr>pf_op = j, pf_data = data, pf_channel = channel, pf_seqNum = seqNum\<rparr>
                    in Some ([], put_bridge i (b\<lparr>br_proto := deref_op j (with_op j (setFinishedCallback True) (ref_op j p)), br_device := d,
                         br_pendingForwards := br_pendingForwards b @ [pf]\<rparr>) r))))"

text \<open>A stream request that asks for no shared memory.\<close>

definition stripped_open :: "inc_message \<Rightarrow> ustring \<Rightarrow> xuint32 \<Rightarrow> inc_message" where
  "stripped_open msg name mode = (new_message INC_MSG_STREAM_OPEN (msg_channelID msg) (msg_seqNum msg))
     \<lparr>msg_payload := putBool False (putUint32 mode (putString name new_tag_struct))\<rparr>"

definition router_handleStreamOpen :: "'d router_env \<Rightarrow> inc_message \<Rightarrow> xuint32 \<Rightarrow> 'd router \<Rightarrow> 'd routed" where
  "router_handleStreamOpen E msg i r =
     (case (rt_bridges r i, map_of (sv_objects (rt_server r)) i) of
        (Some b, Some c) \<Rightarrow>
          if isLocal (re_transport E) c \<and> tr_isLocal (re_transport E) (br_device b) then up_send E msg i r
          else
            (case stream_open_payload (msg_payload msg) of
               None \<Rightarrow> Some ([], r)
             | Some (name, mode, offer) \<Rightarrow> up_send E (stripped_open msg name mode) i r)
      | _ \<Rightarrow> None)"

section \<open>The client's handshake\<close>

definition upstream_data :: "bool \<Rightarrow> handshake_data \<Rightarrow> handshake_data" where
  "upstream_data local d = new_handshake_data\<lparr>hs_protocolVersion := hs_protocolVersion d, hs_nodeName := hs_nodeName d,
     hs_nodeId := hs_nodeId d, hs_authToken := hs_authToken d, hs_hopCount := hs_hopCount d + 1, hs_targetServer := [],
     hs_capabilities := (if local then hs_capabilities d else hs_capabilities d AND NOT CAP_STREAM)\<rparr>"

text \<open>configEventAbility(false, false) stops the monitoring of writes too.\<close>

definition pause_client :: "handshake_data \<Rightarrow> 'd client \<Rightarrow> 'd client" where
  "pause_client d c = c\<lparr>cn_proto := (cn_proto c)\<lparr>p_writeEvents := False\<rparr>, cn_peerName := hs_nodeName d, cn_peerProtocol := hs_protocolVersion d\<rparr>"

definition new_bridge :: "'d \<Rightarrow> xuint32 \<Rightarrow> ustring \<Rightarrow> ustring \<Rightarrow> bytes \<Rightarrow> 'd bridge" where
  "new_bridge dev seqNum target url payload = \<lparr>br_device = dev, br_proto = new_proto True, br_upPayload = payload, br_clientSeqNum = seqNum,
     br_handshakeComplete = False, br_clientTargetServer = target, br_resolvedUrl = url, br_shmPassthrough = False, br_pendingForwards = []\<rparr>"

definition open_bridge :: "'d router_env \<Rightarrow> 'd \<times> bool \<times> bool \<Rightarrow> inc_message \<Rightarrow> handshake_data \<Rightarrow> ustring \<Rightarrow> 'd client \<Rightarrow> xuint32 \<Rightarrow>
    'd router \<Rightarrow> 'd routed" where
  "open_bridge E transport msg d url c i r =
     (let (dev, opened, monitored) = transport;
          b = new_bridge dev (msg_seqNum msg) (hs_targetServer d) url (serializeHandshakeData (upstream_data (isLocal (re_transport E) c) d));
          r1 = (put_bridge i b r)\<lparr>rt_relayed := (rt_relayed r)(i := True)\<rparr>
      in routed_bind (if opened then handleUpstreamConnected E i r1 else Some ([], r1))
           (\<lambda>r2. if monitored then Some ([], r2)
             else map_option (\<lambda>(evs, r3). (UpstreamFailed i (hs_targetServer d) INC_ERROR_UPSTREAM_UNREACHABLE # evs, r3)) (drop_client E i r2)))"

definition handleRouterHandshake :: "'d router_env \<Rightarrow> inc_message \<Rightarrow> xuint32 \<Rightarrow> 'd router \<Rightarrow> 'd routed" where
  "handleRouterHandshake E msg i r =
     (case map_of (sv_objects (rt_server r)) i of
        None \<Rightarrow> None
      | Some c \<Rightarrow>
          (let shut = on_downstream (close_client (re_transport E)) i;
               (ok, d) = deserializeHandshakeData (m_data (msg_payload msg)) new_handshake_data;
               url = resolveRoute E c r
           in if findBridge i r \<noteq> None then shut r
              else if \<not> ok then shut r
              else if hs_hopCount d \<ge> rt_maxHopCount r then shut r
              else if url = [] then
                map_option (\<lambda>(evs, r1). (UpstreamFailed i (re_peerAddress E (cn_device c)) INC_ERROR_SERVER_NOT_FOUND # evs, r1)) (shut r)
              else
                let c1 = pause_client d c; r1 = put_downstream i c1 r
                in case re_connect E url of
                     None \<Rightarrow> map_option (\<lambda>(evs, r2). (UpstreamFailed i url INC_ERROR_UPSTREAM_UNREACHABLE # evs, r2)) (shut r1)
                   | Some transport \<Rightarrow> open_bridge E transport msg d url c1 i r1))"

definition router_onConnectionMessageReceived :: "'d router_env \<Rightarrow> inc_message \<Rightarrow> xuint32 \<Rightarrow> 'd router \<Rightarrow> 'd routed" where
  "router_onConnectionMessageReceived E msg i r =
     (if expired (se_now (re_server E)) msg then Some ([], r)
      else if msg_type msg = INC_MSG_HANDSHAKE then handleRouterHandshake E msg i r
      else if msg_type msg = INC_MSG_PING then
        on_downstream (relay_client (re_transport E) (new_message INC_MSG_PONG (msg_channelID msg) (msg_seqNum msg))) i r
      else if msg_type msg = INC_MSG_PONG then Some ([], r)
      else
        (case findBridge i r of
           None \<Rightarrow> Some ([], r)
         | Some b \<Rightarrow>
             if \<not> br_handshakeComplete b then Some ([], r)
             else if msg_type msg = INC_MSG_STREAM_OPEN then router_handleStreamOpen E msg i r
             else up_send E msg i r))"

section \<open>The router\<close>

text \<open>
  A signal of a client's protocol. A client whose own slot for binary data is disconnected and whose
  bridge is gone has no receiver for it; before, the connection's slot finds no channel.
\<close>

definition downstream_event :: "'d router_env \<Rightarrow> xuint32 \<Rightarrow> proto_event \<Rightarrow> 'd router \<Rightarrow> 'd routed" where
  "downstream_event E i ev r =
     (case ev of
        MessageReceived msg \<Rightarrow> router_onConnectionMessageReceived E msg i r
      | ErrorOccurred code \<Rightarrow> on_downstream (close_client (re_transport E)) i r
      | BinaryDataReceived channel seqNum broadcast pos data \<Rightarrow>
          if rt_bridges r i \<noteq> None then onDownstreamBinaryData E channel seqNum broadcast pos data i r
          else if rt_relayed r i then Some ([], r)
          else
            (case map_of (sv_objects (rt_server r)) i of
               None \<Rightarrow> None
             | Some c \<Rightarrow>
                 (case onBinaryDataReceived (re_transport E) channel seqNum broadcast c of
                    None \<Rightarrow> None
                  | Some (ps, errs, c1) \<Rightarrow>
                      on_downstream (if errs \<noteq> [] then close_client (re_transport E) else Pair []) i (put_downstream i c1 r))))"

fun downstream_events :: "'d router_env \<Rightarrow> xuint32 \<Rightarrow> proto_event list \<Rightarrow> 'd router \<Rightarrow> 'd routed" where
  "downstream_events E i [] r = Some ([], r)"
| "downstream_events E i (ev # evs) r = routed_bind (downstream_event E i ev r) (downstream_events E i evs)"

definition downstream_receive :: "'d router_env \<Rightarrow> inc_message \<Rightarrow> xuint32 \<Rightarrow> 'd router \<Rightarrow> 'd routed" where
  "downstream_receive E msg i r =
     (case map_of (sv_objects (rt_server r)) i of
        None \<Rightarrow> Some ([], r)
      | Some c \<Rightarrow>
          (let (pevs, p, d) = onMessageReceived (tr_device (re_transport E)) (se_import (re_server E)) msg (cn_proto c) (cn_device c)
           in downstream_events E i pevs (put_downstream i (c\<lparr>cn_proto := p, cn_device := d\<rparr>) r)))"

text \<open>The callbacks of the forwards whose operations the upstream protocol has finished.\<close>

definition forward_code :: "proto \<Rightarrow> pending_forward \<Rightarrow> int option" where
  "forward_code p pf =
     (case p_heap p (pf_op pf) of
        None \<Rightarrow> None
      | Some o1 \<Rightarrow> if op_state o1 = STATE_RUNNING then None else Some (op_errorCode o1))"

fun run_forwards :: "'d router_env \<Rightarrow> xuint32 \<Rightarrow> proto \<Rightarrow> pending_forward list \<Rightarrow> 'd router \<Rightarrow> 'd routed" where
  "run_forwards E i p [] r = Some ([], r)"
| "run_forwards E i p (pf # pfs) r =
     (case forward_code p pf of
        None \<Rightarrow> run_forwards E i p pfs r
      | Some code \<Rightarrow> routed_bind (onUpstreamForwardComplete E code pf i r) (run_forwards E i p pfs))"

text \<open>A signal of the upstream protocol; the slots of a deleted bridge are disconnected.\<close>

definition upstream_event :: "'d router_env \<Rightarrow> xuint32 \<Rightarrow> proto_event \<Rightarrow> 'd router \<Rightarrow> 'd routed" where
  "upstream_event E i ev r =
     (if rt_bridges r i = None then Some ([], r)
      else (case ev of
              MessageReceived msg \<Rightarrow> handleUpstreamRawMessage E msg i r
            | ErrorOccurred code \<Rightarrow> onUpstreamError E i r
            | BinaryDataReceived channel seqNum broadcast pos data \<Rightarrow> onUpstreamBinaryData E channel seqNum broadcast pos data i r))"

fun upstream_events :: "'d router_env \<Rightarrow> xuint32 \<Rightarrow> proto_event list \<Rightarrow> 'd router \<Rightarrow> 'd routed" where
  "upstream_events E i [] r = Some ([], r)"
| "upstream_events E i (ev # evs) r = routed_bind (upstream_event E i ev r) (upstream_events E i evs)"

definition upstream_receive :: "'d router_env \<Rightarrow> inc_message \<Rightarrow> xuint32 \<Rightarrow> 'd router \<Rightarrow> 'd routed" where
  "upstream_receive E msg i r =
     (case rt_bridges r i of
        None \<Rightarrow> Some ([], r)
      | Some b \<Rightarrow>
          (let (pevs, p, d) = onMessageReceived (tr_device (re_transport E)) (se_import (re_server E)) msg (br_proto b) (br_device b)
           in routed_bind (run_forwards E i p (br_pendingForwards b) (put_bridge i (b\<lparr>br_proto := p, br_device := d\<rparr>) r))
                (upstream_events E i pevs)))"

text \<open>A write event, and the opening, of the upstream device.\<close>

definition upstream_ready :: "'d router_env \<Rightarrow> xuint32 \<Rightarrow> 'd router \<Rightarrow> 'd routed" where
  "upstream_ready E i r =
     (case rt_bridges r i of
        None \<Rightarrow> Some ([], r)
      | Some b \<Rightarrow>
          (let (pevs, p, d) = onReadyWrite (tr_device (re_transport E)) (br_proto b) (br_device b)
           in upstream_events E i pevs (put_bridge i (b\<lparr>br_proto := p, br_device := d\<rparr>) r)))"

definition upstream_opened :: "'d router_env \<Rightarrow> 'd \<Rightarrow> xuint32 \<Rightarrow> 'd router \<Rightarrow> 'd routed" where
  "upstream_opened E dev i r =
     (case rt_bridges r i of
        None \<Rightarrow> Some ([], r)
      | Some b \<Rightarrow>
          (let (pevs, p, d) = onDeviceConnected (tr_device (re_transport E)) (br_proto b) dev
           in routed_bind (upstream_events E i pevs (put_bridge i (b\<lparr>br_proto := p, br_device := d\<rparr>) r))
                (\<lambda>r1. if rt_bridges r1 i = None then Some ([], r1) else handleUpstreamConnected E i r1)))"

text \<open>
  The destructor: the bridges' callbacks are detached and their protocols destroyed. Those already
  doomed are destroyed by the event loop.
\<close>

definition destroy_bridge :: "'d bridge \<Rightarrow> proto" where
  "destroy_bridge b = destroy_proto (br_proto (cancelPendingForwards b))"

text \<open>
  What happens to a router: calls of its user, a new client, messages, write events and errors of a
  client, the same of its upstream, and the event loop's deletions. An error of the upstream device itself
  reaches nobody: only its protocol's errors and its closing are connected.
\<close>

datatype 'd router_cmd =
    RtAddRoute ustring ustring
  | RtClearRoutes
  | RtSetMaxHopCount xuint8
  | RtAccept 'd bool ustring
  | RtReceive xuint32 inc_message
  | RtReady xuint32
  | RtDeviceError xuint32
  | RtUpstreamOpened xuint32 'd
  | RtUpstreamReceive xuint32 inc_message
  | RtUpstreamReady xuint32
  | RtUpstreamDeviceError xuint32
  | RtUpstreamDisconnected xuint32
  | RtPurge
  | RtClose

text \<open>An event of a client that is no longer there does not happen.\<close>

definition if_client :: "(xuint32 \<Rightarrow> 'd router \<Rightarrow> 'd routed) \<Rightarrow> xuint32 \<Rightarrow> 'd router \<Rightarrow> 'd routed" where
  "if_client f i r = (if map_of (sv_objects (rt_server r)) i = None then Some ([], r) else f i r)"

fun router_exec :: "'d router_env \<Rightarrow> 'd router_cmd \<Rightarrow> 'd router \<Rightarrow> 'd routed" where
  "router_exec E (RtAddRoute pattern target) r = Some ([], addRoute pattern target r)"
| "router_exec E RtClearRoutes r = Some ([], clearRoutes r)"
| "router_exec E (RtSetMaxHopCount n) r = Some ([], setMaxHopCount n r)"
| "router_exec E (RtAccept dev started nid) r =
     (let (evs, s) = handleNewConnection dev started nid (rt_server r)
      in Some (map FromServer evs, r\<lparr>rt_server := s, rt_relayed := (\<lambda>i. ClientConnected i \<notin> set evs \<and> rt_relayed r i)\<rparr>))"
| "router_exec E (RtReceive i msg) r = downstream_receive E msg i r"
| "router_exec E (RtReady i) r = if_client (on_downstream (client_ready (re_transport E))) i r"
| "router_exec E (RtDeviceError i) r = if_client (on_downstream (close_client (re_transport E))) i r"
| "router_exec E (RtUpstreamOpened i dev) r = upstream_opened E dev i r"
| "router_exec E (RtUpstreamReceive i msg) r = upstream_receive E msg i r"
| "router_exec E (RtUpstreamReady i) r = upstream_ready E i r"
| "router_exec E (RtUpstreamDeviceError i) r = Some ([], r)"
| "router_exec E (RtUpstreamDisconnected i) r = (if rt_bridges r i = None then Some ([], r) else onUpstreamDisconnected E i r)"
| "router_exec E RtPurge r =
     Some ([], r\<lparr>rt_server := (rt_server r)\<lparr>sv_objects := m_connections (rt_server r)\<rparr>, rt_doomed := []\<rparr>)"
| "router_exec E RtClose r = Some ([], r\<lparr>rt_server := server_close (rt_server r)\<rparr>)"

fun router_run :: "'d router_env \<Rightarrow> 'd router_cmd list \<Rightarrow> 'd router \<Rightarrow> 'd routed" where
  "router_run E [] r = Some ([], r)"
| "router_run E (cmd # cmds) r = routed_bind (router_exec E cmd r) (router_run E cmds)"

end
