(* ===== verification/Router_Laws.thy ===== *)
theory Router_Laws imports Inc_Router Context_Laws begin

text \<open>
  Laws of the router: an invariant of its clients, its bridges and the protocols it has given up, kept
  by every call, message and event; what a call on one side leaves of the other.
\<close>

section \<open>What sending does to a protocol\<close>

text \<open>Old operations stay as they are; new ones have no callback.\<close>

definition grows :: "proto \<Rightarrow> proto \<Rightarrow> bool" where
  "grows p p' \<longleftrightarrow> p_isPassthrough p' = p_isPassthrough p \<and> p_memPool p' = p_memPool p \<and> p_nextOp p \<le> p_nextOp p' \<and>
     (\<forall>j<p_nextOp p. p_heap p' j = p_heap p j) \<and>
     (\<forall>j op. p_nextOp p \<le> j \<longrightarrow> p_heap p' j = Some op \<longrightarrow> p_heap p j = Some op \<or> \<not> op_callback op)"

lemma grows_refl [simp]: "grows p p" by (simp add: grows_def)

lemma grows_trans: "grows a b \<Longrightarrow> grows b c \<Longrightarrow> grows a c"
  unfolding grows_def by (elim conjE, intro conjI allI impI) (simp_all, metis not_less order_trans)

lemma grows_frame:
  "p_isPassthrough p' = p_isPassthrough p \<Longrightarrow> p_memPool p' = p_memPool p \<Longrightarrow> p_nextOp p' = p_nextOp p \<Longrightarrow> p_heap p' = p_heap p \<Longrightarrow>
   grows p p'"
  by (simp add: grows_def)

lemma grows_fields [simp]:
  "grows p (meter f p)" "grows p (p\<lparr>p_seqCounter := sq\<rparr>)" "grows p (cache_fd fd p)" "grows p (p\<lparr>p_writeEvents := w\<rparr>)"
  by (simp_all add: grows_def meter_def cache_fd_def)

lemma grows_onReadyWrite: "onReadyWrite D p d = (evs, p', d') \<Longrightarrow> grows p p'"
  by (auto dest!: onReadyWrite_frame intro: grows_frame)

lemma grows_drop: "grows p p' \<Longrightarrow> (\<And>i. op = Some i \<Longrightarrow> p_nextOp p \<le> i) \<Longrightarrow> grows p (drop_op op p')"
  by (cases op) (auto simp: grows_def drop_op_def deref_op_def Let_def)

lemma grows_sendMessageImpl:
  assumes "sendMessageImpl D msg op p d = (evs, p', d')" and "\<And>i. op = Some i \<Longrightarrow> n \<le> i \<and> (\<forall>o1. p_heap p i = Some o1 \<longrightarrow> \<not> op_callback o1)"
    and "n \<le> p_nextOp p"
  shows "p_isPassthrough p' = p_isPassthrough p \<and> p_memPool p' = p_memPool p \<and> p_nextOp p' = p_nextOp p \<and>
    (\<forall>j<n. p_heap p' j = p_heap p j) \<and> (\<forall>j o1. p_heap p' j = Some o1 \<longrightarrow> p_heap p j = Some o1 \<or> \<not> op_callback o1)"
proof (cases "length (p_sendQueue p) < INC_MAX_SEND_QUEUE")
  case True
  then have w: "onReadyWrite D (enqueue msg op p) d = (evs, p', d')" using assms(1) by (simp add: sendMessageImpl_accept)
  have "p_isPassthrough (enqueue msg op p) = p_isPassthrough p" by (simp add: enqueue_def meter_def ops_put_def Let_def split: option.split)
  with onReadyWrite_frame [OF w] show ?thesis by (auto simp: enqueue_simps)
next
  case False
  then have p': "p' = (case op of Some i \<Rightarrow> deref_op i (with_op i (setResult (int INC_ERROR_QUEUE_FULL) []) (meter onSendQueueDrop p)) | None \<Rightarrow> meter onSendQueueDrop p)"
    using assms(1) by (auto simp: sendMessageImpl_def Let_def)
  show ?thesis using assms(2) unfolding p'
    by (cases op) (auto simp: deref_op_def with_op_def meter_def Let_def op_simps split: if_splits)
qed

lemma grows_sendMessage:
  assumes "sendMessage D msg p d = (op, evs, p', d')"
  shows "grows p p'" and "op = Some i \<Longrightarrow> i = p_nextOp p" and "op = None \<longleftrightarrow> \<not> is_tracked msg"
proof -
  show "op = Some i \<Longrightarrow> i = p_nextOp p" and "op = None \<longleftrightarrow> \<not> is_tracked msg"
    using assms by (auto simp: sendMessage_def alloc_op_def split: if_splits)
  show "grows p p'"
  proof (cases "is_tracked msg")
    case True
    let ?q = "snd (alloc_op (msg_seqNum msg) p)" and ?i = "p_nextOp p"
    show ?thesis
    proof (cases "isValid msg")
      case True
      then have "sendMessageImpl D msg (Some ?i) (ref_op ?i ?q) d = (evs, p', d')"
        using assms \<open>is_tracked msg\<close> by (auto simp: sendMessage_def alloc_op_def)
      note f = grows_sendMessageImpl [OF this, of ?i]
      have q: "p_heap (ref_op ?i ?q) = (p_heap p)(?i \<mapsto> new_operation (msg_seqNum msg))" "p_nextOp (ref_op ?i ?q) = p_nextOp p + 1"
        "p_isPassthrough (ref_op ?i ?q) = p_isPassthrough p" "p_memPool (ref_op ?i ?q) = p_memPool p"
        by (simp_all add: alloc_op_def ref_op_def)
      have c: "\<not> op_callback (new_operation k)" for k by (simp add: new_operation_def)
      have "p_isPassthrough p' = p_isPassthrough p" "p_memPool p' = p_memPool p" "p_nextOp p' = p_nextOp p + 1"
        "\<forall>j<?i. p_heap p' j = p_heap p j" and h: "\<And>j o1. p_heap p' j = Some o1 \<Longrightarrow> ((p_heap p)(?i \<mapsto> new_operation (msg_seqNum msg))) j = Some o1 \<or> \<not> op_callback o1"
        using f c unfolding q by simp_all
      moreover have "p_heap p j = Some o1 \<or> \<not> op_callback o1" if "p_heap p' j = Some o1" for j o1
        using h [OF that] c by (cases "j = ?i") auto
      ultimately show ?thesis unfolding grows_def by simp
    next
      case False
      then have "p' = with_op ?i (setResult (int INC_ERROR_MESSAGE_TOO_LARGE) []) ?q"
        using assms \<open>is_tracked msg\<close> by (auto simp: sendMessage_def alloc_op_def)
      then show ?thesis by (auto simp: grows_def alloc_op_def with_op_def new_operation_def op_simps)
    qed
  next
    case False
    then show ?thesis using assms grows_sendMessageImpl [of D msg None p d evs p' d' "p_nextOp p"]
      by (auto simp: sendMessage_def grows_def split: if_splits)
  qed
qed

lemma grows_sendBinaryData:
  assumes "sendBinaryData D ch bc pos data None p d = (op, evs, p', d')"
  shows "grows p p'" and "op = Some i \<Longrightarrow> i = p_nextOp p" and "op = None \<longleftrightarrow> bc"
proof -
  let ?m = "(new_message INC_MSG_BINARY_DATA ch (p_seqCounter p))
        \<lparr>msg_flags := (if bc then INC_MSG_FLAG_NOACK else INC_MSG_FLAG_NONE), msg_payload := putBytes data (putInt64 pos new_tag_struct)\<rparr>"
  let ?q = "meter (onBinaryFrameSent (length data) \<circ> onShmMiss) (p\<lparr>p_seqCounter := p_seqCounter p + 1\<rparr>)"
  have s: "sendMessage D ?m ?q d = (op, evs, p', d')"
    using assms by (auto simp: sendBinaryData_def nextSequence_def Let_def split: if_splits)
  have q: "grows p ?q" by (simp add: grows_def meter_def)
  show "grows p p'" by (rule grows_trans [OF q grows_sendMessage(1) [OF s]])
  show "op = Some i \<Longrightarrow> i = p_nextOp p" using grows_sendMessage(2) [OF s] by (simp add: meter_def)
  have "is_tracked ?m \<longleftrightarrow> \<not> bc"
    by (simp add: is_tracked_def new_message_def INC_MSG_BINARY_DATA_def INC_MSG_FLAG_NOACK_def INC_MSG_FLAG_NONE_def)
  then show "op = None \<longleftrightarrow> bc" using grows_sendMessage(3) [OF s] by simp
qed

text \<open>A message that a passthrough protocol receives: at most the operation it completes changes.\<close>

lemma passthrough_receives:
  assumes "onMessageReceived D imp msg p d = (evs, p', d')" and "p_isPassthrough p"
  shows "evs = [MessageReceived msg]" "d' = d" "p' = complete_op msg (meter (onMessageReceivedMetric (payload_size msg)) (cache_fd (msg_extFd msg) p))"
proof -
  have pt: "p_isPassthrough (complete_op msg (meter f (cache_fd fd p)))" for f fd using assms(2)
    by (auto simp: complete_op_def meter_def cache_fd_def Let_def ops_erase_def processRelease_def deref_op_def with_op_def split: option.splits)
  show "evs = [MessageReceived msg]" "d' = d" "p' = complete_op msg (meter (onMessageReceivedMetric (payload_size msg)) (cache_fd (msg_extFd msg) p))"
    using assms(1) by (auto simp: onMessageReceived_def Let_def pt)
qed

lemma complete_op_frame:
  "p_isPassthrough (complete_op msg p) = p_isPassthrough p" "p_memPool (complete_op msg p) = p_memPool p"
  "p_nextOp (complete_op msg p) = p_nextOp p"
  "p_heap (complete_op msg p) j = Some o1 \<Longrightarrow> op_state o1 = STATE_RUNNING \<Longrightarrow> p_heap p j = Some o1"
  by (auto simp: complete_op_def meter_def Let_def ops_erase_def processRelease_def deref_op_def with_op_def setResult_finishes
      split: option.splits if_splits)

section \<open>Clients\<close>

text \<open>A client of a router never has shared memory or a channel.\<close>

definition client_plain :: "xuint32 \<Rightarrow> 'd client \<Rightarrow> bool" where
  "client_plain i c \<longleftrightarrow> cn_connId c = i \<and> \<not> p_isPassthrough (cn_proto c) \<and> \<not> p_memPool (cn_proto c) \<and> cn_channels c = (\<lambda>_. None)"

lemma plain_frame:
  "cn_connId c' = cn_connId c \<Longrightarrow> p_isPassthrough (cn_proto c') = p_isPassthrough (cn_proto c) \<Longrightarrow>
   p_memPool (cn_proto c') = p_memPool (cn_proto c) \<Longrightarrow> cn_channels c' = cn_channels c \<Longrightarrow> client_plain i c' = client_plain i c"
  by (simp add: client_plain_def)

lemma plain_grows: "conn_frame c c' \<Longrightarrow> grows (cn_proto c) (cn_proto c') \<Longrightarrow> client_plain i c' = client_plain i c"
  by (rule plain_frame) (simp_all add: conn_frame_simps grows_def)

lemma grows_conn:
  "conn_sendMessage T m c = (op, es, c') \<Longrightarrow> grows (cn_proto c) (cn_proto c')"
  "conn_sendBinaryData T ch pos data None c = (op, es, c') \<Longrightarrow> grows (cn_proto c) (cn_proto c')"
  by (auto simp: conn_sendMessage_def conn_sendBinaryData_def dest: grows_sendMessage(1) grows_sendBinaryData(1) split: prod.splits)

lemma plain_send:
  "conn_sendMessage T m c = (op, es, c') \<Longrightarrow> client_plain i c' = client_plain i c"
  "conn_sendBinaryData T ch pos data None c = (op, es, c') \<Longrightarrow> client_plain i c' = client_plain i c"
  by (rule plain_grows, erule conn_frame_send, erule grows_conn)+

lemma cancel_loop_frame: "p_isPassthrough (cancel_loop code ops p) = p_isPassthrough p \<and> p_memPool (cancel_loop code ops p) = p_memPool p"
  by (induction code ops p rule: cancel_loop.induct)
    (simp_all add: deref_op_def with_op_def release_slot_def processRelease_def Let_def)

lemma plain_close: "close_client T c = (evs, c') \<Longrightarrow> client_plain i c \<Longrightarrow> client_plain i c'"
  by (auto simp: close_client_def conn_close_def client_plain_def cancelAllOperations_def cancel_loop_frame clearChannels_def split: if_splits)

lemma plain_drop [simp]: "client_plain i (conn_drop op c) = client_plain i c"
  by (rule plain_frame) (simp_all add: conn_drop_def deref_op_def Let_def split: option.split)

lemma plain_relay: "relay_client T m c = (evs, c') \<Longrightarrow> client_plain i c \<Longrightarrow> client_plain i c'"
  by (auto simp: relay_client_def plain_send(1) dest: plain_close split: prod.splits if_splits)

lemma plain_replies:
  "sendBinaryReply T ch sq bc n c = (evs, c') \<Longrightarrow> client_plain i c \<Longrightarrow> client_plain i c'"
  "client_ready T c = (evs, c') \<Longrightarrow> client_plain i c \<Longrightarrow> client_plain i c'"
proof -
  assume "sendBinaryReply T ch sq bc n c = (evs, c')" "client_plain i c"
  then show "client_plain i c'"
    by (auto simp: sendBinaryReply_def send_client_def plain_send(1) dest: plain_close split: prod.splits if_splits)
next
  assume r: "client_ready T c = (evs, c')" and c: "client_plain i c"
  obtain pevs p d where w: "onReadyWrite (tr_device T) (cn_proto c) (cn_device c) = (pevs, p, d)" by (metis prod_cases3)
  have "client_plain i (c\<lparr>cn_proto := p, cn_device := d\<rparr>)" using c grows_onReadyWrite [OF w] by (simp add: client_plain_def grows_def)
  then show "client_plain i c'" using r w by (auto simp: client_ready_def Let_def dest: plain_close split: if_splits)
qed

lemma plain_receive:
  assumes "onMessageReceived D imp msg (cn_proto c) (cn_device c) = (evs, p, d)" and "client_plain i c"
  shows "client_plain i (c\<lparr>cn_proto := p, cn_device := d\<rparr>)"
proof -
  have s: "p_isPassthrough q' = p_isPassthrough q \<and> p_memPool q' = p_memPool q" if "send_reply D m q d1 = (es, q', d2)" for m q d1 es q' d2
    using that grows_sendMessage(1) unfolding send_reply_def grows_def by (metis prod.collapse snd_conv)
  have "p_isPassthrough p = p_isPassthrough (cn_proto c) \<and> p_memPool p = p_memPool (cn_proto c)"
    using assms(1) by (auto simp: onMessageReceived_def Let_def processBinaryDataMessage_def processDirectBinaryData_def
      processSHMBinaryData_def complete_op_frame meter_def cache_fd_def dest!: s split: if_splits option.splits prod.splits)
  then show ?thesis using assms(2) by (simp add: client_plain_def)
qed

section \<open>Bridges\<close>

text \<open>The operations that call back when they end.\<close>

definition callbacks :: "proto \<Rightarrow> nat set" where
  "callbacks p = {j. \<exists>op. p_heap p j = Some op \<and> op_callback op \<and> op_state op = STATE_RUNNING}"

definition forward_ops :: "'d bridge \<Rightarrow> nat list" where
  "forward_ops b = map pf_op (br_pendingForwards b)"

text \<open>
  The bridge holds the operations of its pending forwards, the only ones that will call back when they
  end, and has none before its handshake.
\<close>

definition bridge_ok :: "'d bridge \<Rightarrow> bool" where
  "bridge_ok b \<longleftrightarrow> p_isPassthrough (br_proto b) \<and> \<not> p_memPool (br_proto b) \<and> distinct (forward_ops b) \<and>
     owned (count_list (forward_ops b)) (br_proto b) \<and> callbacks (br_proto b) \<subseteq> set (forward_ops b) \<and>
     (\<not> br_handshakeComplete b \<longrightarrow> br_pendingForwards b = [])"

definition bridge_idle :: "'d bridge \<Rightarrow> bool" where
  "bridge_idle b \<longleftrightarrow> (\<forall>pf\<in>set (br_pendingForwards b). forward_code (br_proto b) pf = None)"

lemma held_alive:
  assumes "owned (count_list ops) p" and "j \<in> set ops"
  shows "p_heap p j \<noteq> None" "j < p_nextOp p"
proof -
  have c: "0 < count_list ops j" using assms(2) by (metis count_list_0_iff neq0_conv)
  then show "p_heap p j \<noteq> None" using owned_held [OF assms(1)] by blast
  show "j < p_nextOp p" using assms(1) c unfolding owned_def by (metis add_is_0 leD le_zero_eq not_less)
qed

lemma bridge_grows:
  assumes "bridge_ok b" and "grows (br_proto b) p" and "owned (count_list (forward_ops b)) p"
  shows "bridge_ok (b\<lparr>br_proto := p, br_device := d\<rparr>)" "bridge_idle b \<Longrightarrow> bridge_idle (b\<lparr>br_proto := p, br_device := d\<rparr>)"
proof -
  have o: "owned (count_list (forward_ops b)) (br_proto b)" using assms(1) by (simp add: bridge_ok_def)
  have "callbacks p \<subseteq> callbacks (br_proto b)"
  proof
    fix j assume "j \<in> callbacks p"
    then obtain o1 where "p_heap p j = Some o1" "op_callback o1" "op_state o1 = STATE_RUNNING" by (auto simp: callbacks_def)
    then have "p_heap (br_proto b) j = Some o1" using assms(2) unfolding grows_def by (metis not_less)
    then show "j \<in> callbacks (br_proto b)" using \<open>op_callback o1\<close> \<open>op_state o1 = STATE_RUNNING\<close> by (auto simp: callbacks_def)
  qed
  then show "bridge_ok (b\<lparr>br_proto := p, br_device := d\<rparr>)"
    using assms unfolding bridge_ok_def grows_def forward_ops_def by auto
  have "forward_code p pf = forward_code (br_proto b) pf" if "pf \<in> set (br_pendingForwards b)" for pf
    using held_alive(2) [OF o, of "pf_op pf"] that assms(2) by (simp add: forward_ops_def forward_code_def grows_def)
  then show "bridge_idle b \<Longrightarrow> bridge_idle (b\<lparr>br_proto := p, br_device := d\<rparr>)" by (simp add: bridge_idle_def)
qed

lemma owned_dropped:
  assumes "owned (case op of Some i \<Rightarrow> h(i := h i + 1) | None \<Rightarrow> h) p"
  shows "owned h (drop_op op p)"
proof (cases op)
  case (Some i)
  then show ?thesis using owned_deref [of "h(i := h i + 1)" p i] assms by (simp add: drop_op_def)
qed (use assms in \<open>simp add: drop_op_def\<close>)

lemma bridge_send:
  assumes "bridge_ok b" and "sendMessage D msg (br_proto b) (br_device b) = (op, evs, p, d)"
  shows "bridge_ok (b\<lparr>br_proto := drop_op op p, br_device := d\<rparr>)"
    "bridge_idle b \<Longrightarrow> bridge_idle (b\<lparr>br_proto := drop_op op p, br_device := d\<rparr>)"
proof -
  have g: "grows (br_proto b) (drop_op op p)"
    using grows_drop [OF grows_sendMessage(1) [OF assms(2)]] grows_sendMessage(2) [OF assms(2)] by auto
  have o: "owned (count_list (forward_ops b)) (drop_op op p)"
    using owned_dropped [OF owned_sendMessage [OF _ assms(2)]] assms(1) by (simp add: bridge_ok_def)
  show "bridge_ok (b\<lparr>br_proto := drop_op op p, br_device := d\<rparr>)"
    "bridge_idle b \<Longrightarrow> bridge_idle (b\<lparr>br_proto := drop_op op p, br_device := d\<rparr>)"
    using bridge_grows [OF assms(1) g o] by blast+
qed

section \<open>The invariant\<close>

definition router_core :: "'d router \<Rightarrow> bool" where
  "router_core r \<longleftrightarrow> distinct (map fst (sv_objects (rt_server r))) \<and> (\<forall>(i, c)\<in>set (sv_objects (rt_server r)). client_plain i c) \<and>
     (\<forall>i b. rt_bridges r i = Some b \<longrightarrow> bridge_ok b) \<and> (\<forall>(p, d)\<in>set (rt_doomed r). callbacks p = {})"

definition router_inv :: "'d router \<Rightarrow> bool" where
  "router_inv r \<longleftrightarrow> router_core r \<and> (\<forall>i b. rt_bridges r i = Some b \<longrightarrow> bridge_idle b)"

text \<open>No forward of a bridge that has been given up can call back.\<close>

lemma cancel_forwards_heap:
  "p_heap (fold (\<lambda>pf p. deref_op (pf_op pf) (with_op (pf_op pf) (setFinishedCallback False) p)) pfs p) j = Some op \<Longrightarrow>
   \<exists>op0. p_heap p j = Some op0 \<and> op_state op0 = op_state op \<and> (op_callback op \<longrightarrow> op_callback op0 \<and> j \<notin> pf_op ` set pfs)"
proof (induction pfs arbitrary: p)
  case (Cons pf pfs)
  have step: "\<exists>op0. p_heap p j = Some op0 \<and> op_state op0 = op_state op1 \<and> (op_callback op1 \<longrightarrow> op_callback op0 \<and> j \<noteq> pf_op pf)"
    if "p_heap (deref_op (pf_op pf) (with_op (pf_op pf) (setFinishedCallback False) p)) j = Some op1" for op1
    using that by (auto simp: deref_op_def with_op_def Let_def setFinishedCallback_def split: if_splits)
  show ?case using Cons.IH [of "deref_op (pf_op pf) (with_op (pf_op pf) (setFinishedCallback False) p)"] Cons.prems step by fastforce
qed simp

lemma cancelled_quiet:
  assumes "bridge_ok b"
  shows "callbacks (br_proto (cancelPendingForwards b)) = {}"
proof -
  have "j \<notin> callbacks (br_proto (cancelPendingForwards b))" for j
  proof
    assume "j \<in> callbacks (br_proto (cancelPendingForwards b))"
    then obtain o1 where "p_heap (br_proto (cancelPendingForwards b)) j = Some o1" "op_callback o1" "op_state o1 = STATE_RUNNING"
      by (auto simp: callbacks_def)
    then have "j \<in> callbacks (br_proto b) \<and> j \<notin> set (forward_ops b)"
      using cancel_forwards_heap [of "br_pendingForwards b" "br_proto b" j o1]
      by (auto simp: cancelPendingForwards_def callbacks_def forward_ops_def)
    then show False using assms by (auto simp: bridge_ok_def)
  qed
  then show ?thesis by blast
qed

lemma removeBridge_core: "router_core r \<Longrightarrow> router_core (removeBridge i r)"
  by (auto simp: removeBridge_def router_core_def cancelled_quiet Let_def split: option.splits)

lemma removeBridge_inv: "router_inv r \<Longrightarrow> router_inv (removeBridge i r)"
  using removeBridge_core [of r i] by (auto simp: router_inv_def removeBridge_def Let_def split: option.splits if_splits)

lemma removeBridge_simps [simp]:
  "rt_bridges (removeBridge i r) = (rt_bridges r)(i := None)" "rt_server (removeBridge i r) = rt_server r"
  "rt_routes (removeBridge i r) = rt_routes r" "rt_maxHopCount (removeBridge i r) = rt_maxHopCount r"
  "rt_relayed (removeBridge i r) = rt_relayed r"
  by (auto simp: removeBridge_def Let_def split: option.split)

lemma put_downstream_simps [simp]:
  "rt_bridges (put_downstream i c r) = rt_bridges r" "rt_doomed (put_downstream i c r) = rt_doomed r"
  "rt_routes (put_downstream i c r) = rt_routes r" "rt_maxHopCount (put_downstream i c r) = rt_maxHopCount r"
  "rt_relayed (put_downstream i c r) = rt_relayed r"
  by (simp_all add: put_downstream_def)

lemma put_bridge_simps [simp]:
  "rt_bridges (put_bridge i b r) = (rt_bridges r)(i \<mapsto> b)" "rt_server (put_bridge i b r) = rt_server r"
  "rt_doomed (put_bridge i b r) = rt_doomed r"
  by (simp_all add: put_bridge_def)

lemma downstream_lookup:
  "map_of (sv_objects (rt_server (put_downstream i c1 r))) k =
     (if k = i then map_option (\<lambda>_. c1) (map_of (sv_objects (rt_server r)) i) else map_of (sv_objects (rt_server r)) k)"
proof -
  have "map_of (map (\<lambda>(k, x). if k = i then (k, c1) else (k, x)) xs) k = (if k = i then map_option (\<lambda>_. c1) (map_of xs i) else map_of xs k)" for xs
    by (induction xs) auto
  then show ?thesis by (simp add: put_downstream_def put_client_def)
qed

lemma put_downstream_core:
  assumes "router_core r" and "client_plain i c"
  shows "router_core (put_downstream i c r)"
proof -
  have "client_plain k x" if "(k, x) \<in> set (sv_objects (rt_server (put_downstream i c r)))" for k x
    using that assms by (auto simp: put_downstream_def put_client_member router_core_def)
  moreover have "distinct (map fst (sv_objects (rt_server (put_downstream i c r))))"
    using assms(1) by (simp add: put_downstream_def put_client_keys router_core_def)
  ultimately show ?thesis using assms(1) unfolding router_core_def by auto
qed

lemma put_downstream_inv: "router_inv r \<Longrightarrow> client_plain i c \<Longrightarrow> router_inv (put_downstream i c r)"
  by (simp add: router_inv_def put_downstream_core)

lemma put_bridge_core: "router_core r \<Longrightarrow> bridge_ok b \<Longrightarrow> router_core (put_bridge i b r)"
  by (auto simp: router_core_def)

lemma put_bridge_inv: "router_inv r \<Longrightarrow> bridge_ok b \<Longrightarrow> bridge_idle b \<Longrightarrow> router_inv (put_bridge i b r)"
  by (auto simp: router_inv_def put_bridge_core)

lemma client_of: "router_core r \<Longrightarrow> map_of (sv_objects (rt_server r)) i = Some c \<Longrightarrow> client_plain i c"
  by (auto simp: router_core_def dest: map_of_SomeD)

text \<open>A call on a client that keeps it plain keeps the router.\<close>

locale downstream_call =
  fixes f :: "'d client \<Rightarrow> server_event list \<times> 'd client"
  assumes call_plain: "f c = (evs, c') \<Longrightarrow> client_plain i c \<Longrightarrow> client_plain i c'"
begin

lemma on_downstream_core:
  assumes "router_core r" and "on_downstream f i r = Some (evs, r')"
  shows "router_core r'"
proof -
  obtain c es c1 where c: "map_of (sv_objects (rt_server r)) i = Some c" "f c = (es, c1)"
    "r' = slotClientDisconnected es i (put_downstream i c1 r)"
    using assms(2) by (auto simp: on_downstream_def split: option.splits prod.splits)
  have "router_core (put_downstream i c1 r)"
    by (rule put_downstream_core [OF assms(1) call_plain [OF c(2) client_of [OF assms(1) c(1)]]])
  then show ?thesis by (simp add: c(3) slotClientDisconnected_def removeBridge_core)
qed

lemma on_downstream_inv: "router_inv r \<Longrightarrow> on_downstream f i r = Some (evs, r') \<Longrightarrow> router_inv r'"
  using on_downstream_core [of r i evs r']
  by (auto simp: router_inv_def on_downstream_def slotClientDisconnected_def split: option.splits prod.splits if_splits)

end

interpretation close_down: downstream_call "close_client T" by unfold_locales (rule plain_close)
interpretation relay_down: downstream_call "relay_client T m" by unfold_locales (rule plain_relay)
interpretation reply_down: downstream_call "sendBinaryReply T ch sq bc n" by unfold_locales (rule plain_replies(1))
interpretation ready_down: downstream_call "client_ready T" by unfold_locales (rule plain_replies(2))

text \<open>What a call on one client leaves alone.\<close>

lemma on_downstream_frame:
  assumes "on_downstream f i r = Some (evs, r')"
  shows "rt_bridges r' = (if evs = [] then rt_bridges r else (rt_bridges r)(i := None))" "rt_routes r' = rt_routes r"
    "rt_maxHopCount r' = rt_maxHopCount r" "rt_relayed r' = rt_relayed r"
    "map_of (sv_objects (rt_server r)) i \<noteq> None"
  using assms by (auto simp: on_downstream_def slotClientDisconnected_def split: option.splits prod.splits if_splits)

section \<open>Every operation keeps the invariant\<close>

lemma bind_SomeD:
  assumes "routed_bind x f = Some (evs, r')"
  obtains e1 r1 e2 where "x = Some (e1, r1)" and "f r1 = Some (e2, r')" and "evs = e1 @ e2"
  using assms that by (cases x) (auto simp: routed_bind_def split: option.splits)

lemma bind_ret [simp]: "routed_bind (Some ([], r)) f = f r"
  by (auto simp: routed_bind_def split: option.split)

lemma events_nil [simp]: "routed_bind x (upstream_events E i []) = x" "routed_bind x (downstream_events E i []) = x"
  by (auto simp: routed_bind_def split: option.split)

lemma bridge_of: "router_inv r \<Longrightarrow> rt_bridges r i = Some b \<Longrightarrow> bridge_ok b \<and> bridge_idle b"
  by (simp add: router_inv_def router_core_def)

lemma up_events_inv: "router_inv r \<Longrightarrow> up_events E i pevs r = Some (evs, r') \<Longrightarrow> router_inv r'"
  by (auto simp: up_events_def onUpstreamError_def dest: close_down.on_downstream_inv split: if_splits)

lemma up_send_inv:
  assumes "router_inv r" and "up_send E msg i r = Some (evs, r')"
  shows "router_inv r'"
proof -
  obtain b op pevs p d where b: "rt_bridges r i = Some b"
    and s: "sendMessage (tr_device (re_transport E)) msg (br_proto b) (br_device b) = (op, pevs, p, d)"
    and u: "up_events E i pevs (put_bridge i (b\<lparr>br_proto := drop_op op p, br_device := d\<rparr>) r) = Some (evs, r')"
    using assms(2) by (auto simp: up_send_def split: option.splits prod.splits)
  note o = bridge_of [OF assms(1) b]
  have "router_inv (put_bridge i (b\<lparr>br_proto := drop_op op p, br_device := d\<rparr>) r)"
    using put_bridge_inv [OF assms(1)] bridge_send [OF _ s] o by blast
  then show ?thesis using up_events_inv u by blast
qed

lemma bridge_ok_fields:
  "bridge_ok (b\<lparr>br_shmPassthrough := x\<rparr>) = bridge_ok b" "bridge_idle (b\<lparr>br_shmPassthrough := x\<rparr>) = bridge_idle b"
  "bridge_ok b \<Longrightarrow> bridge_ok (b\<lparr>br_handshakeComplete := True\<rparr>)" "bridge_idle (b\<lparr>br_handshakeComplete := y\<rparr>) = bridge_idle b"
  by (simp_all add: bridge_ok_def bridge_idle_def forward_ops_def)

lemma bridge_sequence:
  "bridge_ok (b\<lparr>br_proto := snd (nextSequence (br_proto b))\<rparr>) = bridge_ok b"
  "bridge_idle (b\<lparr>br_proto := snd (nextSequence (br_proto b))\<rparr>) = bridge_idle b"
  by (simp_all add: bridge_ok_def bridge_idle_def forward_ops_def forward_code_def callbacks_def nextSequence_def)

lemma connected_inv:
  assumes "router_inv r" and "handleUpstreamConnected E i r = Some (evs, r')"
  shows "router_inv r'"
proof -
  obtain b where b: "rt_bridges r i = Some b"
    and u: "up_send E (upstream_hello (p_seqCounter (br_proto b)) (br_upPayload b)) i
      (put_bridge i (b\<lparr>br_proto := snd (nextSequence (br_proto b))\<rparr>) r) = Some (evs, r')"
    using assms(2) by (auto simp: handleUpstreamConnected_def nextSequence_def split: option.splits)
  show ?thesis by (rule up_send_inv [OF put_bridge_inv u]) (use assms(1) bridge_of [OF assms(1) b] bridge_sequence [of b] in simp_all)
qed

lemma drop_client_inv: "router_inv r \<Longrightarrow> drop_client E i r = Some (evs, r') \<Longrightarrow> router_inv r'"
  unfolding drop_client_def by (rule close_down.on_downstream_inv [OF removeBridge_inv])

lemma handshake_ack_inv:
  assumes "router_inv r" and "router_handleHandshakeAck E msg i r = Some (evs, r')"
  shows "router_inv r'"
proof -
  obtain b ok d where b: "rt_bridges r i = Some b"
    and ds: "deserializeHandshakeData (m_data (msg_payload msg)) new_handshake_data = (ok, d)"
    using assms(2) by (cases "deserializeHandshakeData (m_data (msg_payload msg)) new_handshake_data")
      (auto simp: router_handleHandshakeAck_def split: option.splits)
  show ?thesis
  proof (cases "\<not> ok \<or> \<not> identity_ok b d")
    case True
    then show ?thesis using assms b ds drop_client_inv by (auto simp: router_handleHandshakeAck_def)
  next
    case False
    obtain c where c: "map_of (sv_objects (rt_server r)) i = Some c"
      using assms(2) b ds False by (auto simp: router_handleHandshakeAck_def split: option.splits)
    obtain es c1 where rl: "relay_client (re_transport E) (client_ack (cn_connId c) (br_clientSeqNum b) d) c = (es, c1)" by fastforce
    define c2 where "c2 = c1\<lparr>cn_peerName := hs_nodeName d, cn_peerProtocol := hs_protocolVersion d,
                           cn_proto := (cn_proto c1)\<lparr>p_writeEvents := False\<rparr>, cn_handshake := None\<rparr>"
    have r': "r' = put_bridge i (b\<lparr>br_handshakeComplete := True\<rparr>) (put_downstream i c2 r)"
      using assms(2) b ds False c rl by (auto simp: router_handleHandshakeAck_def c2_def Let_def split: if_splits)
    have "client_plain i c1" using plain_relay [OF rl] client_of c assms(1) by (auto simp: router_inv_def)
    then have "client_plain i c2" by (simp add: c2_def client_plain_def)
    then show ?thesis unfolding r' using bridge_of [OF assms(1) b] assms(1)
      by (intro put_bridge_inv put_downstream_inv) (simp_all add: bridge_ok_fields)
  qed
qed

lemma upstream_message_inv: "router_inv r \<Longrightarrow> onUpstreamMessage E msg i r = Some (evs, r') \<Longrightarrow> router_inv r'"
  by (auto simp: onUpstreamMessage_def dest: up_send_inv relay_down.on_downstream_inv split: if_splits)

lemma raw_message_inv:
  assumes "router_inv r" and "handleUpstreamRawMessage E msg i r = Some (evs, r')"
  shows "router_inv r'"
proof -
  obtain b where b: "rt_bridges r i = Some b" using assms(2) by (auto simp: handleUpstreamRawMessage_def split: option.splits)
  obtain msg1 b1 where a: "router_handleStreamOpenAck msg b = (msg1, b1)" by fastforce
  have "router_inv (put_bridge i b1 r)" using a assms(1) bridge_of [OF assms(1) b]
    by (auto simp: router_handleStreamOpenAck_def bridge_ok_fields intro!: put_bridge_inv split: prod.splits if_splits)
  then show ?thesis using assms b a
    by (auto simp: handleUpstreamRawMessage_def dest: handshake_ack_inv upstream_message_inv split: if_splits)
qed

lemma upstream_binary_inv:
  assumes "router_inv r" and "onUpstreamBinaryData E ch sq bc pos data i r = Some (evs, r')"
  shows "router_inv r'"
proof -
  let ?f = "\<lambda>c. (let (op, errs, c1) = conn_sendBinaryData (re_transport E) ch pos data None c;
              (evs, c2) = (if errs \<noteq> [] then close_client (re_transport E) c1 else ([], c1)) in (evs, conn_drop op c2))"
  have p: "?f c = (es, c') \<Longrightarrow> client_plain i c \<Longrightarrow> client_plain i c'" for c :: "'a client" and es c' i
    by (auto simp: plain_send(2) dest: plain_close split: prod.splits if_splits)
  have call: "router_inv r1" if "on_downstream ?f i r = Some (es, r1)" for es r1
    by (rule downstream_call.on_downstream_inv [OF _ assms(1) that]) (unfold_locales, rule p)
  obtain e1 r1 e2 where 1: "on_downstream ?f i r = Some (e1, r1)"
    and 2: "(if bc then Some ([], r1) else up_send E (code_reply INC_MSG_BINARY_DATA_ACK ch sq (word_of_int (int (length data)))) i r1) = Some (e2, r')"
    using assms(2) unfolding onUpstreamBinaryData_def by (elim bind_SomeD) blast
  show ?thesis using call [OF 1] 2 up_send_inv by (cases bc) auto
qed

lemma count_list_snoc: "count_list (xs @ [x]) = (count_list xs)(x := count_list xs x + 1)"
  by (rule ext) simp

text \<open>A tracked frame: its forward holds the new operation.\<close>

lemma bridge_forward:
  assumes "bridge_ok b" and "bridge_idle b" and "br_handshakeComplete b"
    and "sendBinaryData D ch False pos data None (br_proto b) (br_device b) = (Some j, [], p, d)"
    and "pf_op pf = j" and "forward_code p pf = None"
  defines "b' \<equiv> b\<lparr>br_proto := deref_op j (with_op j (setFinishedCallback True) (ref_op j p)), br_device := d,
                         br_pendingForwards := br_pendingForwards b @ [pf]\<rparr>"
  shows "bridge_ok b' \<and> bridge_idle b'"
proof -
  let ?p = "deref_op j (with_op j (setFinishedCallback True) (ref_op j p))" and ?h = "count_list (forward_ops b)"
  note g = grows_sendBinaryData(1) [OF assms(4)]
  have j: "j = p_nextOp (br_proto b)" using grows_sendBinaryData(2) [OF assms(4)] by blast
  have ow: "owned ?h (br_proto b)" using assms(1) by (simp add: bridge_ok_def)
  have new: "j \<notin> set (forward_ops b)" using held_alive(2) [OF ow] j by blast
  have o: "owned (?h(j := ?h j + 1)) p" using owned_sendBinaryData [OF ow assms(4)] by simp
  then have ex: "p_heap p j \<noteq> None" using owned_held [of "?h(j := ?h j + 1)" p j] by auto
  have o2: "owned (?h(j := ?h j + 2)) (with_op j (setFinishedCallback True) (ref_op j p))"
    by (rule owned_with_op) (use owned_ref [OF o ex] in \<open>simp_all add: setFinishedCallback_def run_callback_def Let_def\<close>)
  have o3: "owned (count_list (forward_ops b @ [j])) ?p"
    using owned_deref [OF o2, of j] by (simp add: count_list_snoc del: count_list_append)
  have same: "p_heap ?p k = p_heap p k" if "k \<noteq> j" for k using that by (simp add: deref_op_def with_op_def ref_op_def Let_def)
  have f: "p_isPassthrough ?p = p_isPassthrough p" "p_memPool ?p = p_memPool p" by (simp_all add: deref_op_def with_op_def ref_op_def Let_def)
  have "callbacks ?p \<subseteq> insert j (callbacks p)" using same by (force simp: callbacks_def)
  moreover have "callbacks p \<subseteq> callbacks (br_proto b)"
  proof
    fix k assume "k \<in> callbacks p"
    then obtain o1 where "p_heap p k = Some o1" "op_callback o1" "op_state o1 = STATE_RUNNING" by (auto simp: callbacks_def)
    then have "p_heap (br_proto b) k = Some o1" using g unfolding grows_def by (metis not_less)
    then show "k \<in> callbacks (br_proto b)" using \<open>op_callback o1\<close> \<open>op_state o1 = STATE_RUNNING\<close> by (auto simp: callbacks_def)
  qed
  ultimately have "callbacks ?p \<subseteq> set (forward_ops b @ [j])" using assms(1) by (auto simp: bridge_ok_def)
  moreover have "forward_ops b' = forward_ops b @ [j]" using assms(5) by (simp add: b'_def forward_ops_def)
  ultimately have ok: "bridge_ok b'" using assms(1,3) g o3 new f by (simp add: bridge_ok_def b'_def grows_def)
  have "forward_code ?p pf = None"
    using assms(5,6) by (auto simp: forward_code_def deref_op_def with_op_def ref_op_def Let_def setFinishedCallback_def
        run_callback_def split: option.splits if_splits)
  moreover have "forward_code ?p x = None" if "x \<in> set (br_pendingForwards b)" for x
  proof -
    have "pf_op x \<in> set (forward_ops b)" using that by (simp add: forward_ops_def)
    then have "pf_op x \<noteq> j" "pf_op x < p_nextOp (br_proto b)" using new held_alive(2) [OF ow] by auto
    then have "forward_code ?p x = forward_code (br_proto b) x" using same g by (simp add: forward_code_def grows_def)
    then show ?thesis using assms(2) that by (simp add: bridge_idle_def)
  qed
  ultimately have "bridge_idle b'" by (simp add: bridge_idle_def b'_def)
  with ok show ?thesis ..
qed

text \<open>Sent without an error, the operation is still running.\<close>

lemma sent_running:
  assumes "sendMessage D msg p d = (Some i, [], p', d')"
  shows "p_heap p' i = Some (new_operation (msg_seqNum msg))"
proof -
  have t: "is_tracked msg" "i = p_nextOp p" using grows_sendMessage(2,3) [OF assms] by auto
  have v: "isValid msg" using assms by (auto simp: sendMessage_def split: if_splits prod.splits)
  let ?q = "ref_op i (snd (alloc_op (msg_seqNum msg) p))"
  have s: "sendMessageImpl D msg (Some i) ?q d = ([], p', d')" using assms t v by (auto simp: sendMessage_def alloc_op_def)
  then have "length (p_sendQueue ?q) < INC_MAX_SEND_QUEUE" by (auto simp: sendMessageImpl_def Let_def split: if_splits)
  then have "onReadyWrite D (enqueue msg (Some i) ?q) d = ([], p', d')" using s by (simp add: sendMessageImpl_accept)
  from onReadyWrite_frame [OF this] show ?thesis by (auto simp: enqueue_simps ref_op_def alloc_op_def t(2))
qed

lemma errors_only_codes: "only_errors evs \<Longrightarrow> error_codes evs = [] \<longleftrightarrow> evs = []"
  by (auto simp: only_errors_def)

lemma sendBinaryData_message:
  "sendBinaryData D ch bc pos data None p d =
     sendMessage D ((new_message INC_MSG_BINARY_DATA ch (p_seqCounter p))
        \<lparr>msg_flags := (if bc then INC_MSG_FLAG_NOACK else INC_MSG_FLAG_NONE), msg_payload := putBytes data (putInt64 pos new_tag_struct)\<rparr>)
      (meter (onBinaryFrameSent (length data) \<circ> onShmMiss) (p\<lparr>p_seqCounter := p_seqCounter p + 1\<rparr>)) d"
  by (simp add: sendBinaryData_def nextSequence_def Let_def)

lemma downstream_binary_inv:
  assumes "router_inv r" and "onDownstreamBinaryData E ch sq bc pos data i r = Some (evs, r')"
  shows "router_inv r'"
proof -
  obtain b where b: "rt_bridges r i = Some b" using assms(2) by (auto simp: onDownstreamBinaryData_def split: option.splits)
  note o = bridge_of [OF assms(1) b]
  obtain op pevs p d where s: "sendBinaryData (tr_device (re_transport E)) ch bc pos data None (br_proto b) (br_device b) = (op, pevs, p, d)"
    by (metis prod_cases4)
  have sent: "router_inv (put_bridge i (b\<lparr>br_proto := drop_op op p, br_device := d\<rparr>) r)"
  proof -
    have g: "grows (br_proto b) (drop_op op p)"
      using grows_drop [OF grows_sendBinaryData(1) [OF s]] grows_sendBinaryData(2) [OF s] by auto
    have ow: "owned (count_list (forward_ops b)) (drop_op op p)"
      using owned_dropped [OF owned_sendBinaryData [OF _ s]] o by (simp add: bridge_ok_def)
    show ?thesis
      by (rule put_bridge_inv [OF assms(1) bridge_grows(1) [OF conjunct1 [OF o] g ow] bridge_grows(2) [OF conjunct1 [OF o] g ow conjunct2 [OF o]]])
  qed
  have n: "op = None \<longleftrightarrow> bc" by (rule grows_sendBinaryData(3) [OF s])
  consider (incomplete) "\<not> br_handshakeComplete b" | (broadcast) "br_handshakeComplete b" bc
    | (reliable) j where "br_handshakeComplete b" "\<not> bc" "error_codes pevs = []" "op = Some j"
  proof -
    have "error_codes pevs = []" if "br_handshakeComplete b" "\<not> bc"
      using assms(2) b s that by (simp add: onDownstreamBinaryData_def split: if_split_asm)
    then show ?thesis using n that by (cases op) blast+
  qed
  then show ?thesis
  proof cases
    case incomplete
    then show ?thesis using assms b by (simp add: onDownstreamBinaryData_def)
  next
    case broadcast
    then show ?thesis using assms(2) b s up_events_inv [OF sent] by (auto simp: onDownstreamBinaryData_def)
  next
    case (reliable j)
    have pe: "pevs = []"
      using sendMessage_errors [OF s [unfolded sendBinaryData_message]] reliable(3) by (simp add: errors_only_codes)
    define pf where "pf = \<lparr>pf_op = j, pf_data = data, pf_channel = ch, pf_seqNum = sq\<rparr>"
    have "forward_code p pf = None"
      using sent_running [OF s [unfolded sendBinaryData_message pe reliable(4)]] by (simp add: forward_code_def pf_def new_operation_def)
    then have "router_inv (put_bridge i (b\<lparr>br_proto := deref_op j (with_op j (setFinishedCallback True) (ref_op j p)), br_device := d,
                         br_pendingForwards := br_pendingForwards b @ [pf]\<rparr>) r)"
      using bridge_forward [of b "tr_device (re_transport E)" ch pos data j p d pf] o reliable s pe
      by (intro put_bridge_inv [OF assms(1)]) (auto simp: pf_def)
    then show ?thesis using assms(2) b s reliable by (simp add: onDownstreamBinaryData_def pf_def)
  qed
qed

lemma stream_open_inv: "router_inv r \<Longrightarrow> router_handleStreamOpen E msg i r = Some (evs, r') \<Longrightarrow> router_inv r'"
  by (auto simp: router_handleStreamOpen_def dest: up_send_inv split: option.splits if_splits)


text \<open>The bridge of a client that has been handed a message.\<close>

lemma bridge_receives:
  assumes "bridge_ok b" and "onMessageReceived D imp msg (br_proto b) (br_device b) = (evs, p, d)"
  shows "bridge_ok (b\<lparr>br_proto := p, br_device := d\<rparr>)" "evs = [MessageReceived msg]"
proof -
  have pt: "p_isPassthrough (br_proto b)" using assms(1) by (simp add: bridge_ok_def)
  note r = passthrough_receives [OF assms(2) pt]
  have "callbacks p \<subseteq> callbacks (br_proto b)"
    unfolding callbacks_def r(3) by (auto dest!: complete_op_frame(4) simp: meter_def cache_fd_def)
  then show "bridge_ok (b\<lparr>br_proto := p, br_device := d\<rparr>)"
    using assms(1) owned_onMessageReceived [OF _ assms(2)]
    by (auto simp: bridge_ok_def forward_ops_def r(3) complete_op_frame meter_def cache_fd_def)
  show "evs = [MessageReceived msg]" by (rule r(1))
qed

lemma bridge_completes:
  assumes "bridge_ok b" and "pf \<in> set (br_pendingForwards b)" and "forward_code (br_proto b) pf = Some code"
  shows "bridge_ok (b\<lparr>br_proto := deref_op (pf_op pf) (br_proto b),
                 br_pendingForwards := filter (\<lambda>x. pf_op x \<noteq> pf_op pf) (br_pendingForwards b)\<rparr>)" (is "bridge_ok ?b")
proof -
  let ?j = "pf_op pf" and ?h = "count_list (forward_ops b)"
  have m: "?j \<in> set (forward_ops b)" using assms(2) by (simp add: forward_ops_def)
  have d: "distinct (forward_ops b)" and ow: "owned ?h (br_proto b)" using assms(1) by (simp_all add: bridge_ok_def)
  have f: "forward_ops ?b = filter (\<lambda>k. k \<noteq> ?j) (forward_ops b)"
    by (simp add: forward_ops_def filter_map comp_def)
  have c: "?h ?j = 1" using m d by (metis count_mset distinct_count_atmost_1)
  have "count_list (filter (\<lambda>k. k \<noteq> j) xs) k = (if k = j then 0 else count_list xs k)" for xs :: "nat list" and j k
    by (induction xs) auto
  then have "count_list (forward_ops ?b) = ?h(?j := ?h ?j - 1)" unfolding f c by (intro ext) simp
  then have o: "owned (count_list (forward_ops ?b)) (br_proto ?b)" using owned_deref [OF ow, of ?j] c by simp
  have nc: "?j \<notin> callbacks (br_proto b)" using assms(3) by (auto simp: callbacks_def forward_code_def)
  have "callbacks (deref_op ?j (br_proto b)) \<subseteq> callbacks (br_proto b)"
    by (auto simp: callbacks_def deref_op_def Let_def split: if_splits)
  then have "callbacks (br_proto ?b) \<subseteq> set (forward_ops ?b)" using nc assms(1) by (auto simp: f bridge_ok_def)
  moreover have "distinct (forward_ops ?b)" unfolding f using d by simp
  moreover have "p_isPassthrough (br_proto ?b)" "\<not> p_memPool (br_proto ?b)"
    using assms(1) by (simp_all add: bridge_ok_def deref_op_def Let_def)
  moreover have "br_handshakeComplete ?b = br_handshakeComplete b" "br_pendingForwards b = [] \<longrightarrow> br_pendingForwards ?b = []" by simp_all
  ultimately show ?thesis using assms(1) o unfolding bridge_ok_def by metis
qed

lemma run_forwards_inv:
  assumes "run_forwards E i p pfs r = Some (evs, r')" and "router_core r" and "rt_bridges r i = Some b"
    and "\<And>k e. k \<noteq> i \<Longrightarrow> rt_bridges r k = Some e \<Longrightarrow> bridge_idle e" and "distinct (map pf_op pfs)"
    and "\<And>pf. pf \<in> set (br_pendingForwards b) \<Longrightarrow> pf \<in> set pfs \<or> forward_code (br_proto b) pf = None"
    and "\<And>pf. pf \<in> set pfs \<Longrightarrow> pf \<in> set (br_pendingForwards b) \<and> forward_code (br_proto b) pf = forward_code p pf"
  shows "router_inv r' \<and> evs = [] \<and> rt_bridges r' i \<noteq> None"
  using assms
proof (induction pfs arbitrary: r evs b)
  case Nil
  have "bridge_idle e" if "rt_bridges r k = Some e" for k e
    using Nil.prems(3,4,6) that by (cases "k = i") (auto simp: bridge_idle_def)
  then show ?case using Nil.prems(1,2,3) by (simp add: router_inv_def)
next
  case (Cons pf pfs)
  note pr = Cons.prems
  show ?case
  proof (cases "forward_code p pf")
    case None
    show ?thesis
    proof (rule Cons.IH [OF _ pr(2,3,4)])
      fix x assume "x \<in> set (br_pendingForwards b)"
      then show "x \<in> set pfs \<or> forward_code (br_proto b) x = None"
        using pr(6) [of x] pr(7) [of pf] None by auto
    qed (use pr(1,5,7) None in \<open>auto\<close>)
  next
    case (Some code)
    let ?j = "pf_op pf"
    define b' where "b' = b\<lparr>br_proto := deref_op ?j (br_proto b), br_pendingForwards := filter (\<lambda>x. pf_op x \<noteq> ?j) (br_pendingForwards b)\<rparr>"
    obtain e1 r1 e2 where 1: "onUpstreamForwardComplete E code pf i r = Some (e1, r1)" and 2: "run_forwards E i p pfs r1 = Some (e2, r')"
      and evs: "evs = e1 @ e2"
      using pr(1) Some by (auto elim: bind_SomeD)
    obtain r0 where d: "on_downstream (sendBinaryReply (re_transport E) (pf_channel pf) (pf_seqNum pf) False (forward_written code (pf_data pf))) i r = Some ([], r0)"
      using 1 by (auto simp: onUpstreamForwardComplete_def split: option.splits if_splits)
    have f: "rt_bridges r0 = rt_bridges r" using on_downstream_frame(1) [OF d] by simp
    have r1: "r1 = put_bridge i b' r0" "e1 = []"
      using 1 d f pr(3) by (auto simp: onUpstreamForwardComplete_def b'_def split: option.splits if_splits)
    have mem: "pf \<in> set (br_pendingForwards b)" "forward_code (br_proto b) pf = Some code" using pr(7) Some by auto
    have ok: "bridge_ok b'" using bridge_completes [OF _ mem] pr(2,3) by (auto simp: b'_def router_core_def)
    have core: "router_core r1" unfolding r1(1) by (rule put_bridge_core [OF reply_down.on_downstream_core [OF pr(2) d] ok])
    have b1: "rt_bridges r1 i = Some b'" by (simp add: r1(1))
    have other: "forward_code (br_proto b') x = forward_code (br_proto b) x" if "pf_op x \<noteq> ?j" for x
      using that by (simp add: b'_def forward_code_def deref_op_def Let_def)
    have ne: "pf_op x \<noteq> ?j" if "x \<in> set pfs" for x using that pr(5) by (auto simp: image_iff)
    have "router_inv r' \<and> e2 = [] \<and> rt_bridges r' i \<noteq> None"
    proof (rule Cons.IH [OF 2 core b1])
      fix k e assume "k \<noteq> i" "rt_bridges r1 k = Some e"
      then show "bridge_idle e" using pr(4) f by (simp add: r1(1))
    next
      fix x assume "x \<in> set (br_pendingForwards b')"
      then show "x \<in> set pfs \<or> forward_code (br_proto b') x = None"
        using pr(6) [of x] other [of x] by (auto simp: b'_def)
    next
      fix x assume x: "x \<in> set pfs"
      then show "x \<in> set (br_pendingForwards b') \<and> forward_code (br_proto b') x = forward_code p x"
        using pr(7) [of x] other [OF ne [OF x]] ne [OF x] by (simp add: b'_def)
    qed (use pr(5) in simp)
    then show ?thesis by (simp add: evs r1(2))
  qed
qed


lemma map_events_inv:
  "map_option (\<lambda>(es, r1). (ev # es, r1)) x = Some (evs, r') \<Longrightarrow> \<exists>es. x = Some (es, r') \<and> evs = ev # es"
  by (cases x) auto

lemma new_bridge_ok: "bridge_ok (new_bridge dev sq tg url pl)" "bridge_idle (new_bridge dev sq tg url pl)"
proof -
  have "count_list [] = (\<lambda>_ :: nat. 0)" by (rule ext) simp
  then show "bridge_ok (new_bridge dev sq tg url pl)" "bridge_idle (new_bridge dev sq tg url pl)"
    using owned_new [of True] by (simp_all add: bridge_ok_def bridge_idle_def new_bridge_def forward_ops_def callbacks_def) (simp_all add: new_proto_def)
qed

lemma relayed_inv [simp]: "router_inv (r\<lparr>rt_relayed := x\<rparr>) = router_inv r"
  by (simp add: router_inv_def router_core_def)

lemma open_bridge_inv:
  assumes "router_inv r" and "open_bridge E transport msg d url c i r = Some (evs, r')"
  shows "router_inv r'"
proof -
  obtain dev opened monitored where t: "transport = (dev, opened, monitored)" by (metis prod_cases3)
  define b where "b = new_bridge dev (msg_seqNum msg) (hs_targetServer d) url (serializeHandshakeData (upstream_data (isLocal (re_transport E) c) d))"
  define r1 where "r1 = (put_bridge i b r)\<lparr>rt_relayed := (rt_relayed r)(i := True)\<rparr>"
  have i1: "router_inv r1" by (simp add: r1_def b_def put_bridge_inv [OF assms(1)] new_bridge_ok)
  obtain e1 r2 e2 where 1: "(if opened then handleUpstreamConnected E i r1 else Some ([], r1)) = Some (e1, r2)"
    and 2: "(if monitored then Some ([], r2)
             else map_option (\<lambda>(evs, r3). (UpstreamFailed i (hs_targetServer d) INC_ERROR_UPSTREAM_UNREACHABLE # evs, r3)) (drop_client E i r2)) = Some (e2, r')"
    using assms(2) unfolding open_bridge_def t prod.case Let_def b_def [symmetric] r1_def [symmetric] by (elim bind_SomeD) blast
  have "router_inv r2" using i1 1 connected_inv by (cases opened) auto
  then show ?thesis using 2 drop_client_inv by (cases monitored) (auto dest!: map_events_inv)
qed

lemma pause_plain: "client_plain i (pause_client d c) = client_plain i c"
  by (simp add: pause_client_def client_plain_def)

lemma handshake_inv:
  assumes "router_inv r" and "handleRouterHandshake E msg i r = Some (evs, r')"
  shows "router_inv r'"
proof -
  obtain c where c: "map_of (sv_objects (rt_server r)) i = Some c"
    using assms(2) by (auto simp: handleRouterHandshake_def split: option.splits)
  obtain ok d where ds: "deserializeHandshakeData (m_data (msg_payload msg)) new_handshake_data = (ok, d)" by fastforce
  have cp: "client_plain i c" using client_of [OF _ c] assms(1) by (simp add: router_inv_def)
  have i1: "router_inv (put_downstream i (pause_client d c) r)" by (rule put_downstream_inv [OF assms(1)]) (simp add: pause_plain cp)
  note shut = close_down.on_downstream_inv [OF assms(1)] close_down.on_downstream_inv [OF i1]
  show ?thesis using assms(2) c ds
    by (auto simp: handleRouterHandshake_def Let_def dest!: map_events_inv dest: shut open_bridge_inv [OF i1] split: if_split_asm option.split_asm)
qed

lemma client_message_inv:
  assumes "router_inv r" and "router_onConnectionMessageReceived E msg i r = Some (evs, r')"
  shows "router_inv r'"
  using assms by (auto simp: router_onConnectionMessageReceived_def
      dest: handshake_inv relay_down.on_downstream_inv stream_open_inv up_send_inv split: if_split_asm option.split_asm)

lemma downstream_event_inv:
  assumes "router_inv r" and "downstream_event E i ev r = Some (evs, r')"
  shows "router_inv r'"
proof (cases ev)
  case (MessageReceived msg)
  then show ?thesis using assms client_message_inv by (simp add: downstream_event_def)
next
  case (ErrorOccurred code)
  then show ?thesis using assms close_down.on_downstream_inv by (simp add: downstream_event_def)
next
  case (BinaryDataReceived ch sq bc pos data)
  have own: "router_inv r'" if n: "rt_bridges r i = None" "\<not> rt_relayed r i"
  proof -
    obtain c ps errs c1 where c: "map_of (sv_objects (rt_server r)) i = Some c"
      and ob: "onBinaryDataReceived (re_transport E) ch sq bc c = Some (ps, errs, c1)"
      and d: "on_downstream (if errs \<noteq> [] then close_client (re_transport E) else Pair []) i (put_downstream i c1 r) = Some (evs, r')"
      using assms(2) n BinaryDataReceived by (auto simp: downstream_event_def split: option.splits)
    have cp: "client_plain i c" using client_of [OF _ c] assms(1) by (simp add: router_inv_def)
    then have "conn_sendMessage (re_transport E) (error_reply ch sq) c = (fst (conn_sendMessage (re_transport E) (error_reply ch sq) c), errs, c1)"
      using ob by (auto simp: onBinaryDataReceived_def client_plain_def prod_eq_iff split: if_splits)
    then have "client_plain i c1" using plain_send(1) cp by blast
    then have i1: "router_inv (put_downstream i c1 r)" by (rule put_downstream_inv [OF assms(1)])
    show ?thesis
    proof (cases "errs = []")
      case True
      have "downstream_call (Pair [] :: 'a client \<Rightarrow> server_event list \<times> 'a client)" by unfold_locales simp
      then show ?thesis using downstream_call.on_downstream_inv [OF _ i1] d True by fastforce
    qed (use close_down.on_downstream_inv [OF i1] d in auto)
  qed
  show ?thesis
  proof (cases "rt_bridges r i")
    case None
    then show ?thesis using own assms BinaryDataReceived by (cases "rt_relayed r i") (auto simp: downstream_event_def)
  qed (use assms BinaryDataReceived downstream_binary_inv in \<open>auto simp: downstream_event_def\<close>)
qed

lemma downstream_events_inv:
  "router_inv r \<Longrightarrow> downstream_events E i pevs r = Some (evs, r') \<Longrightarrow> router_inv r'"
proof (induction pevs arbitrary: r evs)
  case (Cons ev pevs)
  then show ?case by (auto elim!: bind_SomeD dest: downstream_event_inv)
qed simp

lemma downstream_receive_inv:
  assumes "router_inv r" and "downstream_receive E msg i r = Some (evs, r')"
  shows "router_inv r'"
proof (cases "map_of (sv_objects (rt_server r)) i")
  case (Some c)
  obtain pevs p d where m: "onMessageReceived (tr_device (re_transport E)) (se_import (re_server E)) msg (cn_proto c) (cn_device c) = (pevs, p, d)"
    by (metis prod_cases3)
  have "router_inv (put_downstream i (c\<lparr>cn_proto := p, cn_device := d\<rparr>) r)"
    by (rule put_downstream_inv [OF assms(1) plain_receive [OF m]]) (use client_of [OF _ Some] assms(1) in \<open>simp add: router_inv_def\<close>)
  then show ?thesis using assms(2) Some m downstream_events_inv by (auto simp: downstream_receive_def)
qed (use assms in \<open>simp add: downstream_receive_def\<close>)

lemma upstream_event_inv:
  "router_inv r \<Longrightarrow> upstream_event E i ev r = Some (evs, r') \<Longrightarrow> router_inv r'"
  by (auto simp: upstream_event_def onUpstreamError_def dest: raw_message_inv close_down.on_downstream_inv upstream_binary_inv
      split: if_split_asm proto_event.splits)

lemma upstream_events_inv:
  "router_inv r \<Longrightarrow> upstream_events E i pevs r = Some (evs, r') \<Longrightarrow> router_inv r'"
proof (induction pevs arbitrary: r evs)
  case (Cons ev pevs)
  then show ?case by (auto elim!: bind_SomeD dest: upstream_event_inv)
qed simp

lemma upstream_receive_inv:
  assumes "router_inv r" and "upstream_receive E msg i r = Some (evs, r')"
  shows "router_inv r'"
proof (cases "rt_bridges r i")
  case (Some b)
  note o = bridge_of [OF assms(1) Some]
  obtain pevs p d where m: "onMessageReceived (tr_device (re_transport E)) (se_import (re_server E)) msg (br_proto b) (br_device b) = (pevs, p, d)"
    by (metis prod_cases3)
  let ?b = "b\<lparr>br_proto := p, br_device := d\<rparr>"
  obtain e1 r1 e2 where 1: "run_forwards E i p (br_pendingForwards b) (put_bridge i ?b r) = Some (e1, r1)"
    and 2: "upstream_events E i pevs r1 = Some (e2, r')"
    using assms(2) Some m by (auto simp: upstream_receive_def elim: bind_SomeD)
  have "router_inv r1 \<and> e1 = [] \<and> rt_bridges r1 i \<noteq> None"
  proof (rule run_forwards_inv [OF 1, where b = ?b])
    show "router_core (put_bridge i ?b r)"
      using assms(1) bridge_receives(1) [OF conjunct1 [OF o] m] by (intro put_bridge_core) (simp_all add: router_inv_def)
    show "distinct (map pf_op (br_pendingForwards b))" using o by (simp add: bridge_ok_def forward_ops_def)
    show "k \<noteq> i \<Longrightarrow> rt_bridges (put_bridge i ?b r) k = Some e \<Longrightarrow> bridge_idle e" for k e
      using assms(1) by (simp add: router_inv_def)
  qed simp_all
  then show ?thesis using upstream_events_inv 2 by blast
qed (use assms in \<open>simp add: upstream_receive_def\<close>)

lemma bridge_writes:
  assumes "router_inv r" and "rt_bridges r i = Some b" and "onReadyWrite D (br_proto b) dev = (pevs, p, d)"
  shows "router_inv (put_bridge i (b\<lparr>br_proto := p, br_device := d\<rparr>) r)"
proof -
  note o = bridge_of [OF assms(1,2)]
  have "owned (count_list (forward_ops b)) p" using owned_onReadyWrite [OF _ assms(3)] o by (simp add: bridge_ok_def)
  with bridge_grows [OF conjunct1 [OF o] grows_onReadyWrite [OF assms(3)] this] o show ?thesis
    by (intro put_bridge_inv [OF assms(1)]) simp_all
qed

lemma upstream_ready_inv:
  assumes "router_inv r" and "upstream_ready E i r = Some (evs, r')"
  shows "router_inv r'"
proof (cases "rt_bridges r i")
  case (Some b)
  obtain pevs p d where w: "onReadyWrite (tr_device (re_transport E)) (br_proto b) (br_device b) = (pevs, p, d)" by (metis prod_cases3)
  then show ?thesis using assms(2) Some upstream_events_inv [OF bridge_writes [OF assms(1) Some w]] by (simp add: upstream_ready_def)
qed (use assms in \<open>simp add: upstream_ready_def\<close>)

lemma upstream_opened_inv:
  assumes "router_inv r" and "upstream_opened E dev i r = Some (evs, r')"
  shows "router_inv r'"
proof (cases "rt_bridges r i")
  case (Some b)
  let ?b = "b\<lparr>br_proto := (br_proto b)\<lparr>p_writeEvents := True\<rparr>\<rparr>"
  obtain pevs p d where w: "onReadyWrite (tr_device (re_transport E)) (br_proto ?b) dev = (pevs, p, d)" by (metis prod_cases3)
  have o: "bridge_ok ?b" "bridge_idle ?b" using bridge_of [OF assms(1) Some]
    by (simp_all add: bridge_ok_def bridge_idle_def forward_ops_def callbacks_def forward_code_def)
  have "router_inv (put_bridge i (?b\<lparr>br_proto := p, br_device := d\<rparr>) (put_bridge i ?b r))"
    by (rule bridge_writes [OF put_bridge_inv [OF assms(1) o] _ w]) simp
  then have i1: "router_inv (put_bridge i (b\<lparr>br_proto := p, br_device := d\<rparr>) r)" by (simp add: put_bridge_def)
  obtain e1 r1 e2 where 1: "upstream_events E i pevs (put_bridge i (b\<lparr>br_proto := p, br_device := d\<rparr>) r) = Some (e1, r1)"
    and 2: "(if rt_bridges r1 i = None then Some ([], r1) else handleUpstreamConnected E i r1) = Some (e2, r')"
    using assms(2) Some w by (auto simp: upstream_opened_def onDeviceConnected_def elim: bind_SomeD)
  show ?thesis using upstream_events_inv [OF i1 1] 2 connected_inv by (auto split: if_splits)
qed (use assms in \<open>simp add: upstream_opened_def\<close>)


section \<open>Runs\<close>

lemma accept_inv:
  fixes r :: "'d router"
  assumes "router_inv r" and "handleNewConnection dev started nid (rt_server r) = (evs, s)"
  shows "router_inv (r\<lparr>rt_server := s, rt_relayed := x\<rparr>)"
proof -
  let ?objs = "sv_objects (rt_server r)"
  have old: "distinct (map fst ?objs)" "\<And>i c. (i, c) \<in> set ?objs \<Longrightarrow> client_plain i c"
    using assms(1) by (auto simp: router_inv_def router_core_def)
  define n where "n = sv_nextChannelId (rt_server r) + 1"
  obtain c where c: "client_plain n c" and s: "sv_objects s = ?objs \<or> sv_objects s = (n, c) # filter (\<lambda>(k, _). k \<noteq> n) ?objs"
  proof
    let ?c = "(new_connection dev True n)\<lparr>cn_handshake := Some (setLocalData nid (new_handshake_data\<lparr>hs_nodeName := sv_name (rt_server r),
        hs_protocolVersion := ucast (sc_protocolVersionCurrent (sv_options (rt_server r))), hs_capabilities := CAP_STREAM\<rparr>) (new_handshake nid ROLE_SERVER))\<rparr> :: 'd client"
    show "client_plain n ?c" by (simp add: client_plain_def new_connection_def new_proto_def)
    show "sv_objects s = ?objs \<or> sv_objects s = (n, ?c) # filter (\<lambda>(k, _). k \<noteq> n) ?objs"
      using assms(2) by (auto simp: handleNewConnection_def Let_def n_def split: if_splits)
  qed
  have "distinct (map fst (filter (\<lambda>(k, _). k \<noteq> n) ?objs))" using old(1) by (rule distinct_map_filter)
  then have "distinct (map fst (sv_objects s)) \<and> (\<forall>(i, c)\<in>set (sv_objects s). client_plain i c)"
    using s old c by auto
  then show ?thesis using assms(1) by (simp add: router_inv_def router_core_def)
qed

lemma router_inv_routes: "router_inv (r\<lparr>rt_routes := x\<rparr>) = router_inv r" "router_inv (r\<lparr>rt_maxHopCount := h\<rparr>) = router_inv r"
  by (simp_all add: router_inv_def router_core_def)

lemma router_inv_exec:
  assumes "router_inv r" and "router_exec E cmd r = Some (evs, r')"
  shows "router_inv r'"
proof (cases cmd)
  case (RtAccept dev started nid)
  obtain es s where "handleNewConnection dev started nid (rt_server r) = (es, s)" by fastforce
  then show ?thesis using accept_inv [OF assms(1)] assms(2) RtAccept by auto
next
  case (RtReceive i msg)
  then show ?thesis using downstream_receive_inv assms by simp
next
  case (RtReady i)
  then show ?thesis using ready_down.on_downstream_inv assms by (auto simp: if_client_def split: if_splits)
next
  case (RtDeviceError i)
  then show ?thesis using close_down.on_downstream_inv assms by (auto simp: if_client_def split: if_splits)
next
  case (RtUpstreamOpened i dev)
  then show ?thesis using upstream_opened_inv assms by simp
next
  case (RtUpstreamReceive i msg)
  then show ?thesis using upstream_receive_inv assms by simp
next
  case (RtUpstreamReady i)
  then show ?thesis using upstream_ready_inv assms by simp
next
  case (RtUpstreamDisconnected i)
  then show ?thesis using close_down.on_downstream_inv assms by (auto simp: onUpstreamDisconnected_def split: if_splits)
next
  case RtPurge
  have "distinct (map fst (m_connections (rt_server r)))" "set (m_connections (rt_server r)) \<subseteq> set (sv_objects (rt_server r))"
    using assms(1) by (auto simp: router_inv_def router_core_def m_connections_def distinct_map_filter)
  then show ?thesis using assms RtPurge by (auto simp: router_inv_def router_core_def)
next
  case RtClose
  then have r': "r' = r\<lparr>rt_server := server_close (rt_server r)\<rparr>" using assms(2) by simp
  show ?thesis unfolding r' using assms(1)
    by (cases "sv_listening (rt_server r)") (simp_all add: router_inv_def router_core_def server_close_def)
next
  case (RtAddRoute fp tt)
  then show ?thesis using assms router_inv_routes by (auto simp: addRoute_def)
next
  case RtClearRoutes
  then show ?thesis using assms router_inv_routes by (auto simp: clearRoutes_def)
next
  case (RtSetMaxHopCount h)
  then show ?thesis using assms router_inv_routes by (auto simp: setMaxHopCount_def)
qed (use assms in \<open>simp\<close>)

lemma router_inv_run: "router_inv r \<Longrightarrow> router_run E cmds r = Some (evs, r') \<Longrightarrow> router_inv r'"
proof (induction cmds arbitrary: r evs)
  case (Cons cmd cmds)
  then show ?case by (auto elim!: bind_SomeD dest: router_inv_exec)
qed simp

lemma router_inv_new: "router_inv (new_router name opts)"
  by (simp add: router_inv_def router_core_def new_router_def new_server_def)

text \<open>A router that listens: its server has been told to.\<close>

definition listening_router :: "'d server \<Rightarrow> route list \<Rightarrow> 'd router" where
  "listening_router s routes = (new_router (sv_name s) (sv_options s))\<lparr>rt_server := s, rt_routes := routes\<rparr>"

lemma router_inv_listening: "sv_objects s = [] \<Longrightarrow> router_inv (listening_router s routes)"
  by (simp add: router_inv_def router_core_def listening_router_def new_router_def)

end
