(* ===== verification/Router_Properties.thy ===== *)
theory Router_Properties imports Router_Laws Context_Properties begin

text \<open>
  Properties of the router (iINCRouter): what its state keeps over any run, connecting a client through it,
  forwarding in both directions, the end of routing loops, and the messages that stop it.
\<close>

section \<open>Runs\<close>

text \<open>
  C9. From a router that has just been told to listen, over any run of its user's calls, new clients,
  messages, write events and errors on both sides: no client and no upstream connection ever has shared
  memory; every upstream protocol passes its messages on; no data is being forwarded before the handshake
  is complete; each forward in progress has an operation of its own, which is alive and still running;
  an upstream operation that calls back when it ends is always that of a forward in progress; and nothing
  that belonged to a removed bridge can call back any more.
\<close>

theorem router_state_is_coherent:
  assumes "listenOn create url n (new_server name opts) = Some (INC_OK, s)"
    and "router_run E cmds (listening_router s routes) = Some (evs, r)"
  shows "(\<forall>(i, c)\<in>set (sv_objects (rt_server r)). cn_connId c = i \<and> \<not> p_memPool (cn_proto c) \<and> cn_channels c = (\<lambda>_. None)) \<and>
    (\<forall>i b. rt_bridges r i = Some b \<longrightarrow> p_isPassthrough (br_proto b) \<and> \<not> p_memPool (br_proto b) \<and>
       (br_pendingForwards b \<noteq> [] \<longrightarrow> br_handshakeComplete b) \<and> distinct (map pf_op (br_pendingForwards b)) \<and>
       (\<forall>pf\<in>set (br_pendingForwards b). \<exists>op. p_heap (br_proto b) (pf_op pf) = Some op \<and> op_state op = STATE_RUNNING) \<and>
       callbacks (br_proto b) \<subseteq> pf_op ` set (br_pendingForwards b)) \<and>
    (\<forall>(p, d)\<in>set (rt_doomed r). callbacks p = {})"
proof -
  have inv: "router_inv r"
    by (rule router_inv_run [OF router_inv_listening assms(2)]) (rule listen_start(1) [OF assms(1)])
  have fw: "\<exists>op. p_heap (br_proto b) (pf_op pf) = Some op \<and> op_state op = STATE_RUNNING"
    if "rt_bridges r i = Some b" "pf \<in> set (br_pendingForwards b)" for i b pf
  proof -
    have o: "owned (count_list (forward_ops b)) (br_proto b)" "forward_code (br_proto b) pf = None"
      using bridge_of [OF inv that(1)] that(2) by (auto simp: bridge_ok_def bridge_idle_def)
    have "p_heap (br_proto b) (pf_op pf) \<noteq> None" by (rule held_alive(1) [OF o(1)]) (use that(2) in \<open>simp add: forward_ops_def\<close>)
    then show ?thesis using o(2) by (auto simp: forward_code_def split: if_splits)
  qed
  have br: "p_isPassthrough (br_proto b) \<and> \<not> p_memPool (br_proto b) \<and> (br_pendingForwards b \<noteq> [] \<longrightarrow> br_handshakeComplete b) \<and>
       distinct (map pf_op (br_pendingForwards b)) \<and> callbacks (br_proto b) \<subseteq> pf_op ` set (br_pendingForwards b)"
    if "rt_bridges r i = Some b" for i b using bridge_of [OF inv that] by (auto simp: bridge_ok_def forward_ops_def)
  have cl: "cn_connId c = i \<and> \<not> p_memPool (cn_proto c) \<and> cn_channels c = (\<lambda>_. None)" if "(i, c) \<in> set (sv_objects (rt_server r))" for i c
    using inv that by (auto simp: router_inv_def router_core_def client_plain_def)
  have "\<forall>(p, d)\<in>set (rt_doomed r). callbacks p = {}" using inv by (simp add: router_inv_def router_core_def)
  then show ?thesis using cl br fw by blast
qed

section \<open>Forwarding\<close>

text \<open>A client's protocol after it has taken in a message that ends none of its operations.\<close>

definition taken :: "inc_message \<Rightarrow> 'd client \<Rightarrow> 'd client" where
  "taken msg c = c\<lparr>cn_proto := meter (onMessageReceivedMetric (payload_size msg)) (cache_fd (msg_extFd msg) (cn_proto c))\<rparr>"

text \<open>
  C24. Shared memory does not work through a router, whatever the two ends have negotiated through it:
  binary data that a client sends by reference, at any time, is answered with the failure -1 by the router's own
  protocol; nothing of it is sent upstream. (STREAM_OPEN is forwarded with its offer when both sides are
  local, and a granted type is recorded, but the router's connection to the client has no pool.)
\<close>

theorem shared_data_is_refused:
  assumes "listenOn create url n (new_server name opts) = Some (INC_OK, s)"
    and "router_run E cmds (listening_router s routes) = Some (evs, r)" and "map_of (sv_objects (rt_server r)) i = Some c"
    and "msg_type msg = INC_MSG_BINARY_DATA" and "msg_flags msg AND INC_MSG_FLAG_SHM_DATA \<noteq> 0"
    and "conn_sendMessage (re_transport E) (error_reply (msg_channelID msg) (msg_seqNum msg)) (taken msg c) = (op, [], c')"
  shows "downstream_receive E msg i r = Some ([], put_downstream i c' r) \<and> rt_bridges (put_downstream i c' r) = rt_bridges r"
proof -
  have inv: "router_inv r"
    by (rule router_inv_run [OF router_inv_listening assms(2)]) (rule listen_start(1) [OF assms(1)])
  have pl: "client_plain i c" using client_of [OF _ assms(3)] inv by (simp add: router_inv_def)
  let ?p = "meter (onMessageReceivedMetric (payload_size msg)) (cache_fd (msg_extFd msg) (cn_proto c))"
  have co: "complete_op msg q = q" for q by (simp add: complete_op_def assms(4) INC_MSG_BINARY_DATA_def)
  have f: "\<not> p_isPassthrough ?p" "\<not> p_memPool ?p" using pl by (simp_all add: client_plain_def meter_def cache_fd_def)
  obtain pevs p d where s: "sendMessage (tr_device (re_transport E)) (error_reply (msg_channelID msg) (msg_seqNum msg)) ?p (cn_device c) = (op, pevs, p, d)"
    and e: "error_codes pevs = []" and c': "c' = (taken msg c)\<lparr>cn_proto := p, cn_device := d\<rparr>"
    using assms(6) by (auto simp: conn_sendMessage_def taken_def split: prod.splits)
  have pe: "pevs = []" using sendMessage_errors [OF s] e by (simp add: errors_only_codes)
  have "onMessageReceived (tr_device (re_transport E)) (se_import (re_server E)) msg (cn_proto c) (cn_device c) = ([], p, d)"
    using f s pe by (simp add: onMessageReceived_def Let_def co assms(4,5) processBinaryDataMessage_def processSHMBinaryData_def send_reply_def)
  then show ?thesis using assms(3) by (simp add: downstream_receive_def c' taken_def)
qed


text \<open>A message of the client that is forwarded as it is.\<close>

definition plain_request :: "inc_message \<Rightarrow> bool" where
  "plain_request msg \<longleftrightarrow> msg_type msg \<notin> {INC_MSG_HANDSHAKE, INC_MSG_PING, INC_MSG_PONG, INC_MSG_STREAM_OPEN, INC_MSG_BINARY_DATA, INC_MSG_BINARY_DATA_ACK}"

lemma plain_received:
  assumes "plain_request msg" and "client_plain i c" and "onMessageReceived D imp msg (cn_proto c) (cn_device c) = (pevs, p, d)"
  shows "pevs = [MessageReceived msg]" "d = cn_device c" "p_sendQueue p = p_sendQueue (cn_proto c)"
    "p_partialSendOffset p = p_partialSendOffset (cn_proto c)"
proof -
  have off: "p_partialSendOffset (complete_op msg (meter f (cache_fd fd q))) = p_partialSendOffset q"
    "p_isPassthrough (complete_op msg (meter f (cache_fd fd q))) = p_isPassthrough q" for f fd q
    by (auto simp: complete_op_def meter_def cache_fd_def Let_def ops_erase_def processRelease_def deref_op_def with_op_def split: option.splits)
  show "pevs = [MessageReceived msg]" "d = cn_device c" "p_sendQueue p = p_sendQueue (cn_proto c)"
    "p_partialSendOffset p = p_partialSendOffset (cn_proto c)"
    using assms by (auto simp: onMessageReceived_def plain_request_def client_plain_def Let_def off)
qed

text \<open>Sending upstream, and to the client, as the wires see it.\<close>

lemma up_send_reach:
  fixes r :: "link router"
  assumes "re_transport E = tcp_transport big near" and "rt_bridges r i = Some b" and "tcps.sender_reach big acc False (br_proto b) (br_device b)"
    and "up_send E m i r = Some (evs, r')" and "rt_bridges r' i = Some b'" and "map_of (sv_objects (rt_server r)) i = Some c" and "cn_open c"
  shows "evs = [] \<and> tcps.sender_reach big (acc @ [m]) False (br_proto b') (br_device b') \<and>
    b' = b\<lparr>br_proto := br_proto b', br_device := br_device b'\<rparr> \<and> r' = put_bridge i b' r"
proof -
  obtain op pevs p d where s: "sendMessage (tcp_sender big) m (br_proto b) (br_device b) = (op, pevs, p, d)"
    and u: "up_events E i pevs (put_bridge i (b\<lparr>br_proto := drop_op op p, br_device := d\<rparr>) r) = Some (evs, r')"
    using assms(1,2,4) by (auto simp: up_send_def tcp_transport_def split: prod.splits)
  have e: "pevs = []"
  proof (rule ccontr)
    assume "pevs \<noteq> []"
    then have "error_codes pevs \<noteq> []" using sendMessage_errors [OF s] by (simp add: errors_only_codes)
    then have d: "on_downstream (close_client (re_transport E)) i (put_bridge i (b\<lparr>br_proto := drop_op op p, br_device := d\<rparr>) r) = Some (evs, r')"
      using u by (simp add: up_events_def onUpstreamError_def)
    then have "evs \<noteq> []" using assms(6,7) by (auto simp: on_downstream_def close_client_def conn_close_def)
    then show False using on_downstream_frame(1) [OF d] assms(5) by simp
  qed
  have "tcps.sender_reach big (acc @ [m]) False p d" using tcps.send_reach [OF assms(3) s [unfolded e]] by simp
  moreover have "p_sendQueue (drop_op op p) = p_sendQueue p" "p_partialSendOffset (drop_op op p) = p_partialSendOffset p"
    by (simp_all add: drop_op_def deref_op_def Let_def split: option.split)
  ultimately have "tcps.sender_reach big (acc @ [m]) False (drop_op op p) d" using tcps.sr_other by metis
  moreover have "evs = [] \<and> r' = put_bridge i (b\<lparr>br_proto := drop_op op p, br_device := d\<rparr>) r" using u e by (simp add: up_events_def)
  ultimately show ?thesis using assms(5) by auto
qed

lemma relay_reach:
  fixes c :: "link client"
  assumes "relay_client (tcp_transport big near) m c = ([], c')" and "cn_open c" and "tcpt.conn_reach big acc c"
  shows "tcpt.conn_reach big (acc @ [m]) c'" "conn_frame c c'"
proof -
  obtain op errs c1 where s: "conn_sendMessage (tcp_transport big near) m c = (op, errs, c1)" by (metis prod_cases3)
  have o: "cn_open c1" using conn_frame_simps(1) [OF conn_frame_send(1) [OF s]] assms(2) by simp
  have e: "errs = []" "c' = conn_drop op c1"
    using assms(1) s o by (auto simp: relay_client_def close_client_def conn_close_def split: if_splits)
  show "tcpt.conn_reach big (acc @ [m]) c'" unfolding e(2)
    by (rule tcpt.conn_reach_drop) (use tcpt.conn_reach_send [OF assms(3) s [unfolded e(1)]] in blast)
  show "conn_frame c c'" unfolding e(2) by (rule conn_frame_trans [OF conn_frame_send(1) [OF s] conn_frame_drop])
qed

lemma complete_op_other:
  assumes "ops_find (msg_seqNum msg) p \<noteq> Some j"
  shows "p_heap (complete_op msg p) j = p_heap p j"
  using assms by (auto simp: complete_op_def Let_def deref_op_def with_op_def meter_def processRelease_def ops_erase_def split: option.splits)

lemma no_forwards: "(\<And>pf. pf \<in> set pfs \<Longrightarrow> forward_code p pf = None) \<Longrightarrow> run_forwards E i p pfs r = Some ([], r)"
  by (induction pfs) simp_all

lemma stream_ack_data: "m_data (snd (stream_ack_shm ts)) = m_data ts"
proof -
  have "m_data (snd (getUint32 t)) = m_data t" "m_data (snd (getBool t)) = m_data t" "m_data (snd (getUint16 t)) = m_data t" for t
    by (simp_all add: getUint32_def getBool_def getUint16_def getFixed_def readTag_def takeBytes_def advance_def Let_def split: option.split)
  then show ?thesis by (auto simp: stream_ack_shm_def Let_def split: prod.splits option.splits) (metis snd_conv)+
qed


lemma client_to_server:
  fixes r :: "link router"
  assumes "router_inv r" and "re_transport E = tcp_transport big near" and "rt_bridges r i = Some b" and "br_handshakeComplete b"
    and "map_of (sv_objects (rt_server r)) i = Some c" and "cn_open c" and "tcps.sender_reach big acc False (br_proto b) (br_device b)"
    and "plain_request msg" and "\<not> expired (se_now (re_server E)) msg" and "downstream_receive E msg i r = Some (evs, r')"
    and "rt_bridges r' i = Some b'" and "tcpt.conn_reach big acc2 c"
  shows "tcps.sender_reach big (acc @ [msg]) False (br_proto b') (br_device b') \<and>
    (\<exists>c'. map_of (sv_objects (rt_server r')) i = Some c' \<and> tcpt.conn_reach big acc2 c')"
proof -
  have pl: "client_plain i c" using client_of [OF _ assms(5)] assms(1) by (simp add: router_inv_def)
  obtain pevs p d where m: "onMessageReceived (tr_device (re_transport E)) (se_import (re_server E)) msg (cn_proto c) (cn_device c) = (pevs, p, d)"
    by (metis prod_cases3)
  note g = plain_received [OF assms(8) pl m]
  let ?c = "c\<lparr>cn_proto := p, cn_device := d\<rparr>" and ?r = "put_downstream i (c\<lparr>cn_proto := p, cn_device := d\<rparr>) r"
  have e: "downstream_events E i pevs ?r = up_send E msg i ?r"
    using assms(3,4,8,9) by (simp add: g(1) downstream_event_def router_onConnectionMessageReceived_def plain_request_def findBridge_def)
  have b: "rt_bridges ?r i = Some b" "map_of (sv_objects (rt_server ?r)) i = Some ?c" "cn_open ?c"
    using assms(3,5,6) by (simp_all add: downstream_lookup)
  obtain es where u: "up_send E msg i ?r = Some (es, r')"
    using assms(5,10) m e by (simp add: downstream_receive_def)
  note s = up_send_reach [OF assms(2) b(1) assms(7) u assms(11) b(2,3)]
  have "map_of (sv_objects (rt_server r')) i = Some ?c" using s b(2) by (metis put_bridge_simps(2))
  moreover have "tcpt.conn_reach big acc2 ?c" by (rule tcpt.conn_reach_other [OF assms(12)]) (use g in simp_all)
  ultimately show ?thesis using s by blast
qed

text \<open>No forward in progress waits for the number of the message.\<close>

definition no_forward_waits :: "inc_message \<Rightarrow> 'd bridge \<Rightarrow> bool" where
  "no_forward_waits msg b \<longleftrightarrow> (\<forall>pf\<in>set (br_pendingForwards b). ops_find (msg_seqNum msg) (br_proto b) \<noteq> Some (pf_op pf))"

text \<open>A message of the server that reaches the router's handler is put on the client's connection.\<close>

lemma raw_relayed:
  fixes r :: "link router"
  assumes "re_transport E = tcp_transport big near" and "rt_bridges r i = Some b" and "br_handshakeComplete b"
    and "map_of (sv_objects (rt_server r)) i = Some c" and "cn_open c" and "tcpt.conn_reach big acc c"
    and "msg_type msg \<noteq> INC_MSG_PING" and "handleUpstreamRawMessage E msg i r = Some (evs, r')" and "rt_bridges r' i \<noteq> None"
  shows "\<exists>m c'. map_of (sv_objects (rt_server r')) i = Some c' \<and> tcpt.conn_reach big (acc @ [m]) c' \<and> encode_message big m = encode_message big msg"
proof -
  obtain msg1 b1 where a: "router_handleStreamOpenAck msg b = (msg1, b1)" by fastforce
  have msg1: "msg1 = msg\<lparr>msg_payload := snd (stream_ack_shm (msg_payload msg))\<rparr>"
    using a by (auto simp: router_handleStreamOpenAck_def split: prod.splits)
  have enc: "encode_message big msg1 = encode_message big msg" "msg_type msg1 = msg_type msg"
    unfolding msg1 using stream_ack_data [of "msg_payload msg"]
    by (simp_all add: encode_message_def header_def payload_size_def)
  obtain m1 r1 where d: "on_downstream (relay_client (re_transport E) m1) i r1 = Some (evs, r')" "rt_server r1 = rt_server r"
    and m1: "encode_message big m1 = encode_message big msg"
  proof (cases "msg_type msg = INC_MSG_STREAM_OPEN_ACK")
    case True
    then have "on_downstream (relay_client (re_transport E) msg1) i (put_bridge i b1 r) = Some (evs, r')"
      using assms(2,3,7,8) a enc(2) by (simp add: handleUpstreamRawMessage_def onUpstreamMessage_def)
    then show ?thesis using that enc(1) by (metis put_bridge_simps(2))
  next
    case False
    then have "on_downstream (relay_client (re_transport E) msg) i r = Some (evs, r')"
      using assms(2,3,7,8) by (simp add: handleUpstreamRawMessage_def onUpstreamMessage_def)
    then show ?thesis using that by blast
  qed
  have es: "evs = []" using on_downstream_frame(1) [OF d(1)] assms(9) by (auto split: if_splits)
  obtain c1 where c1: "relay_client (re_transport E) m1 c = ([], c1)" "r' = put_downstream i c1 r1"
    using d es assms(4) by (auto simp: on_downstream_def slotClientDisconnected_def split: prod.splits if_splits)
  have "tcpt.conn_reach big (acc @ [m1]) c1" by (rule relay_reach(1) [OF c1(1) [unfolded assms(1)] assms(5,6)])
  moreover have "map_of (sv_objects (rt_server r')) i = Some c1" using assms(4) d(2) by (simp add: c1(2) downstream_lookup)
  ultimately show ?thesis using m1 by blast
qed

lemma server_to_client:
  fixes r :: "link router"
  assumes "router_inv r" and "re_transport E = tcp_transport big near" and "rt_bridges r i = Some b" and "br_handshakeComplete b"
    and "map_of (sv_objects (rt_server r)) i = Some c" and "cn_open c" and "tcpt.conn_reach big acc c"
    and "msg_type msg \<noteq> INC_MSG_PING" and "no_forward_waits msg b" and "upstream_receive E msg i r = Some (evs, r')"
    and "rt_bridges r' i \<noteq> None"
  shows "\<exists>m c'. map_of (sv_objects (rt_server r')) i = Some c' \<and> tcpt.conn_reach big (acc @ [m]) c' \<and> encode_message big m = encode_message big msg"
proof -
  note o = bridge_of [OF assms(1,3)]
  obtain pevs p d where m: "onMessageReceived (tr_device (re_transport E)) (se_import (re_server E)) msg (br_proto b) (br_device b) = (pevs, p, d)"
    by (metis prod_cases3)
  have pt: "p_isPassthrough (br_proto b)" using o by (simp add: bridge_ok_def)
  note g = passthrough_receives [OF m pt]
  let ?b = "b\<lparr>br_proto := p, br_device := d\<rparr>" and ?r = "put_bridge i (b\<lparr>br_proto := p, br_device := d\<rparr>) r"
  have "forward_code p pf = None" if "pf \<in> set (br_pendingForwards b)" for pf
  proof -
    have "ops_find (msg_seqNum msg) (meter f (cache_fd fd (br_proto b))) \<noteq> Some (pf_op pf)" for f fd
      using assms(9) that by (simp add: no_forward_waits_def ops_find_def meter_def cache_fd_def)
    then have "p_heap p (pf_op pf) = p_heap (br_proto b) (pf_op pf)"
      unfolding g(3) by (simp add: complete_op_other) (simp add: meter_def cache_fd_def)
    then show ?thesis using o that by (auto simp: bridge_idle_def forward_code_def)
  qed
  then have "run_forwards E i p (br_pendingForwards b) ?r = Some ([], ?r)" by (rule no_forwards)
  then have "upstream_receive E msg i r = upstream_event E i (MessageReceived msg) ?r"
    using assms(3) m by (simp add: upstream_receive_def g(1))
  then have u: "handleUpstreamRawMessage E msg i ?r = Some (evs, r')"
    using assms(10) by (simp add: upstream_event_def)
  show ?thesis by (rule raw_relayed [OF assms(2) _ _ _ assms(6,7,8) u assms(11), of ?b]) (simp_all add: assms(4,5))
qed


section \<open>Connecting\<close>

text \<open>A context that has sent its handshake data d under the number sq, and has been given no configuration for it.\<close>

definition says_hello :: "bool \<Rightarrow> xuint32 \<Rightarrow> handshake_data \<Rightarrow> (link, 'c) connection \<Rightarrow> (link, 'c) inc_context \<Rightarrow> bool" where
  "says_hello big sq d c x \<longleftrightarrow> cx_state x = CTX_CONNECTING \<and> cx_customState x = CTX_CONNECTING \<and>
     tcpt.conn_reach big [handshake_message 0 sq (serializeHandshakeData d)] c \<and>
     (\<exists>h. cn_handshake c = Some h \<and> hk_role h = ROLE_CLIENT \<and> hk_state h = HS_SENDING \<and> hk_localData h = d \<and>
        hk_contextConfig h = None \<and> hk_serverConfig h = None)"

lemma context_reads_ack:
  fixes x :: "(link, 'c) inc_context"
  assumes "says_hello big sq d c x" and "hs_protocolVersion d = ucast (a :: 16 word)" and "handshake_ok e" and "hs_protocolVersion e = ucast (b :: 16 word)"
  shows "\<exists>x2 c2 h2. ctx_onMessageReceived (tcp_transport big near) now (received (handshake_ack i sq' (serializeHandshakeData e))) c x =
      ([StateChanged CTX_CONNECTING CTX_CONNECTED], x2) \<and> cx_state x2 = CTX_CONNECTED \<and> cx_connection x2 = Some c2 \<and> cn_connId c2 = i \<and>
    cn_peerName c2 = hs_nodeName e \<and> cn_peerProtocol c2 = hs_protocolVersion e \<and> cn_handshake c2 = Some h2 \<and> hk_state h2 = HS_COMPLETED \<and>
    negotiatedCapabilities h2 = hs_capabilities d AND hs_capabilities e"
proof -
  let ?a = "handshake_ack i sq' (serializeHandshakeData e)"
  obtain h where h: "cn_handshake c = Some h" "hk_role h = ROLE_CLIENT" "hk_state h = HS_SENDING" "hk_localData h = d"
    "hk_contextConfig h = None" "hk_serverConfig h = None" "cx_state x = CTX_CONNECTING" "cx_customState x = CTX_CONNECTING"
    using assms(1) by (auto simp: says_hello_def)
  have acc: "accepts h e" by (rule unconfigured_accepts [OF h(5,6)]) (simp_all add: h(4) assms(2,4))
  let ?h2 = "h\<lparr>hk_remoteData := e, hk_state := HS_COMPLETED\<rparr>"
  have pr: "processHandshake (serializeHandshakeData e) h = ([], ?h2)"
    using process_serialized [OF _ assms(3), of h] acc h by simp
  define c2 where "c2 = c\<lparr>cn_handshake := Some ?h2, cn_connId := i, cn_peerName := hs_nodeName e, cn_peerProtocol := hs_protocolVersion e\<rparr>"
  define mode where "mode = (if cx_connectMode x = 0x01 then 0x04 else if cx_connectMode x = 0x02 then 0x08 else cx_connectMode x)"
  have "\<exists>x2. ctx_setState CTX_CONNECTED (x\<lparr>cx_connection := Some c2, cx_connectMode := mode\<rparr>) = ([StateChanged CTX_CONNECTING CTX_CONNECTED], x2)"
    by (simp add: ctx_setState_def ctx_state_of_def h Let_def)
  then obtain x2 where st: "ctx_setState CTX_CONNECTED (x\<lparr>cx_connection := Some c2, cx_connectMode := mode\<rparr>) = ([StateChanged CTX_CONNECTING CTX_CONNECTED], x2)"
    by blast
  have "ctx_handleHandshakeAck (tcp_transport big near) (received ?a) c x = ([StateChanged CTX_CONNECTING CTX_CONNECTED], x2)"
    using st pr h by (simp add: ctx_handleHandshakeAck_def handshake_payload c2_def mode_def)
  then have m: "ctx_onMessageReceived (tcp_transport big near) now (received ?a) c x = ([StateChanged CTX_CONNECTING CTX_CONNECTED], x2)"
    by (simp add: ctx_onMessageReceived_def handshake_payload)
  note f = setState_frame [OF st, simplified]
  show ?thesis using m f h by (intro exI [of _ x2] exI [of _ c2] exI [of _ ?h2]) (simp add: c2_def negotiatedCapabilities_def)
qed

lemma upstream_hello_eq: "upstream_hello sq bs = handshake_message 0 sq bs"
  by (simp add: upstream_hello_def handshake_message_def)

lemma client_ack_eq: "client_ack i sq d = handshake_ack i sq (serializeHandshakeData (ack_data d))"
  by (simp add: client_ack_def handshake_ack_def)

lemma router_data_ok:
  "handshake_ok d \<Longrightarrow> handshake_ok (upstream_data local d)" "handshake_ok d \<Longrightarrow> handshake_ok (ack_data d)"
  by (simp_all add: handshake_ok_def upstream_data_def ack_data_def new_handshake_data_def string_ok_def bytes_ok_def)

text \<open>A client's handshake gets to the router's handler.\<close>

lemma handshake_reaches:
  assumes "router_inv r" and "map_of (sv_objects (rt_server r)) i = Some c"
  shows "downstream_receive E (received (handshake_message cid sq bs)) i r =
    handleRouterHandshake E (received (handshake_message cid sq bs)) i (put_downstream i (taken (received (handshake_message cid sq bs)) c) r)"
proof -
  let ?m = "received (handshake_message cid sq bs)"
  have pl: "client_plain i c" using client_of [OF _ assms(2)] assms(1) by (simp add: router_inv_def)
  have q: "request ?m" "msg_type ?m = INC_MSG_HANDSHAKE" "\<not> expired (se_now (re_server E)) ?m"
    by (simp_all add: request_def INC_MSG_HANDSHAKE_def INC_MSG_BINARY_DATA_def)
  have np: "\<not> p_isPassthrough (cn_proto c)" using pl by (simp add: client_plain_def)
  note rc = request_received [OF q(1) np, of "tr_device (re_transport E)" "se_import (re_server E)" "cn_device c"]
  show ?thesis using assms(2) q(2,3)
    by (simp add: downstream_receive_def rc downstream_event_def router_onConnectionMessageReceived_def taken_def)
qed

text \<open>The router opens a bridge for a client that has just been accepted, and says hello on it.\<close>

lemma router_hears:
  fixes r :: "link router"
  assumes "re_transport E = tcp_transport big near" and "router_inv r" and "map_of (sv_objects (rt_server r)) i = Some c"
    and "rt_bridges r i = None" and "handshake_ok d"
    and "hs_hopCount d < rt_maxHopCount r" and "resolveRoute E c r = url" and "url \<noteq> []" and "re_connect E url = Some (up, True, True)"
  obtains r4 b1 c2 where "downstream_receive E (received (handshake_message 0 sq (serializeHandshakeData d))) i r =
      up_send E (handshake_message 0 1 (serializeHandshakeData (upstream_data near d))) i r4"
    and "rt_bridges r4 = (rt_bridges r)(i \<mapsto> b1)" and "br_device b1 = up" and "br_proto b1 = snd (nextSequence (new_proto True))"
    and "br_clientSeqNum b1 = sq" and "\<not> br_handshakeComplete b1" and "br_clientTargetServer b1 = hs_targetServer d" and "br_resolvedUrl b1 = url"
    and "map_of (sv_objects (rt_server r4)) i = Some c2" and "cn_open c2 = cn_open c" and "cn_device c2 = cn_device c"
    and "p_sendQueue (cn_proto c2) = p_sendQueue (cn_proto c)" and "p_partialSendOffset (cn_proto c2) = p_partialSendOffset (cn_proto c)"
    and "cn_peerName c2 = hs_nodeName d"
proof -
  let ?m = "received (handshake_message 0 sq (serializeHandshakeData d))" and ?T = "tcp_transport big near"
  have q: "msg_seqNum ?m = sq" by simp
  define c1 where "c1 = taken ?m c"
  define r1 where "r1 = put_downstream i c1 r"
  have e1: "downstream_receive E ?m i r = handleRouterHandshake E ?m i r1"
    unfolding r1_def c1_def by (rule handshake_reaches [OF assms(2,3)])
  have m1: "map_of (sv_objects (rt_server r1)) i = Some c1" using assms(3) by (simp add: r1_def downstream_lookup)
  have ds: "deserializeHandshakeData (m_data (msg_payload ?m)) new_handshake_data = (True, d)"
    using handshake_data_round_trip [OF assms(5), of new_handshake_data] by (simp add: handshake_payload)
  have url: "resolveRoute E c1 r1 = url" using assms(7) by (simp add: resolveRoute_def c1_def taken_def r1_def)
  let ?c2 = "pause_client d c1" and ?r2 = "put_downstream i (pause_client d c1) r1"
  have e2: "handleRouterHandshake E ?m i r1 = open_bridge E (up, True, True) ?m d url ?c2 i ?r2"
    using m1 ds url assms(4,8,9) assms(6) [folded not_le] by (simp add: handleRouterHandshake_def findBridge_def r1_def Let_def)
  let ?pl = "serializeHandshakeData (upstream_data near d)"
  define b0 where "b0 = new_bridge up sq (hs_targetServer d) url ?pl"
  define r3 where "r3 = (put_bridge i b0 ?r2)\<lparr>rt_relayed := (rt_relayed ?r2)(i := True)\<rparr>"
  have e3: "open_bridge E (up, True, True) ?m d url ?c2 i ?r2 = handleUpstreamConnected E i r3"
    using q by (simp add: open_bridge_def r3_def b0_def assms(1) isLocal_def tcp_transport_def Let_def) (simp add: routed_bind_def split: option.split)
  define b1 where "b1 = b0\<lparr>br_proto := snd (nextSequence (br_proto b0))\<rparr>"
  define r4 where "r4 = put_bridge i b1 r3"
  have e4: "handleUpstreamConnected E i r3 = up_send E (handshake_message 0 1 ?pl) i r4"
    by (simp add: handleUpstreamConnected_def r3_def r4_def b1_def b0_def new_bridge_def nextSequence_def new_proto_def upstream_hello_eq)
  show thesis
  proof (rule that [of r4 b1 ?c2])
    show "downstream_receive E ?m i r = up_send E (handshake_message 0 1 ?pl) i r4" using e1 e2 e3 e4 by simp
    show "map_of (sv_objects (rt_server r4)) i = Some ?c2" using m1 by (simp add: r4_def r3_def downstream_lookup)
  qed (auto simp: b1_def b0_def new_bridge_def r4_def r3_def r1_def pause_client_def c1_def taken_def meter_def cache_fd_def)
qed

lemma router_opens:
  fixes r :: "link router"
  assumes "re_transport E = tcp_transport big near" and "router_inv r" and "map_of (sv_objects (rt_server r)) i = Some c"
    and "rt_bridges r i = None" and "handshake_ok d"
    and "hs_hopCount d < rt_maxHopCount r" and "resolveRoute E c r = url" and "url \<noteq> []" and "re_connect E url = Some (up, True, True)"
    and "cn_open c" and "tcpt.conn_reach big [] c"
    and "lk_wire up = []" and "downstream_receive E (received (handshake_message 0 sq (serializeHandshakeData d))) i r = Some (evs, r')"
    and "rt_bridges r' i = Some b"
  shows "evs = [] \<and> tcps.sender_reach big [handshake_message 0 1 (serializeHandshakeData (upstream_data near d))] False (br_proto b) (br_device b) \<and>
    br_clientSeqNum b = sq \<and> \<not> br_handshakeComplete b \<and> br_clientTargetServer b = hs_targetServer d \<and> br_resolvedUrl b = url \<and>
    (\<exists>c'. map_of (sv_objects (rt_server r')) i = Some c' \<and> cn_open c' \<and> tcpt.conn_reach big [] c' \<and> cn_peerName c' = hs_nodeName d)"
proof -
  let ?hello = "handshake_message 0 1 (serializeHandshakeData (upstream_data near d))"
  obtain r4 b1 c2 where eq: "downstream_receive E (received (handshake_message 0 sq (serializeHandshakeData d))) i r = up_send E ?hello i r4"
    and b1: "rt_bridges r4 = (rt_bridges r)(i \<mapsto> b1)" "br_device b1 = up" "br_proto b1 = snd (nextSequence (new_proto True))"
      "br_clientSeqNum b1 = sq" "\<not> br_handshakeComplete b1" "br_clientTargetServer b1 = hs_targetServer d" "br_resolvedUrl b1 = url"
    and c2: "map_of (sv_objects (rt_server r4)) i = Some c2" "cn_open c2 = cn_open c" "cn_device c2 = cn_device c"
      "p_sendQueue (cn_proto c2) = p_sendQueue (cn_proto c)" "p_partialSendOffset (cn_proto c2) = p_partialSendOffset (cn_proto c)"
      "cn_peerName c2 = hs_nodeName d"
    by (rule router_hears [OF assms(1-9), of sq])
  have "tcps.sender_reach big [] False (br_proto b1) (br_device b1)"
    by (rule tcps.sr_start) (simp_all add: b1 nextSequence_def new_proto_def assms(12))
  then have s: "evs = [] \<and> tcps.sender_reach big ([] @ [?hello]) False (br_proto b) (br_device b) \<and>
      b = b1\<lparr>br_proto := br_proto b, br_device := br_device b\<rparr> \<and> r' = put_bridge i b r4"
    using b1(1) c2(2) assms(10) by (intro up_send_reach [OF assms(1) _ _ assms(13) [unfolded eq] assms(14) c2(1)]) simp_all
  then have "map_of (sv_objects (rt_server r')) i = Some c2" using c2(1) by (metis put_bridge_simps(2))
  moreover have "tcpt.conn_reach big [] c2" by (rule tcpt.conn_reach_other [OF assms(11)]) (simp_all add: c2)
  moreover have "br_clientSeqNum b = sq \<and> \<not> br_handshakeComplete b \<and> br_clientTargetServer b = hs_targetServer d \<and> br_resolvedUrl b = url"
  proof -
    have b: "b = b1\<lparr>br_proto := br_proto b, br_device := br_device b\<rparr>" using s by blast
    show ?thesis by (subst (1 2 3 4) b) (simp add: b1)
  qed
  ultimately show ?thesis using s c2 assms(10) by auto
qed

text \<open>The router takes the acknowledgement of the server, and acknowledges its client.\<close>

lemma ack_outcome:
  assumes "rt_bridges r i = Some b" and "map_of (sv_objects (rt_server r)) i = Some c" and "handshake_ok d" and "identity_ok b d"
    and "relay_client (re_transport E) (handshake_ack (cn_connId c) (br_clientSeqNum b) (serializeHandshakeData (ack_data d))) c = (es, c1)"
  shows "router_handleHandshakeAck E (received (handshake_ack k sq (serializeHandshakeData d))) i r =
    (if es \<noteq> [] then None
     else Some ([UpstreamConnected (cn_connId c1) (hs_nodeName d)], put_bridge i (b\<lparr>br_handshakeComplete := True\<rparr>) (put_downstream i
       (c1\<lparr>cn_peerName := hs_nodeName d, cn_peerProtocol := hs_protocolVersion d, cn_proto := (cn_proto c1)\<lparr>p_writeEvents := False\<rparr>,
          cn_handshake := None\<rparr>) r)))"
proof -
  have ds: "deserializeHandshakeData (m_data (msg_payload (received (handshake_ack k sq (serializeHandshakeData d))))) new_handshake_data = (True, d)"
    using handshake_data_round_trip [OF assms(3), of new_handshake_data] by (simp add: handshake_payload)
  show ?thesis using assms(1,2,4,5) ds by (simp add: router_handleHandshakeAck_def client_ack_eq Let_def)
qed

lemma router_reads:
  assumes "bridge_ok b" and "rt_bridges r i = Some b" and "\<not> br_handshakeComplete b"
  obtains p where "upstream_receive E (received (handshake_ack k sq bs)) i r =
      router_handleHandshakeAck E (received (handshake_ack k sq bs)) i (put_bridge i (b\<lparr>br_proto := p, br_device := br_device b\<rparr>) r)"
    and "p_sendQueue p = p_sendQueue (br_proto b)" and "p_partialSendOffset p = p_partialSendOffset (br_proto b)"
    and "p_seqCounter p = p_seqCounter (br_proto b)"
proof -
  let ?m = "received (handshake_ack k sq bs)"
  obtain pevs p dv where m: "onMessageReceived (tr_device (re_transport E)) (se_import (re_server E)) ?m (br_proto b) (br_device b) = (pevs, p, dv)"
    by (metis prod_cases3)
  have pt: "p_isPassthrough (br_proto b)" "br_pendingForwards b = []" using assms(1,3) by (simp_all add: bridge_ok_def)
  note g = passthrough_receives [OF m pt(1)]
  show thesis
  proof (rule that)
    show "upstream_receive E ?m i r = router_handleHandshakeAck E ?m i (put_bridge i (b\<lparr>br_proto := p, br_device := br_device b\<rparr>) r)"
      using assms(2,3) m pt(2) by (simp add: upstream_receive_def g(1,2) upstream_event_def handleUpstreamRawMessage_def handshake_payload)
    show "p_sendQueue p = p_sendQueue (br_proto b)" "p_partialSendOffset p = p_partialSendOffset (br_proto b)"
      "p_seqCounter p = p_seqCounter (br_proto b)"
      unfolding g(3) by (simp_all add: complete_op_def handshake_payload meter_def cache_fd_def Let_def ops_erase_def processRelease_def
          deref_op_def with_op_def split: option.splits)
  qed
qed

lemma router_acks:
  fixes r :: "link router"
  assumes "re_transport E = tcp_transport big near" and "router_inv r" and "rt_bridges r i = Some b" and "\<not> br_handshakeComplete b"
    and "map_of (sv_objects (rt_server r)) i = Some c" and "cn_open c" and "tcpt.conn_reach big [] c" and "handshake_ok d" and "identity_ok b d"
    and "tcps.sender_reach big acc False (br_proto b) (br_device b)"
    and "upstream_receive E (received (handshake_ack k sq (serializeHandshakeData d))) i r = Some (evs, r')"
  shows "evs = [UpstreamConnected i (hs_nodeName d)] \<and> (\<exists>b' c'. rt_bridges r' i = Some b' \<and> br_handshakeComplete b' \<and>
    tcps.sender_reach big acc False (br_proto b') (br_device b') \<and> map_of (sv_objects (rt_server r')) i = Some c' \<and> cn_open c' \<and>
    tcpt.conn_reach big [handshake_ack i (br_clientSeqNum b) (serializeHandshakeData (ack_data d))] c' \<and> cn_peerName c' = hs_nodeName d)"
proof -
  have o: "bridge_ok b" using bridge_of [OF assms(2,3)] by simp
  obtain p where rd: "upstream_receive E (received (handshake_ack k sq (serializeHandshakeData d))) i r =
      router_handleHandshakeAck E (received (handshake_ack k sq (serializeHandshakeData d))) i (put_bridge i (b\<lparr>br_proto := p, br_device := br_device b\<rparr>) r)"
    "p_sendQueue p = p_sendQueue (br_proto b)" "p_partialSendOffset p = p_partialSendOffset (br_proto b)"
    by (rule router_reads [OF o assms(3,4)])
  let ?b = "b\<lparr>br_proto := p, br_device := br_device b\<rparr>"
  have id: "identity_ok (b\<lparr>br_proto := p\<rparr>) d" using assms(9) by (simp add: identity_ok_def)
  have cid: "cn_connId c = i" using client_of [OF _ assms(5)] assms(2) by (simp add: router_inv_def client_plain_def)
  let ?a = "handshake_ack i (br_clientSeqNum b) (serializeHandshakeData (ack_data d))"
  obtain es c1 where rl: "relay_client (tcp_transport big near) ?a c = (es, c1)" by fastforce
  note out = ack_outcome [of "put_bridge i ?b r" i ?b c d E es c1 k sq, unfolded assms(1) cid, simplified, OF assms(5,8) id rl]
  have e: "es = []" "evs = [UpstreamConnected (cn_connId c1) (hs_nodeName d)]" using out rd(1) assms(11) by (auto split: if_splits)
  define c2 where "c2 = c1\<lparr>cn_peerName := hs_nodeName d, cn_peerProtocol := hs_protocolVersion d,
                           cn_proto := (cn_proto c1)\<lparr>p_writeEvents := False\<rparr>, cn_handshake := None\<rparr>"
  have r': "r' = put_bridge i (?b\<lparr>br_handshakeComplete := True\<rparr>) (put_downstream i c2 (put_bridge i ?b r))"
    unfolding c2_def using out rd(1) assms(11) e(1) by simp
  note k = relay_reach [OF rl [unfolded e(1)] assms(6,7)]
  have "cn_connId c1 = i" "cn_open c2" using k(2) cid assms(6) by (simp_all add: c2_def conn_frame_simps)
  moreover have "tcpt.conn_reach big [?a] c2" by (rule tcpt.conn_reach_other [of big "[?a]" c1]) (use k(1) in \<open>simp_all add: c2_def\<close>)
  moreover have "map_of (sv_objects (rt_server r')) i = Some c2" using assms(5) by (simp add: r' downstream_lookup)
  moreover have "tcps.sender_reach big acc False p (br_device b)" using tcps.sr_other assms(10) rd(2,3) by metis
  ultimately show ?thesis using e(2) by (simp add: r') (simp add: c2_def)
qed

text \<open>The client the router has just accepted.\<close>

lemma router_accepts:
  fixes r :: "link router"
  assumes "router_exec E (RtAccept dev True nid) r0 = Some ([FromServer (ClientConnected i)], r1)" and "lk_wire dev = []"
  shows "rt_bridges r1 = rt_bridges r0" "rt_maxHopCount r1 = rt_maxHopCount r0" "rt_routes r1 = rt_routes r0"
    "\<exists>c. map_of (sv_objects (rt_server r1)) i = Some c \<and> cn_open c \<and> cn_device c = dev \<and> p_sendQueue (cn_proto c) = [] \<and> tcpt.conn_reach big [] c"
proof -
  obtain s where h: "handleNewConnection dev True nid (rt_server r0) = ([ClientConnected i], s)"
    and r1: "r1 = r0\<lparr>rt_server := s, rt_relayed := (\<lambda>j. ClientConnected j \<notin> {ClientConnected i} \<and> rt_relayed r0 j)\<rparr>"
    using assms(1) by (auto split: prod.splits)
  show "rt_bridges r1 = rt_bridges r0" "rt_maxHopCount r1 = rt_maxHopCount r0" "rt_routes r1 = rt_routes r0"
    by (simp_all add: r1)
  obtain h0 where "map_of (sv_objects s) i = Some ((new_connection dev True i)\<lparr>cn_handshake := h0\<rparr>)"
    using h by (auto simp: handleNewConnection_def Let_def split: if_splits)
  then have "map_of (sv_objects (rt_server r1)) i = Some ((new_connection dev True i)\<lparr>cn_handshake := h0\<rparr>)" by (simp add: r1)
  moreover have "tcpt.conn_reach big [] ((new_connection dev True i)\<lparr>cn_handshake := h0\<rparr>)"
    unfolding tcpt.conn_reach_def by (rule tcps.sr_start) (simp_all add: new_connection_def new_proto_def assms(2))
  ultimately show "\<exists>c. map_of (sv_objects (rt_server r1)) i = Some c \<and> cn_open c \<and> cn_device c = dev \<and> p_sendQueue (cn_proto c) = [] \<and> tcpt.conn_reach big [] c"
    by (intro exI [of _ "(new_connection dev True i)\<lparr>cn_handshake := h0\<rparr>"]) (simp add: new_connection_def new_proto_def)
qed



text \<open>A router with one route, whose client's and server's devices take nothing; and its only client, whose context is the sample.\<close>

definition sample_router_env :: "link router_env" where
  "sample_router_env = \<lparr>re_server = \<lparr>se_transport = tcp_transport False False, se_import = (\<lambda>_ _ _ _ _ _. None), se_allow = (\<lambda>_ _. True),
     se_createPool = (\<lambda>_ _ _. None), se_now = 0\<rparr>, re_matches = (\<lambda>_ _. Some True), re_peerAddress = (\<lambda>_. []),
     re_connect = (\<lambda>_. Some (quiet_link, True, True))\<rparr>"

definition sample_router_options :: server_options where
  "sample_router_options = default_options\<lparr>sc_disableSharedMemory := True\<rparr>"

definition sample_router :: "link router" where
  "sample_router = listening_router ((new_server [] sample_router_options)\<lparr>sv_listening := True\<rparr>) [\<lparr>ro_fromPattern = [], ro_toTarget = [0x75]\<rparr>]"

abbreviation sample_hello :: handshake_data where
  "sample_hello \<equiv> client_hello sample_context []"

lemma sample_router_listens:
  "listenOn (\<lambda>_. None) [0x75] 1 (new_server [] sample_router_options) = Some (INC_OK, (new_server [] sample_router_options)\<lparr>sv_listening := True\<rparr>)"
  by (simp add: listenOn_def new_server_def sample_router_options_def default_options_def new_server_config_def server_config.defs)

lemma sample_router_accepts:
  obtains r1 where "router_exec sample_router_env (RtAccept quiet_link True []) sample_router = Some ([FromServer (ClientConnected 1)], r1)"
    and "rt_bridges r1 = (\<lambda>_. None)" and "rt_maxHopCount r1 = 8" and "rt_routes r1 = rt_routes sample_router"
proof -
  obtain s1 where h: "handleNewConnection quiet_link True [] (rt_server sample_router) = ([ClientConnected 1], s1)"
    by (simp add: handleNewConnection_def new_server_def m_connections_def sample_router_def listening_router_def new_router_def
        sample_router_options_def default_options_def server_config.defs Let_def)
  show thesis
    by (rule that [of "sample_router\<lparr>rt_server := s1, rt_relayed := (\<lambda>j. ClientConnected j \<notin> {ClientConnected 1} \<and> rt_relayed sample_router j)\<rparr>"])
      (use h in \<open>simp_all add: sample_router_def listening_router_def new_router_def\<close>)
qed

lemma small_handshake:
  assumes "hs_nodeName d = []" and "hs_nodeId d = []" and "hs_authToken d = []" and "hs_targetServer d = []"
  shows "isValid (handshake_message cid sq (serializeHandshakeData d))" "isValid (handshake_ack cid sq (serializeHandshakeData d))"
proof -
  have "length (serializeHandshakeData d) \<le> 100"
    unfolding serialize_fields
    by (simp add: required_fields_def optional_fields_def assms encString_def encBytes_def convertFromUnicode_def Let_def)
  then show "isValid (handshake_message cid sq (serializeHandshakeData d))" "isValid (handshake_ack cid sq (serializeHandshakeData d))"
    by (simp_all add: isValid_def handshake_message_def handshake_ack_def new_message_def payload_size_def setData_def INC_MSG_HANDSHAKE_def
        INC_MSG_HANDSHAKE_ACK_def INC_MSG_INVALID_def MAX_MESSAGE_SIZE_def HEADER_SIZE_def)
qed

lemma quiet_message:
  assumes "\<not> dv_isWritable D d" and "length (p_sendQueue p) < INC_MAX_SEND_QUEUE" and "isValid m"
  obtains p' where "sendMessage D m p d = (if is_tracked m then Some (p_nextOp p) else None, [], p', d)"
    and "length (p_sendQueue p') = length (p_sendQueue p) + 1" and "p_seqCounter p' = p_seqCounter p"
    and "is_tracked m \<Longrightarrow> ops_find (msg_seqNum m) p' = Some (p_nextOp p)"
proof -
  have "sendMessageImpl D m op q d = ([], enqueue m op q, d)" if "p_sendQueue q = p_sendQueue p" for op q
    using assms(1,2) that by (simp add: sendMessageImpl_accept onReadyWrite_def)
  then have "sendMessage D m p d = (if is_tracked m then Some (p_nextOp p) else None, [],
      (if is_tracked m then enqueue m (Some (p_nextOp p)) (ref_op (p_nextOp p) (snd (alloc_op (msg_seqNum m) p))) else enqueue m None p), d)"
    using assms(3) by (simp add: sendMessage_def alloc_op_def ref_op_def)
  then show thesis
    by (rule that) (simp_all add: enqueue_simps alloc_op_def ref_op_def ops_find_def)
qed

lemma drop_op_simps [simp]:
  "p_sendQueue (drop_op op p) = p_sendQueue p" "p_seqCounter (drop_op op p) = p_seqCounter p" "p_operations (drop_op op p) = p_operations p"
  by (simp_all add: drop_op_def deref_op_def Let_def split: option.split)

lemma quiet_up_send:
  assumes "rt_bridges r i = Some b" and "\<not> dv_isWritable (tr_device (re_transport E)) (br_device b)"
    and "length (p_sendQueue (br_proto b)) < INC_MAX_SEND_QUEUE" and "isValid m"
  obtains p where "up_send E m i r = Some ([], put_bridge i (b\<lparr>br_proto := p, br_device := br_device b\<rparr>) r)"
    and "length (p_sendQueue p) = length (p_sendQueue (br_proto b)) + 1" and "p_seqCounter p = p_seqCounter (br_proto b)"
proof -
  obtain p' where m: "sendMessage (tr_device (re_transport E)) m (br_proto b) (br_device b) =
      (if is_tracked m then Some (p_nextOp (br_proto b)) else None, [], p', br_device b)"
    "length (p_sendQueue p') = length (p_sendQueue (br_proto b)) + 1" "p_seqCounter p' = p_seqCounter (br_proto b)"
    by (rule quiet_message [OF assms(2-4)])
  show thesis
  proof (rule that)
    let ?op = "if is_tracked m then Some (p_nextOp (br_proto b)) else None"
    show "up_send E m i r = Some ([], put_bridge i (b\<lparr>br_proto := drop_op ?op p', br_device := br_device b\<rparr>) r)"
      using assms(1) m(1) by (simp add: up_send_def up_events_def)
  qed (simp_all add: m(2,3))
qed

lemma quiet_relay:
  assumes "\<not> dv_isWritable (tr_device T) (cn_device c)" and "length (p_sendQueue (cn_proto c)) < INC_MAX_SEND_QUEUE" and "isValid m"
  obtains c1 where "relay_client T m c = ([], c1)" and "cn_device c1 = cn_device c" and "cn_open c1 = cn_open c"
    and "length (p_sendQueue (cn_proto c1)) = length (p_sendQueue (cn_proto c)) + 1"
proof -
  obtain p where "sendMessage (tr_device T) m (cn_proto c) (cn_device c) = (if is_tracked m then Some (p_nextOp (cn_proto c)) else None, [], p, cn_device c)"
    "length (p_sendQueue p) = length (p_sendQueue (cn_proto c)) + 1"
    by (rule quiet_message [OF assms])
  then show thesis
    by (intro that [of "conn_drop (if is_tracked m then Some (p_nextOp (cn_proto c)) else None) (c\<lparr>cn_proto := p, cn_device := cn_device c\<rparr>)"])
      (simp_all add: relay_client_def conn_sendMessage_def conn_drop_def deref_op_def Let_def)
qed

lemma sample_router_facts:
  "re_transport sample_router_env = tcp_transport False False" "\<not> dv_isWritable (tr_device (tcp_transport False False)) quiet_link"
  "handshake_ok sample_hello" "hs_targetServer sample_hello = []" "hs_hopCount sample_hello = 0"
  "rt_maxHopCount sample_router = 8" "rt_bridges sample_router = (\<lambda>_. None)" "rt_routes sample_router = [\<lparr>ro_fromPattern = [], ro_toTarget = [0x75]\<rparr>]"
  "re_connect sample_router_env url = Some (quiet_link, True, True)" "lk_wire quiet_link = []"
  "re_matches sample_router_env = (\<lambda>_ _. Some True)" "cx_name sample_context = []"
proof -
  show "handshake_ok sample_hello" by (rule hello_ok(1)) (simp_all add: sample_context_def new_context_def string_ok_def)
qed (simp_all add: sample_router_env_def tcp_transport_def tcp_sender_def quiet_link_def sample_link_def sample_context_def new_context_def
      client_hello_def new_handshake_data_def sample_router_def listening_router_def new_router_def)

lemma sample_router_run:
  "router_run sample_router_env [] (listening_router ((new_server [] sample_router_options)\<lparr>sv_listening := True\<rparr>)
      [\<lparr>ro_fromPattern = [], ro_toTarget = [0x75]\<rparr>]) = Some ([], sample_router)"
  by (simp add: sample_router_def)

text \<open>The router forwards a frame of data for a client on a quiet link.\<close>

lemma quiet_forward:
  fixes r :: "link router"
  assumes "re_transport E = tcp_transport big near" and "router_inv r" and "rt_bridges r i = Some b" and "br_handshakeComplete b"
    and "br_device b = quiet_link" and "length (p_sendQueue (br_proto b)) < INC_MAX_SEND_QUEUE"
    and "map_of (sv_objects (rt_server r)) i = Some c" and "bytes_ok data" and "isValid (copy_message ch (p_seqCounter (br_proto b)) False pos data)"
  obtains p c1 where "downstream_receive E (received (copy_message ch sq False pos data)) i r = Some ([], put_bridge i
      (b\<lparr>br_proto := p, br_device := quiet_link, br_pendingForwards := br_pendingForwards b @
        [\<lparr>pf_op = p_nextOp (br_proto b), pf_data = data, pf_channel = ch, pf_seqNum = sq\<rparr>]\<rparr>) (put_downstream i c1 r))"
    and "ops_find (p_seqCounter (br_proto b)) p = Some (p_nextOp (br_proto b))"
    and "cn_open c1 = cn_open c" and "cn_device c1 = cn_device c" and "p_sendQueue (cn_proto c1) = p_sendQueue (cn_proto c)"
    and "p_partialSendOffset (cn_proto c1) = p_partialSendOffset (cn_proto c)"
proof -
  let ?m = "received (copy_message ch sq False pos data)" and ?u = "copy_message ch (p_seqCounter (br_proto b)) False pos data"
  let ?D = "tr_device (re_transport E)" and ?n = "p_nextOp (br_proto b)"
  have pl: "client_plain i c" using client_of [OF _ assms(7)] assms(2) by (simp add: router_inv_def)
  then have np: "\<not> p_isPassthrough (cn_proto c)" by (simp add: client_plain_def)
  obtain pevs p0 d0 where m: "onMessageReceived ?D (se_import (re_server E)) ?m (cn_proto c) (cn_device c) = (pevs, p0, d0)" by (metis prod_cases3)
  have ev: "pevs = [BinaryDataReceived ch sq False pos data]"
    using copy_message_received [OF assms(8) np, of ?D "se_import (re_server E)" ch sq False pos "cn_device c"] m by simp
  have q0: "d0 = cn_device c" "p_sendQueue p0 = p_sendQueue (cn_proto c)" "p_partialSendOffset p0 = p_partialSendOffset (cn_proto c)"
  proof -
    have t: "msg_type (copy_message ch sq False pos data) = INC_MSG_BINARY_DATA" "msg_flags (copy_message ch sq False pos data) = 0"
      by (simp_all add: copy_message_def new_message_def INC_MSG_FLAG_NONE_def)
    have co: "complete_op ?m q = q" for q by (simp add: complete_op_def t INC_MSG_BINARY_DATA_def)
    have dp: "direct_payload (msg_payload ?m) = Some (pos, data)"
      using direct_payload_put [OF assms(8), of pos] by (simp add: received_def copy_message_def setData_def new_tag_struct_def)
    have "\<not> p_isPassthrough (meter f (cache_fd (- 1) (cn_proto c)))" for f using np by (simp add: meter_def cache_fd_def)
    then show "d0 = cn_device c" "p_sendQueue p0 = p_sendQueue (cn_proto c)" "p_partialSendOffset p0 = p_partialSendOffset (cn_proto c)"
      using m dp by (auto simp: onMessageReceived_def co t processBinaryDataMessage_def processDirectBinaryData_def Let_def meter_def cache_fd_def)
  qed
  let ?c1 = "c\<lparr>cn_proto := p0, cn_device := d0\<rparr>"
  have mp: "\<not> p_memPool (br_proto b)" using bridge_of [OF assms(2,3)] by (simp add: bridge_ok_def)
  let ?q = "meter (onBinaryFrameSent (length data) \<circ> onShmMiss) ((br_proto b)\<lparr>p_seqCounter := p_seqCounter (br_proto b) + 1\<rparr>)"
  have tr: "is_tracked ?u" by (simp add: is_tracked_def copy_message_def new_message_def INC_MSG_FLAG_NONE_def INC_MSG_BINARY_DATA_def INC_MSG_FLAG_NOACK_def)
  have sq: "msg_seqNum ?u = p_seqCounter (br_proto b)" by (simp add: copy_message_def new_message_def)
  obtain p1 where s: "sendMessage ?D ?u ?q quiet_link = (if is_tracked ?u then Some (p_nextOp ?q) else None, [], p1, quiet_link)"
    "is_tracked ?u \<Longrightarrow> ops_find (msg_seqNum ?u) p1 = Some (p_nextOp ?q)"
    by (rule quiet_message [of ?D quiet_link ?q ?u]) (use assms(6,9) in \<open>simp_all add: assms(1) sample_router_facts(2) meter_def
      tcp_transport_def tcp_sender_def quiet_link_def\<close>)
  have sd: "sendBinaryData ?D ch False pos data None (br_proto b) quiet_link = (Some ?n, [], p1, quiet_link)"
    using s(1) tr mp by (simp add: sendBinaryData_copy meter_def)
  let ?p = "deref_op ?n (with_op ?n (setFinishedCallback True) (ref_op ?n p1))"
  show thesis
  proof (rule that)
    show "ops_find (p_seqCounter (br_proto b)) ?p = Some ?n"
      using s(2) [OF tr] sq by (simp add: ops_find_def deref_op_def with_op_def ref_op_def Let_def meter_def)
    show "cn_open ?c1 = cn_open c" "cn_device ?c1 = cn_device c" "p_sendQueue (cn_proto ?c1) = p_sendQueue (cn_proto c)"
      "p_partialSendOffset (cn_proto ?c1) = p_partialSendOffset (cn_proto c)" by (simp_all add: q0)
    show "downstream_receive E ?m i r = Some ([], put_bridge i
      (b\<lparr>br_proto := ?p, br_device := quiet_link, br_pendingForwards := br_pendingForwards b @
        [\<lparr>pf_op = ?n, pf_data = data, pf_channel = ch, pf_seqNum = sq\<rparr>]\<rparr>) (put_downstream i ?c1 r))"
      using assms(3-5,7) m ev sd by (simp add: downstream_receive_def downstream_event_def onDownstreamBinaryData_def)
  qed
qed

text \<open>The sample client connects: the router's states after it is accepted, after its handshake, and after the server's answer.\<close>

lemma sample_routed:
  obtains r1 r2 ev2 r3 b c1 c2 where "router_exec sample_router_env (RtAccept quiet_link True []) sample_router = Some ([FromServer (ClientConnected 1)], r1)"
    and "downstream_receive sample_router_env (received (handshake_message 0 sq (serializeHandshakeData sample_hello))) 1 r1 = Some ([], r2)"
    and "rt_bridges r1 1 = None" and "rt_bridges r2 1 = Some b" and "\<not> br_handshakeComplete b" and "br_clientTargetServer b = []"
    and "upstream_receive sample_router_env (received (handshake_ack 1 1 (serializeHandshakeData
       (server_hello (new_server [] default_options :: link server) [])))) 1 r2 = Some (ev2, r3)"
    and "rt_maxHopCount r1 = 8" and "map_of (sv_objects (rt_server r1)) 1 = Some c1" and "cn_open c1" and "tcpt.conn_reach False [] c1"
    and "resolveRoute sample_router_env c1 r1 = [0x75]" and "map_of (sv_objects (rt_server r2)) 1 = Some c2" and "router_inv r1" and "router_inv r2"
    and "\<exists>b3 c3. rt_bridges r3 1 = Some b3 \<and> br_handshakeComplete b3 \<and> br_device b3 = quiet_link \<and> length (p_sendQueue (br_proto b3)) = 1 \<and>
       p_seqCounter (br_proto b3) = 2 \<and>
       map_of (sv_objects (rt_server r3)) 1 = Some c3 \<and> cn_open c3 \<and> cn_device c3 = quiet_link \<and> length (p_sendQueue (cn_proto c3)) = 1"
proof -
  let ?E = sample_router_env and ?T = "tcp_transport False False" and ?s = "new_server [] default_options :: link server"
  let ?hello = "handshake_message 0 1 (serializeHandshakeData (upstream_data False sample_hello))"
  note f = sample_router_facts
  obtain r1 where r1: "router_exec ?E (RtAccept quiet_link True []) sample_router = Some ([FromServer (ClientConnected 1)], r1)"
    "rt_bridges r1 = (\<lambda>_. None)" "rt_maxHopCount r1 = 8" "rt_routes r1 = rt_routes sample_router"
    by (rule sample_router_accepts)
  have inv1: "router_inv r1"
    by (rule router_inv_exec [OF _ r1(1)]) (simp add: sample_router_def router_inv_listening new_server_def)
  obtain c where c: "map_of (sv_objects (rt_server r1)) 1 = Some c" "cn_open c" "cn_device c = quiet_link" "p_sendQueue (cn_proto c) = []"
    "tcpt.conn_reach False [] c"
    using router_accepts(4) [OF r1(1) f(10)] by blast
  have rr: "resolveRoute ?E c r1 = [0x75]" by (simp add: resolveRoute_def r1(4) f)
  obtain r4 b1 c2 where h: "downstream_receive ?E (received (handshake_message 0 sq (serializeHandshakeData sample_hello))) 1 r1 = up_send ?E ?hello 1 r4"
    "rt_bridges r4 = (rt_bridges r1)(1 \<mapsto> b1)" "br_device b1 = quiet_link" "br_proto b1 = snd (nextSequence (new_proto True))"
    "\<not> br_handshakeComplete b1" "br_clientTargetServer b1 = hs_targetServer sample_hello"
    "map_of (sv_objects (rt_server r4)) 1 = Some c2" "cn_device c2 = cn_device c" "p_sendQueue (cn_proto c2) = p_sendQueue (cn_proto c)"
    "cn_open c2 = cn_open c"
    by (rule router_hears [OF f(1) inv1 c(1) _ f(3) _ rr _ f(9), of sq]) (simp_all add: r1(2,3) f)
  obtain p where u: "up_send ?E ?hello 1 r4 = Some ([], put_bridge 1 (b1\<lparr>br_proto := p, br_device := br_device b1\<rparr>) r4)"
    "length (p_sendQueue p) = length (p_sendQueue (br_proto b1)) + 1" "p_seqCounter p = p_seqCounter (br_proto b1)"
    by (rule quiet_up_send [of r4 1 b1 ?E ?hello])
      (simp_all add: h f nextSequence_def new_proto_def INC_MAX_SEND_QUEUE_def small_handshake upstream_data_def client_hello_def new_handshake_data_def)
  let ?b = "b1\<lparr>br_proto := p, br_device := br_device b1\<rparr>"
  let ?r2 = "put_bridge 1 ?b r4" and ?ack = "received (handshake_ack 1 1 (serializeHandshakeData (server_hello ?s [])))"
  have d2: "downstream_receive ?E (received (handshake_message 0 sq (serializeHandshakeData sample_hello))) 1 r1 = Some ([], ?r2)" using h(1) u(1) by simp
  have inv2: "router_inv ?r2" by (rule downstream_receive_inv [OF inv1 d2])
  have b: "rt_bridges ?r2 1 = Some ?b" by simp
  obtain p2 where rd: "upstream_receive ?E ?ack 1 ?r2 =
      router_handleHandshakeAck ?E ?ack 1 (put_bridge 1 (?b\<lparr>br_proto := p2, br_device := br_device ?b\<rparr>) ?r2)"
    "p_sendQueue p2 = p_sendQueue p" "p_seqCounter p2 = p_seqCounter p"
    using router_reads [OF _ b, of ?E 1 1 "serializeHandshakeData (server_hello ?s [])"] bridge_of [OF inv2 b] h(5) by auto
  let ?b2 = "?b\<lparr>br_proto := p2, br_device := br_device ?b\<rparr>"
  have sd: "handshake_ok (server_hello ?s [])" by (rule hello_ok(2)) (simp_all add: new_server_def string_ok_def)
  have small: "isValid (handshake_ack k q (serializeHandshakeData (ack_data (server_hello ?s []))))" for k q
    by (rule small_handshake(2)) (simp_all add: ack_data_def server_hello_def new_server_def new_handshake_data_def)
  obtain c1 where rl: "relay_client (re_transport ?E) (handshake_ack (cn_connId c2) (br_clientSeqNum ?b2) (serializeHandshakeData (ack_data (server_hello ?s [])))) c2 = ([], c1)"
    "cn_device c1 = cn_device c2" "cn_open c1 = cn_open c2" "length (p_sendQueue (cn_proto c1)) = length (p_sendQueue (cn_proto c2)) + 1"
    by (rule quiet_relay [OF _ _ small, of "re_transport ?E" c2]) (simp_all add: h c f INC_MAX_SEND_QUEUE_def)
  have "identity_ok ?b2 (server_hello ?s [])" using h(6) f(4) by (simp add: identity_ok_def)
  note out = ack_outcome [OF _ _ sd this rl(1), of "put_bridge 1 ?b2 ?r2" 1 1 1]
  define c3 where "c3 = c1\<lparr>cn_peerName := hs_nodeName (server_hello ?s []), cn_peerProtocol := hs_protocolVersion (server_hello ?s []),
    cn_proto := (cn_proto c1)\<lparr>p_writeEvents := False\<rparr>, cn_handshake := None\<rparr>"
  let ?r3 = "put_bridge 1 (?b2\<lparr>br_handshakeComplete := True\<rparr>) (put_downstream 1 c3 (put_bridge 1 ?b2 ?r2))"
  have d3: "upstream_receive ?E ?ack 1 ?r2 = Some ([UpstreamConnected (cn_connId c1) (hs_nodeName (server_hello ?s []))], ?r3)"
    using out h(7) rd(1) unfolding c3_def by simp
  have st: "\<exists>b3 c4. rt_bridges ?r3 1 = Some b3 \<and> br_handshakeComplete b3 \<and> br_device b3 = quiet_link \<and> length (p_sendQueue (br_proto b3)) = 1 \<and>
       p_seqCounter (br_proto b3) = 2 \<and>
       map_of (sv_objects (rt_server ?r3)) 1 = Some c4 \<and> cn_open c4 \<and> cn_device c4 = quiet_link \<and> length (p_sendQueue (cn_proto c4)) = 1"
    using h u rd rl c by (simp add: downstream_lookup nextSequence_def new_proto_def) (simp add: c3_def)
  show thesis
    by (rule that [OF r1(1) d2 _ b _ _ d3 r1(3) c(1,2,5) rr _ inv1 inv2 st]) (use r1(2) h in \<open>simp_all add: f\<close>)
qed



section \<open>Routing loops\<close>

text \<open>What up_send leaves of the bridge, if it is still there.\<close>

lemma up_send_keeps:
  assumes "up_send E m i r = Some (evs, r')" and "rt_bridges r' i = Some b'"
  shows "\<exists>b. rt_bridges r i = Some b \<and> b' = b\<lparr>br_proto := br_proto b', br_device := br_device b'\<rparr>"
proof -
  obtain b op pevs p d where b: "rt_bridges r i = Some b"
    and "up_events E i pevs (put_bridge i (b\<lparr>br_proto := drop_op op p, br_device := d\<rparr>) r) = Some (evs, r')"
    using assms(1) by (auto simp: up_send_def split: option.splits prod.splits)
  then have "b' = b\<lparr>br_proto := drop_op op p, br_device := d\<rparr>"
    using assms(2) by (auto simp: up_events_def onUpstreamError_def dest: on_downstream_frame(1) split: if_splits)
  then show ?thesis using b by simp
qed

text \<open>A handshake leaves a bridge only when it is well formed and within the limit, and then with the next payload.\<close>

lemma handshake_passed_on:
  fixes r :: "'d router"
  assumes "router_inv r" and "rt_bridges r i = None"
    and "downstream_receive E (received (handshake_message cid sq bs)) i r = Some (evs, r')" and "rt_bridges r' i = Some b"
  shows "\<exists>d local. deserializeHandshakeData bs new_handshake_data = (True, d) \<and> hs_hopCount d < rt_maxHopCount r \<and>
    br_upPayload b = serializeHandshakeData (upstream_data local d)"
proof -
  let ?m = "received (handshake_message cid sq bs)"
  obtain c where c: "map_of (sv_objects (rt_server r)) i = Some c" using assms(2-4) by (auto simp: downstream_receive_def split: option.splits)
  define c1 where "c1 = taken ?m c"
  define r1 where "r1 = put_downstream i c1 r"
  have e1: "downstream_receive E ?m i r = handleRouterHandshake E ?m i r1"
    unfolding r1_def c1_def by (rule handshake_reaches [OF assms(1) c])
  have c1: "map_of (sv_objects (rt_server r1)) i = Some c1" "rt_bridges r1 i = None" "rt_maxHopCount r1 = rt_maxHopCount r"
    using c assms(2) by (simp_all add: r1_def downstream_lookup)
  obtain ok d where ds: "deserializeHandshakeData bs new_handshake_data = (ok, d)" by fastforce
  have shut: "rt_bridges x i = None" if "on_downstream f i y = Some (es, x)" "rt_bridges y i = None" for f y x es
    using on_downstream_frame(1) [OF that(1)] that(2) by simp
  have mo: "\<exists>es'. x = Some (es', y)" if "map_option (\<lambda>(es, w). (ev # es, w)) x = Some (es, y)" for x y ev es
    using that by (cases x) auto
  let ?url = "resolveRoute E c1 r1"
  have h: "handleRouterHandshake E ?m i r1 = Some (evs, r')" using assms(3) e1 by simp
  have ok: "ok" "hs_hopCount d < rt_maxHopCount r" "?url \<noteq> []"
    using h c1 assms(4) ds
    by (auto simp: handleRouterHandshake_def findBridge_def handshake_payload Let_def not_le dest: shut split: if_splits)
  let ?c2 = "pause_client d c1" and ?pl = "serializeHandshakeData (upstream_data (isLocal (re_transport E) (pause_client d c1)) d)"
  obtain up opened monitored where ob: "open_bridge E (up, opened, monitored) ?m d ?url ?c2 i (put_downstream i ?c2 r1) = Some (evs, r')"
    using h c1 assms(4) ds ok
    by (auto simp: handleRouterHandshake_def findBridge_def handshake_payload Let_def not_le dest: shut split: if_splits option.splits prod.splits)
  define b0 where "b0 = new_bridge up (msg_seqNum ?m) (hs_targetServer d) ?url ?pl"
  define r3 where "r3 = (put_bridge i b0 (put_downstream i ?c2 r1))\<lparr>rt_relayed := (rt_relayed (put_downstream i ?c2 r1))(i := True)\<rparr>"
  obtain e1 r4 e2 where x: "(if opened then handleUpstreamConnected E i r3 else Some ([], r3)) = Some (e1, r4)"
    and y: "(if monitored then Some ([], r4) else map_option (\<lambda>(es, w). (UpstreamFailed i (hs_targetServer d) INC_ERROR_UPSTREAM_UNREACHABLE # es, w))
      (drop_client E i r4)) = Some (e2, r')"
    using ob unfolding open_bridge_def b0_def r3_def Let_def by (auto elim!: bind_SomeD)
  have "r4 = r'" using y assms(4) by (auto simp: drop_client_def dest: shut split: if_splits)
  moreover have f: "\<exists>p d2. b = b0\<lparr>br_proto := p, br_device := d2\<rparr>"
  proof (cases opened)
    case True
    let ?b1 = "b0\<lparr>br_proto := snd (nextSequence (br_proto b0))\<rparr>"
    obtain sq1 where "up_send E (upstream_hello sq1 (br_upPayload b0)) i (put_bridge i ?b1 r3) = Some (e1, r')"
      using x True \<open>r4 = r'\<close> by (auto simp: handleUpstreamConnected_def r3_def split: prod.splits)
    from up_send_keeps [OF this assms(4)] show ?thesis by auto
  next
    case False
    then have "b = b0\<lparr>br_proto := br_proto b0, br_device := br_device b0\<rparr>" using x assms(4) \<open>r4 = r'\<close> by (auto simp: r3_def)
    then show ?thesis by blast
  qed
  ultimately have "br_upPayload b = br_upPayload b0" by auto
  then show ?thesis using ds ok(1,2) by (auto simp: b0_def new_bridge_def)
qed

text \<open>
  One router, in any state it reaches, with any routes, and with a hop limit of at most L: the payload of the
  handshake that it sends to the next one for the payload bs of a new client.
\<close>

inductive relays :: "xuint8 \<Rightarrow> bytes \<Rightarrow> bytes \<Rightarrow> bool" for L where
  relay: "listenOn create url n (new_server name opts) = Some (INC_OK, s) \<Longrightarrow>
    router_run (E :: link router_env) cmds (listening_router s routes) = Some (evs0, r) \<Longrightarrow> rt_maxHopCount r \<le> L \<Longrightarrow> rt_bridges r i = None \<Longrightarrow>
    downstream_receive E (received (handshake_message cid sq bs)) i r = Some (evs, r') \<Longrightarrow> rt_bridges r' i = Some b \<Longrightarrow>
    relays L bs (br_upPayload b)"

inductive_cases relaysE: "relays L bs bs'"

lemma relays_step:
  assumes "relays L (serializeHandshakeData d) bs" and "handshake_ok d"
  shows "\<exists>local. bs = serializeHandshakeData (upstream_data local d) \<and> hs_hopCount d < L"
  using assms(1)
proof (rule relaysE)
  fix create :: "_ \<Rightarrow> mem_pool option" and url n name opts s E cmds routes evs0 and r :: "link router" and i cid sq evs r' b
  assume a: "listenOn create url n (new_server name opts) = Some (INC_OK, s)" "router_run E cmds (listening_router s routes) = Some (evs0, r)"
    "bs = br_upPayload b" "rt_maxHopCount r \<le> L" "rt_bridges r i = None"
    "downstream_receive E (received (handshake_message cid sq (serializeHandshakeData d))) i r = Some (evs, r')" "rt_bridges r' i = Some b"
  have "router_inv r" by (rule router_inv_run [OF router_inv_listening a(2)]) (rule listen_start(1) [OF a(1)])
  from handshake_passed_on [OF this a(5-7)] handshake_data_round_trip [OF assms(2), of new_handshake_data]
  show ?thesis using a(3,4) by auto
qed

text \<open>
  C10. A loop of routers ends. However routers with hop limits of at most L are wired to each other, with whatever
  routes, a handshake that starts at the hop count h is passed on at most L - h times, since each
  router adds one and passes on only below its limit: the count never wraps around.
\<close>

theorem routing_loops_end:
  assumes "handshake_ok d" and "(relays L ^^ n) (serializeHandshakeData d) bs"
  shows "n \<le> unat L - unat (hs_hopCount d)"
  using assms
proof (induction n arbitrary: d)
  case (Suc n)
  then obtain bs1 where s: "relays L (serializeHandshakeData d) bs1" "(relays L ^^ n) bs1 bs" by (meson relpowp_Suc_E2)
  obtain local where l: "bs1 = serializeHandshakeData (upstream_data local d)" "hs_hopCount d < L"
    using relays_step [OF s(1) Suc.prems(1)] by blast
  have "n \<le> unat L - unat (hs_hopCount (upstream_data local d))"
    by (rule Suc.IH [OF router_data_ok(1) [OF Suc.prems(1)] s(2) [unfolded l(1)]])
  moreover have "unat (hs_hopCount d + 1) = unat (hs_hopCount d) + 1" using l(2) by unat_arith
  ultimately show ?case using l(2) by (simp add: upstream_data_def word_less_nat_alt)
qed simp

section \<open>Acknowledging data\<close>

lemma completed_op:
  assumes "ops_find (msg_seqNum msg) q = Some j" and "msg_type msg AND 1 \<noteq> 0" and "msg_seqNum msg > 0" and "p_heap q j = Some op"
    and "op_state op = STATE_RUNNING" and "p_heap (complete_op msg q) j = Some o1"
  shows "op_state o1 = STATE_DONE \<and> op_errorCode o1 = 0"
  using assms
  by (auto simp: complete_op_def Let_def deref_op_def with_op_def meter_def processRelease_def ops_erase_def op_simps split: if_splits)

lemma one_forward:
  assumes "\<And>x. x \<in> set (xs @ ys) \<Longrightarrow> forward_code p x = None" and "forward_code p pf = Some code"
  shows "run_forwards E i p (xs @ pf # ys) r = onUpstreamForwardComplete E code pf i r"
  using assms(1)
proof (induction xs)
  case Nil
  then show ?case using assms(2) by (auto simp: no_forwards routed_bind_def split: option.split)
qed (simp add: no_forwards)

lemma client_send_reach:
  fixes c :: "link client"
  assumes "send_client (tcp_transport big near) m c = ([], c')" and "cn_open c" and "tcpt.conn_reach big acc c"
  shows "tcpt.conn_reach big (acc @ [m]) c'" "cn_open c'"
proof -
  have s: "conn_frame c c' \<and> (\<exists>op. conn_sendMessage (tcp_transport big near) m c = (op, [], c'))"
    using send_client_alive [OF assms(1) _ assms(2)] by simp
  then show "tcpt.conn_reach big (acc @ [m]) c'" using tcpt.conn_reach_send [OF assms(3)] by blast
  show "cn_open c'" using s assms(2) conn_frame_simps(1) by metis
qed

text \<open>A reply that ends a forward: its callback runs, then the reply is handled.\<close>

lemma reply_ends_forward:
  fixes r :: "link router"
  assumes "router_inv r" and "rt_bridges r i = Some b" and "pf \<in> set (br_pendingForwards b)"
    and "ops_find (msg_seqNum msg) (br_proto b) = Some (pf_op pf)" and "msg_type msg AND 1 \<noteq> 0" and "msg_seqNum msg > 0"
  obtains p where "upstream_receive E msg i r =
    routed_bind (onUpstreamForwardComplete E 0 pf i (put_bridge i (b\<lparr>br_proto := p, br_device := br_device b\<rparr>) r))
      (upstream_events E i [MessageReceived msg])"
proof -
  note o = bridge_of [OF assms(1)  assms(2)]
  obtain pevs p d where m: "onMessageReceived (tr_device (re_transport E)) (se_import (re_server E)) msg (br_proto b) (br_device b) = (pevs, p, d)"
    by (metis prod_cases3)
  have pt: "p_isPassthrough (br_proto b)" "distinct (map pf_op (br_pendingForwards b))" "br_handshakeComplete b"
    using o assms(3) by (auto simp: bridge_ok_def forward_ops_def)
  note g = passthrough_receives [OF m pt(1)]
  let ?b = "b\<lparr>br_proto := p, br_device := d\<rparr>" and ?r = "put_bridge i (b\<lparr>br_proto := p, br_device := d\<rparr>) r"
  let ?q = "meter (onMessageReceivedMetric (payload_size msg)) (cache_fd (msg_extFd msg) (br_proto b))"
  have fd: "ops_find (msg_seqNum msg) ?q = Some (pf_op pf)" "p_heap ?q = p_heap (br_proto b)"
    using assms(4) by (simp_all add: ops_find_def meter_def cache_fd_def)
  obtain xs ys where xy: "br_pendingForwards b = xs @ pf # ys" using assms(3) by (metis split_list)
  have others: "forward_code p x = None" if "x \<in> set (xs @ ys)" for x
  proof -
    have "pf_op x \<noteq> pf_op pf" using that pt(2) by (auto simp: xy dest: image_eqI [of "pf_op pf" pf_op] sym)
    then have "p_heap p (pf_op x) = p_heap (br_proto b) (pf_op x)" unfolding g(3) using fd by (simp add: complete_op_other)
    then show ?thesis using o that by (auto simp: bridge_idle_def forward_code_def xy)
  qed
  have ok2: "bridge_ok ?b" using bridge_receives(1) [OF _ m] o by blast
  then have "p_heap p (pf_op pf) \<noteq> None"
    using held_alive(1) [of "forward_ops ?b" p "pf_op pf"] assms(3) by (simp add: bridge_ok_def forward_ops_def)
  then obtain o1 where o1: "p_heap p (pf_op pf) = Some o1" by blast
  obtain op where op: "p_heap (br_proto b) (pf_op pf) = Some op" "op_state op = STATE_RUNNING"
  proof -
    have "p_heap (br_proto b) (pf_op pf) \<noteq> None"
      using held_alive(1) [of "forward_ops b" "br_proto b" "pf_op pf"] o assms(3) by (simp add: bridge_ok_def forward_ops_def)
    moreover have "forward_code (br_proto b) pf = None" using o assms(3) by (simp add: bridge_idle_def)
    ultimately show thesis using that by (auto simp: forward_code_def split: if_splits)
  qed
  have fc: "forward_code p pf = Some 0"
    using completed_op [OF fd(1) assms(5,6) _ op(2), of o1] op(1) o1 g(3) fd(2) by (simp add: forward_code_def)
  have rf: "run_forwards E i p (br_pendingForwards b) ?r = onUpstreamForwardComplete E 0 pf i ?r"
    unfolding xy by (rule one_forward [OF others fc])
  have "upstream_receive E msg i r = routed_bind (onUpstreamForwardComplete E 0 pf i ?r) (upstream_events E i [MessageReceived msg])"
    using assms(2) m rf by (simp add: upstream_receive_def g(1))
  then show thesis using that g(2) by blast
qed

text \<open>
  C23. The router reports a client's reliable data as written whatever the server answers. When any reply
  comes with the number under which the router forwarded the data - an acknowledgement that says
  -1, or the reply to a request of the client's that happens to have the same number - the client is told that all of
  the data was written; and the reply itself is then put on the client's connection as well, under the router's
  number.
\<close>

theorem any_reply_acknowledges_data:
  fixes r :: "link router"
  assumes "listenOn create url n (new_server name opts) = Some (INC_OK, s)" and "router_run E cmds (listening_router s routes) = Some (ev0, r)"
    and "re_transport E = tcp_transport big near" and "rt_bridges r i = Some b" and "pf \<in> set (br_pendingForwards b)"
    and "ops_find (msg_seqNum msg) (br_proto b) = Some (pf_op pf)" and "msg_type msg AND 1 \<noteq> 0" and "msg_seqNum msg > 0" and "msg_type msg \<noteq> INC_MSG_PING"
    and "map_of (sv_objects (rt_server r)) i = Some c" and "cn_open c" and "tcpt.conn_reach big acc c"
    and "upstream_receive E msg i r = Some (evs, r')" and "rt_bridges r' i \<noteq> None"
  shows "\<exists>m c'. map_of (sv_objects (rt_server r')) i = Some c' \<and> encode_message big m = encode_message big msg \<and>
    tcpt.conn_reach big (acc @ [code_reply INC_MSG_BINARY_DATA_ACK (pf_channel pf) (pf_seqNum pf) (word_of_int (int (length (pf_data pf)))), m]) c'"
proof -
  have inv: "router_inv r"
    by (rule router_inv_run [OF router_inv_listening assms(2)]) (rule listen_start(1) [OF assms(1)])
  have hc: "br_handshakeComplete b" using bridge_of [OF inv assms(4)] assms(5) by (auto simp: bridge_ok_def)
  obtain p where rc: "upstream_receive E msg i r =
      routed_bind (onUpstreamForwardComplete E 0 pf i (put_bridge i (b\<lparr>br_proto := p, br_device := br_device b\<rparr>) r))
        (upstream_events E i [MessageReceived msg])"
    by (rule reply_ends_forward [OF inv assms(4-8)])
  let ?r = "put_bridge i (b\<lparr>br_proto := p, br_device := br_device b\<rparr>) r"
  obtain e1 r1 e2 where c1: "onUpstreamForwardComplete E 0 pf i ?r = Some (e1, r1)" "upstream_event E i (MessageReceived msg) r1 = Some (e2, r')"
    by (rule bind_SomeD [OF assms(13) [unfolded rc]]) simp
  let ?a = "code_reply INC_MSG_BINARY_DATA_ACK (pf_channel pf) (pf_seqNum pf) (word_of_int (int (length (pf_data pf))))"
  obtain es cc where rp: "send_client (tcp_transport big near) ?a c = (es, cc)" by fastforce
  have es: "es = []" and r1: "\<exists>b1. r1 = put_bridge i b1 (put_downstream i cc ?r) \<and> br_handshakeComplete b1"
    using c1(1) rp assms(10) hc by (auto simp: onUpstreamForwardComplete_def on_downstream_def forward_written_def sendBinaryReply_def assms(3)
      slotClientDisconnected_def split: if_splits)
  obtain b1 where b1: "rt_bridges r1 i = Some b1" "br_handshakeComplete b1" "map_of (sv_objects (rt_server r1)) i = Some cc"
    using r1 assms(10) by (auto simp: downstream_lookup)
  note k = client_send_reach [OF rp [unfolded es] assms(11,12)]
  have "handleUpstreamRawMessage E msg i r1 = Some (e2, r')" using c1(2) b1(1) by (simp add: upstream_event_def)
  from raw_relayed [OF assms(3) b1 k(2,1) assms(9) this assms(14)] show ?thesis by auto
qed

section \<open>A handshake after the end\<close>

text \<open>A handshake that cannot be parsed closes the client's connection, which is deleted later.\<close>

lemma bad_handshake_closes:
  assumes "router_inv r" and "map_of (sv_objects (rt_server r)) i = Some c" and "cn_open c" and "rt_bridges r i = None"
    and "\<not> fst (deserializeHandshakeData bad new_handshake_data)"
  obtains evs c2 r2 where "router_exec E (RtReceive i (received (handshake_message cid sq bad))) r = Some (map FromServer evs, r2)"
    and "map_of (sv_objects (rt_server r2)) i = Some c2" and "\<not> cn_open c2" and "cn_device c2 = tr_close (re_transport E) (cn_device c)"
    and "rt_bridges r2 i = None" and "rt_maxHopCount r2 = rt_maxHopCount r" and "rt_routes r2 = rt_routes r"
proof -
  let ?m = "received (handshake_message cid sq bad)"
  define c1 where "c1 = taken ?m c"
  obtain evs c2 where cl: "close_client (re_transport E) c1 = (evs, c2)" by fastforce
  have c1: "cn_open c1" "cn_device c1 = cn_device c" using assms(3) by (simp_all add: c1_def taken_def)
  have c2: "evs \<noteq> []" "\<not> cn_open c2" "cn_device c2 = tr_close (re_transport E) (cn_device c)"
    using cl c1 by (auto simp: close_client_def conn_close_def clearChannels_def)
  define r2 where "r2 = removeBridge i (put_downstream i c2 (put_downstream i c1 r))"
  have m: "map_of (sv_objects (rt_server (put_downstream i c1 r))) i = Some c1" using assms(2) by (simp add: downstream_lookup)
  have bad: "deserializeHandshakeData (m_data (msg_payload ?m)) new_handshake_data = (False, snd (deserializeHandshakeData bad new_handshake_data))"
    using assms(5) by (simp add: handshake_payload prod_eq_iff)
  have "router_exec E (RtReceive i ?m) r = Some (map FromServer evs, r2)"
    using handshake_reaches [OF assms(1,2), of E cid sq bad] m assms(4) bad cl c2(1)
    by (simp add: handleRouterHandshake_def findBridge_def c1_def Let_def on_downstream_def slotClientDisconnected_def r2_def)
  then show thesis
    by (rule that [OF _ _ c2(2,3)]) (use assms(2) in \<open>simp_all add: r2_def downstream_lookup\<close>)
qed

text \<open>A handshake opens a bridge on a connection, closed or not, when the device to the server is not connected yet.\<close>

lemma late_handshake_opens:
  assumes "router_inv r" and "map_of (sv_objects (rt_server r)) i = Some c" and "rt_bridges r i = None" and "handshake_ok d"
    and "hs_hopCount d < rt_maxHopCount r" and "route_lookup (re_matches E) (re_peerAddress E (cn_device c)) (rt_routes r) = url" and "url \<noteq> []"
    and "re_connect E url = Some (up, False, True)"
  obtains b c2 r2 where "router_exec E (RtReceive i (received (handshake_message cid sq (serializeHandshakeData d)))) r = Some ([], r2)"
    and "rt_bridges r2 i = Some b" and "\<not> br_handshakeComplete b" and "map_of (sv_objects (rt_server r2)) i = Some c2" and "cn_open c2 = cn_open c"
proof -
  let ?m = "received (handshake_message cid sq (serializeHandshakeData d))"
  define c1 where "c1 = taken ?m c"
  define r1 where "r1 = put_downstream i (pause_client d c1) (put_downstream i c1 r)"
  have m: "map_of (sv_objects (rt_server (put_downstream i c1 r))) i = Some c1" using assms(2) by (simp add: downstream_lookup)
  have ds: "deserializeHandshakeData (m_data (msg_payload ?m)) new_handshake_data = (True, d)"
    using handshake_data_round_trip [OF assms(4), of new_handshake_data] by (simp add: handshake_payload)
  have url: "resolveRoute E c1 (put_downstream i c1 r) = url" using assms(6) by (simp add: resolveRoute_def c1_def taken_def)
  define b where "b = new_bridge up (msg_seqNum ?m) (hs_targetServer d) url
    (serializeHandshakeData (upstream_data (isLocal (re_transport E) (pause_client d c1)) d))"
  have "router_exec E (RtReceive i ?m) r = Some ([], (put_bridge i b r1)\<lparr>rt_relayed := (rt_relayed r1)(i := True)\<rparr>)"
    using handshake_reaches [OF assms(1,2), of E cid sq "serializeHandshakeData d", folded c1_def] m assms(3) ds url assms(5) [folded not_le] assms(7,8)
    by (simp add: handleRouterHandshake_def findBridge_def Let_def open_bridge_def r1_def b_def)
  then show thesis
    by (rule that [of _ b "pause_client d c1"]) (use assms(2) in \<open>simp_all add: b_def new_bridge_def r1_def downstream_lookup pause_client_def c1_def taken_def\<close>)
qed

text \<open>A bridge whose client is gone: the server's answer to the handshake cannot be handled.\<close>

lemma orphan_ack:
  assumes "bridge_ok b" and "rt_bridges r i = Some b" and "\<not> br_handshakeComplete b" and "map_of (sv_objects (rt_server r)) i = None"
    and "msg_type ack = INC_MSG_HANDSHAKE_ACK"
  shows "upstream_receive E ack i r = None"
proof -
  obtain pevs p dv where m: "onMessageReceived (tr_device (re_transport E)) (se_import (re_server E)) ack (br_proto b) (br_device b) = (pevs, p, dv)"
    by (metis prod_cases3)
  have pt: "p_isPassthrough (br_proto b)" "br_pendingForwards b = []" using assms(1,3) by (simp_all add: bridge_ok_def)
  obtain k dd where dd: "deserializeHandshakeData (m_data (msg_payload ack)) new_handshake_data = (k, dd)" by fastforce
  show ?thesis
    using assms(2-5) m pt dd by (simp add: upstream_receive_def passthrough_receives(1) [OF m pt(1)] upstream_event_def handleUpstreamRawMessage_def
        router_handleHandshakeAck_def drop_client_def on_downstream_def)
qed


section \<open>Examples\<close>

theorem router_state_is_coherent_witness:
  "\<exists>r b. router_run sample_router_env [RtAccept quiet_link True [], RtReceive 1 (received (handshake_message 0 1 (serializeHandshakeData sample_hello)))]
     sample_router = Some ([FromServer (ClientConnected 1)], r) \<and> rt_bridges r 1 = Some b \<and> callbacks (br_proto b) \<subseteq> pf_op ` set (br_pendingForwards b)"
proof -
  obtain r1 r2 b where q: "router_exec sample_router_env (RtAccept quiet_link True []) sample_router = Some ([FromServer (ClientConnected 1)], r1)"
    "downstream_receive sample_router_env (received (handshake_message 0 1 (serializeHandshakeData sample_hello))) 1 r1 = Some ([], r2)" "rt_bridges r2 1 = Some b"
    by (rule sample_routed [of 1])
  have run: "router_run sample_router_env [RtAccept quiet_link True [], RtReceive 1 (received (handshake_message 0 1 (serializeHandshakeData sample_hello)))]
     sample_router = Some ([FromServer (ClientConnected 1)], r2)"
    using q(1,2) by (simp add: routed_bind_def del: router_exec.simps(4))
  from router_state_is_coherent [OF sample_router_listens run [unfolded sample_router_def]] q(3) have "callbacks (br_proto b) \<subseteq> pf_op ` set (br_pendingForwards b)"
    by blast
  then show ?thesis using run q(3) by blast
qed

theorem shared_data_is_refused_witness:
  "\<exists>r c'. downstream_receive sample_router_env ((new_message INC_MSG_BINARY_DATA 1 1)\<lparr>msg_flags := INC_MSG_FLAG_SHM_DATA\<rparr>) 1 r =
     Some ([], put_downstream 1 c' r)"
proof -
  let ?m = "(new_message INC_MSG_BINARY_DATA 1 1)\<lparr>msg_flags := INC_MSG_FLAG_SHM_DATA\<rparr>"
  obtain r1 where r1: "router_exec sample_router_env (RtAccept quiet_link True []) sample_router = Some ([FromServer (ClientConnected 1)], r1)"
    by (rule sample_router_accepts)
  obtain c where c: "map_of (sv_objects (rt_server r1)) 1 = Some c" "cn_device c = quiet_link" "p_sendQueue (cn_proto c) = []"
    using router_accepts(4) [OF r1 sample_router_facts(10)] by blast
  have run: "router_run sample_router_env [RtAccept quiet_link True []] sample_router = Some ([FromServer (ClientConnected 1)], r1)"
    using r1 by (simp add: routed_bind_def del: router_exec.simps(4))
  have v: "isValid (error_reply 1 1)"
    by (simp add: isValid_def error_reply_def new_message_def payload_size_def putInt32_def putUint32_def INC_MSG_BINARY_DATA_ACK_def
        INC_MSG_INVALID_def MAX_MESSAGE_SIZE_def HEADER_SIZE_def new_tag_struct_def append_data_def writeTag_def be32_def)
  obtain op c' where s: "conn_sendMessage (re_transport sample_router_env) (error_reply 1 1) (taken ?m c) = (op, [], c')"
    by (rule quiet_send [OF _ _ v, of "re_transport sample_router_env" "taken ?m c"])
      (simp_all add: taken_def c sample_router_facts meter_def cache_fd_def INC_MAX_SEND_QUEUE_def)
  have "downstream_receive sample_router_env ?m 1 r1 = Some ([], put_downstream 1 c' r1)"
    using shared_data_is_refused [OF sample_router_listens run [unfolded sample_router_def] c(1), of ?m op c'] s
    by (simp add: new_message_def INC_MSG_FLAG_SHM_DATA_def)
  then show ?thesis by blast
qed

theorem routing_loops_end_witness:
  "\<exists>bs. (relays 8 ^^ 1) (serializeHandshakeData sample_hello) bs \<and> 1 \<le> unat (8 :: xuint8) - unat (hs_hopCount sample_hello)"
proof -
  obtain r1 r2 b where q: "router_exec sample_router_env (RtAccept quiet_link True []) sample_router = Some ([FromServer (ClientConnected 1)], r1)"
    "downstream_receive sample_router_env (received (handshake_message 0 1 (serializeHandshakeData sample_hello))) 1 r1 = Some ([], r2)"
    "rt_bridges r1 1 = None" "rt_bridges r2 1 = Some b" "rt_maxHopCount r1 = 8"
    by (rule sample_routed [of 1])
  have run: "router_run sample_router_env [RtAccept quiet_link True []] sample_router = Some ([FromServer (ClientConnected 1)], r1)"
    using q(1) by (simp add: routed_bind_def del: router_exec.simps(4))
  have "relays 8 (serializeHandshakeData sample_hello) (br_upPayload b)"
    by (rule relays.relay [OF sample_router_listens run [unfolded sample_router_def] _ q(3,2,4)]) (simp add: q(5))
  then have r: "(relays 8 ^^ 1) (serializeHandshakeData sample_hello) (br_upPayload b)" by (simp only: relpowp_1)
  show ?thesis using routing_loops_end [OF sample_router_facts(3) r] r by blast
qed



lemma quiet_reply:
  assumes "\<not> dv_isWritable (tr_device T) (cn_device c)" and "length (p_sendQueue (cn_proto c)) < INC_MAX_SEND_QUEUE" and "isValid m"
  obtains c1 where "send_client T m c = ([], c1)" and "cn_device c1 = cn_device c" and "cn_open c1 = cn_open c"
    and "length (p_sendQueue (cn_proto c1)) = length (p_sendQueue (cn_proto c)) + 1"
proof -
  obtain p where "sendMessage (tr_device T) m (cn_proto c) (cn_device c) = (if is_tracked m then Some (p_nextOp (cn_proto c)) else None, [], p, cn_device c)"
    "length (p_sendQueue p) = length (p_sendQueue (cn_proto c)) + 1"
    by (rule quiet_message [OF assms])
  then show thesis
    by (intro that [of "c\<lparr>cn_proto := p, cn_device := cn_device c\<rparr>"]) (simp_all add: send_client_def conn_sendMessage_def)
qed

lemma small_reply: "isValid (error_reply ch sq)" "isValid (code_reply INC_MSG_BINARY_DATA_ACK ch sq k)"
  by (simp_all add: isValid_def error_reply_def code_reply_def new_message_def payload_size_def putInt32_def putUint32_def INC_MSG_BINARY_DATA_ACK_def
        INC_MSG_INVALID_def MAX_MESSAGE_SIZE_def HEADER_SIZE_def new_tag_struct_def append_data_def writeTag_def be32_def)

theorem any_reply_acknowledges_data_witness:
  "\<exists>E r r' c acc m. upstream_receive (E :: link router_env) (error_reply 1 2) 1 r = Some ([], r') \<and> map_of (sv_objects (rt_server r')) 1 = Some c \<and>
     encode_message False m = encode_message False (error_reply 1 2) \<and> tcpt.conn_reach False (acc @ [code_reply INC_MSG_BINARY_DATA_ACK 1 5 1, m]) c"
proof -
  let ?E = sample_router_env and ?s = "new_server [] default_options :: link server"
  let ?hs = "received (handshake_message 0 1 (serializeHandshakeData sample_hello))"
  let ?ack = "received (handshake_ack 1 1 (serializeHandshakeData (server_hello ?s [])))"
  let ?data = "received (copy_message 1 5 False 0 [7])"
  note f = sample_router_facts
  obtain r1 r2 ev2 r3 b c1 where q: "router_exec ?E (RtAccept quiet_link True []) sample_router = Some ([FromServer (ClientConnected 1)], r1)"
    "downstream_receive ?E ?hs 1 r1 = Some ([], r2)" "rt_bridges r1 1 = None" "rt_bridges r2 1 = Some b" "br_clientTargetServer b = []"
    "upstream_receive ?E ?ack 1 r2 = Some (ev2, r3)"
    "rt_maxHopCount r1 = 8" "map_of (sv_objects (rt_server r1)) 1 = Some c1" "cn_open c1" "tcpt.conn_reach False [] c1"
    "resolveRoute ?E c1 r1 = [0x75]" "router_inv r1" "router_inv r2"
    and st: "\<exists>b3 c3. rt_bridges r3 1 = Some b3 \<and> br_handshakeComplete b3 \<and> br_device b3 = quiet_link \<and> length (p_sendQueue (br_proto b3)) = 1 \<and>
       p_seqCounter (br_proto b3) = 2 \<and>
       map_of (sv_objects (rt_server r3)) 1 = Some c3 \<and> cn_open c3 \<and> cn_device c3 = quiet_link \<and> length (p_sendQueue (cn_proto c3)) = 1"
    by (rule sample_routed [of 1])
  obtain b3 c3 where s3: "rt_bridges r3 1 = Some b3" "br_handshakeComplete b3" "br_device b3 = quiet_link" "length (p_sendQueue (br_proto b3)) = 1"
    "p_seqCounter (br_proto b3) = 2" "map_of (sv_objects (rt_server r3)) 1 = Some c3" "cn_open c3" "cn_device c3 = quiet_link"
    "length (p_sendQueue (cn_proto c3)) = 1"
    using st by blast
  have inv3: "router_inv r3" by (rule upstream_receive_inv [OF q(13,6)])
  have hop: "hs_hopCount sample_hello < rt_maxHopCount r1" by (simp add: f q(7))
  obtain c2 where o: "tcps.sender_reach False [handshake_message 0 1 (serializeHandshakeData (upstream_data False sample_hello))] False (br_proto b) (br_device b)"
    "br_clientSeqNum b = 1" "\<not> br_handshakeComplete b" "map_of (sv_objects (rt_server r2)) 1 = Some c2" "cn_open c2" "tcpt.conn_reach False [] c2"
    using router_opens [OF f(1) q(12,8,3) f(3) hop q(11) _ f(9) q(9,10) f(10) q(2,4)] by auto
  have sd: "handshake_ok (server_hello ?s [])" by (rule hello_ok(2)) (simp_all add: new_server_def string_ok_def)
  have id: "identity_ok b (server_hello ?s [])" using q(5) by (simp add: identity_ok_def)
  let ?acc = "[handshake_ack 1 1 (serializeHandshakeData (ack_data (server_hello ?s [])))]"
  have k: "tcpt.conn_reach False ?acc c3" using router_acks [OF f(1) q(13,4) o(3-6) sd id o(1) q(6)] o(2) s3(6) by auto
  have v: "isValid (copy_message 1 (p_seqCounter (br_proto b3)) False 0 [7])" "bytes_ok [7]"
    by (simp_all add: isValid_def copy_message_def new_message_def payload_size_def putBytes_def putInt64_def putUint64_def putUint32_def INC_MSG_BINARY_DATA_def
        INC_MSG_INVALID_def MAX_MESSAGE_SIZE_def HEADER_SIZE_def new_tag_struct_def append_data_def writeTag_def be32_def halves_def bytes_ok_def)
  obtain p c4 where w: "downstream_receive ?E ?data 1 r3 = Some ([], put_bridge 1
      (b3\<lparr>br_proto := p, br_device := quiet_link, br_pendingForwards := br_pendingForwards b3 @
        [\<lparr>pf_op = p_nextOp (br_proto b3), pf_data = [7], pf_channel = 1, pf_seqNum = 5\<rparr>]\<rparr>) (put_downstream 1 c4 r3))"
    "ops_find (p_seqCounter (br_proto b3)) p = Some (p_nextOp (br_proto b3))"
    "cn_open c4 = cn_open c3" "cn_device c4 = cn_device c3" "p_sendQueue (cn_proto c4) = p_sendQueue (cn_proto c3)"
    "p_partialSendOffset (cn_proto c4) = p_partialSendOffset (cn_proto c3)"
    by (rule quiet_forward [OF f(1) inv3 s3(1-3) _ s3(6) v(2,1), of 5]) (simp_all add: s3(4) INC_MAX_SEND_QUEUE_def)
  let ?pf = "\<lparr>pf_op = p_nextOp (br_proto b3), pf_data = [7], pf_channel = 1, pf_seqNum = 5\<rparr>"
  let ?b4 = "b3\<lparr>br_proto := p, br_device := quiet_link, br_pendingForwards := br_pendingForwards b3 @ [?pf]\<rparr>"
  let ?r4 = "put_bridge 1 ?b4 (put_downstream 1 c4 r3)"
  have run: "router_run ?E [RtAccept quiet_link True [], RtReceive 1 ?hs, RtUpstreamReceive 1 ?ack, RtReceive 1 ?data] sample_router =
      Some (FromServer (ClientConnected 1) # ev2, ?r4)"
    using q(1,2,6) w(1) by (simp add: routed_bind_def del: router_exec.simps(4))
  have c4: "map_of (sv_objects (rt_server ?r4)) 1 = Some c4" "cn_open c4" using s3(6,7) w(3) by (simp_all add: downstream_lookup)
  have k4: "tcpt.conn_reach False ?acc c4" by (rule tcpt.conn_reach_other [OF k]) (simp_all add: w)
  have e: "msg_seqNum (error_reply 1 2) = 2" "msg_type (error_reply 1 2) = INC_MSG_BINARY_DATA_ACK" by (simp_all add: error_reply_def new_message_def)
  obtain evs r5 where u: "upstream_receive ?E (error_reply 1 2) 1 ?r4 = Some (evs, r5)" "evs = []" "rt_bridges r5 1 \<noteq> None"
  proof -
    have inv4: "router_inv ?r4" by (rule downstream_receive_inv [OF inv3 w(1)])
    obtain p5 where rc: "upstream_receive ?E (error_reply 1 2) 1 ?r4 = routed_bind (onUpstreamForwardComplete ?E 0 ?pf 1
        (put_bridge 1 (?b4\<lparr>br_proto := p5, br_device := br_device ?b4\<rparr>) ?r4)) (upstream_events ?E 1 [MessageReceived (error_reply 1 2)])"
      by (rule reply_ends_forward [OF inv4, of 1 ?b4 ?pf "error_reply 1 2" ?E]) (use w(2) in \<open>simp_all add: e s3(5) INC_MSG_BINARY_DATA_ACK_def\<close>)
    let ?r5 = "put_bridge 1 (?b4\<lparr>br_proto := p5, br_device := br_device ?b4\<rparr>) ?r4"
    obtain c5 where c5: "send_client (re_transport ?E) (code_reply INC_MSG_BINARY_DATA_ACK 1 5 1) c4 = ([], c5)" "cn_device c5 = cn_device c4"
      "length (p_sendQueue (cn_proto c5)) = length (p_sendQueue (cn_proto c4)) + 1"
      by (rule quiet_reply [OF _ _ small_reply(2), of "re_transport ?E" c4 1 5 1]) (simp_all add: w s3 f INC_MAX_SEND_QUEUE_def)
    obtain c6 where c6: "relay_client (re_transport ?E) (error_reply 1 2) c5 = ([], c6)"
      by (rule quiet_relay [OF _ _ small_reply(1), of "re_transport ?E" c5 1 2]) (simp_all add: c5 w s3 f INC_MAX_SEND_QUEUE_def)
    obtain b6 where fw: "onUpstreamForwardComplete ?E 0 ?pf 1 ?r5 = Some ([], put_bridge 1 b6 (put_downstream 1 c5 ?r5))" "br_handshakeComplete b6"
      using c5(1) c4(1) s3(2) by (simp add: onUpstreamForwardComplete_def on_downstream_def sendBinaryReply_def forward_written_def slotClientDisconnected_def)
    let ?r6 = "put_bridge 1 b6 (put_downstream 1 c5 ?r5)"
    have m6: "map_of (sv_objects (rt_server ?r6)) 1 = Some c5" using c4(1) by (simp add: downstream_lookup)
    have "upstream_events ?E 1 [MessageReceived (error_reply 1 2)] ?r6 = Some ([], put_downstream 1 c6 ?r6)"
      using m6 c6 fw(2) by (simp add: upstream_event_def handleUpstreamRawMessage_def onUpstreamMessage_def on_downstream_def slotClientDisconnected_def e
          INC_MSG_BINARY_DATA_ACK_def INC_MSG_HANDSHAKE_ACK_def INC_MSG_STREAM_OPEN_ACK_def INC_MSG_PING_def)
    then have "upstream_receive ?E (error_reply 1 2) 1 ?r4 = Some ([], put_downstream 1 c6 ?r6)" using rc fw(1) by simp
    then show thesis by (rule that) simp_all
  qed
  have "\<exists>m c'. map_of (sv_objects (rt_server r5)) 1 = Some c' \<and> encode_message False m = encode_message False (error_reply 1 2) \<and>
    tcpt.conn_reach False (?acc @ [code_reply INC_MSG_BINARY_DATA_ACK (pf_channel ?pf) (pf_seqNum ?pf) (word_of_int (int (length (pf_data ?pf)))), m]) c'"
    by (rule any_reply_acknowledges_data [OF sample_router_listens run [unfolded sample_router_def] f(1) _ _ _ _ _ _ c4 k4 u(1,3), of ?b4])
      (use w(2) in \<open>simp_all add: e s3(5) INC_MSG_BINARY_DATA_ACK_def INC_MSG_PING_def\<close>)
  then obtain m c' where t: "map_of (sv_objects (rt_server r5)) 1 = Some c'" "encode_message False m = encode_message False (error_reply 1 2)"
    "tcpt.conn_reach False (?acc @ [code_reply INC_MSG_BINARY_DATA_ACK (pf_channel ?pf) (pf_seqNum ?pf) (word_of_int (int (length (pf_data ?pf)))), m]) c'"
    by blast
  have pf: "pf_channel ?pf = 1" "pf_seqNum ?pf = 5" "word_of_int (int (length (pf_data ?pf))) = (1 :: xint32)" by simp_all
  show ?thesis using u(1) [unfolded u(2)] t(1,2) t(3) [unfolded pf] by blast
qed

end
