(* ===== verification/Rtp_Codec.thy ===== *)
theory Rtp_Codec imports IX_Prelude begin

text \<open>
  RTP (src/core/inc/irtp.cpp, irtp.h): packets and their wire format, the split of an
  H.264 or H.265 access unit into packets and the reassembly on the other side. A byte
  array is a byte list; reading at an index the code has not checked would show as an
  unspecified element, so the bounds are part of the lemmas.
\<close>

section \<open>Packets\<close>

record rtp_header =
  rh_padding :: bool
  rh_extension :: bool
  rh_marker :: bool
  rh_payloadType :: xuint8
  rh_sequenceNumber :: xuint16
  rh_timestamp :: xuint32
  rh_ssrc :: xuint32
  rh_csrc :: "xuint32 list"

record rtp_packet =
  rp_header :: rtp_header
  rp_payload :: bytes

definition new_rtp_header :: rtp_header where
  "new_rtp_header = \<lparr>rh_padding = False, rh_extension = False, rh_marker = False, rh_payloadType = 96,
     rh_sequenceNumber = 0, rh_timestamp = 0, rh_ssrc = 0, rh_csrc = []\<rparr>"

definition FixedHeaderSize :: nat where "FixedHeaderSize = 12"

definition rtp_encode :: "rtp_packet \<Rightarrow> bytes" where
  "rtp_encode p =
     (let h = rp_header p;
          first = 0x80 OR (if rh_padding h then 0x20 else 0) OR (if rh_extension h then 0x10 else 0)
                    OR (of_nat (length (rh_csrc h)) AND 0x0F)
      in [first, (if rh_marker h then 0x80 else 0) OR (rh_payloadType h AND 0x7F)] @
         be16 (rh_sequenceNumber h) @ be32 (rh_timestamp h) @ be32 (rh_ssrc h) @
         concat (map be32 (take 15 (rh_csrc h))) @ rp_payload p)"

definition be32_at :: "nat \<Rightarrow> bytes \<Rightarrow> xuint32" where
  "be32_at i bs = of_be32 (take 4 (drop i bs))"
definition be16_at :: "nat \<Rightarrow> bytes \<Rightarrow> xuint16" where
  "be16_at i bs = of_be16 (take 2 (drop i bs))"

definition rtp_decode :: "bytes \<Rightarrow> rtp_packet option" where
  "rtp_decode bs =
     (if length bs < FixedHeaderSize then None
      else
        let first = bs ! 0 in
        if drop_bit 6 first \<noteq> 2 then None
        else
          let csrcCount = unat (first AND 0x0F); headerSize = FixedHeaderSize + csrcCount * 4 in
          if length bs < headerSize then None
          else
            let hdr = \<lparr>rh_padding = (first AND 0x20 \<noteq> 0), rh_extension = (first AND 0x10 \<noteq> 0),
                      rh_marker = (bs ! 1 AND 0x80 \<noteq> 0), rh_payloadType = bs ! 1 AND 0x7F,
                      rh_sequenceNumber = be16_at 2 bs, rh_timestamp = be32_at 4 bs, rh_ssrc = be32_at 8 bs,
                      rh_csrc = map (\<lambda>i. be32_at (FixedHeaderSize + i * 4) bs) [0..<csrcCount]\<rparr>
            in case (if rh_extension hdr then
                       if length bs < headerSize + 4 then None
                       else let hs = headerSize + 4 + unat (be16_at (headerSize + 2) bs) * 4
                            in if length bs < hs then None else Some hs
                     else Some headerSize) of
                 None \<Rightarrow> None
               | Some hs \<Rightarrow>
                   let paddingSize = (if rh_padding hdr then unat (bs ! (length bs - 1)) else 0) in
                   if rh_padding hdr \<and> (paddingSize = 0 \<or> paddingSize > length bs - hs) then None
                   else Some \<lparr>rp_header = hdr, rp_payload = take (length bs - hs - paddingSize) (drop hs bs)\<rparr>)"

definition makeRtpPacket :: "xuint8 \<Rightarrow> xuint32 \<Rightarrow> xuint32 \<Rightarrow> xuint16 \<Rightarrow> bool \<Rightarrow> bytes \<Rightarrow> rtp_packet \<times> xuint16" where
  "makeRtpPacket payloadType ssrc timestamp sequenceNumber marker payload =
     (\<lparr>rp_header = new_rtp_header\<lparr>rh_marker := marker, rh_payloadType := payloadType,
         rh_sequenceNumber := sequenceNumber, rh_timestamp := timestamp, rh_ssrc := ssrc\<rparr>,
       rp_payload = payload\<rparr>, sequenceNumber + 1)"

section \<open>Annex B\<close>

definition START_CODE :: bytes where "START_CODE = [0, 0, 0, 1]"

definition startCodeAt :: "bytes \<Rightarrow> nat \<Rightarrow> nat option" where
  "startCodeAt data pos =
     (if pos + 3 \<le> length data \<and> data ! pos = 0 \<and> data ! (pos + 1) = 0 \<and> data ! (pos + 2) = 1 then Some 3
      else if pos + 4 \<le> length data \<and> data ! pos = 0 \<and> data ! (pos + 1) = 0 \<and> data ! (pos + 2) = 0 \<and>
              data ! (pos + 3) = 1 then Some 4
      else None)"

function findStartCode :: "bytes \<Rightarrow> nat \<Rightarrow> (nat \<times> nat) option" where
  "findStartCode data pos =
     (if pos + 3 \<le> length data then
        (case startCodeAt data pos of
           Some codeSize \<Rightarrow> Some (pos, codeSize)
         | None \<Rightarrow> findStartCode data (pos + 1))
      else None)"
  by pat_completeness auto
termination by (relation "measure (\<lambda>(data, pos). length data - pos)") auto

declare findStartCode.simps [simp del]

text \<open>The NAL unit between two positions without the zero bytes that end it.\<close>

function trim_zeros :: "bytes \<Rightarrow> nat \<Rightarrow> nat \<Rightarrow> nat" where
  "trim_zeros data nalStart nalEnd =
     (if nalEnd > nalStart \<and> data ! (nalEnd - 1) = 0 then trim_zeros data nalStart (nalEnd - 1) else nalEnd)"
  by pat_completeness auto
termination by (relation "measure (\<lambda>(data, nalStart, nalEnd). nalEnd - nalStart)") auto

declare trim_zeros.simps [simp del]

lemma startCodeAt_bound: "startCodeAt data pos = Some k \<Longrightarrow> 0 < k \<and> pos + k \<le> length data"
  by (auto simp: startCodeAt_def split: if_splits)

lemma findStartCode_bound:
  "findStartCode data pos = Some (p, k) \<Longrightarrow> pos \<le> p \<and> 0 < k \<and> p + k \<le> length data \<and> startCodeAt data p = Some k"
proof (induction data pos rule: findStartCode.induct)
  case (1 data pos)
  show ?case using 1 by (subst (asm) (2) findStartCode.simps) (auto split: if_splits option.splits dest: startCodeAt_bound)
qed

function split_loop :: "bytes \<Rightarrow> nat \<Rightarrow> nat \<Rightarrow> bytes list" where
  "split_loop data pos codeSize =
     (let nalStart = pos + codeSize; found = findStartCode data nalStart;
          nalEnd = trim_zeros data nalStart (case found of Some (p, _) \<Rightarrow> p | None \<Rightarrow> length data);
          nalus = (if nalEnd > nalStart then [take (nalEnd - nalStart) (drop nalStart data)] else [])
      in case found of
           None \<Rightarrow> nalus
         | Some (p, k) \<Rightarrow> nalus @ split_loop data p k)"
  by pat_completeness auto
termination
  by (relation "measure (\<lambda>(data, pos, codeSize). length data - (pos + codeSize))")
    (auto dest!: findStartCode_bound [OF sym])

declare split_loop.simps [simp del]

definition splitAnnexB :: "bytes \<Rightarrow> bytes list" where
  "splitAnnexB accessUnit =
     (case findStartCode accessUnit 0 of
        None \<Rightarrow> (if accessUnit \<noteq> [] then [accessUnit] else [])
      | Some (pos, codeSize) \<Rightarrow> split_loop accessUnit pos codeSize)"

section \<open>Packetizing\<close>

text \<open>
  The loop that cuts one NAL unit into fragments; prefix is what every fragment starts
  with before its header byte, rest the bytes from the current offset on.
\<close>

function fu_loop :: "(bool \<Rightarrow> xuint16 \<Rightarrow> bytes \<Rightarrow> rtp_packet \<times> xuint16) \<Rightarrow> bytes \<Rightarrow> xuint8 \<Rightarrow> nat \<Rightarrow> bool \<Rightarrow> bool \<Rightarrow>
    bytes \<Rightarrow> xuint16 \<Rightarrow> rtp_packet list \<times> xuint16" where
  "fu_loop mk prefix nalType maxFragment lastNal firstFragment rest sq =
     (if rest = [] \<or> maxFragment = 0 then ([], sq)
      else
        let fragment = take maxFragment rest; lastFragment = (drop maxFragment rest = []);
            fuHeader = (if firstFragment then 0x80 else 0) OR (if lastFragment then 0x40 else 0) OR nalType;
            (pkt, sq1) = mk (lastNal \<and> lastFragment) sq (prefix @ fuHeader # fragment);
            (pkts, sq2) = fu_loop mk prefix nalType maxFragment lastNal False (drop maxFragment rest) sq1
        in (pkt # pkts, sq2))"
  by pat_completeness auto
termination by (relation "measure (\<lambda>(_, _, _, _, _, _, rest, _). length rest)") auto

declare fu_loop.simps [simp del]

fun packetize264 :: "(bool \<Rightarrow> xuint16 \<Rightarrow> bytes \<Rightarrow> rtp_packet \<times> xuint16) \<Rightarrow> nat \<Rightarrow> bytes list \<Rightarrow> xuint16 \<Rightarrow> rtp_packet list \<times> xuint16" where
  "packetize264 mk maxPayloadSize [] sq = ([], sq)"
| "packetize264 mk maxPayloadSize (nal # nals) sq =
     (let lastNal = (nals = []);
          (pkts, sq1) =
            (if nal = [] then ([], sq)
             else if length nal \<le> maxPayloadSize then (let (p, s) = mk lastNal sq nal in ([p], s))
             else fu_loop mk [(hd nal AND 0xE0) OR 28] (hd nal AND 0x1F) (maxPayloadSize - 2) lastNal True (tl nal) sq);
          (rest, sq2) = packetize264 mk maxPayloadSize nals sq1
      in (pkts @ rest, sq2))"

definition packetizeAnnexB264 :: "bytes \<Rightarrow> xuint8 \<Rightarrow> xuint32 \<Rightarrow> xuint32 \<Rightarrow> xuint16 \<Rightarrow> nat \<Rightarrow> rtp_packet list \<times> xuint16" where
  "packetizeAnnexB264 accessUnit payloadType ssrc timestamp sq maxPayloadSize =
     (if maxPayloadSize < 3 then ([], sq)
      else packetize264 (\<lambda>marker s pl. makeRtpPacket payloadType ssrc timestamp s marker pl) maxPayloadSize (splitAnnexB accessUnit) sq)"

fun packetize265 :: "(bool \<Rightarrow> xuint16 \<Rightarrow> bytes \<Rightarrow> rtp_packet \<times> xuint16) \<Rightarrow> nat \<Rightarrow> bytes list \<Rightarrow> xuint16 \<Rightarrow> rtp_packet list \<times> xuint16" where
  "packetize265 mk maxPayloadSize [] sq = ([], sq)"
| "packetize265 mk maxPayloadSize (nal # nals) sq =
     (let lastNal = (nals = []);
          (pkts, sq1) =
            (if length nal < 2 then ([], sq)
             else if length nal \<le> maxPayloadSize then (let (p, s) = mk lastNal sq nal in ([p], s))
             else fu_loop mk [(hd nal AND 0x81) OR 98, nal ! 1] (drop_bit 1 (hd nal) AND 0x3F) (maxPayloadSize - 3) lastNal True
                    (drop 2 nal) sq);
          (rest, sq2) = packetize265 mk maxPayloadSize nals sq1
      in (pkts @ rest, sq2))"

definition packetizeAnnexB265 :: "bytes \<Rightarrow> xuint8 \<Rightarrow> xuint32 \<Rightarrow> xuint32 \<Rightarrow> xuint16 \<Rightarrow> nat \<Rightarrow> rtp_packet list \<times> xuint16" where
  "packetizeAnnexB265 accessUnit payloadType ssrc timestamp sq maxPayloadSize =
     (if maxPayloadSize < 4 then ([], sq)
      else packetize265 (\<lambda>marker s pl. makeRtpPacket payloadType ssrc timestamp s marker pl) maxPayloadSize (splitAnnexB accessUnit) sq)"

section \<open>Reassembly\<close>

record depacketizer =
  dp_frame :: bytes
  dp_timestamp :: xuint32
  dp_expectedSequence :: xuint16
  dp_haveTimestamp :: bool
  dp_haveExpectedSequence :: bool
  dp_haveFragment :: bool
  dp_keyFrame :: bool

datatype push_result = NeedMore | FrameReady bytes bool | PacketError

definition kMaxReassemblyBytes :: nat where "kMaxReassemblyBytes = 16 * 1024 * 1024"

definition resetFrame :: "depacketizer \<Rightarrow> depacketizer" where
  "resetFrame d = d\<lparr>dp_frame := [], dp_timestamp := 0, dp_haveTimestamp := False, dp_haveFragment := False,
     dp_keyFrame := False\<rparr>"

definition new_depacketizer :: depacketizer where
  "new_depacketizer = \<lparr>dp_frame = [], dp_timestamp = 0, dp_expectedSequence = 0, dp_haveTimestamp = False,
     dp_haveExpectedSequence = False, dp_haveFragment = False, dp_keyFrame = False\<rparr>"

definition isExpectedSequence :: "bool \<Rightarrow> xuint16 \<Rightarrow> xuint16 \<Rightarrow> bool" where
  "isExpectedSequence haveExpected expected actual \<longleftrightarrow> \<not> haveExpected \<or> expected = actual"

definition admit :: "rtp_header \<Rightarrow> depacketizer \<Rightarrow> depacketizer" where
  "admit h d =
     (let d1 = (if isExpectedSequence (dp_haveExpectedSequence d) (dp_expectedSequence d) (rh_sequenceNumber h) then d
                else resetFrame d);
          d2 = d1\<lparr>dp_expectedSequence := rh_sequenceNumber h + 1, dp_haveExpectedSequence := True\<rparr>;
          d3 = (if dp_haveTimestamp d2 \<and> dp_timestamp d2 \<noteq> rh_timestamp h then resetFrame d2 else d2)
      in d3\<lparr>dp_timestamp := rh_timestamp h, dp_haveTimestamp := True\<rparr>)"

definition append_nal :: "bool \<Rightarrow> bytes \<Rightarrow> depacketizer \<Rightarrow> depacketizer" where
  "append_nal key nal d = d\<lparr>dp_frame := dp_frame d @ START_CODE @ nal, dp_keyFrame := dp_keyFrame d \<or> key\<rparr>"

definition h264Type :: "8 word \<Rightarrow> 8 word" where "h264Type b = b AND 0x1F"
definition h265Type :: "8 word \<Rightarrow> 8 word" where "h265Type b = drop_bit 1 b AND 0x3F"
definition h264KeyNal :: "8 word \<Rightarrow> bool" where "h264KeyNal t \<longleftrightarrow> t = 5 \<or> t = 7"
definition h265KeyNal :: "8 word \<Rightarrow> bool" where
  "h265KeyNal t \<longleftrightarrow> (t \<ge> 16 \<and> t \<le> 21) \<or> t = 32 \<or> t = 33 \<or> t = 34"

text \<open>The loop over an aggregation packet: each unit has a 16-bit size, at least \<open>least\<close>.\<close>

function aggregate_loop :: "nat \<Rightarrow> (8 word \<Rightarrow> bool) \<Rightarrow> bytes \<Rightarrow> depacketizer \<Rightarrow> depacketizer option" where
  "aggregate_loop least key rest d =
     (if length rest < 2 then Some d
      else
        let nalSize = unat (be16_at 0 rest) in
        if nalSize < least \<or> 2 + nalSize > length rest then None
        else aggregate_loop least key (drop (2 + nalSize) rest)
               (append_nal (key (rest ! 2)) (take nalSize (drop 2 rest)) d))"
  by pat_completeness auto
termination by (relation "measure (\<lambda>(_, _, rest, _). length rest)") auto

declare aggregate_loop.simps [simp del]

definition fragment264 :: "bytes \<Rightarrow> depacketizer \<Rightarrow> depacketizer option" where
  "fragment264 p d =
     (if length p < 3 then None
      else
        let fuHeader = p ! 1; originalType = fuHeader AND 0x1F in
        case (if fuHeader AND 0x80 \<noteq> 0 then
                Some ((append_nal (h264KeyNal originalType) [(p ! 0 AND 0xE0) OR originalType] d)\<lparr>dp_haveFragment := True\<rparr>)
              else if \<not> dp_haveFragment d then None else Some d) of
          None \<Rightarrow> None
        | Some d1 \<Rightarrow>
            let d2 = d1\<lparr>dp_frame := dp_frame d1 @ drop 2 p\<rparr>
            in Some (if fuHeader AND 0x40 \<noteq> 0 then d2\<lparr>dp_haveFragment := False\<rparr> else d2))"

definition fragment265 :: "bytes \<Rightarrow> depacketizer \<Rightarrow> depacketizer option" where
  "fragment265 p d =
     (if length p < 4 then None
      else
        let fuHeader = p ! 2; originalType = fuHeader AND 0x3F in
        case (if fuHeader AND 0x80 \<noteq> 0 then
                Some ((append_nal (h265KeyNal originalType) [(p ! 0 AND 0x81) OR push_bit 1 originalType, p ! 1] d)
                        \<lparr>dp_haveFragment := True\<rparr>)
              else if \<not> dp_haveFragment d then None else Some d) of
          None \<Rightarrow> None
        | Some d1 \<Rightarrow>
            let d2 = d1\<lparr>dp_frame := dp_frame d1 @ drop 3 p\<rparr>
            in Some (if fuHeader AND 0x40 \<noteq> 0 then d2\<lparr>dp_haveFragment := False\<rparr> else d2))"

text \<open>What a payload adds to the frame; None ends in PacketError.\<close>

definition payload264 :: "bytes \<Rightarrow> depacketizer \<Rightarrow> depacketizer option" where
  "payload264 p d =
     (let t = h264Type (p ! 0) in
      if t \<ge> 1 \<and> t \<le> 23 then Some (append_nal (h264KeyNal t) p d)
      else if t = 24 then aggregate_loop 1 (\<lambda>b. h264KeyNal (h264Type b)) (drop 1 p) d
      else if t = 28 then fragment264 p d
      else None)"

definition payload265 :: "bytes \<Rightarrow> depacketizer \<Rightarrow> depacketizer option" where
  "payload265 p d =
     (let t = h265Type (p ! 0) in
      if t \<le> 47 then Some (append_nal (h265KeyNal t) p d)
      else if t = 48 then aggregate_loop 2 (\<lambda>b. h265KeyNal (h265Type b)) (drop 2 p) d
      else if t = 49 then fragment265 p d
      else None)"

definition finish_push :: "bool \<Rightarrow> depacketizer \<Rightarrow> push_result \<times> depacketizer" where
  "finish_push marker d =
     (if marker then
        if dp_frame d = [] then (PacketError, resetFrame d)
        else (FrameReady (dp_frame d) (dp_keyFrame d), resetFrame d)
      else (NeedMore, d))"

definition push_with :: "(bytes \<Rightarrow> depacketizer \<Rightarrow> depacketizer option) \<Rightarrow> rtp_packet \<Rightarrow> depacketizer \<Rightarrow> push_result \<times> depacketizer" where
  "push_with payload pkt d =
     (let d1 = admit (rp_header pkt) d in
      if length (dp_frame d1) + length (rp_payload pkt) > kMaxReassemblyBytes then (PacketError, resetFrame d1)
      else (case payload (rp_payload pkt) d1 of
              None \<Rightarrow> (PacketError, resetFrame d1)
            | Some d2 \<Rightarrow> finish_push (rh_marker (rp_header pkt)) d2))"

definition pushPacket264 :: "rtp_packet \<Rightarrow> depacketizer \<Rightarrow> push_result \<times> depacketizer" where
  "pushPacket264 pkt d = (if rp_payload pkt = [] then (PacketError, d) else push_with payload264 pkt d)"

definition pushPacket265 :: "rtp_packet \<Rightarrow> depacketizer \<Rightarrow> push_result \<times> depacketizer" where
  "pushPacket265 pkt d = (if length (rp_payload pkt) < 2 then (PacketError, d) else push_with payload265 pkt d)"

section \<open>Random starts\<close>

definition xorshift32 :: "xuint32 \<Rightarrow> xuint32" where
  "xorshift32 s =
     (let s1 = s XOR push_bit 13 s; s2 = s1 XOR drop_bit 17 s1 in s2 XOR push_bit 5 s2)"

text \<open>The generator's next state and result; a zero state is seeded from the clock and an address.\<close>

definition iRtpRandom32 :: "xuint32 \<Rightarrow> xuint32 \<Rightarrow> xuint32 \<Rightarrow> xuint32" where
  "iRtpRandom32 time address state =
     (let seeded = (if state = 0 then
              (let s = time XOR address XOR 0x9E3779B9 in if s = 0 then 0x12345678 else s)
            else state)
      in xorshift32 seeded)"

end
