(* ===== verification/Rtp_Laws.thy ===== *)
theory Rtp_Laws imports Rtp_Codec begin

text \<open>
  What the RTP code promises: Annex B streams are split into their units, a packet
  survives its wire format, and what a packetizer cuts its depacketizer puts together,
  whatever state it was in. The contract both codecs share is the locale nal_codec.
\<close>

section \<open>Annex B streams split into their units\<close>

definition annexb :: "bytes list \<Rightarrow> bytes" where
  "annexb nals = concat (map (\<lambda>n. START_CODE @ n) nals)"

definition nal_ok :: "bytes \<Rightarrow> bool" where
  "nal_ok n \<longleftrightarrow> n \<noteq> [] \<and> last n \<noteq> 0 \<and> (\<forall>pos<length n. startCodeAt n pos = None)"

lemma annexb_simps [simp]: "annexb [] = []" "annexb (n # ns) = START_CODE @ n @ annexb ns"
  by (simp_all add: annexb_def)

lemma length_START_CODE [simp]: "length START_CODE = 4" by (simp add: START_CODE_def)

lemma find_at:
  "startCodeAt data p = Some k \<Longrightarrow> pos \<le> p \<Longrightarrow> (\<And>q. pos \<le> q \<Longrightarrow> q < p \<Longrightarrow> startCodeAt data q = None) \<Longrightarrow>
   findStartCode data pos = Some (p, k)"
proof (induction data pos rule: findStartCode.induct)
  case (1 data pos)
  have b: "p + 3 \<le> length data" using 1(2) by (auto simp: startCodeAt_def split: if_splits)
  show ?case
  proof (cases "pos = p")
    case True
    then show ?thesis using b 1(2) by (subst findStartCode.simps) simp
  next
    case False
    then have "pos < p" "startCodeAt data pos = None" using 1(3,4) by auto
    then have "findStartCode data pos = findStartCode data (pos + 1)" using b by (subst findStartCode.simps) simp
    moreover have "findStartCode data (pos + 1) = Some (p, k)"
      using 1(1) [OF _ \<open>startCodeAt data pos = None\<close> 1(2)] b \<open>pos < p\<close> 1(4) by auto
    ultimately show ?thesis by simp
  qed
qed

lemma find_none:
  "(\<And>q. pos \<le> q \<Longrightarrow> startCodeAt data q = None) \<Longrightarrow> findStartCode data pos = None"
proof (induction data pos rule: findStartCode.induct)
  case (1 data pos)
  then show ?case by (subst findStartCode.simps) auto
qed

lemma startCodeAt_append: "startCodeAt (pre @ START_CODE @ xs) (length pre) = Some 4"
  by (simp add: startCodeAt_def START_CODE_def nth_append)

lemma startCodeAt_inside:
  assumes "nal_ok n" and "length pre \<le> q" and "q < length pre + length n"
  shows "startCodeAt (pre @ n @ xs) q = None"
proof (rule ccontr)
  assume c: "startCodeAt (pre @ n @ xs) q \<noteq> None"
  define i where "i = q - length pre"
  have i: "i < length n" "q = length pre + i" using assms(2,3) by (auto simp: i_def)
  have nth: "(pre @ n @ xs) ! (q + j) = n ! (i + j)" if "i + j < length n" for j
    using that i(2) by (simp add: nth_append add.assoc)
  have last: "n ! (length n - 1) \<noteq> 0" using assms(1) by (auto simp: nal_ok_def last_conv_nth)
  have none: "startCodeAt n i = None" using assms(1) i(1) by (simp add: nal_ok_def)
  consider (three) "(pre @ n @ xs) ! q = 0" "(pre @ n @ xs) ! (q + 1) = 0" "(pre @ n @ xs) ! (q + 2) = 1"
    | (four) "(pre @ n @ xs) ! q = 0" "(pre @ n @ xs) ! (q + 1) = 0" "(pre @ n @ xs) ! (q + 2) = 0" "(pre @ n @ xs) ! (q + 3) = 1"
    using c by (auto simp: startCodeAt_def split: if_splits)
  then show False
  proof cases
    case three
    consider "i + 2 < length n" | "i = length n - 1" | "i + 1 = length n - 1" using i(1) by linarith
    then show False
    proof cases
      case 1 then show False using three nth [of 0] nth [of 1] nth [of 2] none by (simp add: startCodeAt_def)
    next
      case 2 then show False using three(1) nth [of 0] i(1) last by simp
    next
      case 3 then show False using three(2) nth [of 1] i(1) last by simp
    qed
  next
    case four
    consider "i + 3 < length n" | "i = length n - 1" | "i + 1 = length n - 1" | "i + 2 = length n - 1" using i(1) by linarith
    then show False
    proof cases
      case 1 then show False using four nth [of 0] nth [of 1] nth [of 2] nth [of 3] none by (simp add: startCodeAt_def)
    next
      case 2 then show False using four(1) nth [of 0] i(1) last by simp
    next
      case 3 then show False using four(2) nth [of 1] i(1) last by simp
    next
      case 4 then show False using four(3) nth [of 2] i(1) last by simp
    qed
  qed
qed

lemma split_loop_annexb:
  "nal_ok n \<Longrightarrow> list_all nal_ok nals \<Longrightarrow> split_loop (pre @ START_CODE @ n @ annexb nals) (length pre) 4 = n # nals"
proof (induction nals arbitrary: pre n)
  case Nil
  let ?d = "pre @ START_CODE @ n" and ?s = "length pre + 4"
  have ne: "n \<noteq> []" and l: "last n \<noteq> 0" using Nil by (auto simp: nal_ok_def)
  have "startCodeAt ?d q = None" if "?s \<le> q" for q
  proof (cases "q < ?s + length n")
    case True
    then show ?thesis using startCodeAt_inside [OF Nil(1), of "pre @ START_CODE" q "[]"] that by simp
  qed (simp add: startCodeAt_def)
  then have f: "findStartCode ?d ?s = None" by (rule find_none)
  have "?d ! (length ?d - 1) \<noteq> 0" using ne l by (metis append_is_Nil_conv last_appendR last_conv_nth)
  then have t: "trim_zeros ?d ?s (length ?d) = length ?d" by (subst trim_zeros.simps) simp
  show ?case using f t ne by (subst split_loop.simps) (simp add: Let_def)
next
  case (Cons m ms)
  let ?d = "pre @ START_CODE @ n @ annexb (m # ms)" and ?s = "length pre + 4"
  have ne: "n \<noteq> []" and l: "last n \<noteq> 0" using Cons.prems by (auto simp: nal_ok_def)
  have c: "startCodeAt ?d (?s + length n) = Some 4"
    using startCodeAt_append [of "pre @ START_CODE @ n" "m @ annexb ms"] by (simp add: add.assoc)
  have "startCodeAt ?d q = None" if "?s \<le> q" "q < ?s + length n" for q
    using startCodeAt_inside [OF Cons.prems(1), of "pre @ START_CODE" q "annexb (m # ms)"] that by simp
  with c have f: "findStartCode ?d ?s = Some (?s + length n, 4)" by (intro find_at) auto
  have "?d ! (?s + length n - 1) = last n"
  proof -
    have "?s + length n - 1 = length (pre @ START_CODE) + (length n - 1)" using ne by (cases n) auto
    then have "?d ! (?s + length n - 1) = ((pre @ START_CODE) @ (n @ annexb (m # ms))) ! (length (pre @ START_CODE) + (length n - 1))" by simp
    also have "\<dots> = n ! (length n - 1)" using ne by (simp add: nth_append del: append_assoc)
    finally show ?thesis using ne by (simp add: last_conv_nth)
  qed
  then have t: "trim_zeros ?d ?s (?s + length n) = ?s + length n" using l by (subst trim_zeros.simps) simp
  have "split_loop ?d (?s + length n) 4 = m # ms"
    using Cons.IH [of m "pre @ START_CODE @ n"] Cons.prems(2) by (simp add: add.assoc)
  then show ?case using f t ne by (subst split_loop.simps) (simp add: Let_def)
qed

lemma splitAnnexB_annexb:
  assumes "list_all nal_ok nals"
  shows "splitAnnexB (annexb nals) = nals"
proof (cases nals)
  case Nil
  then show ?thesis by (simp add: splitAnnexB_def findStartCode.simps)
next
  case (Cons n ns)
  have "findStartCode (annexb nals) 0 = Some (0, 4)"
    using startCodeAt_append [of "[]" "n @ annexb ns"] Cons by (intro find_at) simp_all
  then show ?thesis using split_loop_annexb [of n ns "[]"] assms Cons by (simp add: splitAnnexB_def)
qed

section \<open>Runs of a depacketizer\<close>

fun push_all :: "(rtp_packet \<Rightarrow> depacketizer \<Rightarrow> push_result \<times> depacketizer) \<Rightarrow> rtp_packet list \<Rightarrow> depacketizer \<Rightarrow>
    push_result list \<times> depacketizer" where
  "push_all push [] d = ([], d)"
| "push_all push (p # ps) d = (let (r, d1) = push p d; (rs, d2) = push_all push ps d1 in (r # rs, d2))"

lemma push_all_append:
  "push_all push (ps @ qs) d =
     (let (rs, d1) = push_all push ps d; (ss, d2) = push_all push qs d1 in (rs @ ss, d2))"
  by (induction ps arbitrary: d) (auto split: prod.splits)

lemma fu_loop_Nil: "fu_loop mk pr t mf l f [] sq = ([], sq)"
  by (simp add: fu_loop.simps)

lemma fu_loop_step:
  "rest \<noteq> [] \<Longrightarrow> 0 < mf \<Longrightarrow> fu_loop mk pr t mf l f rest sq =
     (let (pkt, sq1) = mk (l \<and> drop mf rest = []) sq (pr @ ((if f then 0x80 else 0) OR (if drop mf rest = [] then 0x40 else 0) OR t) # take mf rest);
          (pkts, sq2) = fu_loop mk pr t mf l False (drop mf rest) sq1
      in (pkt # pkts, sq2))"
  by (subst fu_loop.simps) (simp add: Let_def)

text \<open>A depacketizer in the middle of a frame, expecting sequence number sq.\<close>

definition in_frame :: "bytes \<Rightarrow> xuint32 \<Rightarrow> xuint16 \<Rightarrow> bool \<Rightarrow> bool \<Rightarrow> depacketizer" where
  "in_frame F ts sq frag key = \<lparr>dp_frame = F, dp_timestamp = ts, dp_expectedSequence = sq, dp_haveTimestamp = True,
     dp_haveExpectedSequence = True, dp_haveFragment = frag, dp_keyFrame = key\<rparr>"

text \<open>Admitting a packet with number sq and time ts leaves the frame F.\<close>

definition admits :: "xuint16 \<Rightarrow> xuint32 \<Rightarrow> bytes \<Rightarrow> bool \<Rightarrow> bool \<Rightarrow> depacketizer \<Rightarrow> bool" where
  "admits sq ts F frag key d \<longleftrightarrow>
     (\<forall>h. rh_sequenceNumber h = sq \<and> rh_timestamp h = ts \<longrightarrow> admit h d = in_frame F ts (sq + 1) frag key)"

lemma admits_in_frame: "admits sq ts F frag key (in_frame F ts sq frag key)"
  by (simp add: admits_def admit_def in_frame_def isExpectedSequence_def)

text \<open>A depacketizer that has not seen this frame starts it afresh.\<close>

definition fresh_for :: "xuint16 \<Rightarrow> xuint32 \<Rightarrow> depacketizer \<Rightarrow> bool" where
  "fresh_for sq ts d \<longleftrightarrow> (dp_haveExpectedSequence d \<and> dp_expectedSequence d \<noteq> sq) \<or>
     (dp_haveTimestamp d \<and> dp_timestamp d \<noteq> ts) \<or> (dp_frame d = [] \<and> \<not> dp_haveFragment d \<and> \<not> dp_keyFrame d)"

lemma admits_fresh: "fresh_for sq ts d \<Longrightarrow> admits sq ts [] False False d"
  by (cases d) (auto simp: admits_def admit_def in_frame_def isExpectedSequence_def fresh_for_def resetFrame_def Let_def)

text \<open>A group of packets that turns d into X: nothing is ready before its last packet.\<close>

definition carries :: "(rtp_packet \<Rightarrow> depacketizer \<Rightarrow> push_result \<times> depacketizer) \<Rightarrow> rtp_packet list \<Rightarrow>
    depacketizer \<Rightarrow> bool \<Rightarrow> depacketizer \<Rightarrow> bool" where
  "carries push pkts d marker X \<longleftrightarrow> pkts \<noteq> [] \<and>
     push_all push pkts d = (replicate (length pkts - 1) NeedMore @ [fst (finish_push marker X)], snd (finish_push marker X))"

lemma carries_append:
  assumes "carries push ps d False X" and "carries push qs X m Y"
  shows "carries push (ps @ qs) d m Y"
proof -
  have "ps \<noteq> []" "push_all push ps d = (replicate (length ps - 1) NeedMore @ [NeedMore], X)"
    using assms(1) by (simp_all add: carries_def finish_push_def)
  moreover have "replicate (length ps - 1) NeedMore @ [NeedMore] = replicate (length ps) NeedMore" if "ps \<noteq> []"
    using that by (cases ps) (simp_all add: replicate_append_same)
  ultimately have "push_all push ps d = (replicate (length ps) NeedMore, X)" by simp
  then have all: "push_all push (ps @ qs) d =
      (replicate (length ps) NeedMore @ replicate (length qs - 1) NeedMore @ [fst (finish_push m Y)], snd (finish_push m Y))"
    using assms(2) by (simp add: push_all_append carries_def)
  have "length ps + (length qs - 1) = length (ps @ qs) - 1" using assms(2) by (cases qs) (auto simp: carries_def)
  then have "replicate (length ps) NeedMore @ replicate (length qs - 1) NeedMore = replicate (length (ps @ qs) - 1) NeedMore"
    by (metis replicate_add)
  then show ?thesis using all \<open>ps \<noteq> []\<close> by (simp add: carries_def flip: append_assoc)
qed

lemma carries_one: "push p d = finish_push m X \<Longrightarrow> carries push [p] d m X"
  by (simp add: carries_def case_prod_beta)

section \<open>The contract of a codec\<close>

text \<open>
  hdr is the length of a unit's header, which fragments carry as a prefix and a type; ok
  says which units the codec carries, key which of them start a key frame.
\<close>

locale nal_codec =
  fixes push :: "rtp_packet \<Rightarrow> depacketizer \<Rightarrow> push_result \<times> depacketizer"
    and payload :: "bytes \<Rightarrow> depacketizer \<Rightarrow> depacketizer option"
    and packetize :: "(bool \<Rightarrow> xuint16 \<Rightarrow> bytes \<Rightarrow> rtp_packet \<times> xuint16) \<Rightarrow> nat \<Rightarrow> bytes list \<Rightarrow> xuint16 \<Rightarrow> rtp_packet list \<times> xuint16"
    and hdr :: nat and prefix :: "bytes \<Rightarrow> bytes" and ntype :: "bytes \<Rightarrow> 8 word"
    and ok :: "bytes \<Rightarrow> bool" and key :: "bytes \<Rightarrow> bool"
  assumes push_payload: "hdr \<le> length (rp_payload pkt) \<Longrightarrow> push pkt d = push_with payload pkt d"
    and hdr_pos: "0 < hdr" and hdr_le: "hdr \<le> 2"
    and prefix_length [simp]: "length (prefix nal) = hdr"
    and ok_hdr: "ok nal \<Longrightarrow> hdr \<le> length nal"
    and single: "ok nal \<Longrightarrow> payload nal d = Some (append_nal (key nal) nal d)"
    and first_part: "ok nal \<Longrightarrow> body \<noteq> [] \<Longrightarrow>
      payload (prefix nal @ (0x80 OR ((if e then 0x40 else 0) OR ntype nal)) # body) d =
        Some ((append_nal (key nal) (take hdr nal @ body) d)\<lparr>dp_haveFragment := \<not> e\<rparr>)"
    and next_part: "ok nal \<Longrightarrow> body \<noteq> [] \<Longrightarrow> dp_haveFragment d \<Longrightarrow>
      payload (prefix nal @ ((if e then 0x40 else 0) OR ntype nal) # body) d =
        Some (d\<lparr>dp_frame := dp_frame d @ body, dp_haveFragment := \<not> e\<rparr>)"
    and packetize_Nil: "packetize mk mx [] sq = ([], sq)"
    and packetize_Cons: "ok nal \<Longrightarrow> packetize mk mx (nal # nals) sq =
      (let (pkts, sq1) = (if length nal \<le> mx then (let (p, s) = mk (nals = []) sq nal in ([p], s))
             else fu_loop mk (prefix nal) (ntype nal) (mx - (hdr + 1)) (nals = []) True (drop hdr nal) sq);
           (rest, sq2) = packetize mk mx nals sq1
       in (pkts @ rest, sq2))"
begin

lemma push_single:
  assumes "ok nal" and "admits sq ts F False k d" and "length F + length nal \<le> kMaxReassemblyBytes"
  shows "push (fst (makeRtpPacket pt ssrc ts sq m nal)) d =
    finish_push m (in_frame (F @ START_CODE @ nal) ts (sq + 1) False (k \<or> key nal))"
proof -
  have "admit (rp_header (fst (makeRtpPacket pt ssrc ts sq m nal))) d = in_frame F ts (sq + 1) False k"
    using assms(2) by (simp add: admits_def makeRtpPacket_def)
  moreover have "rp_payload (fst (makeRtpPacket pt ssrc ts sq m nal)) = nal" "rh_marker (rp_header (fst (makeRtpPacket pt ssrc ts sq m nal))) = m"
    by (simp_all add: makeRtpPacket_def)
  ultimately show ?thesis using assms(3) ok_hdr [OF assms(1)]
    by (simp add: push_payload push_with_def single [OF assms(1)] append_nal_def in_frame_def)
qed

lemma push_fragment:
  assumes "ok nal" and "admits sq ts F b k d" and "body \<noteq> []" and "\<not> first \<longrightarrow> b"
    and "length F + hdr + 1 + length body \<le> kMaxReassemblyBytes"
  shows "push (fst (makeRtpPacket pt ssrc ts sq m
      (prefix nal @ ((if first then 0x80 else 0) OR (if e then 0x40 else 0) OR ntype nal) # body))) d =
    finish_push m (in_frame (F @ (if first then START_CODE @ take hdr nal else []) @ body) ts (sq + 1) (\<not> e) (k \<or> (first \<and> key nal)))"
    (is "push ?pkt d = _")
proof -
  have "admit (rp_header ?pkt) d = in_frame F ts (sq + 1) b k"
    using assms(2) by (simp add: admits_def makeRtpPacket_def)
  moreover have "rp_payload ?pkt = prefix nal @ ((if first then 0x80 else 0) OR (if e then 0x40 else 0) OR ntype nal) # body" "rh_marker (rp_header ?pkt) = m"
    by (simp_all add: makeRtpPacket_def)
  ultimately show ?thesis using assms(4,5)
    by (cases first)
      (simp_all add: push_payload push_with_def first_part [OF assms(1,3)] next_part [OF assms(1,3)] or.assoc append_nal_def in_frame_def)
qed

lemma fu_carries:
  assumes "ok nal" and "0 < mf"
  shows "rest \<noteq> [] \<Longrightarrow> admits sq ts F b k d \<Longrightarrow> (\<not> first \<longrightarrow> b) \<Longrightarrow>
    length F + (if first then 4 + hdr else 0) + length rest + hdr + 1 \<le> kMaxReassemblyBytes \<Longrightarrow>
    fu_loop (\<lambda>mr s pl. makeRtpPacket pt ssrc ts s mr pl) (prefix nal) (ntype nal) mf m first rest sq = (pkts, sq') \<Longrightarrow>
    carries push pkts d m (in_frame (F @ (if first then START_CODE @ take hdr nal else []) @ rest) ts sq' False (k \<or> (first \<and> key nal)))"
proof (induction "length rest" arbitrary: rest sq F b k d first pkts rule: less_induct)
  case less
  let ?mk = "\<lambda>mr s pl. makeRtpPacket pt ssrc ts s mr pl"
  let ?body = "take mf rest" and ?e = "drop mf rest = []"
  let ?pl = "prefix nal @ ((if first then 0x80 else 0) OR (if ?e then 0x40 else 0) OR ntype nal) # ?body"
  define pkt where "pkt = fst (makeRtpPacket pt ssrc ts sq (m \<and> ?e) ?pl)"
  let ?G = "F @ (if first then START_CODE @ take hdr nal else []) @ ?body" and ?k = "k \<or> (first \<and> key nal)"
  have mk: "makeRtpPacket pt ssrc ts sq (m \<and> ?e) ?pl = (pkt, sq + 1)" by (simp add: pkt_def makeRtpPacket_def)
  obtain ps sq2 where r: "fu_loop ?mk (prefix nal) (ntype nal) mf m False (drop mf rest) (sq + 1) = (ps, sq2)" by fastforce
  have "(pkt # ps, sq2) = (pkts, sq')"
    using less.prems(5) unfolding fu_loop_step [OF less.prems(1) assms(2)] mk Let_def prod.case r .
  then have ps: "fu_loop ?mk (prefix nal) (ntype nal) mf m False (drop mf rest) (sq + 1) = (ps, sq')" "pkts = pkt # ps"
    using r by auto
  have body: "?body \<noteq> []" using less.prems(1) assms(2) by simp
  have sz: "length F + hdr + 1 + length ?body \<le> kMaxReassemblyBytes" using less.prems(4) by (auto split: if_splits)
  note pf = push_fragment [OF assms(1) less.prems(2) body less.prems(3) sz, of pt ssrc "m \<and> ?e" ?e, folded pkt_def]
  show ?case
  proof (cases ?e)
    case True
    then have "ps = []" "sq' = sq + 1" "?body = rest" using ps(1) by (auto simp: fu_loop_Nil)
    then show ?thesis using pf True ps(2) carries_one by fastforce
  next
    case False
    have one: "carries push [pkt] d False (in_frame ?G ts (sq + 1) True ?k)" using pf False by (intro carries_one) simp
    have "length (drop mf rest) < length rest" using less.prems(1) assms(2) by simp
    moreover have "length ?G + (if False then 4 + hdr else 0) + length (drop mf rest) + hdr + 1 \<le> kMaxReassemblyBytes"
      using less.prems(4) ok_hdr [OF assms(1)] by (auto split: if_splits)
    ultimately have "carries push ps (in_frame ?G ts (sq + 1) True ?k) m (in_frame (?G @ drop mf rest) ts sq' False ?k)"
      using less.hyps [of "drop mf rest" "sq + 1" ?G True ?k "in_frame ?G ts (sq + 1) True ?k" False ps] ps(1) False admits_in_frame
      by simp
    from carries_append [OF one this] show ?thesis using ps(2) by simp
  qed
qed

lemma nals_carry:
  assumes "hdr + 1 < mx"
  shows "nals \<noteq> [] \<Longrightarrow> list_all ok nals \<Longrightarrow> admits sq ts F False k d \<Longrightarrow>
    length F + length (annexb nals) + hdr + 1 \<le> kMaxReassemblyBytes \<Longrightarrow>
    packetize (\<lambda>mr s pl. makeRtpPacket pt ssrc ts s mr pl) mx nals sq = (pkts, sq') \<Longrightarrow>
    carries push pkts d True (in_frame (F @ annexb nals) ts sq' False (k \<or> list_ex key nals))"
proof (induction nals arbitrary: sq F k d pkts)
  case (Cons nal nals)
  let ?mk = "\<lambda>mr s pl. makeRtpPacket pt ssrc ts s mr pl" and ?last = "nals = []"
  let ?X = "\<lambda>sq1. in_frame (F @ START_CODE @ nal) ts sq1 False (k \<or> key nal)"
  have nal: "ok nal" using Cons.prems(2) by simp
  obtain ps sq1 where ps: "(if length nal \<le> mx then (let (p, s) = ?mk ?last sq nal in ([p], s))
      else fu_loop ?mk (prefix nal) (ntype nal) (mx - (hdr + 1)) ?last True (drop hdr nal) sq) = (ps, sq1)" by fastforce
  obtain qs sq2 where qs: "packetize ?mk mx nals sq1 = (qs, sq2)" by fastforce
  have pk: "pkts = ps @ qs" "sq' = sq2" using Cons.prems(5) unfolding packetize_Cons [OF nal] ps by (simp_all add: qs)
  have first: "carries push ps d ?last (?X sq1)"
  proof (cases "length nal \<le> mx")
    case True
    then have "ps = [fst (?mk ?last sq nal)]" "sq1 = sq + 1" using ps by (auto simp: makeRtpPacket_def)
    moreover have "push (fst (?mk ?last sq nal)) d = finish_push ?last (?X (sq + 1))"
      using Cons.prems(4) by (intro push_single [OF nal Cons.prems(3)]) simp
    ultimately show ?thesis using carries_one by blast
  next
    case False
    then have "drop hdr nal \<noteq> []" "0 < mx - (hdr + 1)" using assms by simp_all
    then show ?thesis
      using fu_carries [OF nal, of "mx - (hdr + 1)" "drop hdr nal" sq ts F False k d True pt ssrc ?last ps sq1]
        ps False Cons.prems(3,4) ok_hdr [OF nal] by simp
  qed
  show ?case
  proof (cases ?last)
    case True
    then have "qs = []" "sq2 = sq1" using qs by (auto simp: packetize_Nil)
    then show ?thesis using first True pk by simp
  next
    case False
    have "carries push qs (?X sq1) True (in_frame ((F @ START_CODE @ nal) @ annexb nals) ts sq' False ((k \<or> key nal) \<or> list_ex key nals))"
      using Cons.prems(2,4) by (intro Cons.IH [OF False _ admits_in_frame _ qs [folded pk(2)]]) simp_all
    moreover have "carries push ps d False (?X sq1)" using first False by simp
    ultimately show ?thesis using carries_append pk by (fastforce simp: disj_assoc)
  qed
qed simp

theorem frame_arrives:
  assumes "hdr + 1 < mx" and "nals \<noteq> []" and "list_all ok nals" and "fresh_for sq ts d"
    and "length (annexb nals) + hdr + 1 \<le> kMaxReassemblyBytes"
    and "packetize (\<lambda>mr s pl. makeRtpPacket pt ssrc ts s mr pl) mx nals sq = (pkts, sq')"
  shows "push_all push pkts d =
    (replicate (length pkts - 1) NeedMore @ [FrameReady (annexb nals) (list_ex key nals)],
     new_depacketizer\<lparr>dp_expectedSequence := sq', dp_haveExpectedSequence := True\<rparr>)"
  using nals_carry [OF assms(1-3) admits_fresh [OF assms(4)] _ assms(6)] assms(2,5)
  by (cases nals) (simp_all add: carries_def finish_push_def in_frame_def resetFrame_def new_depacketizer_def START_CODE_def)

end

section \<open>H.264 and H.265\<close>

lemma and_255: "w AND 255 = (w :: 8 word)"
proof -
  have "(255 :: 8 word) = - 1" by simp
  then show ?thesis by (metis and.right_neutral)
qed

lemmas distrib_bits = bit.conj_disj_distrib2 bit.conj_disj_distrib and.assoc

lemma and_split: "(w AND a) OR (w AND b) = w AND (a OR b :: 8 word)"
  by (simp add: bit.conj_disj_distrib)

lemma unit_header264:
  "((w AND 0xE0) OR 28) AND 0xE0 OR (w AND 0x1F) = (w :: 8 word)" "((w AND 0xE0) OR 28) AND 0x1F = (28 :: 8 word)"
  using and_split [of w "0xE0" "0x1F"] by (simp_all add: bit.conj_disj_distrib2 and.assoc and_255)

lemma fragment_bits264:
  "(0x80 OR ((if e then 0x40 else 0) OR (w AND 0x1F))) AND 0x1F = (w AND 0x1F :: 8 word)"
  "(0x80 OR ((if e then 0x40 else 0) OR (w AND 0x1F))) AND 0x80 = (0x80 :: 8 word)"
  "(0x80 OR ((if e then 0x40 else 0) OR (w AND 0x1F))) AND 0x40 = (if e then 0x40 else 0 :: 8 word)"
  "((if e then 0x40 else 0) OR (w AND 0x1F)) AND 0x80 = (0 :: 8 word)"
  "((if e then 0x40 else 0) OR (w AND 0x1F)) AND 0x40 = (if e then 0x40 else 0 :: 8 word)"
  by (cases e; simp add: bit.conj_disj_distrib2 and.assoc)+

definition ok264 :: "bytes \<Rightarrow> bool" where
  "ok264 n \<longleftrightarrow> n \<noteq> [] \<and> 1 \<le> h264Type (hd n) \<and> h264Type (hd n) \<le> 23"

definition key264 :: "bytes \<Rightarrow> bool" where "key264 n = h264KeyNal (h264Type (hd n))"

lemma payload264_single: "ok264 nal \<Longrightarrow> payload264 nal d = Some (append_nal (key264 nal) nal d)"
  by (cases nal) (simp_all add: payload264_def ok264_def key264_def Let_def)

lemma payload264_first:
  assumes "ok264 nal" and "body \<noteq> []"
  shows "payload264 ([(hd nal AND 0xE0) OR 28] @ (0x80 OR ((if e then 0x40 else 0) OR (hd nal AND 0x1F))) # body) d =
      Some ((append_nal (key264 nal) (take 1 nal @ body) d)\<lparr>dp_haveFragment := \<not> e\<rparr>)"
proof -
  have "take 1 nal = [hd nal]" using assms(1) by (cases nal) (simp_all add: ok264_def)
  moreover have "Suc 0 \<le> length body" using assms(2) by (cases body) simp_all
  ultimately show ?thesis using assms(2)
    by (simp add: payload264_def fragment264_def h264Type_def unit_header264 fragment_bits264 Let_def key264_def append_nal_def)
qed

lemma payload264_next:
  assumes "body \<noteq> []" and "dp_haveFragment d"
  shows "payload264 ([(hd nal AND 0xE0) OR 28] @ ((if e then 0x40 else 0) OR (hd nal AND 0x1F)) # body) d =
      Some (d\<lparr>dp_frame := dp_frame d @ body, dp_haveFragment := \<not> e\<rparr>)"
proof -
  have "Suc 0 \<le> length body" using assms(1) by (cases body) simp_all
  then show ?thesis using assms
    by (simp add: payload264_def fragment264_def h264Type_def unit_header264 fragment_bits264 Let_def)
qed

interpretation h264: nal_codec pushPacket264 payload264 packetize264 1 "\<lambda>n. [(hd n AND 0xE0) OR 28]" "\<lambda>n. hd n AND 0x1F" ok264 key264
proof
  fix nal :: bytes and nals mk mx sq assume "ok264 nal"
  then show "packetize264 mk mx (nal # nals) sq =
      (let (pkts, sq1) = (if length nal \<le> mx then (let (p, s) = mk (nals = []) sq nal in ([p], s))
             else fu_loop mk [(hd nal AND 0xE0) OR 28] (hd nal AND 0x1F) (mx - (1 + 1)) (nals = []) True (drop 1 nal) sq);
           (rest, sq2) = packetize264 mk mx nals sq1
       in (pkts @ rest, sq2))"
    by (simp add: ok264_def drop_Suc numeral_2_eq_2)
next
  fix nal assume "ok264 nal"
  then show "1 \<le> length nal" by (cases nal) (simp_all add: ok264_def)
qed (use payload264_single payload264_first payload264_next in \<open>auto simp: pushPacket264_def\<close>)

definition ok265 :: "bytes \<Rightarrow> bool" where
  "ok265 n \<longleftrightarrow> 2 \<le> length n \<and> h265Type (hd n) \<le> 47"

definition key265 :: "bytes \<Rightarrow> bool" where "key265 n = h265KeyNal (h265Type (hd n))"

lemma drop_bit_and: "drop_bit 1 (a AND b) = drop_bit 1 a AND drop_bit 1 (b :: 8 word)"
  "drop_bit 1 (a OR b) = drop_bit 1 a OR drop_bit 1 (b :: 8 word)"
  by (rule bit_word_eqI, simp add: bit_simps)+

lemma shift_numerals: "drop_bit 1 (0x81 :: 8 word) = 0x40" "drop_bit 1 (98 :: 8 word) = 49" "push_bit 1 (0x3F :: 8 word) = 0x7E"
  by (simp_all add: drop_bit_eq_div push_bit_eq_mult word_unat_eq_iff unat_div)

lemma unit_header265:
  "((w AND 0x81) OR 98) AND 0x81 OR push_bit 1 (drop_bit 1 w AND 0x3F) = (w :: 8 word)"
  "drop_bit 1 ((w AND 0x81) OR 98) AND 0x3F = (49 :: 8 word)"
proof -
  have "push_bit 1 (drop_bit 1 w AND 0x3F) = push_bit 1 (drop_bit 1 w) AND (0x7E :: 8 word)"
    unfolding shift_numerals(3) [symmetric] by (rule bit_word_eqI) (auto simp: bit_simps)
  also have "\<dots> = (w AND NOT (mask 1)) AND 0x7E" by (simp only: push_drop_bit)
  also have "\<dots> = w AND (0xFE AND 0x7E)"
  proof -
    have "NOT (mask 1) = (0xFE :: 8 word)" by (simp add: mask_eq_exp_minus_1)
    then show ?thesis by (simp only: and.assoc)
  qed
  also have "\<dots> = w AND 0x7E" by simp
  finally show "((w AND 0x81) OR 98) AND 0x81 OR push_bit 1 (drop_bit 1 w AND 0x3F) = (w :: 8 word)"
    using and_split [of w "0x81" "0x7E"] by (simp add: bit.conj_disj_distrib2 and.assoc and_255)
  show "drop_bit 1 ((w AND 0x81) OR 98) AND 0x3F = (49 :: 8 word)"
    by (simp add: drop_bit_and shift_numerals bit.conj_disj_distrib2 and.assoc)
qed

lemma fragment_bits265:
  "(0x80 OR ((if e then 0x40 else 0) OR (w AND 0x3F))) AND 0x3F = (w AND 0x3F :: 8 word)"
  "(0x80 OR ((if e then 0x40 else 0) OR (w AND 0x3F))) AND 0x80 = (0x80 :: 8 word)"
  "(0x80 OR ((if e then 0x40 else 0) OR (w AND 0x3F))) AND 0x40 = (if e then 0x40 else 0 :: 8 word)"
  "((if e then 0x40 else 0) OR (w AND 0x3F)) AND 0x80 = (0 :: 8 word)"
  "((if e then 0x40 else 0) OR (w AND 0x3F)) AND 0x40 = (if e then 0x40 else 0 :: 8 word)"
  by (cases e; simp add: bit.conj_disj_distrib2 and.assoc)+

lemmas unit_header265_simps = unit_header265 unit_header265 [simplified]

lemma fragment_type265: "h265Type ((w AND 0x81) OR 98) = 49"
  by (simp only: h265Type_def unit_header265)

lemma payload265_single: "ok265 nal \<Longrightarrow> payload265 nal d = Some (append_nal (key265 nal) nal d)"
  by (cases nal) (simp_all add: payload265_def ok265_def key265_def Let_def)

lemma payload265_first:
  assumes "ok265 nal" and "body \<noteq> []"
  shows "payload265 ([(hd nal AND 0x81) OR 98, nal ! 1] @ (0x80 OR ((if e then 0x40 else 0) OR (drop_bit 1 (hd nal) AND 0x3F))) # body) d =
      Some ((append_nal (key265 nal) (take 2 nal @ body) d)\<lparr>dp_haveFragment := \<not> e\<rparr>)"
proof -
  have "take 2 nal = [hd nal, nal ! 1]" using assms(1)
    by (cases nal; cases "tl nal") (auto simp: ok265_def)
  moreover have "Suc 0 \<le> length body" using assms(2) by (cases body) simp_all
  ultimately show ?thesis using assms(2)
    by (simp add: payload265_def fragment265_def fragment_type265 h265Type_def [of "hd nal"] unit_header265_simps fragment_bits265 Let_def key265_def append_nal_def)
qed

lemma payload265_next:
  assumes "body \<noteq> []" and "dp_haveFragment d"
  shows "payload265 ([(hd nal AND 0x81) OR 98, nal ! 1] @ ((if e then 0x40 else 0) OR (drop_bit 1 (hd nal) AND 0x3F)) # body) d =
      Some (d\<lparr>dp_frame := dp_frame d @ body, dp_haveFragment := \<not> e\<rparr>)"
proof -
  have "Suc 0 \<le> length body" using assms(1) by (cases body) simp_all
  then show ?thesis using assms
    by (simp add: payload265_def fragment265_def fragment_type265 h265Type_def [of "hd nal"] unit_header265_simps fragment_bits265 Let_def)
qed

interpretation h265: nal_codec pushPacket265 payload265 packetize265 2 "\<lambda>n. [(hd n AND 0x81) OR 98, n ! 1]"
  "\<lambda>n. drop_bit 1 (hd n) AND 0x3F" ok265 key265
proof
  fix nal :: bytes and nals mk mx sq assume "ok265 nal"
  then show "packetize265 mk mx (nal # nals) sq =
      (let (pkts, sq1) = (if length nal \<le> mx then (let (p, s) = mk (nals = []) sq nal in ([p], s))
             else fu_loop mk [(hd nal AND 0x81) OR 98, nal ! 1] (drop_bit 1 (hd nal) AND 0x3F) (mx - (2 + 1)) (nals = []) True (drop 2 nal) sq);
           (rest, sq2) = packetize265 mk mx nals sq1
       in (pkts @ rest, sq2))"
    by (simp add: ok265_def numeral_3_eq_3)
next
  fix nal assume "ok265 nal"
  then show "2 \<le> length nal" by (simp add: ok265_def)
qed (use payload265_single payload265_first payload265_next in \<open>auto simp: pushPacket265_def\<close>)

section \<open>The wire format\<close>

definition unextended :: "rtp_header \<Rightarrow> bool" where
  "unextended h \<longleftrightarrow> \<not> rh_extension h \<and> rh_payloadType h < 128 \<and> length (rh_csrc h) \<le> 15"

lemma first_byte:
  assumes "n \<le> 15"
  shows "drop_bit 6 (0x80 OR (if pd then 0x20 else 0) OR (of_nat n AND 0x0F)) = (2 :: 8 word)"
    "unat ((0x80 OR (if pd then 0x20 else 0) OR (of_nat n AND 0x0F)) AND 0x0F :: 8 word) = n"
    "(0x80 OR (if pd then 0x20 else 0) OR (of_nat n AND 0x0F)) AND 0x20 \<noteq> (0 :: 8 word) \<longleftrightarrow> pd"
    "(0x80 OR (if pd then 0x20 else 0) OR (of_nat n AND 0x0F)) AND 0x10 = (0 :: 8 word)"
proof -
  have d: "drop_bit 6 (a OR c OR (b AND e)) = drop_bit 6 a OR drop_bit 6 c OR (drop_bit 6 b AND drop_bit 6 e)" for a b c e :: "8 word"
    by (rule bit_word_eqI) (auto simp: bit_simps)
  have n: "drop_bit 6 (0x80 :: 8 word) = 2" "drop_bit 6 (0x0F :: 8 word) = 0" "drop_bit 6 (if pd then 0x20 else 0 :: 8 word) = 0"
    by (simp_all add: drop_bit_eq_div word_unat_eq_iff unat_div)
  show "drop_bit 6 (0x80 OR (if pd then 0x20 else 0) OR (of_nat n AND 0x0F)) = (2 :: 8 word)" by (simp only: d n) simp
  show "unat ((0x80 OR (if pd then 0x20 else 0) OR (of_nat n AND 0x0F)) AND 0x0F :: 8 word) = n"
    using assms by (cases pd) (simp_all add: bit.conj_disj_distrib2 and.assoc unat_and_mask_numeral unat_of_nat)
  show "(0x80 OR (if pd then 0x20 else 0) OR (of_nat n AND 0x0F)) AND 0x20 \<noteq> (0 :: 8 word) \<longleftrightarrow> pd"
    "(0x80 OR (if pd then 0x20 else 0) OR (of_nat n AND 0x0F)) AND 0x10 = (0 :: 8 word)"
    by (cases pd; simp add: bit.conj_disj_distrib2 and.assoc)+
qed

lemma and_7F: "pt < 128 \<Longrightarrow> pt AND 0x7F = (pt :: 8 word)"
proof -
  assume "pt < 128"
  then have "unat pt < 128" by (simp add: word_less_nat_alt)
  moreover have "unat (pt AND 0x7F) = unat pt mod 128" using unat_mask_mod [of pt 7] by (simp add: mask_eq_exp_minus_1)
  ultimately show ?thesis by (simp add: word_unat_eq_iff)
qed

lemma second_byte:
  assumes "pt < 128"
  shows "((if m then 0x80 else 0) OR (pt AND 0x7F)) AND 0x80 \<noteq> (0 :: 8 word) \<longleftrightarrow> m"
    "((if m then 0x80 else 0) OR (pt AND 0x7F)) AND 0x7F = (pt :: 8 word)"
proof -
  show "((if m then 0x80 else 0) OR (pt AND 0x7F)) AND 0x80 \<noteq> (0 :: 8 word) \<longleftrightarrow> m"
    by (cases m) (simp_all add: bit.conj_disj_distrib2 and.assoc)
  have "((if m then 0x80 else 0) OR (pt AND 0x7F)) AND 0x7F = pt AND (0x7F :: 8 word)"
    by (cases m) (simp_all add: bit.conj_disj_distrib2 and.assoc)
  then show "((if m then 0x80 else 0) OR (pt AND 0x7F)) AND 0x7F = (pt :: 8 word)" by (simp only: and_7F [OF assms])
qed

lemma length_csrcs [simp]: "length (concat (map be32 cs)) = 4 * length cs"
  by (induction cs) simp_all

lemma csrc_at: "i < length cs \<Longrightarrow> take 4 (drop (4 * i) (concat (map be32 cs) @ xs)) = be32 (cs ! i)"
proof (induction cs arbitrary: i)
  case (Cons c cs)
  then show ?case by (cases i) simp_all
qed simp

text \<open>What is read back: with the padding bit, the last payload byte counts as the padding.\<close>

lemma rtp_decode_encode:
  assumes "unextended (rp_header p)" and "rh_padding (rp_header p) \<longrightarrow> rp_payload p \<noteq> []"
  shows "rtp_decode (rtp_encode p) =
    (let k = (if rh_padding (rp_header p) then unat (last (rp_payload p)) else 0) in
     if rh_padding (rp_header p) \<and> (k = 0 \<or> k > length (rp_payload p)) then None
     else Some (p\<lparr>rp_payload := take (length (rp_payload p) - k) (rp_payload p)\<rparr>))"
proof -
  define h where "h = rp_header p"
  define n where "n = length (rh_csrc h)"
  define a where "a = (0x80 OR (if rh_padding h then 0x20 else 0) OR (of_nat n AND 0x0F) :: 8 word)"
  define b where "b = ((if rh_marker h then 0x80 else 0) OR (rh_payloadType h AND 0x7F) :: 8 word)"
  define pl where "pl = rp_payload p"
  have n: "n \<le> 15" and pt: "rh_payloadType h < 128" and pe: "\<not> rh_extension h" and pn: "rh_padding h \<longrightarrow> pl \<noteq> []"
    using assms by (simp_all add: unextended_def h_def n_def pl_def)
  define bs where "bs = [a, b] @ be16 (rh_sequenceNumber h) @ be32 (rh_timestamp h) @ be32 (rh_ssrc h) @ concat (map be32 (rh_csrc h)) @ pl"
  have e: "rtp_encode p = bs" using n pe
    by (simp add: rtp_encode_def h_def [symmetric] Let_def a_def b_def n_def bs_def pl_def)
  have len: "length bs = FixedHeaderSize + n * 4 + length pl" by (simp add: n_def bs_def FixedHeaderSize_def)
  note fa = first_byte [OF n, of "rh_padding h", folded a_def]
  note sb = second_byte [OF pt, of "rh_marker h", folded b_def]
  have f: "be16_at 2 bs = rh_sequenceNumber h" "be32_at 4 bs = rh_timestamp h" "be32_at 8 bs = rh_ssrc h"
    by (simp_all add: be16_at_def be32_at_def bs_def)
  have d12: "drop 12 bs = concat (map be32 (rh_csrc h)) @ pl" by (simp add: bs_def)
  have d: "drop (FixedHeaderSize + i * 4) bs = drop (4 * i) (concat (map be32 (rh_csrc h)) @ pl)" for i
    unfolding d12 [symmetric] drop_drop FixedHeaderSize_def by (simp add: ac_simps)
  have "be32_at (FixedHeaderSize + i * 4) bs = rh_csrc h ! i" if "i < n" for i
    using csrc_at [of i "rh_csrc h" pl] that by (simp only: be32_at_def d n_def of_be_be)
  then have cs: "map (\<lambda>i. be32_at (FixedHeaderSize + i * 4) bs) [0..<n] = rh_csrc h"
    by (intro nth_equalityI) (simp_all add: n_def)
  have dr: "drop (FixedHeaderSize + n * 4) bs = pl" by (simp add: d n_def)
  have nth: "bs ! 0 = a" "bs ! 1 = b" by (simp_all add: bs_def)
  have lst: "bs ! (length bs - 1) = last pl" if "pl \<noteq> []"
  proof -
    have "bs \<noteq> []" "last bs = last pl" using that by (simp_all add: bs_def)
    then show ?thesis by (simp add: last_conv_nth)
  qed
  have l: "\<not> length bs < FixedHeaderSize" "\<not> length bs < FixedHeaderSize + n * 4" using len by simp_all
  have hs: "length bs - (FixedHeaderSize + n * 4) = length pl" using len by simp
  have h: "\<lparr>rh_padding = pd, rh_extension = False, rh_marker = rh_marker h,
      rh_payloadType = rh_payloadType h, rh_sequenceNumber = rh_sequenceNumber h, rh_timestamp = rh_timestamp h,
      rh_ssrc = rh_ssrc h, rh_csrc = rh_csrc h\<rparr> = h" if "rh_padding h = pd" for pd using pe that by auto
  have "rtp_decode bs = (let k = (if rh_padding h then unat (last pl) else 0) in
      if rh_padding h \<and> (k = 0 \<or> k > length pl) then None
      else Some \<lparr>rp_header = h, rp_payload = take (length pl - k) pl\<rparr>)"
  proof (cases "rh_padding h")
    case True
    then show ?thesis unfolding rtp_decode_def nth fa Let_def f cs sb
      using l dr hs h [of True] lst pn pe by simp
  next
    case False
    then show ?thesis unfolding rtp_decode_def nth fa Let_def f cs sb
      using l dr hs h [of False] pe by simp
  qed
  then show ?thesis using e by (simp add: h_def pl_def Let_def)
qed

text \<open>Any buffer: the payload is a part of it behind the fixed header.\<close>

definition inside :: "bytes \<Rightarrow> bytes \<Rightarrow> bool" where
  "inside bs xs \<longleftrightarrow> (\<exists>k. FixedHeaderSize \<le> k \<and> k + length xs \<le> length bs \<and> xs = take (length xs) (drop k bs))"

lemma insideI:
  "FixedHeaderSize \<le> k \<Longrightarrow> k \<le> length bs \<Longrightarrow> inside bs (take m (drop k bs))"
  "FixedHeaderSize \<le> k \<Longrightarrow> k \<le> length bs \<Longrightarrow> inside bs (drop k bs)"
  by (auto simp: inside_def min_def intro!: exI [of _ k])

lemma decode_inside: "rtp_decode bs = Some p \<Longrightarrow> inside bs (rp_payload p)"
  by (auto simp: rtp_decode_def Let_def intro!: insideI split: if_splits)

section \<open>Memory\<close>

definition frame_bounded :: "nat \<Rightarrow> depacketizer \<Rightarrow> bool" where
  "frame_bounded n d \<longleftrightarrow> length (dp_frame d) \<le> n"

lemma aggregate_grows:
  "1 \<le> least \<Longrightarrow> aggregate_loop least key rest d = Some d' \<Longrightarrow> length (dp_frame d') \<le> length (dp_frame d) + 2 * length rest"
proof (induction least key rest d rule: aggregate_loop.induct)
  case (1 least key rest d)
  show ?case
  proof (cases "length rest < 2")
    case False
    let ?n = "unat (be16_at 0 rest)"
    have g: "\<not> (?n < least \<or> 2 + ?n > length rest)" "aggregate_loop least key (drop (2 + ?n) rest)
        (append_nal (key (rest ! 2)) (take ?n (drop 2 rest)) d) = Some d'"
      using 1(3) False by (subst (asm) aggregate_loop.simps, simp add: Let_def split: if_splits)+
    have "length (dp_frame d') \<le> length (dp_frame (append_nal (key (rest ! 2)) (take ?n (drop 2 rest)) d)) + 2 * length (drop (2 + ?n) rest)"
      by (rule 1(1) [OF False refl g(1) 1(2) g(2)])
    moreover have "length (dp_frame (append_nal (key (rest ! 2)) (take ?n (drop 2 rest)) d)) = length (dp_frame d) + 4 + ?n"
      using g(1) by (auto simp: append_nal_def)
    moreover have "length (drop (2 + ?n) rest) + (2 + ?n) = length rest"
    proof -
      have "2 + ?n \<le> length rest" using g(1) by linarith
      then show ?thesis by (simp only: length_drop le_add_diff_inverse2)
    qed
    moreover have "1 \<le> ?n" using g(1) 1(2) by linarith
    ultimately show ?thesis by linarith
  qed (use 1(3) in \<open>simp add: aggregate_loop.simps\<close>)
qed

lemma fragment_grows:
  "fragment264 p d = Some d' \<Longrightarrow> length (dp_frame d') \<le> length (dp_frame d) + 2 * length p + 3"
  "fragment265 p d = Some d' \<Longrightarrow> length (dp_frame d') \<le> length (dp_frame d) + 2 * length p + 3"
  by (auto simp: fragment264_def fragment265_def append_nal_def Let_def split: if_splits)

lemma payload_grows:
  "payload264 p d = Some d' \<Longrightarrow> length (dp_frame d') \<le> length (dp_frame d) + 2 * length p + 4"
  "payload265 p d = Some d' \<Longrightarrow> length (dp_frame d') \<le> length (dp_frame d) + 2 * length p + 4"
  using aggregate_grows [of 1 _ "drop 1 p" d d'] aggregate_grows [of 2 _ "drop 2 p" d d'] fragment_grows [of p d d']
  by (fastforce simp: payload264_def payload265_def append_nal_def Let_def split: if_splits)+

lemma admit_frame: "length (dp_frame (admit h d)) \<le> length (dp_frame d)"
  by (simp add: admit_def resetFrame_def Let_def)

lemma push_with_bounded:
  assumes "\<And>p d d'. pay p d = Some d' \<Longrightarrow> length (dp_frame d') \<le> length (dp_frame d) + 2 * length p + 4"
    and "frame_bounded (kMaxReassemblyBytes + M + 4) d" and "length (rp_payload pkt) \<le> M"
  shows "frame_bounded (kMaxReassemblyBytes + M + 4) (snd (push_with pay pkt d))"
  using assms(2,3) admit_frame [of "rp_header pkt" d] assms(1) [of "rp_payload pkt" "admit (rp_header pkt) d"]
  by (force simp: push_with_def finish_push_def frame_bounded_def resetFrame_def Let_def split: option.splits)

lemma push_all_bounded:
  assumes "\<And>p d. length (rp_payload p) \<le> M \<Longrightarrow> frame_bounded n d \<Longrightarrow> frame_bounded n (snd (push p d))"
  shows "list_all (\<lambda>p. length (rp_payload p) \<le> M) ps \<Longrightarrow> frame_bounded n d \<Longrightarrow> frame_bounded n (snd (push_all push ps d))"
proof (induction ps arbitrary: d)
  case (Cons p ps)
  show ?case using Cons.IH [of "snd (push p d)"] assms [of p d] Cons.prems by (simp add: case_prod_beta)
qed simp

section \<open>Samples\<close>

definition sample_nals :: "bytes list" where "sample_nals = [[0x67, 1, 2], [0x65, 9, 8, 7, 6, 5]]"

lemma nal_ok_no_zero: "n \<noteq> [] \<Longrightarrow> 0 \<notin> set n \<Longrightarrow> nal_ok n"
proof -
  assume n: "n \<noteq> []" "0 \<notin> set n"
  then have "n ! pos \<noteq> 0" if "pos < length n" for pos using nth_mem [OF that] by auto
  then have "startCodeAt n pos = None" if "pos < length n" for pos using that by (simp add: startCodeAt_def)
  moreover have "last n \<noteq> 0" using n last_in_set by metis
  ultimately show "nal_ok n" using n by (simp add: nal_ok_def)
qed

lemma sample_nals_ok: "list_all nal_ok sample_nals" "list_all ok264 sample_nals" "list_ex key264 sample_nals"
  by (simp_all add: sample_nals_def nal_ok_no_zero ok264_def key264_def h264Type_def h264KeyNal_def)

definition sample_nals265 :: "bytes list" where "sample_nals265 = [[0x26, 1, 2, 3, 4, 5, 6]]"

lemma sample_nals265_ok: "list_all nal_ok sample_nals265" "list_all ok265 sample_nals265" "list_ex key265 sample_nals265"
proof -
  have "drop_bit 1 (0x26 :: 8 word) = 0x13" by (simp add: drop_bit_eq_div word_unat_eq_iff unat_div)
  then show "list_all nal_ok sample_nals265" "list_all ok265 sample_nals265" "list_ex key265 sample_nals265"
    by (simp_all add: sample_nals265_def nal_ok_no_zero ok265_def key265_def h265Type_def h265KeyNal_def)
qed

section \<open>Properties\<close>

text \<open>
  C28. Reassembly undoes packetizing for H.264: an access unit of well-formed NAL units is
  cut into packets that, pushed in order into a depacketizer in any state that is not in
  the middle of this very frame, give nothing before the last packet and then exactly the
  access unit, with the key frame flag of its units; the depacketizer is ready for the next.
\<close>

theorem h264_frame_arrives:
  assumes "nals \<noteq> []" and "list_all nal_ok nals" and "list_all ok264 nals" and "3 \<le> mx" and "fresh_for sq ts d"
    and "length (annexb nals) + 2 \<le> kMaxReassemblyBytes"
    and "packetizeAnnexB264 (annexb nals) pt ssrc ts sq mx = (pkts, sq')"
  shows "push_all pushPacket264 pkts d =
    (replicate (length pkts - 1) NeedMore @ [FrameReady (annexb nals) (list_ex key264 nals)],
     new_depacketizer\<lparr>dp_expectedSequence := sq', dp_haveExpectedSequence := True\<rparr>)"
  using h264.frame_arrives [OF _ assms(1,3,5), of mx pt ssrc pkts sq'] assms(4,6,7)
  by (simp add: packetizeAnnexB264_def splitAnnexB_annexb [OF assms(2)])

theorem h264_frame_arrives_witness:
  "\<exists>n d. push_all pushPacket264 (fst (packetizeAnnexB264 (annexb sample_nals) 96 5 1000 65535 4)) new_depacketizer =
     (replicate n NeedMore @ [FrameReady (annexb sample_nals) True], d)"
proof -
  obtain pkts sq' where p: "packetizeAnnexB264 (annexb sample_nals) 96 5 1000 65535 4 = (pkts, sq')" by fastforce
  have "fresh_for 65535 1000 new_depacketizer" by (simp add: fresh_for_def new_depacketizer_def)
  from h264_frame_arrives [OF _ sample_nals_ok(1,2) _ this _ p] sample_nals_ok(3) show ?thesis
    by (simp add: p) (simp add: sample_nals_def kMaxReassemblyBytes_def)
qed

text \<open>
  The same for H.265, whose units have two header bytes.
\<close>

theorem h265_frame_arrives:
  assumes "nals \<noteq> []" and "list_all nal_ok nals" and "list_all ok265 nals" and "4 \<le> mx" and "fresh_for sq ts d"
    and "length (annexb nals) + 3 \<le> kMaxReassemblyBytes"
    and "packetizeAnnexB265 (annexb nals) pt ssrc ts sq mx = (pkts, sq')"
  shows "push_all pushPacket265 pkts d =
    (replicate (length pkts - 1) NeedMore @ [FrameReady (annexb nals) (list_ex key265 nals)],
     new_depacketizer\<lparr>dp_expectedSequence := sq', dp_haveExpectedSequence := True\<rparr>)"
  using h265.frame_arrives [OF _ assms(1,3,5), of mx pt ssrc pkts sq'] assms(4,6,7)
  by (simp add: packetizeAnnexB265_def splitAnnexB_annexb [OF assms(2)])

theorem h265_frame_arrives_witness:
  "\<exists>n d. push_all pushPacket265 (fst (packetizeAnnexB265 (annexb sample_nals265) 96 5 1000 7 4)) new_depacketizer =
     (replicate n NeedMore @ [FrameReady (annexb sample_nals265) True], d)"
proof -
  obtain pkts sq' where p: "packetizeAnnexB265 (annexb sample_nals265) 96 5 1000 7 4 = (pkts, sq')" by fastforce
  have "fresh_for 7 1000 new_depacketizer" by (simp add: fresh_for_def new_depacketizer_def)
  from h265_frame_arrives [OF _ sample_nals265_ok(1,2) _ this _ p] sample_nals265_ok(3) show ?thesis
    by (simp add: p) (simp add: sample_nals265_def kMaxReassemblyBytes_def)
qed

text \<open>
  The wire format of a packet round-trips for every header without padding and
  extension, with a 7-bit payload type and at most 15 contributing sources, and whatever
  the bytes, a decoded payload is a part of the datagram behind the fixed header.
\<close>

theorem rtp_packet_round_trip:
  assumes "unextended (rp_header p)" and "\<not> rh_padding (rp_header p)"
  shows "rtp_decode (rtp_encode p) = Some p \<and> (\<forall>bs q. rtp_decode bs = Some q \<longrightarrow> inside bs (rp_payload q))"
  using rtp_decode_encode [OF assms(1)] assms(2) decode_inside by auto

theorem rtp_packet_round_trip_witness:
  "rtp_decode (rtp_encode \<lparr>rp_header = new_rtp_header\<lparr>rh_csrc := [1, 2]\<rparr>, rp_payload = [7]\<rparr>) =
     Some \<lparr>rp_header = new_rtp_header\<lparr>rh_csrc := [1, 2]\<rparr>, rp_payload = [7]\<rparr>"
  by (rule rtp_packet_round_trip [THEN conjunct1]) (simp_all add: unextended_def new_rtp_header_def)



text \<open>
  A packet whose padding bit is set, as a decoded one can be, does not survive
  re-encoding: encode sets the bit but writes no padding, so the reader takes the last
  payload byte as a count and cuts that many payload bytes off, or rejects the packet.
\<close>

theorem reencoded_padding_is_lost:
  assumes "unextended (rp_header p)" and "rh_padding (rp_header p)" and "rp_payload p \<noteq> []"
  shows "rtp_decode (rtp_encode p) =
    (let k = unat (last (rp_payload p)) in
     if k = 0 \<or> k > length (rp_payload p) then None
     else Some (p\<lparr>rp_payload := take (length (rp_payload p) - k) (rp_payload p)\<rparr>))"
  using rtp_decode_encode [OF assms(1)] assms(2,3) by simp

theorem reencoded_padding_is_lost_witness:
  "rtp_decode (rtp_encode \<lparr>rp_header = new_rtp_header\<lparr>rh_padding := True\<rparr>, rp_payload = [5, 6, 2]\<rparr>) =
     Some \<lparr>rp_header = new_rtp_header\<lparr>rh_padding := True\<rparr>, rp_payload = [5]\<rparr>"
  using reencoded_padding_is_lost [of "\<lparr>rp_header = new_rtp_header\<lparr>rh_padding := True\<rparr>, rp_payload = [5, 6, 2]\<rparr>"]
  by (simp add: unextended_def new_rtp_header_def)

lemma fu_loop_marker:
  "fu_loop (\<lambda>mr s pl. makeRtpPacket pt ssrc ts s mr pl) pr t mf False f rest sq = (pkts, sq') \<Longrightarrow>
   list_all (\<lambda>p. \<not> rh_marker (rp_header p)) pkts"
proof (induction "length rest" arbitrary: rest sq f pkts sq' rule: less_induct)
  case less
  show ?case
  proof (cases "rest = [] \<or> mf = 0")
    case True
    then show ?thesis using less.prems by (auto simp: fu_loop.simps)
  next
    case False
    then have ne: "rest \<noteq> []" "0 < mf" by auto
    obtain ps sq2 where r: "fu_loop (\<lambda>mr s pl. makeRtpPacket pt ssrc ts s mr pl) pr t mf False False (drop mf rest) (sq + 1) = (ps, sq2)"
      by fastforce
    have "list_all (\<lambda>p. \<not> rh_marker (rp_header p)) ps" using ne by (intro less.hyps [OF _ r]) simp
    then show ?thesis using less.prems r unfolding fu_loop_step [OF ne] by (auto simp: makeRtpPacket_def)
  qed
qed

lemma packetize265_no_marker:
  "length u < 2 \<Longrightarrow> packetize265 (\<lambda>mr s pl. makeRtpPacket pt ssrc ts s mr pl) mx (nals @ [u]) sq = (pkts, sq') \<Longrightarrow>
   list_all (\<lambda>p. \<not> rh_marker (rp_header p)) pkts"
proof (induction nals arbitrary: sq pkts sq')
  case (Cons nal nals)
  let ?mk = "\<lambda>mr s pl. makeRtpPacket pt ssrc ts s mr pl"
  obtain ps sq1 where ps: "(if length nal < 2 then ([], sq)
      else if length nal \<le> mx then (let (p, s) = ?mk False sq nal in ([p], s))
      else fu_loop ?mk [(hd nal AND 0x81) OR 98, nal ! 1] (drop_bit 1 (hd nal) AND 0x3F) (mx - 3) False True (drop 2 nal) sq) = (ps, sq1)"
    by fastforce
  obtain qs sq2 where qs: "packetize265 ?mk mx (nals @ [u]) sq1 = (qs, sq2)" by fastforce
  have f: "(nals @ [u] = []) = False" by simp
  have "pkts = ps @ qs" using Cons.prems(2) unfolding append_Cons packetize265.simps f Let_def ps [unfolded Let_def] prod.case qs by simp
  moreover have "list_all (\<lambda>p. \<not> rh_marker (rp_header p)) ps"
    using ps fu_loop_marker by (auto simp: makeRtpPacket_def split: if_splits)
  ultimately show ?case using Cons.IH [OF Cons.prems(1) qs] by simp
qed (simp add: packetize265.simps)

lemma xorshift_injective_steps:
  "x XOR push_bit 13 x = 0 \<Longrightarrow> x = (0 :: xuint32)" "x XOR drop_bit 17 x = 0 \<Longrightarrow> x = (0 :: xuint32)"
  "x XOR push_bit 5 x = 0 \<Longrightarrow> x = (0 :: xuint32)"
proof -
  have z: "x = push_bit k x \<Longrightarrow> 0 < k \<Longrightarrow> x = 0" for k and x :: xuint32
  proof -
    assume x: "x = push_bit k x" "0 < k"
    have "x = push_bit (k * n) x" for n
    proof (induction n)
      case (Suc n)
      have "push_bit (k * Suc n) x = push_bit k (push_bit (k * n) x)" by (simp add: add.commute)
      then show ?case using Suc x(1) by simp
    qed simp
    from this [of 32] have "x = push_bit (k * 32) x" .
    moreover have "push_bit (k * 32) x = 0" using x(2) by (intro bit_word_eqI) (auto simp: bit_simps)
    ultimately show "x = 0" by simp
  qed
  have eq: "a XOR b = 0 \<Longrightarrow> a = b" for a b :: xuint32 by (metis xor.assoc xor.right_neutral xor_self_eq)
  show "x XOR push_bit 13 x = 0 \<Longrightarrow> x = (0 :: xuint32)" "x XOR push_bit 5 x = 0 \<Longrightarrow> x = (0 :: xuint32)"
    using z [OF eq] by (metis zero_less_numeral)+
  show "x XOR drop_bit 17 x = 0 \<Longrightarrow> x = (0 :: xuint32)"
  proof -
    assume "x XOR drop_bit 17 x = 0"
    from eq [OF this] have x: "x = drop_bit 17 x" .
    then have "x = drop_bit 17 (drop_bit 17 x)" by simp
    moreover have "drop_bit 17 (drop_bit 17 x) = (0 :: xuint32)" by (intro bit_word_eqI) (auto simp: bit_simps)
    ultimately show "x = 0" by simp
  qed
qed

lemma xorshift_nonzero: "s \<noteq> 0 \<Longrightarrow> xorshift32 s \<noteq> 0"
  unfolding xorshift32_def Let_def using xorshift_injective_steps by metis

lemma random_nonzero: "iRtpRandom32 time address state \<noteq> 0"
  by (simp add: iRtpRandom32_def Let_def xorshift_nonzero)

text \<open>
  An H.265 access unit that ends in a unit of one byte is never delivered: the
  packetizer skips the unit, no packet carries the marker, and the reassembly of the
  packets, whatever it did before, never reports a frame.
\<close>

theorem short_last_unit_is_never_ready:
  assumes "list_all nal_ok nals" and "x \<noteq> 0" and "packetizeAnnexB265 (annexb (nals @ [[x]])) pt ssrc ts sq mx = (pkts, sq')"
  shows "\<forall>F key. FrameReady F key \<notin> set (fst (push_all pushPacket265 pkts d))"
proof -
  have "list_all nal_ok (nals @ [[x]])" using assms(1,2) by (simp add: nal_ok_no_zero)
  then have m: "list_all (\<lambda>p. \<not> rh_marker (rp_header p)) pkts"
    using assms(3) packetize265_no_marker [of "[x]"] by (auto simp: packetizeAnnexB265_def splitAnnexB_annexb split: if_splits)
  have "fst (pushPacket265 p d) \<noteq> FrameReady F key" if "\<not> rh_marker (rp_header p)" for p d F key
    using that by (auto simp: pushPacket265_def push_with_def finish_push_def Let_def split: option.splits)
  with m show ?thesis
  proof (induction pkts arbitrary: d)
    case (Cons p ps)
    from Cons.IH [of "snd (pushPacket265 p d)"] Cons.prems show ?case by (auto simp: case_prod_beta) metis
  qed simp
qed

theorem short_last_unit_is_never_ready_witness:
  "FrameReady [0, 0, 0, 1, 38, 1] True \<notin> set (fst (push_all pushPacket265 (fst (packetizeAnnexB265 (annexb ([[38, 1]] @ [[5]])) 96 1 0 0 100)) new_depacketizer))"
proof -
  obtain pkts sq' where p: "packetizeAnnexB265 (annexb ([[38, 1]] @ [[5]])) 96 1 0 0 100 = (pkts, sq')" by fastforce
  have "list_all nal_ok [[38, 1]]" by (simp add: nal_ok_no_zero)
  from short_last_unit_is_never_ready [OF this _ p, of new_depacketizer] show ?thesis unfolding p by simp
qed

end
