(* ===== verification/Mem_Chunk.thy ===== *)
theory Mem_Chunk imports IX_Prelude begin

text \<open>
  Chunks and the aligner: the views of memory blocks that iByteArray's data pointer
  gives (include/core/utils/iarraydatapointer.h) and iMCAlign (src/core/io/imemchunk.cpp).
  A chunk is a view: the block it points into (None for the null d pointer), the
  offset of its first byte and the bytes it shows, whose number is the code's size.
  Two views of one block that meet show adjacent memory, so extending the first over
  the second appends the second's bytes.
\<close>

record chunk =
  ck_block :: "nat option"
  ck_begin :: int
  ck_bytes :: bytes

definition null_chunk :: chunk where
  "null_chunk = \<lparr>ck_block = None, ck_begin = 0, ck_bytes = []\<rparr>"

definition ck_length :: "chunk \<Rightarrow> nat" where
  "ck_length c = length (ck_bytes c)"

text \<open>\<open>size = n\<close> and \<open>size -= d\<close> alone: the view keeps its first bytes.\<close>

definition ck_truncate :: "nat \<Rightarrow> chunk \<Rightarrow> chunk" where
  "ck_truncate n c = c\<lparr>ck_bytes := take n (ck_bytes c)\<rparr>"

text \<open>\<open>setBegin(begin() + d); size -= d\<close>: the view loses its first d bytes.\<close>

definition ck_advance :: "nat \<Rightarrow> chunk \<Rightarrow> chunk" where
  "ck_advance d c = c\<lparr>ck_begin := ck_begin c + int d, ck_bytes := drop d (ck_bytes c)\<rparr>"

definition ck_adjacent :: "chunk \<Rightarrow> chunk \<Rightarrow> bool" where
  "ck_adjacent a b \<longleftrightarrow> ck_block a = ck_block b \<and> ck_begin a + int (ck_length a) = ck_begin b"

definition ck_extend :: "chunk \<Rightarrow> chunk \<Rightarrow> chunk" where
  "ck_extend a b = a\<lparr>ck_bytes := ck_bytes a @ ck_bytes b\<rparr>"

section \<open>iMCAlign\<close>

text \<open>
  A member whose d pointer is null is None. \<open>append_blk\<close> is the block the append of
  iByteArray leaves the leftover in (the same one or a new allocation).
\<close>

record mcalign =
  mc_base :: nat
  mc_leftover :: "chunk option"
  mc_current :: "chunk option"

definition new_mcalign :: "nat \<Rightarrow> mcalign" where
  "new_mcalign b = \<lparr>mc_base = b, mc_leftover = None, mc_current = None\<rparr>"

definition mc_append :: "nat \<Rightarrow> chunk \<Rightarrow> bytes \<Rightarrow> chunk" where
  "mc_append append_blk c bs = c\<lparr>ck_block := Some append_blk, ck_bytes := ck_bytes c @ bs\<rparr>"

text \<open>
  In the copying branch the code moves the begin and reduces the size of m_current,
  whose d pointer is null there, and never stores the rest of c: m_current stays null.
\<close>

definition mc_push :: "nat \<Rightarrow> chunk \<Rightarrow> mcalign \<Rightarrow> mcalign" where
  "mc_push append_blk c m =
     (case mc_leftover m of
        Some lo \<Rightarrow>
          if ck_adjacent lo c then
            (let lo' = ck_extend lo c in
             if ck_length lo' \<ge> mc_base m
             then m\<lparr>mc_current := Some lo', mc_leftover := None\<rparr>
             else m\<lparr>mc_leftover := Some lo'\<rparr>)
          else
            (let l = min (mc_base m - ck_length lo) (ck_length c)
             in m\<lparr>mc_leftover := Some (mc_append append_blk lo (take l (ck_bytes c)))\<rparr>)
      | None \<Rightarrow>
          if ck_length c \<ge> mc_base m then m\<lparr>mc_current := Some c\<rparr>
          else m\<lparr>mc_leftover := Some c\<rparr>)"

definition mc_pop :: "mcalign \<Rightarrow> chunk option \<times> mcalign" where
  "mc_pop m =
     (case mc_leftover m of
        Some lo \<Rightarrow>
          if ck_length lo < mc_base m then (None, m)
          else (case mc_current m of
              Some cu \<Rightarrow>
                if ck_length cu < mc_base m
                then (Some lo, m\<lparr>mc_leftover := Some cu, mc_current := None\<rparr>)
                else (Some lo, m\<lparr>mc_leftover := None\<rparr>)
            | None \<Rightarrow> (Some lo, m\<lparr>mc_leftover := None\<rparr>))
      | None \<Rightarrow>
          (case mc_current m of
             Some cu \<Rightarrow>
               (let l = ck_length cu div mc_base m * mc_base m;
                    rest = ck_advance l cu
                in (Some (ck_truncate l cu),
                    m\<lparr>mc_current := None,
                      mc_leftover := (if ck_length rest = 0 then None else Some rest)\<rparr>))
           | None \<Rightarrow> (None, m)))"

definition mc_csize :: "nat \<Rightarrow> mcalign \<Rightarrow> nat" where
  "mc_csize l m =
     (let l' = (case mc_leftover m of Some lo \<Rightarrow> l + ck_length lo | None \<Rightarrow> l)
      in l' div mc_base m * mc_base m)"

text \<open>
  The loops that pop until nothing comes. A pop that returns a chunk leaves less
  behind, so twice as many rounds as members suffice; \<open>mc_pops\<close> collects the chunks.
\<close>

fun mc_pops :: "nat \<Rightarrow> mcalign \<Rightarrow> (chunk list \<times> mcalign) option" where
  "mc_pops 0 m = None"
| "mc_pops (Suc fuel) m =
     (case mc_pop m of
        (None, m') \<Rightarrow> Some ([], m')
      | (Some c, m') \<Rightarrow> map_option (map_prod ((#) c) id) (mc_pops fuel m'))"

definition mc_flush :: "mcalign \<Rightarrow> mcalign option" where
  "mc_flush m = map_option snd (mc_pops 4 m)"

section \<open>What the aligner keeps\<close>

lemmas chunk_defs = ck_length_def ck_truncate_def ck_advance_def ck_extend_def mc_append_def

definition mc_idle :: "mcalign \<Rightarrow> bool" where
  "mc_idle m \<longleftrightarrow> 0 < mc_base m \<and> mc_current m = None \<and>
     (case mc_leftover m of None \<Rightarrow> True | Some lo \<Rightarrow> 0 < ck_length lo \<and> ck_length lo < mc_base m)"

definition opt_bytes :: "chunk option \<Rightarrow> bytes" where
  "opt_bytes x = (case x of None \<Rightarrow> [] | Some c \<Rightarrow> ck_bytes c)"

lemma opt_bytes_simps [simp]: "opt_bytes None = []" "opt_bytes (Some c) = ck_bytes c"
  by (simp_all add: opt_bytes_def)

lemma pops_idle: "mc_idle m \<Longrightarrow> mc_pops (Suc k) m = Some ([], m)"
  by (auto simp: mc_idle_def mc_pop_def split: option.splits)

text \<open>A full current chunk comes out in one piece, cut to a multiple of the base.\<close>

lemma pop_current:
  assumes "0 < mc_base m" and "mc_leftover m = None" and "mc_current m = Some cu" and "mc_base m \<le> ck_length cu"
  shows "\<exists>c m'. mc_pops (Suc (Suc k)) m = Some ([c], m') \<and> mc_idle m' \<and> mc_base m' = mc_base m \<and>
    ck_bytes c @ opt_bytes (mc_leftover m') = ck_bytes cu \<and> mc_base m dvd ck_length c \<and> 0 < ck_length c"
proof -
  let ?l = "ck_length cu div mc_base m * mc_base m"
  let ?rest = "ck_advance ?l cu"
  let ?m' = "m\<lparr>mc_current := None, mc_leftover := (if ck_length ?rest = 0 then None else Some ?rest)\<rparr>"
  have l: "?l \<le> ck_length cu" "0 < ?l" using assms(1,4) by (auto simp: div_greater_zero_iff)
  have r: "ck_length ?rest = ck_length cu mod mc_base m"
    by (simp add: chunk_defs minus_div_mult_eq_mod)
  then have idle: "mc_idle ?m'" using assms(1) by (simp add: mc_idle_def)
  have "mc_pop m = (Some (ck_truncate ?l cu), ?m')" using assms by (simp add: mc_pop_def Let_def)
  then have "mc_pops (Suc (Suc k)) m = Some ([ck_truncate ?l cu], ?m')"
    using pops_idle [OF idle, of k] by simp
  moreover have "ck_bytes (ck_truncate ?l cu) @ opt_bytes (mc_leftover ?m') = ck_bytes cu"
    by (auto simp: opt_bytes_def chunk_defs)
  moreover have "ck_length (ck_truncate ?l cu) = ?l" using l by (simp add: chunk_defs)
  ultimately show ?thesis using idle l(2) by (intro exI [of _ "ck_truncate ?l cu"] exI [of _ ?m']) simp
qed

text \<open>A leftover completed by copying comes out as one block of the base's size.\<close>

lemma pop_leftover:
  assumes "0 < mc_base m" and "mc_current m = None" and "mc_leftover m = Some lo" and "ck_length lo = mc_base m"
  shows "mc_pops (Suc (Suc k)) m = Some ([lo], m\<lparr>mc_leftover := None\<rparr>)"
proof -
  have "mc_idle (m\<lparr>mc_leftover := None\<rparr>)" using assms by (simp add: mc_idle_def)
  from pops_idle [OF this, of k] assms show ?thesis by (simp add: mc_pop_def)
qed

definition keeps_all :: "chunk \<Rightarrow> mcalign \<Rightarrow> bool" where
  "keeps_all c m \<longleftrightarrow>
     (case mc_leftover m of None \<Rightarrow> True
      | Some lo \<Rightarrow> ck_adjacent lo c \<or> ck_length lo + ck_length c \<le> mc_base m)"

lemma mc_push_idle_cases:
  assumes "mc_idle m" and "0 < ck_length c"
  shows "\<exists>cs m'. mc_pops 4 (mc_push b c m) = Some (cs, m') \<and> mc_idle m' \<and> mc_base m' = mc_base m \<and>
    (\<forall>d\<in>set cs. mc_base m dvd ck_length d \<and> 0 < ck_length d) \<and>
    concat (map ck_bytes cs) @ opt_bytes (mc_leftover m') =
      (if keeps_all c m then opt_bytes (mc_leftover m) @ ck_bytes c
       else take (mc_base m) (opt_bytes (mc_leftover m) @ ck_bytes c))"
proof -
  have four: "(4::nat) = Suc (Suc (Suc (Suc 0)))" by simp
  have base: "0 < mc_base m" "mc_current m = None" using assms(1) by (simp_all add: mc_idle_def)
  show ?thesis
  proof (cases "mc_leftover m")
    case None
    show ?thesis
    proof (cases "mc_base m \<le> ck_length c")
      case True
      have "mc_push b c m = m\<lparr>mc_current := Some c\<rparr>" using None True by (simp add: mc_push_def)
      then show ?thesis using pop_current [of "m\<lparr>mc_current := Some c\<rparr>" c "Suc (Suc 0)"] base None True
        by (auto simp: four keeps_all_def simp del: mc_pops.simps)
    next
      case False
      then have "mc_idle (m\<lparr>mc_leftover := Some c\<rparr>)" using base assms(2) by (simp add: mc_idle_def)
      from pops_idle [OF this] show ?thesis using None False
        by (auto simp: four keeps_all_def mc_push_def mc_idle_def base assms(2) simp del: mc_pops.simps)
    qed
  next
    case (Some lo)
    have lo: "0 < ck_length lo" "ck_length lo < mc_base m" using assms(1) Some by (simp_all add: mc_idle_def)
    show ?thesis
    proof (cases "ck_adjacent lo c")
      case True
      let ?lo = "ck_extend lo c"
      show ?thesis
      proof (cases "mc_base m \<le> ck_length ?lo")
        case big: True
        have "mc_push b c m = m\<lparr>mc_current := Some ?lo, mc_leftover := None\<rparr>" using Some True big by (simp add: mc_push_def)
        then show ?thesis
          using pop_current [of "m\<lparr>mc_current := Some ?lo, mc_leftover := None\<rparr>" ?lo "Suc (Suc 0)"] base Some True big
          by (auto simp: four keeps_all_def ck_extend_def simp del: mc_pops.simps)
      next
        case False
        then have i: "mc_idle (m\<lparr>mc_leftover := Some ?lo\<rparr>)" using base lo by (simp add: mc_idle_def ck_extend_def ck_length_def)
        have "mc_push b c m = m\<lparr>mc_leftover := Some ?lo\<rparr>" using Some True False by (simp add: mc_push_def)
        then show ?thesis using pops_idle [OF i, of "Suc (Suc (Suc 0))"] i Some True
          by (auto simp: four keeps_all_def ck_extend_def simp del: mc_pops.simps)
      qed
    next
      case False
      let ?l = "min (mc_base m - ck_length lo) (ck_length c)"
      let ?lo = "mc_append b lo (take ?l (ck_bytes c))"
      have p: "mc_push b c m = m\<lparr>mc_leftover := Some ?lo\<rparr>" using Some False by (simp add: mc_push_def)
      have len: "ck_length ?lo = min (mc_base m) (ck_length lo + ck_length c)" using lo by (simp add: chunk_defs)
      have bytes: "ck_bytes ?lo = (if keeps_all c m then ck_bytes lo @ ck_bytes c else take (mc_base m) (ck_bytes lo @ ck_bytes c))"
        using Some False lo by (auto simp: keeps_all_def chunk_defs min_def)
      show ?thesis
      proof (cases "ck_length lo + ck_length c < mc_base m")
        case small: True
        then have i: "mc_idle (m\<lparr>mc_leftover := Some ?lo\<rparr>)" using base lo len by (simp add: mc_idle_def)
        then show ?thesis using pops_idle [OF i, of "Suc (Suc (Suc 0))"] p bytes Some
          by (auto simp: four simp del: mc_pops.simps)
      next
        case full: False
        then have l: "ck_length ?lo = mc_base m" using len by simp
        have "mc_idle (m\<lparr>mc_leftover := None\<rparr>)" using base by (simp add: mc_idle_def)
        then show ?thesis
          using pop_leftover [of "m\<lparr>mc_leftover := Some ?lo\<rparr>" ?lo "Suc (Suc 0)"] p bytes Some l base
          by (auto simp: four simp del: mc_pops.simps)
      qed
    qed
  qed
qed

end
