(* ===== verification/Mem_Block_Queue.thy ===== *)
theory Mem_Block_Queue imports Mem_Chunk begin

text \<open>
  iMemBlockQueue (src/core/io/imemblockq.cpp): a queue of chunks at 64-bit positions
  with a read and a write index. The doubly linked list is the list of its items in
  order; an item carries an identity, and the cached pointers m_currentRead and
  m_currentWrite are identities. Positions are integers (they count bytes of one
  stream); sizes are naturals below 2^64 whose wrap-around is written out, and the
  block counter keeps its 8 bits.
\<close>

section \<open>State\<close>

record mbq_item =
  it_id :: nat
  it_index :: int
  it_chunk :: chunk

definition it_end :: "mbq_item \<Rightarrow> int" where
  "it_end q = it_index q + int (ck_length (it_chunk q))"

record mbq =
  m_blocks :: "mbq_item list"
  m_nextId :: nat
  m_currentRead :: "nat option"
  m_currentWrite :: "nat option"
  m_nBlocks :: "8 word"
  m_maxLength :: nat
  m_tLength :: nat
  m_base :: nat
  m_preBuf :: nat
  m_minReq :: nat
  m_maxRewind :: nat
  m_readIndex :: int
  m_writeIndex :: int
  m_inPreBuf :: bool
  m_silence :: "chunk option"
  m_mcalign :: mcalign
  m_missing :: int
  m_requested :: int

text \<open>Unsigned 64-bit arithmetic of size_t.\<close>

definition SIZE_MOD :: nat where "SIZE_MOD = 2 ^ 64"

definition sz_add :: "nat \<Rightarrow> nat \<Rightarrow> nat" where "sz_add a b = (a + b) mod SIZE_MOD"
definition sz_sub :: "nat \<Rightarrow> nat \<Rightarrow> nat" where "sz_sub a b = (a + (SIZE_MOD - b mod SIZE_MOD)) mod SIZE_MOD"

definition sz_up :: "nat \<Rightarrow> nat \<Rightarrow> nat" where
  "sz_up x b = sz_sub (sz_add x b) 1 div b * b"

definition sz_down :: "nat \<Rightarrow> nat \<Rightarrow> nat" where
  "sz_down x b = x div b * b"

definition mbq_length :: "mbq \<Rightarrow> nat" where
  "mbq_length s =
     (if m_writeIndex s \<le> m_readIndex s then 0 else nat (m_writeIndex s - m_readIndex s))"

section \<open>Metrics\<close>

definition setPreBuf :: "nat \<Rightarrow> mbq \<Rightarrow> mbq" where
  "setPreBuf prebuf s =
     (let limit = sz_sub (sz_add (m_tLength s) (m_base s)) (m_minReq s);
          prebuf1 = (if prebuf = SIZE_MOD - 1 then limit else prebuf);
          p1 = sz_up prebuf1 (m_base s);
          p2 = (if prebuf1 > 0 \<and> p1 < m_base s then m_base s else p1);
          p3 = (if p2 > limit then limit else p2);
          s1 = s\<lparr>m_preBuf := p3\<rparr>
      in if p3 \<le> 0 \<or> mbq_length s1 \<ge> p3 then s1\<lparr>m_inPreBuf := False\<rparr> else s1)"

definition setMinReq :: "nat \<Rightarrow> mbq \<Rightarrow> mbq" where
  "setMinReq minreq s =
     (let r1 = sz_down minreq (m_base s);
          r2 = (if r1 > m_tLength s then m_tLength s else r1);
          r3 = (if r2 < m_base s then m_base s else r2);
          s1 = s\<lparr>m_minReq := r3\<rparr>;
          limit = sz_sub (sz_add (m_tLength s1) (m_base s1)) (m_minReq s1)
      in if m_preBuf s1 > limit then setPreBuf limit s1 else s1)"

definition setTLength :: "nat \<Rightarrow> mbq \<Rightarrow> mbq" where
  "setTLength tlength s =
     (let t0 = (if tlength \<le> 0 \<or> tlength = SIZE_MOD - 1 then m_maxLength s else tlength);
          old_tlength = m_tLength s;
          t1 = sz_up t0 (m_base s);
          t2 = (if t1 > m_maxLength s then m_maxLength s else t1);
          s1 = s\<lparr>m_tLength := t2\<rparr>;
          s2 = (if m_minReq s1 > m_tLength s1 then setMinReq (m_tLength s1) s1 else s1);
          limit = sz_sub (sz_add (m_tLength s2) (m_base s2)) (m_minReq s2);
          s3 = (if m_preBuf s2 > limit then setPreBuf limit s2 else s2)
      in s3\<lparr>m_missing := m_missing s3 + int (m_tLength s3) - int old_tlength\<rparr>)"

definition setMaxLength :: "nat \<Rightarrow> mbq \<Rightarrow> mbq" where
  "setMaxLength maxlength s =
     (let l1 = sz_up maxlength (m_base s);
          l2 = (if l1 < m_base s then m_base s else l1);
          s1 = s\<lparr>m_maxLength := l2\<rparr>
      in if m_tLength s1 > m_maxLength s1 then setTLength (m_maxLength s1) s1 else s1)"

definition setMaxRewind :: "nat \<Rightarrow> mbq \<Rightarrow> mbq" where
  "setMaxRewind maxrewind s = s\<lparr>m_maxRewind := sz_down maxrewind (m_base s)\<rparr>"

record buffer_attr =
  ba_maxlength :: xuint32
  ba_tlength :: xuint32
  ba_prebuf :: xuint32
  ba_minreq :: xuint32

definition applyAttr :: "buffer_attr \<Rightarrow> mbq \<Rightarrow> mbq" where
  "applyAttr a s =
     setPreBuf (unat (ba_prebuf a)) (setMinReq (unat (ba_minreq a))
       (setTLength (unat (ba_tlength a)) (setMaxLength (unat (ba_maxlength a)) s)))"

definition getAttr :: "mbq \<Rightarrow> buffer_attr" where
  "getAttr s = \<lparr>ba_maxlength = of_nat (m_maxLength s), ba_tlength = of_nat (m_tLength s),
     ba_prebuf = of_nat (m_preBuf s), ba_minreq = of_nat (m_minReq s)\<rparr>"

definition setSilence :: "chunk option \<Rightarrow> mbq \<Rightarrow> mbq" where
  "setSilence silence s = s\<lparr>m_silence := silence\<rparr>"

text \<open>The constructor: the members from the arguments, then the setters in order.\<close>

definition new_mbq :: "int \<Rightarrow> nat \<Rightarrow> nat \<Rightarrow> nat \<Rightarrow> nat \<Rightarrow> nat \<Rightarrow> nat \<Rightarrow> chunk option \<Rightarrow> mbq" where
  "new_mbq idx maxlength tlength base prebuf minreq maxrewind silence =
     (let s0 = \<lparr>m_blocks = [], m_nextId = 0, m_currentRead = None, m_currentWrite = None, m_nBlocks = 0,
                m_maxLength = maxlength, m_tLength = tlength, m_base = base, m_preBuf = prebuf,
                m_minReq = minreq, m_maxRewind = maxrewind, m_readIndex = idx, m_writeIndex = idx,
                m_inPreBuf = True, m_silence = None, m_mcalign = new_mcalign base,
                m_missing = 0, m_requested = 0\<rparr>;
          s1 = setMaxRewind maxrewind (setPreBuf prebuf (setMinReq minreq
                 (setTLength tlength (setMaxLength maxlength s0))))
      in (case silence of Some c \<Rightarrow> s1\<lparr>m_silence := Some c\<rparr> | None \<Rightarrow> s1))"

section \<open>The list and its cached pointers\<close>

text \<open>The items left of, at and right of the one with identity i.\<close>

definition split_item :: "nat \<Rightarrow> mbq_item list \<Rightarrow> mbq_item list \<times> mbq_item list" where
  "split_item i xs = (takeWhile (\<lambda>q. it_id q \<noteq> i) xs, dropWhile (\<lambda>q. it_id q \<noteq> i) xs)"

definition head_id :: "mbq_item list \<Rightarrow> nat option" where
  "head_id xs = (case xs of [] \<Rightarrow> None | q # _ \<Rightarrow> Some (it_id q))"

text \<open>
  \<open>scan_left\<close> and \<open>scan_right\<close> move a cursor, given as the reversed items before it and
  the items from it on, while the test holds.
\<close>

fun read_scan_left :: "int \<Rightarrow> mbq_item list \<Rightarrow> mbq_item list \<Rightarrow> mbq_item list" where
  "read_scan_left ri rl [] = []"
| "read_scan_left ri [] (q # r) = q # r"
| "read_scan_left ri (p # rl) (q # r) =
     (if it_index q > ri then read_scan_left ri rl (p # q # r) else q # r)"

definition read_scan_right :: "int \<Rightarrow> mbq_item list \<Rightarrow> mbq_item list" where
  "read_scan_right ri xs = dropWhile (\<lambda>q. it_end q \<le> ri) xs"

definition fixCurrentRead :: "mbq \<Rightarrow> mbq" where
  "fixCurrentRead s =
     (if m_blocks s = [] then s\<lparr>m_currentRead := None\<rparr>
      else
        let (l, r) = (case m_currentRead s of
                        None \<Rightarrow> ([], m_blocks s)
                      | Some i \<Rightarrow> split_item i (m_blocks s))
        in s\<lparr>m_currentRead := head_id (read_scan_right (m_readIndex s) (read_scan_left (m_readIndex s) (rev l) r))\<rparr>)"

fun write_scan_right :: "int \<Rightarrow> mbq_item list \<Rightarrow> mbq_item list \<Rightarrow> mbq_item list" where
  "write_scan_right wi rl [] = rl"
| "write_scan_right wi rl [q] = q # rl"
| "write_scan_right wi rl (q # n # r) =
     (if it_end q \<le> wi then write_scan_right wi (q # rl) (n # r) else q # rl)"

definition write_scan_left :: "int \<Rightarrow> mbq_item list \<Rightarrow> mbq_item list" where
  "write_scan_left wi rl = dropWhile (\<lambda>q. it_index q > wi) rl"

definition fixCurrentWrite :: "mbq \<Rightarrow> mbq" where
  "fixCurrentWrite s =
     (if m_blocks s = [] then s\<lparr>m_currentWrite := None\<rparr>
      else
        let (l, r) = (case m_currentWrite s of
                        None \<Rightarrow> (butlast (m_blocks s), [last (m_blocks s)])
                      | Some i \<Rightarrow> split_item i (m_blocks s))
        in s\<lparr>m_currentWrite := head_id (write_scan_left (m_writeIndex s) (write_scan_right (m_writeIndex s) (rev l) r))\<rparr>)"

text \<open>dropBlock: unlink q between l and r and move the cached pointers off it.\<close>

definition unlink :: "mbq_item list \<Rightarrow> mbq_item \<Rightarrow> mbq_item list \<Rightarrow> mbq \<Rightarrow> mbq" where
  "unlink rl q r s =
     s\<lparr>m_blocks := rev rl @ r,
       m_currentWrite := (if m_currentWrite s = Some (it_id q) then head_id rl else m_currentWrite s),
       m_currentRead := (if m_currentRead s = Some (it_id q) then head_id r else m_currentRead s),
       m_nBlocks := m_nBlocks s - 1\<rparr>"

text \<open>Dropping blocks at the head while a test holds (dropBacklog, makeSilence).\<close>

fun drop_head :: "(mbq_item \<Rightarrow> bool) \<Rightarrow> mbq_item list \<Rightarrow> mbq \<Rightarrow> mbq" where
  "drop_head p [] s = s"
| "drop_head p (q # r) s = (if p q then drop_head p r (unlink [] q r s) else s)"

definition dropBacklog :: "mbq \<Rightarrow> mbq" where
  "dropBacklog s =
     (let boundary = m_readIndex s - int (m_maxRewind s)
      in drop_head (\<lambda>q. it_end q \<le> boundary) (m_blocks s) s)"

definition makeSilence :: "mbq \<Rightarrow> mbq" where
  "makeSilence s = drop_head (\<lambda>q. True) (m_blocks s) s"

section \<open>Accounting\<close>

definition writeIndexChanged :: "int \<Rightarrow> bool \<Rightarrow> mbq \<Rightarrow> int \<times> mbq" where
  "writeIndexChanged old account s =
     (let delta = m_writeIndex s - old
      in (delta, if account then s\<lparr>m_requested := m_requested s - delta\<rparr>
                 else s\<lparr>m_missing := m_missing s - delta\<rparr>))"

definition readIndexChanged :: "int \<Rightarrow> mbq \<Rightarrow> int \<times> mbq" where
  "readIndexChanged old s =
     (let delta = m_readIndex s - old in (delta, s\<lparr>m_missing := m_missing s + delta\<rparr>))"

definition preBufActive :: "mbq \<Rightarrow> bool" where
  "preBufActive s \<longleftrightarrow>
     (if m_inPreBuf s then mbq_length s < m_preBuf s
      else m_preBuf s > 0 \<and> m_readIndex s \<ge> m_writeIndex s)"

definition updatePreBuf :: "mbq \<Rightarrow> bool \<times> mbq" where
  "updatePreBuf s =
     (if m_inPreBuf s then
        (if mbq_length s < m_preBuf s then (True, s) else (False, s\<lparr>m_inPreBuf := False\<rparr>))
      else if m_preBuf s > 0 \<and> m_readIndex s \<ge> m_writeIndex s then (True, s\<lparr>m_inPreBuf := True\<rparr>)
      else (False, s))"

definition preBufDisable :: "mbq \<Rightarrow> mbq" where
  "preBufDisable s = s\<lparr>m_inPreBuf := False\<rparr>"

definition preBufForce :: "mbq \<Rightarrow> mbq" where
  "preBufForce s = (if m_preBuf s > 0 then s\<lparr>m_inPreBuf := True\<rparr> else s)"

definition isReadable :: "mbq \<Rightarrow> bool" where
  "isReadable s \<longleftrightarrow> (if preBufActive s then False else if mbq_length s = 0 then False else True)"

definition popMissing :: "mbq \<Rightarrow> nat \<times> mbq" where
  "popMissing s =
     (if m_missing s \<le> 0 then (0, s)
      else if nat (m_missing s) < m_minReq s \<and> \<not> preBufActive s then (0, s)
      else (nat (m_missing s), s\<lparr>m_requested := m_requested s + m_missing s, m_missing := 0\<rparr>))"

section \<open>Writing\<close>

text \<open>
  canPush: bytes that lie before the read index do not count against m_maxLength, nor
  does a write that stays below the end of the last block.
\<close>

definition blocks_end :: "mbq_item list \<Rightarrow> int \<Rightarrow> int" where
  "blocks_end xs e = (if xs = [] then e else it_end (last xs))"

definition canPush :: "nat \<Rightarrow> mbq \<Rightarrow> bool" where
  "canPush l s =
     (let d = m_readIndex s - m_writeIndex s in
      if d > 0 \<and> int l \<le> d then True
      else
        let l' = (if d > 0 then int l - d else int l);
            e = blocks_end (m_blocks s) (m_writeIndex s)
        in \<not> (m_writeIndex s + l' > e \<and> m_writeIndex s + l' - m_readIndex s > int (m_maxLength s)))"

text \<open>The item q that push starts from: right of the write cursor while the new data ends after its index.\<close>

fun push_scan_right :: "int \<Rightarrow> mbq_item list \<Rightarrow> mbq_item list \<Rightarrow> mbq_item list \<times> mbq_item list" where
  "push_scan_right e rl [] = (rl, [])"
| "push_scan_right e rl [q] = (q # rl, [])"
| "push_scan_right e rl (q # n # r) =
     (if e > it_index q then push_scan_right e (q # rl) (n # r) else (q # rl, n # r))"

definition push_start :: "int \<Rightarrow> mbq \<Rightarrow> mbq_item list \<times> mbq_item list" where
  "push_start e s =
     (case m_currentWrite s of
        Some i \<Rightarrow> (let (l, r) = split_item i (m_blocks s) in push_scan_right e (rev l) r)
      | None \<Rightarrow> (rev (m_blocks s), []))"

text \<open>
  The loop of push over q and the items before it (head of the first list), the items
  after q in the second: everything in [wi, e) is dropped, split or cut. In the split
  the new item p shares q's view and only its size shrinks, as in the code: it keeps
  the first bytes of q, not the last.
\<close>

fun overwrite :: "int \<Rightarrow> int \<Rightarrow> mbq_item list \<Rightarrow> mbq_item list \<Rightarrow> mbq \<Rightarrow>
    mbq_item list \<times> mbq_item list \<times> mbq" where
  "overwrite wi e [] r s = ([], r, s)"
| "overwrite wi e (q # rl) r s =
     (if wi \<ge> it_end q then (q # rl, r, s)
      else if e \<le> it_index q then overwrite wi e rl (q # r) s
      else if wi \<le> it_index q \<and> e \<ge> it_end q then overwrite wi e rl r (unlink rl q r s)
      else if wi \<ge> it_index q then
        let d = nat (e - it_index q);
            (r1, s1) =
              (if e < it_end q
               then (\<lparr>it_id = m_nextId s, it_index = it_index q + int d,
                      it_chunk = ck_truncate (ck_length (it_chunk q) - d) (it_chunk q)\<rparr> # r,
                     s\<lparr>m_nextId := m_nextId s + 1, m_nBlocks := m_nBlocks s + 1\<rparr>)
               else (r, s));
            q1 = q\<lparr>it_chunk := ck_truncate (nat (wi - it_index q)) (it_chunk q)\<rparr>
        in if ck_length (it_chunk q1) = 0 then (rl, r1, unlink rl q1 r1 s1)
           else (q1 # rl, r1, s1)
      else
        let d = nat (e - it_index q);
            q1 = q\<lparr>it_index := it_index q + int d, it_chunk := ck_advance d (it_chunk q)\<rparr>
        in overwrite wi e rl (q1 # r) s)"

definition place_chunk :: "chunk \<Rightarrow> mbq_item list \<Rightarrow> mbq_item list \<Rightarrow> mbq \<Rightarrow> mbq" where
  "place_chunk c rl r s =
     s\<lparr>m_blocks := rev rl @ \<lparr>it_id = m_nextId s, it_index = m_writeIndex s, it_chunk = c\<rparr> # r,
       m_nextId := m_nextId s + 1,
       m_writeIndex := m_writeIndex s + int (ck_length c),
       m_nBlocks := m_nBlocks s + 1\<rparr>"

definition merge_chunk :: "chunk \<Rightarrow> mbq_item \<Rightarrow> mbq_item list \<Rightarrow> mbq_item list \<Rightarrow> mbq \<Rightarrow> mbq" where
  "merge_chunk c q rl r s =
     s\<lparr>m_blocks := rev rl @ q\<lparr>it_chunk := ck_extend (it_chunk q) c\<rparr> # r,
       m_writeIndex := m_writeIndex s + int (ck_length c)\<rparr>"

definition mbq_push :: "chunk \<Rightarrow> mbq \<Rightarrow> int \<times> mbq" where
  "mbq_push c s =
     (if \<not> canPush (ck_length c) s then (-1, s)
      else
        let old = m_writeIndex s;
            s1 = fixCurrentWrite s;
            e = old + int (ck_length c);
            (rl0, r0) = push_start e s1;
            (rl, r, s2) = overwrite old e rl0 r0 s1;
            s3 = (case rl of
                    q # ps \<Rightarrow> if ck_adjacent (it_chunk q) c \<and> old = it_end q
                              then merge_chunk c q ps r s2 else place_chunk c rl r s2
                  | [] \<Rightarrow> place_chunk c rl r s2)
        in writeIndexChanged old True s3)"

section \<open>Reading\<close>

definition cur_item :: "mbq \<Rightarrow> mbq_item option" where
  "cur_item s =
     (case m_currentRead s of
        None \<Rightarrow> None
      | Some i \<Rightarrow> (case snd (split_item i (m_blocks s)) of [] \<Rightarrow> None | q # _ \<Rightarrow> Some q))"

definition silence_empty :: "mbq \<Rightarrow> bool" where
  "silence_empty s \<longleftrightarrow> (case m_silence s of None \<Rightarrow> True | Some c \<Rightarrow> ck_length c = 0)"

text \<open>peek fails (-1), returns a hole (null chunk with a size) or returns a view of data or silence.\<close>

datatype peek_result = PeekFail | PeekHole nat | PeekData chunk

definition peek_gap :: "nat \<Rightarrow> mbq \<Rightarrow> peek_result \<times> mbq" where
  "peek_gap n s =
     (case m_silence s of
        Some c \<Rightarrow> if ck_length c > 0
                  then (PeekData (if n > 0 \<and> n < ck_length c then ck_truncate n c else c), s)
                  else if n = 0 then (PeekFail, s) else (PeekHole n, s)
      | None \<Rightarrow> if n = 0 then (PeekFail, s) else (PeekHole n, s))"

definition mbq_peek :: "mbq \<Rightarrow> peek_result \<times> mbq" where
  "mbq_peek s0 =
     (let (active, s1) = updatePreBuf s0 in
      if active then (PeekFail, s1)
      else
        let s = fixCurrentRead s1; cur = cur_item s in
        case cur of
          Some q \<Rightarrow>
            if it_index q > m_readIndex s
            then peek_gap (nat (it_index q - m_readIndex s)) s
            else (PeekData (ck_advance (nat (m_readIndex s - it_index q)) (it_chunk q)), s)
        | None \<Rightarrow> peek_gap (if m_writeIndex s > m_readIndex s then nat (m_writeIndex s - m_readIndex s) else 0) s)"

text \<open>
  peekFixedSize: the first chunk, then silence over the gaps and the items' data until
  block_size bytes are there. The result None stands for the two cases outside the
  code's assertion (no silence configured): no chunk to append from, or a round that
  appends nothing and repeats for ever.
\<close>

function fixed_loop :: "nat \<Rightarrow> bytes \<Rightarrow> mbq_item list \<Rightarrow> int \<Rightarrow> bytes \<Rightarrow> bytes option" where
  "fixed_loop block_size silence items ri acc =
     (if length acc \<ge> block_size then Some acc
      else
        let room = block_size - length acc in
        (case items of
           q # rest \<Rightarrow>
             if it_index q > ri then
               let t = take room (take (nat (it_index q - ri)) silence)
               in if t = [] then None
                  else fixed_loop block_size silence items (ri + int (length t)) (acc @ t)
             else
               let t = take room (drop (nat (ri - it_index q)) (ck_bytes (it_chunk q)))
               in fixed_loop block_size silence rest (ri + int (length t)) (acc @ t)
         | [] \<Rightarrow>
             let t = take room silence
             in if t = [] then None
                else fixed_loop block_size silence [] (ri + int (length t)) (acc @ t)))"
  by pat_completeness auto
termination
  by (relation "measures [\<lambda>(n, sil, items, ri, acc). length items, \<lambda>(n, sil, items, ri, acc). n - length acc]")
    (auto simp flip: length_greater_0_conv)

declare fixed_loop.simps [simp del]

definition cur_items :: "mbq \<Rightarrow> mbq_item list" where
  "cur_items s = (case m_currentRead s of None \<Rightarrow> [] | Some i \<Rightarrow> snd (split_item i (m_blocks s)))"

definition peekFixedSize :: "nat \<Rightarrow> mbq \<Rightarrow> bytes option option \<times> mbq" where
  "peekFixedSize block_size s0 =
     (case mbq_peek s0 of
        (PeekFail, s) \<Rightarrow> (Some None, s)
      | (PeekHole n, s) \<Rightarrow> (None, s)
      | (PeekData c, s) \<Rightarrow>
          (if ck_length c \<ge> block_size then (Some (Some (take block_size (ck_bytes c))), s)
           else (map_option Some
                   (fixed_loop block_size (case m_silence s of None \<Rightarrow> [] | Some sc \<Rightarrow> ck_bytes sc)
                      (cur_items s) (m_readIndex s + int (ck_length c)) (ck_bytes c)), s)))"

text \<open>
  peekIterator calls back with each view, its position and its distance from the read
  index. At an item that starts after the running position the offset d is negative:
  the view would begin before the chunk's memory, which is the result None.
\<close>

fun iterator_loop :: "('u \<Rightarrow> chunk \<Rightarrow> int \<Rightarrow> int \<Rightarrow> bool \<times> 'u) \<Rightarrow> mbq_item list \<Rightarrow> int \<Rightarrow> int \<Rightarrow> 'u \<Rightarrow> 'u option" where
  "iterator_loop func [] base ri u = Some u"
| "iterator_loop func (q # rest) base ri u =
     (let d = ri - it_index q in
      if d < 0 then None
      else
        let t = ck_advance (nat d) (it_chunk q);
            (continue, u') = func u t (it_index q + d) (ri - base)
        in if continue then iterator_loop func rest base (ri + int (ck_length t)) u' else Some u')"

definition peekIterator :: "('u \<Rightarrow> chunk \<Rightarrow> int \<Rightarrow> int \<Rightarrow> bool \<times> 'u) \<Rightarrow> 'u \<Rightarrow> mbq \<Rightarrow> (bool \<times> 'u) option \<times> mbq" where
  "peekIterator func u s0 =
     (let (active, s1) = updatePreBuf s0 in
      if active then (Some (False, u), s1)
      else let s = fixCurrentRead s1
           in (map_option (Pair True) (iterator_loop func (cur_items s) (m_readIndex s) (m_readIndex s) u), s))"

text \<open>
  drop moves the read index piece by piece, so that it stops when pre-buffering starts.
  A piece of no bytes would repeat for ever (None).
\<close>

function drop_loop :: "nat \<Rightarrow> mbq \<Rightarrow> mbq option" where
  "drop_loop n s0 =
     (if n = 0 then Some s0
      else
        let (active, s1) = updatePreBuf s0 in
        if active then Some s1
        else
          let s = fixCurrentRead s1 in
          (case cur_item s of
             Some q \<Rightarrow>
               let d0 = it_end q - m_readIndex s; d = (if d0 > int n then int n else d0) in
               if d \<le> 0 then None
               else drop_loop (n - nat d) (s\<lparr>m_readIndex := m_readIndex s + d\<rparr>)
           | None \<Rightarrow> Some (s\<lparr>m_readIndex := m_readIndex s + int n\<rparr>)))"
  by pat_completeness auto
termination
  by (relation "measure fst") (auto split: if_splits)

declare drop_loop.simps [simp del]

definition mbq_drop :: "nat \<Rightarrow> mbq \<Rightarrow> (int \<times> mbq) option" where
  "mbq_drop n s =
     (case drop_loop n s of
        None \<Rightarrow> None
      | Some s1 \<Rightarrow> Some (readIndexChanged (m_readIndex s) (dropBacklog s1)))"

definition mbq_rewind :: "nat \<Rightarrow> mbq \<Rightarrow> int \<times> mbq" where
  "mbq_rewind n s = readIndexChanged (m_readIndex s) (s\<lparr>m_readIndex := m_readIndex s - int n\<rparr>)"

section \<open>Seeking, flushing, aligned writes, splicing\<close>

datatype seek_mode = SEEK_RELATIVE | SEEK_ABSOLUTE | SEEK_RELATIVE_ON_READ | SEEK_RELATIVE_END

definition mbq_seek :: "int \<Rightarrow> seek_mode \<Rightarrow> bool \<Rightarrow> mbq \<Rightarrow> mbq" where
  "mbq_seek offset seek account s =
     (let wi = (case seek of
                  SEEK_RELATIVE \<Rightarrow> m_writeIndex s + offset
                | SEEK_ABSOLUTE \<Rightarrow> offset
                | SEEK_RELATIVE_ON_READ \<Rightarrow> m_readIndex s + offset
                | SEEK_RELATIVE_END \<Rightarrow> blocks_end (m_blocks s) (m_readIndex s) + offset)
      in snd (writeIndexChanged (m_writeIndex s) account (dropBacklog (s\<lparr>m_writeIndex := wi\<rparr>))))"

definition flushWrite :: "bool \<Rightarrow> mbq \<Rightarrow> mbq" where
  "flushWrite account s0 =
     (let s = makeSilence s0
      in snd (writeIndexChanged (m_writeIndex s) account (preBufForce (s\<lparr>m_writeIndex := m_readIndex s\<rparr>))))"

definition flushRead :: "mbq \<Rightarrow> mbq" where
  "flushRead s0 =
     (let s = makeSilence s0
      in snd (readIndexChanged (m_readIndex s) (preBufForce (s\<lparr>m_readIndex := m_writeIndex s\<rparr>))))"

text \<open>
  pushAlign: the aligner pops its complete blocks into push; a push that fails flushes
  the aligner. The return value of push passes through unchanged when the base is 1.
\<close>

function align_loop :: "nat \<Rightarrow> mbq \<Rightarrow> (int \<times> mbq) option" where
  "align_loop fuel s =
     (if fuel = 0 then None
      else
        (case mc_pop (m_mcalign s) of
           (None, m) \<Rightarrow> Some (0, s\<lparr>m_mcalign := m\<rparr>)
         | (Some c, m) \<Rightarrow>
             let (r, s1) = mbq_push c (s\<lparr>m_mcalign := m\<rparr>) in
             if r < 0 then map_option (\<lambda>m'. (-1, s1\<lparr>m_mcalign := m'\<rparr>)) (mc_flush (m_mcalign s1))
             else align_loop (fuel - 1) s1))"
  by pat_completeness auto
termination by (relation "measure fst") auto

declare align_loop.simps [simp del]

definition pushAlign :: "nat \<Rightarrow> chunk \<Rightarrow> mbq \<Rightarrow> (int \<times> mbq) option" where
  "pushAlign append_blk c s =
     (if m_base s = 1 then Some (mbq_push c s)
      else if \<not> canPush (mc_csize (ck_length c) (m_mcalign s)) s then Some (-1, s)
      else align_loop 4 (s\<lparr>m_mcalign := mc_push append_blk c (m_mcalign s)\<rparr>))"

text \<open>splice: move the source's readable data (or skip its holes) until peek fails.\<close>

fun splice_loop :: "nat \<Rightarrow> nat \<Rightarrow> mbq \<Rightarrow> mbq \<Rightarrow> (int \<times> mbq \<times> mbq) option" where
  "splice_loop append_blk 0 s source = None"
| "splice_loop append_blk (Suc fuel) s source =
     (case mbq_peek source of
        (PeekFail, src) \<Rightarrow> Some (0, s, src)
      | (PeekData c, src) \<Rightarrow>
          (case pushAlign append_blk c s of
             None \<Rightarrow> None
           | Some (r, s1) \<Rightarrow>
               if r < 0 then Some (-1, s1, src)
               else (case mbq_drop (ck_length c) src of
                       None \<Rightarrow> None
                     | Some (_, src1) \<Rightarrow> splice_loop append_blk fuel s1 src1))
      | (PeekHole n, src) \<Rightarrow>
          (case mbq_drop n src of
             None \<Rightarrow> None
           | Some (_, src1) \<Rightarrow> splice_loop append_blk fuel (mbq_seek (int n) SEEK_RELATIVE True s) src1))"

definition mbq_splice :: "nat \<Rightarrow> nat \<Rightarrow> mbq \<Rightarrow> mbq \<Rightarrow> (int \<times> mbq \<times> mbq) option" where
  "mbq_splice fuel append_blk s source = splice_loop append_blk fuel (preBufDisable s) source"

end
