(* ===== verification/Queue_Laws.thy ===== *)
theory Queue_Laws imports Mem_Block_Queue begin

text \<open>
  What the block queue promises: its invariant, the independence of the cached cursors,
  the content a push, a drop or a peek works on, and the metrics and accounting.
\<close>

section \<open>Well-formed lists of items and their content\<close>

named_theorems item_simps "observers of items and chunks"

lemmas [item_simps] = it_end_def ck_length_def ck_truncate_def ck_advance_def ck_extend_def

definition items_ok :: "mbq_item list \<Rightarrow> bool" where
  "items_ok xs \<longleftrightarrow> sorted_wrt (\<lambda>p q. it_end p \<le> it_index q) xs \<and> (\<forall>q\<in>set xs. it_index q < it_end q)"

fun content :: "mbq_item list \<Rightarrow> int \<Rightarrow> 8 word option" where
  "content [] t = None"
| "content (q # r) t =
     (if it_index q \<le> t \<and> t < it_end q then Some (ck_bytes (it_chunk q) ! nat (t - it_index q))
      else content r t)"

lemma content_append: "content (xs @ ys) t = (case content xs t of None \<Rightarrow> content ys t | b \<Rightarrow> b)"
  by (induction xs) auto

lemma content_None: "(\<And>q. q \<in> set xs \<Longrightarrow> t < it_index q \<or> it_end q \<le> t) \<Longrightarrow> content xs t = None"
  by (induction xs) force+

lemma items_ok_Nil [simp]: "items_ok []" by (simp add: items_ok_def)

lemma items_ok_Cons [simp]:
  "items_ok (q # r) \<longleftrightarrow> it_index q < it_end q \<and> (\<forall>p\<in>set r. it_end q \<le> it_index p) \<and> items_ok r"
  by (auto simp: items_ok_def)

lemma items_ok_append:
  "items_ok (xs @ ys) \<longleftrightarrow> items_ok xs \<and> items_ok ys \<and> (\<forall>p\<in>set xs. \<forall>q\<in>set ys. it_end p \<le> it_index q)"
  by (auto simp: items_ok_def sorted_wrt_append)

text \<open>The invariant of the queue: sorted blocks, identities, cursors and the counter.\<close>

definition mbq_inv :: "mbq \<Rightarrow> bool" where
  "mbq_inv s \<longleftrightarrow>
     items_ok (m_blocks s) \<and> distinct (map it_id (m_blocks s)) \<and>
     (\<forall>q\<in>set (m_blocks s). it_id q < m_nextId s) \<and>
     set_option (m_currentRead s) \<subseteq> it_id ` set (m_blocks s) \<and>
     set_option (m_currentWrite s) \<subseteq> it_id ` set (m_blocks s) \<and>
     m_nBlocks s = of_nat (length (m_blocks s))"

section \<open>Cursors do not depend on the cache\<close>

lemma split_item_distinct:
  "distinct (map it_id (l @ q # r)) \<Longrightarrow> split_item (it_id q) (l @ q # r) = (l, q # r)"
  by (induction l) (auto simp: split_item_def)

lemma split_item_split:
  assumes "i \<in> it_id ` set xs"
  obtains l q r where "split_item i xs = (l, q # r)" "xs = l @ q # r" "it_id q = i"
proof -
  have "\<exists>l q r. split_item i xs = (l, q # r) \<and> xs = l @ q # r \<and> it_id q = i"
    using assms
  proof (induction xs)
    case (Cons x xs)
    show ?case
    proof (cases "it_id x = i")
      case False
      then have "i \<in> it_id ` set xs" using Cons.prems by auto
      then obtain l q r where "split_item i xs = (l, q # r)" "xs = l @ q # r" "it_id q = i"
        using Cons.IH by blast
      then have "split_item i (x # xs) = (x # l, q # r)" "x # xs = (x # l) @ q # r"
        using False by (simp_all add: split_item_def)
      then show ?thesis using \<open>it_id q = i\<close> by blast
    qed (auto simp: split_item_def)
  qed simp
  then show ?thesis using that by blast
qed

lemma read_scan_left_drop:
  "items_ok (rev rl @ r) \<Longrightarrow>
   dropWhile (\<lambda>q. it_end q \<le> ri) (read_scan_left ri rl r) = dropWhile (\<lambda>q. it_end q \<le> ri) (rev rl @ r) \<or> r = []"
proof (induction ri rl r rule: read_scan_left.induct)
  case (3 ri p rl q r)
  show ?case
  proof (cases "it_index q > ri")
    case True then show ?thesis using 3 by simp
  next
    case False
    have "\<forall>x\<in>set (rev rl @ [p]). it_end x \<le> ri"
      using "3.prems" False by (auto simp: items_ok_append)
    then have "dropWhile (\<lambda>q. it_end q \<le> ri) ((rev rl @ [p]) @ q # r) = dropWhile (\<lambda>q. it_end q \<le> ri) (q # r)"
      by (subst dropWhile_append2) auto
    then show ?thesis using False by simp
  qed
qed auto

lemma fixCurrentRead_blocks [simp]: "m_blocks (fixCurrentRead s) = m_blocks s"
  by (simp add: fixCurrentRead_def Let_def split: option.splits prod.splits)

theorem fixCurrentRead_cursor:
  assumes "mbq_inv s"
  shows "m_currentRead (fixCurrentRead s) = head_id (dropWhile (\<lambda>q. it_end q \<le> m_readIndex s) (m_blocks s))"
proof (cases "m_blocks s = [] \<or> m_currentRead s = None")
  case True
  then show ?thesis
  proof
    assume "m_currentRead s = None"
    moreover obtain q r where "m_blocks s = q # r" if "m_blocks s \<noteq> []" by (meson neq_Nil_conv)
    ultimately show ?thesis
      by (cases "m_blocks s = []") (auto simp: fixCurrentRead_def read_scan_right_def head_id_def)
  qed (simp add: fixCurrentRead_def head_id_def)
next
  case False
  then obtain i where i: "m_currentRead s = Some i" and "i \<in> it_id ` set (m_blocks s)"
    using assms by (auto simp: mbq_inv_def)
  then obtain l q r where sp: "split_item i (m_blocks s) = (l, q # r)" "m_blocks s = l @ q # r"
    by (metis split_item_split)
  have "items_ok (rev (rev l) @ q # r)" using assms sp(2) by (simp add: mbq_inv_def)
  from read_scan_left_drop [OF this, of "m_readIndex s"] False i sp(1) show ?thesis
    by (simp add: fixCurrentRead_def read_scan_right_def sp(2))
qed

lemma write_scan_drop:
  "items_ok (rev rl @ r) \<Longrightarrow> r \<noteq> [] \<Longrightarrow>
   dropWhile (\<lambda>q. it_index q > wi) (write_scan_right wi rl r) = dropWhile (\<lambda>q. it_index q > wi) (rev r @ rl)"
proof (induction wi rl r rule: write_scan_right.induct)
  case (3 wi rl q n r)
  show ?case
  proof (cases "it_end q \<le> wi")
    case True
    then show ?thesis using "3.IH" "3.prems" by simp
  next
    case False
    have "\<forall>x\<in>set (rev r @ [n]). it_index x > wi" using "3.prems" False by (auto simp: items_ok_append)
    then have "dropWhile (\<lambda>q. it_index q > wi) ((rev r @ [n]) @ q # rl) = dropWhile (\<lambda>q. it_index q > wi) (q # rl)"
      by (subst dropWhile_append2) auto
    then show ?thesis using False by simp
  qed
qed auto

theorem fixCurrentWrite_cursor:
  assumes "mbq_inv s"
  shows "m_currentWrite (fixCurrentWrite s) = head_id (dropWhile (\<lambda>q. it_index q > m_writeIndex s) (rev (m_blocks s)))"
proof (cases "m_blocks s = []")
  case False
  show ?thesis
  proof (cases "m_currentWrite s")
    case None
    have "rev (m_blocks s) = last (m_blocks s) # rev (butlast (m_blocks s))"
      using False by (metis append_butlast_last_id rev_eq_Cons_iff rev_rev_ident)
    from None False show ?thesis
      by (simp only: fixCurrentWrite_def write_scan_left_def if_False option.case prod.case Let_def
          write_scan_right.simps select_convs surjective update_convs \<open>rev (m_blocks s) = _\<close>) simp
  next
    case (Some i)
    then have "i \<in> it_id ` set (m_blocks s)" using assms by (auto simp: mbq_inv_def)
    then obtain l q r where sp: "split_item i (m_blocks s) = (l, q # r)" "m_blocks s = l @ q # r"
      by (metis split_item_split)
    have "items_ok (rev (rev l) @ q # r)" using assms sp(2) by (simp add: mbq_inv_def)
    from write_scan_drop [OF this, of "m_writeIndex s"] False Some sp(1) show ?thesis
      by (simp add: fixCurrentWrite_def write_scan_left_def sp(2))
  qed
qed (simp add: fixCurrentWrite_def head_id_def)

section \<open>Overwriting\<close>

definition mk_split :: "int \<Rightarrow> mbq_item \<Rightarrow> mbq \<Rightarrow> mbq_item" where
  "mk_split e q s =
     \<lparr>it_id = m_nextId s, it_index = it_index q + int (nat (e - it_index q)),
      it_chunk = ck_truncate (ck_length (it_chunk q) - nat (e - it_index q)) (it_chunk q)\<rparr>"

definition cut_tail :: "int \<Rightarrow> mbq_item \<Rightarrow> mbq_item" where
  "cut_tail wi q = q\<lparr>it_chunk := ck_truncate (nat (wi - it_index q)) (it_chunk q)\<rparr>"

definition cut_head :: "int \<Rightarrow> mbq_item \<Rightarrow> mbq_item" where
  "cut_head e q = q\<lparr>it_index := it_index q + int (nat (e - it_index q)),
     it_chunk := ck_advance (nat (e - it_index q)) (it_chunk q)\<rparr>"

definition splits :: "int \<Rightarrow> int \<Rightarrow> mbq_item list \<Rightarrow> bool" where
  "splits wi e xs \<longleftrightarrow> (\<exists>q\<in>set xs. it_index q \<le> wi \<and> e < it_end q)"

lemma cut_tail_simps:
  "it_index q \<le> wi \<Longrightarrow> wi \<le> it_end q \<Longrightarrow> it_end (cut_tail wi q) = wi"
  "it_index (cut_tail wi q) = it_index q" "it_id (cut_tail wi q) = it_id q"
  by (auto simp: cut_tail_def item_simps)

lemma cut_head_simps:
  "it_index q \<le> e \<Longrightarrow> it_index (cut_head e q) = e"
  "it_index q \<le> e \<Longrightarrow> e \<le> it_end q \<Longrightarrow> it_end (cut_head e q) = it_end q"
  "it_id (cut_head e q) = it_id q"
  by (auto simp: cut_head_def item_simps)

lemma mk_split_simps:
  "it_index q \<le> e \<Longrightarrow> it_index (mk_split e q s) = e"
  "it_index q \<le> e \<Longrightarrow> e \<le> it_end q \<Longrightarrow> it_end (mk_split e q s) = it_end q"
  "it_id (mk_split e q s) = m_nextId s"
  by (auto simp: mk_split_def item_simps)

lemma content_cut_tail:
  "it_index q \<le> wi \<Longrightarrow> wi \<le> it_end q \<Longrightarrow> t < wi \<Longrightarrow>
   content (cut_tail wi q # r) t = content (q # r) t"
  by (auto simp: cut_tail_simps) (auto simp: cut_tail_def ck_truncate_def it_end_def)

lemma content_cut_head:
  "it_index q \<le> e \<Longrightarrow> e \<le> it_end q \<Longrightarrow> e \<le> t \<Longrightarrow>
   content (cut_head e q # r) t = content (q # r) t"
  by (auto simp: cut_head_simps) (auto simp: cut_head_def ck_advance_def item_simps intro!: arg_cong [where f = "(!) _"])

text \<open>The five cases of one round.\<close>

lemma overwrite_Cons:
  "overwrite wi e (q # rl) r s =
     (if wi \<ge> it_end q then (q # rl, r, s)
      else if e \<le> it_index q then overwrite wi e rl (q # r) s
      else if wi \<le> it_index q \<and> e \<ge> it_end q then overwrite wi e rl r (unlink rl q r s)
      else if wi \<ge> it_index q then
        let r1 = (if e < it_end q then mk_split e q s # r else r);
            s1 = (if e < it_end q then s\<lparr>m_nextId := m_nextId s + 1, m_nBlocks := m_nBlocks s + 1\<rparr> else s)
        in if ck_length (it_chunk (cut_tail wi q)) = 0
           then (rl, r1, unlink rl (cut_tail wi q) r1 s1)
           else (cut_tail wi q # rl, r1, s1)
      else overwrite wi e rl (cut_head e q # r) s)"
  by (simp add: Let_def mk_split_def cut_head_def cut_tail_def)

lemma cut_tail_empty:
  "ck_length (it_chunk (cut_tail wi q)) = 0 \<longleftrightarrow> wi \<le> it_index q \<or> ck_length (it_chunk q) = 0"
  by (auto simp: cut_tail_def item_simps min_def)

declare overwrite.simps(2) [simp del]

lemma overwrite_case [consumes 1, case_names stop skip drop split tail head]:
  assumes "wi < e"
  obtains "wi \<ge> it_end q" "overwrite wi e (q # rl) r s = (q # rl, r, s)"
  | "wi < it_end q" "e \<le> it_index q" "overwrite wi e (q # rl) r s = overwrite wi e rl (q # r) s"
  | "it_index q \<ge> wi" "it_index q < e" "it_end q \<le> e" "wi < it_end q"
    "overwrite wi e (q # rl) r s = overwrite wi e rl r (unlink rl q r s)"
  | "wi \<ge> it_index q" "e < it_end q"
    "overwrite wi e (q # rl) r s =
       (if wi \<le> it_index q
        then (rl, mk_split e q s # r, unlink rl (cut_tail wi q) (mk_split e q s # r)
           (s\<lparr>m_nextId := m_nextId s + 1, m_nBlocks := m_nBlocks s + 1\<rparr>))
        else (cut_tail wi q # rl, mk_split e q s # r,
           s\<lparr>m_nextId := m_nextId s + 1, m_nBlocks := m_nBlocks s + 1\<rparr>))"
  | "wi > it_index q" "wi < it_end q" "e \<ge> it_end q" "overwrite wi e (q # rl) r s = (cut_tail wi q # rl, r, s)"
  | "wi < it_index q" "it_index q < e" "e < it_end q"
    "overwrite wi e (q # rl) r s = overwrite wi e rl (cut_head e q # r) s"
proof -
  have len: "ck_length (it_chunk q) = 0 \<longleftrightarrow> it_end q = it_index q" by (simp add: it_end_def)
  have le: "it_index q \<le> it_end q" by (simp add: it_end_def)
  consider "wi \<ge> it_end q" | "wi < it_end q" "e \<le> it_index q"
    | "it_index q \<ge> wi" "it_index q < e" "it_end q \<le> e" "wi < it_end q"
    | "wi \<ge> it_index q" "e < it_end q" | "wi > it_index q" "wi < it_end q" "e \<ge> it_end q"
    | "wi < it_index q" "it_index q < e" "e < it_end q" by linarith
  then show thesis
  proof cases
    case 1 then show ?thesis by (intro that(1)) (simp_all add: overwrite_Cons)
  next
    case 2 then show ?thesis by (intro that(2)) (simp_all add: overwrite_Cons)
  next
    case 3 then show ?thesis by (intro that(3)) (simp_all add: overwrite_Cons)
  next
    case 4 then show ?thesis using assms by (intro that(4)) (auto simp: overwrite_Cons len Let_def cut_tail_empty)
  next
    case 5 then show ?thesis using assms by (intro that(5)) (auto simp: overwrite_Cons len Let_def cut_tail_empty)
  next
    case 6 then show ?thesis by (intro that(6)) (simp_all add: overwrite_Cons)
  qed
qed

text \<open>What the loop leaves: blocks that end before the data, and blocks that start after it.\<close>

lemma overwrite_items_ok:
  "items_ok (rev rl @ r) \<Longrightarrow> wi < e \<Longrightarrow> \<forall>q\<in>set r. e \<le> it_index q \<Longrightarrow>
   overwrite wi e rl r s = (rl', r', s') \<Longrightarrow>
   items_ok (rev rl' @ r') \<and> (\<forall>q\<in>set rl'. it_end q \<le> wi) \<and> (\<forall>q\<in>set r'. e \<le> it_index q)"
proof (induction rl arbitrary: r s)
  case (Cons q rl)
  have q: "it_index q < it_end q" and rl: "\<forall>p\<in>set rl. it_end p \<le> it_index q"
    using Cons.prems(1) by (auto simp: items_ok_append)
  from \<open>wi < e\<close> show ?case
  proof (cases rule: overwrite_case [where q = q and rl = rl and r = r and s = s])
    case stop then show ?thesis using Cons.prems rl q by force
  next
    case skip then show ?thesis using Cons.prems by (intro Cons.IH [of "q # r" s]) (auto)
  next
    case drop then show ?thesis using Cons.prems by (intro Cons.IH [of r "unlink rl q r s"]) (auto simp: items_ok_append)
  next
    case split
    have "it_end (mk_split e q s) = it_end q" "it_index (mk_split e q s) = e"
      using split Cons.prems(2) by (auto simp: mk_split_simps)
    then show ?thesis using split Cons.prems rl q
      by (auto simp: items_ok_append cut_tail_simps split: if_splits)
  next
    case tail then show ?thesis using Cons.prems rl q
      by (auto simp: items_ok_append cut_tail_simps)
  next
    case head then show ?thesis using Cons.prems
      by (intro Cons.IH [of "cut_head e q # r" s]) (auto simp: items_ok_append cut_head_simps)
  qed
qed auto

lemma content_left: "content ys t = content zs t \<Longrightarrow> content (xs @ ys) t = content (xs @ zs) t"
  by (simp only: content_append)

text \<open>Outside the written range the content is kept, unless a block had to be split.\<close>

lemma content_rev_Cons:
  "content (rev (q # rl) @ r) t = content (rev rl @ q # r) t" by simp

lemma overwrite_content:
  "items_ok (rev rl @ r) \<Longrightarrow> wi < e \<Longrightarrow> \<forall>q\<in>set r. e \<le> it_index q \<Longrightarrow> \<not> splits wi e rl \<Longrightarrow>
   overwrite wi e rl r s = (rl', r', s') \<Longrightarrow> t < wi \<or> e \<le> t \<Longrightarrow>
   content (rev rl' @ r') t = content (rev rl @ r) t"
proof (induction rl arbitrary: r s)
  case (Cons q rl)
  have q: "it_index q < it_end q" and rl: "\<forall>p\<in>set rl. it_end p \<le> it_index q"
    and ns: "\<not> splits wi e rl"
    using Cons.prems(1,4) by (auto simp: items_ok_append splits_def)
  from \<open>wi < e\<close> show ?case
  proof (cases rule: overwrite_case [where q = q and rl = rl and r = r and s = s])
    case stop then show ?thesis using Cons.prems by simp
  next
    case skip then show ?thesis using Cons.prems ns by (auto intro!: Cons.IH [of "q # r" s, simplified])
  next
    case drop
    have "content (rev rl' @ r') t = content (rev rl @ r) t"
      using drop Cons.prems ns by (intro Cons.IH [of r "unlink rl q r s"]) (auto simp: items_ok_append)
    then show ?thesis using drop Cons.prems(6) by (auto simp: content_append split: option.splits)
  next
    case split then show ?thesis using Cons.prems(4) by (simp add: splits_def)
  next
    case tail
    have "content (cut_tail wi q # r) t = content (q # r) t"
    proof (cases "t < wi")
      case True then show ?thesis using tail by (intro content_cut_tail) auto
    next
      case False then show ?thesis using tail Cons.prems(6) by (auto simp: cut_tail_simps)
    qed
    then have "content (rev rl @ cut_tail wi q # r) t = content (rev rl @ q # r) t"
      by (rule content_left)
    then show ?thesis using tail Cons.prems(5) by simp
  next
    case head
    have "content (cut_head e q # r) t = content (q # r) t"
    proof (cases "e \<le> t")
      case True then show ?thesis using head by (intro content_cut_head) auto
    next
      case False then show ?thesis using head Cons.prems(2,6) by (auto simp: cut_head_simps)
    qed
    moreover have "content (rev rl' @ r') t = content (rev rl @ cut_head e q # r) t"
      using head Cons.prems ns
      by (intro Cons.IH [of "cut_head e q # r" s]) (auto simp: items_ok_append cut_head_simps)
    ultimately show ?thesis using content_left [of "cut_head e q # r" t "q # r" "rev rl"] by simp
  qed
qed auto

text \<open>The rest of the invariant, over the split list.\<close>

definition links_ok :: "mbq_item list \<Rightarrow> mbq_item list \<Rightarrow> mbq \<Rightarrow> bool" where
  "links_ok rl r s \<longleftrightarrow>
     distinct (map it_id (rev rl @ r)) \<and> (\<forall>q\<in>set rl \<union> set r. it_id q < m_nextId s) \<and>
     set_option (m_currentRead s) \<subseteq> it_id ` (set rl \<union> set r) \<and>
     set_option (m_currentWrite s) \<subseteq> it_id ` (set rl \<union> set r) \<and>
     m_nBlocks s = of_nat (length rl + length r)"

definition same_frame :: "mbq \<Rightarrow> mbq \<Rightarrow> bool" where
  "same_frame s s' \<longleftrightarrow>
     s'\<lparr>m_blocks := m_blocks s, m_nextId := m_nextId s, m_currentRead := m_currentRead s,
        m_currentWrite := m_currentWrite s, m_nBlocks := m_nBlocks s\<rparr> = s"

lemma same_frame_simps:
  assumes "same_frame s s'"
  shows "m_maxLength s' = m_maxLength s" "m_tLength s' = m_tLength s" "m_base s' = m_base s"
    "m_preBuf s' = m_preBuf s" "m_minReq s' = m_minReq s" "m_maxRewind s' = m_maxRewind s"
    "m_readIndex s' = m_readIndex s" "m_writeIndex s' = m_writeIndex s" "m_inPreBuf s' = m_inPreBuf s"
    "m_silence s' = m_silence s" "m_mcalign s' = m_mcalign s" "m_missing s' = m_missing s"
    "m_requested s' = m_requested s"
  by (subst assms [unfolded same_frame_def, symmetric], simp)+

lemma same_frame_refl [intro, simp]: "same_frame s s"
  by (simp add: same_frame_def)

lemma same_frame_trans: "same_frame s s' \<Longrightarrow> same_frame s' s'' \<Longrightarrow> same_frame s s''"
  by (cases s; cases s'; cases s'') (simp add: same_frame_def)

lemma same_frame_unlink [simp]: "same_frame s (unlink rl q r s)"
  by (simp add: same_frame_def unlink_def)

lemma head_id_in: "set_option (head_id xs) \<subseteq> it_id ` set xs"
  by (cases xs) (auto simp: head_id_def)

lemma links_ok_unlink:
  "links_ok (q # rl) r s \<Longrightarrow> it_id q' = it_id q \<Longrightarrow> links_ok rl r (unlink rl q' r s)"
  using head_id_in [of rl] head_id_in [of r]
  by (auto simp: links_ok_def unlink_def)

lemma links_ok_swap: "links_ok (q # rl) r s \<Longrightarrow> it_id q' = it_id q \<Longrightarrow> links_ok rl (q' # r) s"
  by (auto simp: links_ok_def)

lemma links_ok_same: "links_ok (q # rl) r s \<Longrightarrow> it_id q' = it_id q \<Longrightarrow> links_ok (q' # rl) r s"
  by (auto simp: links_ok_def)

lemma links_ok_split:
  "links_ok (q # rl) r s \<Longrightarrow>
   links_ok (q # rl) (mk_split e q s # r) (s\<lparr>m_nextId := m_nextId s + 1, m_nBlocks := m_nBlocks s + 1\<rparr>)"
  by (auto simp: links_ok_def mk_split_simps less_Suc_eq)

lemma overwrite_links:
  "links_ok rl r s \<Longrightarrow> wi < e \<Longrightarrow> overwrite wi e rl r s = (rl', r', s') \<Longrightarrow>
   links_ok rl' r' s' \<and> same_frame s s'"
proof (induction rl arbitrary: r s)
  case (Cons q rl)
  from \<open>wi < e\<close> show ?case
  proof (cases rule: overwrite_case [where q = q and rl = rl and r = r and s = s])
    case stop then show ?thesis using Cons.prems by auto
  next
    case skip then show ?thesis using Cons.prems by (intro Cons.IH [of "q # r" s]) (auto intro: links_ok_swap)
  next
    case drop
    then have "links_ok rl' r' s' \<and> same_frame (unlink rl q r s) s'"
      using Cons.prems by (intro Cons.IH) (auto intro: links_ok_unlink)
    then show ?thesis using same_frame_trans same_frame_unlink by blast
  next
    case split
    let ?s = "s\<lparr>m_nextId := m_nextId s + 1, m_nBlocks := m_nBlocks s + 1\<rparr>"
    have f: "same_frame s ?s" by (simp add: same_frame_def)
    have l: "links_ok (q # rl) (mk_split e q s # r) ?s" by (rule links_ok_split [OF Cons.prems(1)])
    show ?thesis
    proof (cases "wi \<le> it_index q")
      case True
      then show ?thesis using split Cons.prems(3) links_ok_unlink [OF l] same_frame_trans [OF f same_frame_unlink]
        by (auto simp: cut_tail_simps)
    next
      case False
      then show ?thesis using split Cons.prems(3) links_ok_same [OF l] f by (auto simp: cut_tail_simps)
    qed
  next
    case tail then show ?thesis using Cons.prems links_ok_same by (auto simp: cut_tail_simps)
  next
    case head then show ?thesis using Cons.prems links_ok_swap [of q rl r s "cut_head e q"]
      by (intro Cons.IH [of "cut_head e q # r" s]) (auto simp: cut_head_simps)
  qed
qed auto

section \<open>Pushing\<close>

lemma mbq_inv_links: "mbq_inv s \<longleftrightarrow> items_ok (m_blocks s) \<and> links_ok (rev (m_blocks s)) [] s"
  by (auto simp: mbq_inv_def links_ok_def)

lemma fixCurrentWrite_eq: "\<exists>c. fixCurrentWrite s = s\<lparr>m_currentWrite := c\<rparr>"
  by (auto simp: fixCurrentWrite_def Let_def split: option.splits prod.splits)

lemma fixCurrentRead_eq: "\<exists>c. fixCurrentRead s = s\<lparr>m_currentRead := c\<rparr>"
  by (auto simp: fixCurrentRead_def Let_def split: option.splits prod.splits)

lemma fixCurrentWrite_frame [simp]:
  "same_frame s (fixCurrentWrite s)" "m_blocks (fixCurrentWrite s) = m_blocks s"
  using fixCurrentWrite_eq [of s] by (auto simp: same_frame_def)

lemma fixCurrentRead_frame [simp]: "same_frame s (fixCurrentRead s)"
  using fixCurrentRead_eq [of s] by (auto simp: same_frame_def)

lemma fixCurrentWrite_inv: "mbq_inv s \<Longrightarrow> mbq_inv (fixCurrentWrite s)"
  using fixCurrentWrite_cursor [of s] fixCurrentWrite_eq [of s]
    head_id_in [of "dropWhile (\<lambda>q. it_index q > m_writeIndex s) (rev (m_blocks s))"]
  by (auto simp: mbq_inv_def dest!: set_dropWhileD)

lemma fixCurrentRead_inv: "mbq_inv s \<Longrightarrow> mbq_inv (fixCurrentRead s)"
  using fixCurrentRead_cursor [of s] fixCurrentRead_eq [of s]
    head_id_in [of "dropWhile (\<lambda>q. it_end q \<le> m_readIndex s) (m_blocks s)"]
  by (auto simp: mbq_inv_def) (metis image_iff set_dropWhileD)

lemma links_ok_rev: "rev rl @ r = xs \<Longrightarrow> links_ok (rev xs) [] s = links_ok rl r s"
  by (auto simp: links_ok_def Un_commute add.commute)

lemma push_scan_right_spec:
  "items_ok (rev rl @ r) \<Longrightarrow> push_scan_right e rl r = (rl', r') \<Longrightarrow>
   rev rl' @ r' = rev rl @ r \<and> (\<forall>q\<in>set r'. e \<le> it_index q)"
  by (induction e rl r rule: push_scan_right.induct) (fastforce simp: items_ok_append split: if_splits)+

lemma push_start_spec:
  assumes "mbq_inv s" and "push_start e s = (rl, r)"
  shows "rev rl @ r = m_blocks s \<and> (\<forall>q\<in>set r. e \<le> it_index q)"
proof (cases "m_currentWrite s")
  case (Some i)
  then have "i \<in> it_id ` set (m_blocks s)" using assms(1) by (auto simp: mbq_inv_def)
  then obtain a q b where sp: "split_item i (m_blocks s) = (a, q # b)" "m_blocks s = a @ q # b"
    by (metis split_item_split)
  have "push_scan_right e (rev a) (q # b) = (rl, r)" using assms(2) Some sp(1) by (simp add: push_start_def)
  moreover have "items_ok (rev (rev a) @ q # b)" using assms(1) sp(2) by (simp add: mbq_inv_def)
  ultimately show ?thesis using push_scan_right_spec sp(2) by fastforce
qed (use assms in \<open>auto simp: push_start_def\<close>)

lemma place_chunk_spec:
  assumes "items_ok (rev rl @ r)" and "\<forall>q\<in>set rl. it_end q \<le> wi" and "\<forall>q\<in>set r. wi + int (ck_length c) \<le> it_index q"
    and "links_ok rl r s" and "m_writeIndex s = wi" and "0 < ck_length c"
  shows "mbq_inv (place_chunk c rl r s)"
    and "content (m_blocks (place_chunk c rl r s)) t =
      (if wi \<le> t \<and> t < wi + int (ck_length c) then Some (ck_bytes c ! nat (t - wi)) else content (rev rl @ r) t)"
proof -
  show "mbq_inv (place_chunk c rl r s)"
    using assms by (auto simp: mbq_inv_links place_chunk_def items_ok_append links_ok_def it_end_def less_SucI)
  have "content (rev rl) t = None" if "wi \<le> t"
    using assms(2) that by (intro content_None) auto
  then show "content (m_blocks (place_chunk c rl r s)) t =
      (if wi \<le> t \<and> t < wi + int (ck_length c) then Some (ck_bytes c ! nat (t - wi)) else content (rev rl @ r) t)"
    using assms(5) by (auto simp: place_chunk_def content_append it_end_def split: option.splits)
qed

lemma merge_chunk_spec:
  assumes "items_ok (rev (q # rl) @ r)" and "it_end q = wi" and "\<forall>p\<in>set r. wi + int (ck_length c) \<le> it_index p"
    and "links_ok (q # rl) r s" and "m_writeIndex s = wi"
  shows "mbq_inv (merge_chunk c q rl r s)"
    and "content (m_blocks (merge_chunk c q rl r s)) t =
      (if wi \<le> t \<and> t < wi + int (ck_length c) then Some (ck_bytes c ! nat (t - wi)) else content (rev (q # rl) @ r) t)"
proof -
  have e: "it_end (q\<lparr>it_chunk := ck_extend (it_chunk q) c\<rparr>) = wi + int (ck_length c)"
    using assms(2) by (simp add: item_simps)
  show "mbq_inv (merge_chunk c q rl r s)"
    using assms e by (auto simp: mbq_inv_links merge_chunk_def items_ok_append links_ok_def)
  have "content (rev rl) t = None" if "wi \<le> t"
    using assms(1,2) that by (intro content_None) (auto simp: items_ok_append)
  moreover have "content (q\<lparr>it_chunk := ck_extend (it_chunk q) c\<rparr> # r) t =
     (if wi \<le> t \<and> t < wi + int (ck_length c) then Some (ck_bytes c ! nat (t - wi)) else content (q # r) t)"
    using assms(1,2) e by (auto simp: items_ok_append) (auto simp: item_simps nth_append intro!: arg_cong [where f = "(!) _"])
  ultimately show "content (m_blocks (merge_chunk c q rl r s)) t =
      (if wi \<le> t \<and> t < wi + int (ck_length c) then Some (ck_bytes c ! nat (t - wi)) else content (rev (q # rl) @ r) t)"
    by (auto simp: merge_chunk_def content_append simp del: content.simps(2) split: option.splits)
qed

lemma push_cases:
  assumes "mbq_inv s" and "0 < ck_length c" and "canPush (ck_length c) s"
  obtains rl0 r0 rl r s2 s3 where
    "rev rl0 @ r0 = m_blocks s" "\<forall>q\<in>set r0. m_writeIndex s + int (ck_length c) \<le> it_index q"
    "overwrite (m_writeIndex s) (m_writeIndex s + int (ck_length c)) rl0 r0 (fixCurrentWrite s) = (rl, r, s2)"
    "links_ok rl r s2" "same_frame s s2" "items_ok (rev rl @ r)"
    "\<forall>q\<in>set rl. it_end q \<le> m_writeIndex s" "\<forall>q\<in>set r. m_writeIndex s + int (ck_length c) \<le> it_index q"
    "s3 = place_chunk c rl r s2 \<or> (\<exists>q ps. rl = q # ps \<and> it_end q = m_writeIndex s \<and> s3 = merge_chunk c q ps r s2)"
    "mbq_push c s = writeIndexChanged (m_writeIndex s) True s3"
proof -
  let ?s1 = "fixCurrentWrite s" and ?e = "m_writeIndex s + int (ck_length c)"
  obtain rl0 r0 where start: "push_start ?e ?s1 = (rl0, r0)" by fastforce
  obtain rl r s2 where ov: "overwrite (m_writeIndex s) ?e rl0 r0 ?s1 = (rl, r, s2)" by (metis prod_cases3)
  have inv1: "mbq_inv ?s1" using assms(1) by (rule fixCurrentWrite_inv)
  from push_start_spec [OF this start]
  have b: "rev rl0 @ r0 = m_blocks s" "\<forall>q\<in>set r0. ?e \<le> it_index q" by auto
  have ok: "items_ok (rev rl0 @ r0)" "links_ok rl0 r0 ?s1"
    using inv1 links_ok_rev [OF b(1)] by (simp_all add: b(1) mbq_inv_links)
  have lt: "m_writeIndex s < ?e" using assms(2) by simp
  note o = overwrite_items_ok [OF ok(1) lt b(2) ov] overwrite_links [OF ok(2) lt ov]
  have fr: "same_frame s s2" using o(2) same_frame_trans fixCurrentWrite_frame(1) by blast
  define s3 where "s3 = (case rl of
      q # ps \<Rightarrow> if ck_adjacent (it_chunk q) c \<and> m_writeIndex s = it_end q
                then merge_chunk c q ps r s2 else place_chunk c rl r s2
    | [] \<Rightarrow> place_chunk c rl r s2)"
  have "mbq_push c s = writeIndexChanged (m_writeIndex s) True s3"
    using assms(3) start ov by (simp add: mbq_push_def s3_def Let_def)
  moreover have "s3 = place_chunk c rl r s2 \<or> (\<exists>q ps. rl = q # ps \<and> it_end q = m_writeIndex s \<and> s3 = merge_chunk c q ps r s2)"
    by (auto simp: s3_def split: list.splits)
  ultimately show ?thesis using that b ov o fr by blast
qed

lemma push_write_index:
  assumes "same_frame s s2"
    and "s3 = place_chunk c rl r s2 \<or> (\<exists>q ps. rl = q # ps \<and> it_end q = m_writeIndex s \<and> s3 = merge_chunk c q ps r s2)"
  shows "m_writeIndex s3 = m_writeIndex s + int (ck_length c) \<and> m_readIndex s3 = m_readIndex s \<and>
    m_requested s3 = m_requested s \<and> m_missing s3 = m_missing s"
  using assms(2) by (auto simp: place_chunk_def merge_chunk_def same_frame_simps [OF assms(1)])

lemma push_ok:
  assumes "mbq_inv s" and "0 < ck_length c" and "canPush (ck_length c) s"
  shows "\<exists>s'. mbq_push c s = (int (ck_length c), s') \<and> mbq_inv s' \<and>
    m_writeIndex s' = m_writeIndex s + int (ck_length c) \<and> m_readIndex s' = m_readIndex s \<and>
    m_requested s' = m_requested s - int (ck_length c) \<and> m_missing s' = m_missing s \<and>
    (\<forall>t. m_writeIndex s \<le> t \<and> t < m_writeIndex s + int (ck_length c) \<longrightarrow>
       content (m_blocks s') t = Some (ck_bytes c ! nat (t - m_writeIndex s))) \<and>
    (\<not> splits (m_writeIndex s) (m_writeIndex s + int (ck_length c)) (m_blocks s) \<longrightarrow>
      (\<forall>t. t < m_writeIndex s \<or> m_writeIndex s + int (ck_length c) \<le> t \<longrightarrow>
       content (m_blocks s') t = content (m_blocks s) t))"
  using assms
proof (cases rule: push_cases)
  case (1 rl0 r0 rl r s2 s3)
  let ?e = "m_writeIndex s + int (ck_length c)"
  note w = push_write_index [OF 1(5,9)]
  have s3: "mbq_inv s3 \<and> (\<forall>t. content (m_blocks s3) t =
      (if m_writeIndex s \<le> t \<and> t < ?e then Some (ck_bytes c ! nat (t - m_writeIndex s)) else content (rev rl @ r) t))"
    using 1(9) place_chunk_spec [OF 1(6,7,8,4) _ assms(2)] merge_chunk_spec [of _ _ r "m_writeIndex s" c s2]
      1(4,6,8) same_frame_simps(8) [OF 1(5)] by auto
  have ns: "\<not> splits (m_writeIndex s) ?e rl0" if "\<not> splits (m_writeIndex s) ?e (m_blocks s)"
    using that 1(1) [symmetric] by (auto simp: splits_def)
  have ok: "items_ok (rev rl0 @ r0)" using assms(1) 1(1) by (simp add: mbq_inv_def)
  have old: "content (rev rl @ r) t = content (m_blocks s) t"
    if "\<not> splits (m_writeIndex s) ?e (m_blocks s)" "t < m_writeIndex s \<or> ?e \<le> t" for t
    using overwrite_content [OF ok _ 1(2) ns [OF that(1)] 1(3) that(2)] assms(2) 1(1) by simp
  let ?s' = "s3\<lparr>m_requested := m_requested s3 - int (ck_length c)\<rparr>"
  have "mbq_push c s = (int (ck_length c), ?s')"
    using 1(10) w by (simp add: writeIndexChanged_def Let_def)
  moreover have "mbq_inv ?s'" using s3 by (simp add: mbq_inv_def)
  ultimately show ?thesis using s3 old w by auto
qed

section \<open>Peeking\<close>

lemma preBuf_self: "s\<lparr>m_inPreBuf := m_inPreBuf s\<rparr> = s" by simp

lemma updatePreBuf_eq: "\<exists>b. updatePreBuf s = (preBufActive s, s\<lparr>m_inPreBuf := b\<rparr>)"
proof (cases "m_inPreBuf s = preBufActive s")
  case True
  then have "updatePreBuf s = (preBufActive s, s)" by (auto simp: updatePreBuf_def preBufActive_def split: if_splits)
  then show ?thesis using preBuf_self [of s] by (metis (no_types))
next
  case False
  then have "updatePreBuf s = (preBufActive s, s\<lparr>m_inPreBuf := preBufActive s\<rparr>)"
    by (auto simp: updatePreBuf_def preBufActive_def split: if_splits)
  then show ?thesis by blast
qed

lemma mbq_inv_preBuf [simp]: "mbq_inv (s\<lparr>m_inPreBuf := b\<rparr>) = mbq_inv s"
  by (simp add: mbq_inv_def)

text \<open>After fixCurrentRead the items from the cursor on are those that end after the read index.\<close>

lemma cur_items_fixed:
  assumes "mbq_inv s"
  shows "cur_items (fixCurrentRead s) = dropWhile (\<lambda>q. it_end q \<le> m_readIndex s) (m_blocks s)"
proof (cases "dropWhile (\<lambda>q. it_end q \<le> m_readIndex s) (m_blocks s)")
  case Nil
  then show ?thesis using fixCurrentRead_cursor [OF assms] by (simp only: cur_items_def head_id_def) simp
next
  case (Cons q r)
  obtain l where l: "m_blocks s = l @ q # r" using Cons takeWhile_dropWhile_id by metis
  then have "distinct (map it_id (l @ q # r))" using assms by (simp add: mbq_inv_def)
  from split_item_distinct [OF this] show ?thesis
    using fixCurrentRead_cursor [OF assms] Cons l by (simp add: cur_items_def head_id_def)
qed

lemma cur_item_items: "cur_item s = (case cur_items s of [] \<Rightarrow> None | q # _ \<Rightarrow> Some q)"
  by (simp add: cur_item_def cur_items_def split: option.splits)

lemma content_dropWhile:
  "ri \<le> t \<Longrightarrow> content (dropWhile (\<lambda>q. it_end q \<le> ri) xs) t = content xs t"
  by (induction xs) auto

lemma dropWhile_items_ok:
  "items_ok xs \<Longrightarrow> items_ok (dropWhile P xs)"
  by (induction xs) auto

lemma content_chunk_view:
  assumes "it_index q \<le> ri" and "i < ck_length (ck_advance (nat (ri - it_index q)) (it_chunk q))"
  shows "content (q # r) (ri + int i) = Some (ck_bytes (ck_advance (nat (ri - it_index q)) (it_chunk q)) ! i)"
  using assms by (auto simp: item_simps nat_diff_distrib intro!: arg_cong [where f = "(!) _"])

definition unread :: "mbq \<Rightarrow> mbq_item list" where
  "unread s = dropWhile (\<lambda>q. it_end q \<le> m_readIndex s) (m_blocks s)"

lemma unread_content: "m_readIndex s \<le> t \<Longrightarrow> content (unread s) t = content (m_blocks s) t"
  by (simp add: unread_def content_dropWhile)

lemma unread_Nil: "unread s = [] \<longleftrightarrow> (\<forall>q\<in>set (m_blocks s). it_end q \<le> m_readIndex s)"
  by (simp add: unread_def)

lemma unread_ok: "mbq_inv s \<Longrightarrow> items_ok (unread s)"
  by (simp add: unread_def mbq_inv_def dropWhile_items_ok)

lemma unread_Cons: "unread s = q # r \<Longrightarrow> m_readIndex s < it_end q"
  using hd_dropWhile [of "\<lambda>q. it_end q \<le> m_readIndex s" "m_blocks s"] by (auto simp: unread_def)

definition read_state :: "mbq \<Rightarrow> mbq" where
  "read_state s = fixCurrentRead (snd (updatePreBuf s))"

lemma read_state_simps:
  "m_blocks (read_state s) = m_blocks s" "m_readIndex (read_state s) = m_readIndex s"
  "m_writeIndex (read_state s) = m_writeIndex s" "m_silence (read_state s) = m_silence s"
  "m_preBuf (read_state s) = m_preBuf s" "m_maxRewind (read_state s) = m_maxRewind s"
  "m_missing (read_state s) = m_missing s" "m_requested (read_state s) = m_requested s"
  "m_tLength (read_state s) = m_tLength s" "m_mcalign (read_state s) = m_mcalign s" "mbq_inv s \<Longrightarrow> mbq_inv (read_state s)"
  using updatePreBuf_eq [of s]
  by (auto simp: read_state_def same_frame_simps [OF fixCurrentRead_frame] intro: fixCurrentRead_inv)

lemma cur_items_read_state:
  "mbq_inv s \<Longrightarrow> cur_items (read_state s) = unread s"
  using updatePreBuf_eq [of s] by (auto simp: read_state_def unread_def cur_items_fixed)

lemma mbq_peek_eval:
  assumes "mbq_inv s"
  shows "mbq_peek s =
    (if preBufActive s then (PeekFail, snd (updatePreBuf s))
     else case unread s of
         [] \<Rightarrow> peek_gap (nat (m_writeIndex s - m_readIndex s)) (read_state s)
       | q # _ \<Rightarrow> if it_index q > m_readIndex s then peek_gap (nat (it_index q - m_readIndex s)) (read_state s)
                  else (PeekData (ck_advance (nat (m_readIndex s - it_index q)) (it_chunk q)), read_state s))"
  using updatePreBuf_eq [of s] cur_items_read_state [OF assms] read_state_simps(2,3) [of s]
  by (auto simp: mbq_peek_def cur_item_items Let_def read_state_def split: list.splits)

lemma peek_gap_cases:
  obtains "silence_empty s" "n = 0" "peek_gap n s = (PeekFail, s)"
  | "silence_empty s" "n > 0" "peek_gap n s = (PeekHole n, s)"
  | c where "\<not> silence_empty s" "0 < ck_length c" "n > 0 \<Longrightarrow> ck_length c \<le> n" "peek_gap n s = (PeekData c, s)"
proof (cases "m_silence s")
  case (Some c)
  show ?thesis
  proof (cases "ck_length c = 0")
    case False
    then show ?thesis
      using that(3) [of "if n > 0 \<and> n < ck_length c then ck_truncate n c else c"] Some
      by (auto simp: peek_gap_def silence_empty_def item_simps)
  qed (use that Some in \<open>cases "n = 0"; auto simp: peek_gap_def silence_empty_def\<close>)
qed (use that in \<open>cases "n = 0"; auto simp: peek_gap_def silence_empty_def\<close>)

lemma no_content_before:
  "items_ok (q # r) \<Longrightarrow> t < it_index q \<Longrightarrow> content (q # r) t = None"
  by (intro content_None) force

text \<open>What peek returns, and what is stored at the read index.\<close>

definition peek_matches :: "peek_result \<Rightarrow> mbq \<Rightarrow> bool" where
  "peek_matches res s =
     (case res of
        PeekFail \<Rightarrow> preBufActive s \<or> (silence_empty s \<and> m_writeIndex s \<le> m_readIndex s \<and>
                                        (\<forall>q\<in>set (m_blocks s). it_end q \<le> m_readIndex s))
      | PeekHole n \<Rightarrow> silence_empty s \<and> 0 < n \<and>
          (\<forall>i\<in>{..<n}. content (m_blocks s) (m_readIndex s + int i) = None)
      | PeekData c \<Rightarrow> 0 < ck_length c \<and>
          (\<forall>i\<in>{..<ck_length c}. content (m_blocks s) (m_readIndex s + int i) \<in> {None, Some (ck_bytes c ! i)}))"

lemma gap_matches:
  assumes "\<not> preBufActive s" and "m_silence s' = m_silence s"
    and "\<And>i. n > 0 \<Longrightarrow> i < n \<Longrightarrow> content (m_blocks s) (m_readIndex s + int i) = None"
    and "n = 0 \<Longrightarrow> m_writeIndex s \<le> m_readIndex s \<and> (\<forall>q\<in>set (m_blocks s). it_end q \<le> m_readIndex s)"
  shows "peek_matches (fst (peek_gap n s')) s \<and> snd (peek_gap n s') = s'"
proof (cases rule: peek_gap_cases [where s = s' and n = n])
  case 1 then show ?thesis using assms by (simp add: peek_matches_def silence_empty_def)
next
  case 2 then show ?thesis using assms by (simp add: peek_matches_def silence_empty_def)
next
  case (3 c)
  have "content (m_blocks s) (m_readIndex s + int i) = None" if "i < ck_length c" for i
  proof (cases "n = 0")
    case True
    then show ?thesis using assms(4) by (intro content_None) auto
  next
    case False then show ?thesis using assms(3) [of i] that 3(3) by auto
  qed
  then show ?thesis using 3 by (simp add: peek_matches_def)
qed

theorem peek_ok:
  assumes "mbq_inv s"
  shows "peek_matches (fst (mbq_peek s)) s \<and>
    snd (mbq_peek s) = (if preBufActive s then snd (updatePreBuf s) else read_state s)"
proof (cases "preBufActive s")
  case True
  then show ?thesis by (simp add: mbq_peek_eval [OF assms] peek_matches_def)
next
  case False
  let ?ri = "m_readIndex s"
  have same: "m_silence (read_state s) = m_silence s" by (simp add: read_state_simps)
  have c: "content (m_blocks s) t = content (unread s) t" if "?ri \<le> t" for t
    using that by (simp add: unread_content)
  show ?thesis
  proof (cases "unread s")
    case Nil
    have "peek_matches (fst (peek_gap (nat (m_writeIndex s - ?ri)) (read_state s))) s \<and>
      snd (peek_gap (nat (m_writeIndex s - ?ri)) (read_state s)) = read_state s"
      using False same Nil c by (intro gap_matches) (auto simp flip: unread_Nil)
    then show ?thesis using Nil False by (simp add: mbq_peek_eval [OF assms])
  next
    case (Cons q r)
    have ok: "items_ok (q # r)" using unread_ok [OF assms] Cons by simp
    have q: "it_end q > ?ri" using unread_Cons [OF Cons] .
    show ?thesis
    proof (cases "it_index q > ?ri")
      case True
      have "peek_matches (fst (peek_gap (nat (it_index q - ?ri)) (read_state s))) s \<and>
        snd (peek_gap (nat (it_index q - ?ri)) (read_state s)) = read_state s"
        using False same Cons c True no_content_before [OF ok] by (intro gap_matches) (auto simp del: content.simps)
      then show ?thesis using Cons False True by (simp add: mbq_peek_eval [OF assms])
    next
      case in_item: False
      let ?c = "ck_advance (nat (?ri - it_index q)) (it_chunk q)"
      have "0 < ck_length ?c" using q in_item by (simp add: item_simps)
      moreover have "content (m_blocks s) (?ri + int i) = Some (ck_bytes ?c ! i)" if "i < ck_length ?c" for i
        using content_chunk_view [of q ?ri i r] in_item that c [of "?ri + int i"] Cons by simp
      ultimately have "peek_matches (PeekData ?c) s" by (simp add: peek_matches_def)
      then show ?thesis using Cons False in_item by (simp add: mbq_peek_eval [OF assms])
    qed
  qed
qed

section \<open>Dropping, seeking, flushing\<close>

lemma drop_head_spec:
  "mbq_inv s \<Longrightarrow> m_blocks s = xs \<Longrightarrow>
   mbq_inv (drop_head p xs s) \<and> m_blocks (drop_head p xs s) = dropWhile p xs \<and> same_frame s (drop_head p xs s)"
proof (induction xs arbitrary: s)
  case (Cons q r)
  show ?case
  proof (cases "p q")
    case True
    have "links_ok [q] r s" using Cons.prems links_ok_rev [of "[q]" r "m_blocks s" s] by (simp add: mbq_inv_links)
    then have "links_ok [] r (unlink [] q r s)" by (rule links_ok_unlink) simp
    then have "mbq_inv (unlink [] q r s)" "m_blocks (unlink [] q r s) = r"
      using Cons.prems links_ok_rev [of "[]" r r] by (auto simp: mbq_inv_links unlink_def)
    from Cons.IH [OF this] show ?thesis using True same_frame_trans same_frame_unlink by fastforce
  qed (use Cons.prems in auto)
qed simp

lemma dropBacklog_spec:
  assumes "mbq_inv s"
  shows "mbq_inv (dropBacklog s)" "same_frame s (dropBacklog s)"
    "m_blocks (dropBacklog s) = dropWhile (\<lambda>q. it_end q \<le> m_readIndex s - int (m_maxRewind s)) (m_blocks s)"
  using drop_head_spec [OF assms refl] by (simp_all add: dropBacklog_def)

lemma makeSilence_spec:
  assumes "mbq_inv s"
  shows "mbq_inv (makeSilence s)" "same_frame s (makeSilence s)" "m_blocks (makeSilence s) = []"
  using drop_head_spec [OF assms refl] by (simp_all add: makeSilence_def)

lemma mbq_inv_updates [simp]:
  "mbq_inv (s\<lparr>m_readIndex := a\<rparr>) = mbq_inv s" "mbq_inv (s\<lparr>m_writeIndex := a\<rparr>) = mbq_inv s"
  "mbq_inv (s\<lparr>m_missing := a\<rparr>) = mbq_inv s" "mbq_inv (s\<lparr>m_requested := a\<rparr>) = mbq_inv s"
  "mbq_inv (s\<lparr>m_silence := x\<rparr>) = mbq_inv s" "mbq_inv (s\<lparr>m_mcalign := m\<rparr>) = mbq_inv s"
  by (simp_all add: mbq_inv_def)

lemma mbq_inv_accounting [simp]:
  "mbq_inv (snd (writeIndexChanged a b s)) = mbq_inv s" "mbq_inv (snd (readIndexChanged a s)) = mbq_inv s"
  "mbq_inv (preBufForce s) = mbq_inv s" "mbq_inv (preBufDisable s) = mbq_inv s"
  by (simp_all add: writeIndexChanged_def readIndexChanged_def preBufForce_def preBufDisable_def Let_def)

lemma drop_loop_eval:
  assumes "mbq_inv s" and "n \<noteq> 0" and "\<not> preBufActive s"
  shows "drop_loop n s =
    (case unread s of
       [] \<Rightarrow> Some ((read_state s)\<lparr>m_readIndex := m_readIndex s + int n\<rparr>)
     | q # _ \<Rightarrow> let d = min (it_end q - m_readIndex s) (int n)
                in drop_loop (n - nat d) ((read_state s)\<lparr>m_readIndex := m_readIndex s + d\<rparr>))"
proof -
  have "cur_item (read_state s) = (case unread s of [] \<Rightarrow> None | q # _ \<Rightarrow> Some q)"
    by (simp add: cur_item_items cur_items_read_state [OF assms(1)])
  moreover have "0 < min (it_end q - m_readIndex s) (int n)" if "unread s = q # r" for q r
    using unread_Cons [OF that] assms(2) by simp
  moreover obtain b where "updatePreBuf s = (False, s\<lparr>m_inPreBuf := b\<rparr>)"
    using updatePreBuf_eq [of s] assms(3) by auto
  ultimately show ?thesis
    using assms(2) read_state_simps(2) [of s]
    by (subst drop_loop.simps) (auto simp: read_state_def Let_def min_def not_le split: list.splits)
qed

lemma preBufActive_again:
  "preBufActive s \<Longrightarrow> preBufActive (snd (updatePreBuf s)) \<and> drop_loop n s = Some (if n = 0 then s else snd (updatePreBuf s))"
  by (auto simp: drop_loop.simps [of n s] preBufActive_def updatePreBuf_def mbq_length_def)

lemma drop_loop_spec:
  "mbq_inv s \<Longrightarrow> \<exists>s'. drop_loop n s = Some s' \<and> mbq_inv s' \<and> m_blocks s' = m_blocks s \<and>
     m_readIndex s \<le> m_readIndex s' \<and> m_readIndex s' \<le> m_readIndex s + int n \<and>
     (m_readIndex s' = m_readIndex s + int n \<or> preBufActive s') \<and>
     m_maxRewind s' = m_maxRewind s \<and> m_missing s' = m_missing s \<and> m_writeIndex s' = m_writeIndex s \<and>
     m_requested s' = m_requested s \<and> m_tLength s' = m_tLength s \<and> m_mcalign s' = m_mcalign s"
proof (induction n arbitrary: s rule: less_induct)
  case (less n)
  consider "n = 0" | "n \<noteq> 0" "preBufActive s" | "n \<noteq> 0" "\<not> preBufActive s" "unread s = []"
    | q r where "n \<noteq> 0" "\<not> preBufActive s" "unread s = q # r" by (cases "unread s") auto
  then show ?case
  proof cases
    case 1 then show ?thesis using less.prems by (simp add: drop_loop.simps)
  next
    case 2 then show ?thesis using less.prems preBufActive_again [OF 2(2), of n] updatePreBuf_eq [of s] by auto
  next
    case 3 then show ?thesis using less.prems by (simp add: drop_loop_eval read_state_simps)
  next
    case (4 q r)
    let ?d = "min (it_end q - m_readIndex s) (int n)"
    let ?s = "(read_state s)\<lparr>m_readIndex := m_readIndex s + ?d\<rparr>"
    have d: "0 < ?d" "?d \<le> int n" using unread_Cons [OF 4(3)] 4(1) by auto
    then have "n - nat ?d < n" by simp
    from less.IH [OF this, of ?s] less.prems
    obtain s' where "drop_loop (n - nat ?d) ?s = Some s'" "mbq_inv s'" "m_blocks s' = m_blocks s"
      "m_readIndex s + ?d \<le> m_readIndex s'" "m_readIndex s' \<le> m_readIndex s + ?d + int (n - nat ?d)"
      "m_readIndex s' = m_readIndex s + ?d + int (n - nat ?d) \<or> preBufActive s'"
      "m_maxRewind s' = m_maxRewind s" "m_missing s' = m_missing s" "m_writeIndex s' = m_writeIndex s"
      "m_requested s' = m_requested s" "m_tLength s' = m_tLength s" "m_mcalign s' = m_mcalign s"
      by (auto simp: read_state_simps)
    moreover have "?d + int (n - nat ?d) = int n" using d by (simp add: of_nat_diff)
    moreover have "drop_loop n s = drop_loop (n - nat ?d) ?s"
      using 4 less.prems by (simp add: drop_loop_eval Let_def)
    ultimately show ?thesis using d by (intro exI [of _ s']) auto
  qed
qed

theorem drop_ok:
  assumes "mbq_inv s"
  shows "\<exists>d s'. mbq_drop n s = Some (d, s') \<and> mbq_inv s' \<and> 0 \<le> d \<and> d \<le> int n \<and>
    m_readIndex s' = m_readIndex s + d \<and> m_missing s' = m_missing s + d \<and> m_writeIndex s' = m_writeIndex s \<and>
    (d = int n \<or> preBufActive s') \<and>
    (\<forall>t. m_readIndex s' - int (m_maxRewind s) \<le> t \<longrightarrow> content (m_blocks s') t = content (m_blocks s) t)"
proof -
  obtain s1 where s1: "drop_loop n s = Some s1" "mbq_inv s1" "m_blocks s1 = m_blocks s"
     "m_readIndex s \<le> m_readIndex s1" "m_readIndex s1 \<le> m_readIndex s + int n"
     "m_readIndex s1 = m_readIndex s + int n \<or> preBufActive s1"
     "m_maxRewind s1 = m_maxRewind s" "m_missing s1 = m_missing s" "m_writeIndex s1 = m_writeIndex s"
    using drop_loop_spec [OF assms, of n] by blast
  note b = dropBacklog_spec [OF s1(2)]
  let ?d = "m_readIndex s1 - m_readIndex s" and ?s' = "snd (readIndexChanged (m_readIndex s) (dropBacklog s1))"
  have "preBufActive ?s' = preBufActive s1"
    by (simp add: preBufActive_def mbq_length_def readIndexChanged_def Let_def same_frame_simps [OF b(2)])
  moreover have "mbq_drop n s = Some (?d, ?s')"
    using s1(1) by (simp add: mbq_drop_def readIndexChanged_def Let_def same_frame_simps [OF b(2)])
  moreover have "m_blocks ?s' = m_blocks (dropBacklog s1)" by (simp add: readIndexChanged_def Let_def)
  moreover have "content (m_blocks (dropBacklog s1)) t = content (m_blocks s) t"
    if "m_readIndex s1 - int (m_maxRewind s) \<le> t" for t
    using that b(3) content_dropWhile s1(3,7) by simp
  moreover have "mbq_inv ?s'" using b(1) by simp
  ultimately show ?thesis using s1
    by (intro exI [of _ ?d] exI [of _ ?s']) (auto simp: readIndexChanged_def Let_def same_frame_simps [OF b(2)])
qed

section \<open>Aligned writes\<close>

lemma push_frame:
  assumes "mbq_inv s" and "0 < ck_length c" and "mbq_push c s = (r, s')"
  shows "same_frame (s\<lparr>m_writeIndex := m_writeIndex s', m_requested := m_requested s'\<rparr>) s' \<and> mbq_inv s' \<and>
    m_requested s' + m_writeIndex s' = m_requested s + m_writeIndex s"
proof (cases "canPush (ck_length c) s")
  case True
  from push_ok [OF assms(1,2) True] assms(3)
  have inv: "mbq_inv s'" "m_requested s' + m_writeIndex s' = m_requested s + m_writeIndex s" by auto
  from assms(1,2) True show ?thesis
  proof (cases rule: push_cases)
    case (1 rl0 r0 rl r s2 s3)
    have "same_frame (s2\<lparr>m_writeIndex := m_writeIndex s3\<rparr>) s3"
      using 1(9) by (auto simp: same_frame_def place_chunk_def merge_chunk_def)
    then have "same_frame (s\<lparr>m_writeIndex := m_writeIndex s3\<rparr>) s3"
      using 1(5) by (cases s; cases s2; cases s3) (simp add: same_frame_def)
    moreover have "s' = s3\<lparr>m_requested := m_requested s'\<rparr>"
      using 1(10) assms(3) by (auto simp: writeIndexChanged_def Let_def)
    ultimately have "same_frame (s\<lparr>m_writeIndex := m_writeIndex s', m_requested := m_requested s'\<rparr>) s'"
      by (cases s; cases s'; cases s3) (auto simp: same_frame_def)
    then show ?thesis using inv by simp
  qed
next
  case False
  then have "s' = s" using assms(3) by (simp add: mbq_push_def)
  then show ?thesis using assms(1) by (simp add: same_frame_def)
qed

text \<open>The flow-control balance that every operation keeps.\<close>

definition credit :: "mbq \<Rightarrow> int" where
  "credit s = m_missing s + m_requested s + (m_writeIndex s - m_readIndex s) - int (m_tLength s)"

definition queue_good :: "int \<Rightarrow> mbq \<Rightarrow> bool" where
  "queue_good k s \<longleftrightarrow> mbq_inv s \<and> mc_idle (m_mcalign s) \<and> credit s = k"

lemma push_good:
  assumes "mbq_inv s" and "0 < ck_length c" and "mbq_push c s = (r, s')"
  shows "mbq_inv s' \<and> credit s' = credit s \<and> m_mcalign s' = m_mcalign s"
proof -
  note f = push_frame [OF assms]
  from same_frame_simps(2,7,8,11,12,13) [OF conjunct1 [OF f]] f show ?thesis by (simp add: credit_def)
qed

lemma mc_pops_mono: "mc_pops k m = Some x \<Longrightarrow> k \<le> n \<Longrightarrow> mc_pops n m = Some x"
proof (induction k arbitrary: m n x)
  case (Suc k)
  then obtain j where j: "n = Suc j" "k \<le> j" by (cases n) auto
  obtain o1 m1 where pop: "mc_pop m = (o1, m1)" by fastforce
  show ?case
  proof (cases o1)
    case None
    then show ?thesis using Suc.prems(1) pop j by simp
  next
    case (Some c)
    then obtain y where "mc_pops k m1 = Some y" "x = map_prod ((#) c) id y"
      using Suc.prems(1) pop by auto
    then show ?thesis using Suc.IH [of m1 y j] Some pop j by simp
  qed
qed simp

lemma align_loop_good:
  "mc_pops k (m_mcalign s) = Some (cs, m') \<Longrightarrow> k \<le> 4 \<Longrightarrow> mbq_inv s \<Longrightarrow> mc_idle m' \<Longrightarrow>
   \<forall>d\<in>set cs. 0 < ck_length d \<Longrightarrow>
   \<exists>r s'. align_loop k s = Some (r, s') \<and> queue_good (credit s) s'"
proof (induction k arbitrary: s cs)
  case (Suc k)
  show ?case
  proof (cases "mc_pop (m_mcalign s)")
    case (Pair o1 m1)
    show ?thesis
    proof (cases o1)
      case None
      then have "align_loop (Suc k) s = Some (0, s\<lparr>m_mcalign := m1\<rparr>)" "m1 = m'"
        using Pair Suc.prems(1) by (simp_all add: align_loop.simps)
      then show ?thesis using Suc.prems by (simp add: queue_good_def credit_def)
    next
      case (Some c)
      then obtain cs1 where cs1: "mc_pops k m1 = Some (cs1, m')" "cs = c # cs1"
        using Pair Suc.prems(1) by auto
      obtain r s1 where push: "mbq_push c (s\<lparr>m_mcalign := m1\<rparr>) = (r, s1)" by fastforce
      have c: "0 < ck_length c" using Suc.prems(5) cs1(2) by simp
      have s1: "mbq_inv s1" "credit s1 = credit s" "m_mcalign s1 = m1"
        using push_good [OF _ c push] Suc.prems(3) by (auto simp: credit_def)
      show ?thesis
      proof (cases "r < 0")
        case True
        have "mc_flush m1 = Some m'" using mc_pops_mono [OF cs1(1), of 4] Suc.prems(2) by (simp add: mc_flush_def)
        then have "align_loop (Suc k) s = Some (-1, s1\<lparr>m_mcalign := m'\<rparr>)"
          using Pair Some push True s1(3) by (simp add: align_loop.simps)
        then show ?thesis using s1 Suc.prems(4) by (simp add: queue_good_def credit_def)
      next
        case False
        then have "align_loop (Suc k) s = align_loop k s1"
          using Pair Some push by (simp add: align_loop.simps [of "Suc k"])
        then show ?thesis using Suc.IH [of s1 cs1] cs1 s1 Suc.prems by simp
      qed
    qed
  qed
qed simp

lemma pushAlign_good:
  assumes "queue_good k s" and "0 < ck_length c"
  shows "\<exists>r s'. pushAlign b c s = Some (r, s') \<and> queue_good k s'"
proof (cases "m_base s = 1 \<or> \<not> canPush (mc_csize (ck_length c) (m_mcalign s)) s")
  case True
  then show ?thesis using assms push_good [OF _ assms(2)]
    by (auto simp: pushAlign_def queue_good_def split: if_splits) (metis surj_pair)+
next
  case False
  let ?s = "s\<lparr>m_mcalign := mc_push b c (m_mcalign s)\<rparr>"
  obtain cs m' where cs: "mc_pops 4 (mc_push b c (m_mcalign s)) = Some (cs, m')" "mc_idle m'"
    "\<forall>d\<in>set cs. 0 < ck_length d"
    using mc_push_idle_cases [of "m_mcalign s" c b] assms by (auto simp: queue_good_def)
  have "\<exists>r s'. align_loop 4 ?s = Some (r, s') \<and> queue_good (credit ?s) s'"
    using cs assms(1) by (intro align_loop_good [of 4 ?s cs m']) (auto simp: queue_good_def)
  then show ?thesis using False assms(1) by (simp add: pushAlign_def queue_good_def credit_def)
qed

section \<open>Every history of a queue\<close>

inductive queue_step :: "mbq \<Rightarrow> mbq \<Rightarrow> bool" where
  step_push: "0 < ck_length c \<Longrightarrow> mbq_push c s = (r, s') \<Longrightarrow> queue_step s s'"
| step_pushAlign: "0 < ck_length c \<Longrightarrow> pushAlign b c s = Some (r, s') \<Longrightarrow> queue_step s s'"
| step_peek: "mbq_peek s = (res, s') \<Longrightarrow> queue_step s s'"
| step_peekFixed: "peekFixedSize n s = (res, s') \<Longrightarrow> queue_step s s'"
| step_drop: "mbq_drop n s = Some (d, s') \<Longrightarrow> queue_step s s'"
| step_rewind: "mbq_rewind n s = (d, s') \<Longrightarrow> queue_step s s'"
| step_seek: "queue_step s (mbq_seek offset mode account s)"
| step_flushWrite: "queue_step s (flushWrite account s)"
| step_flushRead: "queue_step s (flushRead s)"
| step_popMissing: "popMissing s = (n, s') \<Longrightarrow> queue_step s s'"
| step_applyAttr: "queue_step s (applyAttr a s)"
| step_setMaxRewind: "queue_step s (setMaxRewind n s)"
| step_setSilence: "queue_step s (setSilence sil s)"
| step_preBufDisable: "queue_step s (preBufDisable s)"
| step_preBufForce: "queue_step s (preBufForce s)"

lemma setPreBuf_eq: "\<exists>p b. setPreBuf n s = s\<lparr>m_preBuf := p, m_inPreBuf := b\<rparr>"
proof -
  obtain p b where pb: "setPreBuf n s = (if b then s\<lparr>m_preBuf := p, m_inPreBuf := False\<rparr> else s\<lparr>m_preBuf := p\<rparr>)"
    unfolding setPreBuf_def Let_def by blast
  have "s\<lparr>m_preBuf := p\<rparr> = s\<lparr>m_preBuf := p, m_inPreBuf := m_inPreBuf s\<rparr>" by simp
  then show ?thesis using pb by metis
qed

lemma preBuf_same: "s\<lparr>m_preBuf := m_preBuf s, m_inPreBuf := m_inPreBuf s\<rparr> = s" by simp

lemma setMinReq_eq: "\<exists>r p b. setMinReq n s = s\<lparr>m_minReq := r, m_preBuf := p, m_inPreBuf := b\<rparr>"
proof -
  obtain r l b where b: "setMinReq n s = (if b then setPreBuf l (s\<lparr>m_minReq := r\<rparr>) else s\<lparr>m_minReq := r\<rparr>)"
    unfolding setMinReq_def Let_def by blast
  show ?thesis using b setPreBuf_eq [of l "s\<lparr>m_minReq := r\<rparr>"] preBuf_same [of "s\<lparr>m_minReq := r\<rparr>"] by metis
qed

lemma setTLength_eq:
  "\<exists>t r p b. setTLength n s =
     s\<lparr>m_tLength := t, m_minReq := r, m_preBuf := p, m_inPreBuf := b,
       m_missing := m_missing s + int t - int (m_tLength s)\<rparr>"
proof -
  obtain t l2 l3 b2 b3 s2 s3 where
    s2: "s2 = (if b2 then setMinReq l2 (s\<lparr>m_tLength := t\<rparr>) else s\<lparr>m_tLength := t\<rparr>)" and
    s3: "s3 = (if b3 then setPreBuf l3 s2 else s2)" and
    eq: "setTLength n s = s3\<lparr>m_missing := m_missing s3 + int (m_tLength s3) - int (m_tLength s)\<rparr>"
    unfolding setTLength_def Let_def by blast
  have "s\<lparr>m_tLength := t\<rparr> = s\<lparr>m_tLength := t, m_minReq := m_minReq s, m_preBuf := m_preBuf s, m_inPreBuf := m_inPreBuf s\<rparr>"
    by simp
  then obtain r p b where 2: "s2 = s\<lparr>m_tLength := t, m_minReq := r, m_preBuf := p, m_inPreBuf := b\<rparr>"
    using setMinReq_eq [of l2 "s\<lparr>m_tLength := t\<rparr>"] s2 by (metis (no_types))
  then obtain p' b' where "s3 = s2\<lparr>m_preBuf := p', m_inPreBuf := b'\<rparr>"
    using setPreBuf_eq [of l3 s2] s3 preBuf_same [of s2] by (metis (no_types))
  with 2 eq show ?thesis by (auto intro!: exI)
qed

lemma credit_setTLength: "credit (setTLength n s) = credit s"
  using setTLength_eq [of n s] by (auto simp: credit_def)

lemma mbq_frames:
  assumes "s' = s\<lparr>m_tLength := t, m_minReq := r, m_preBuf := p, m_inPreBuf := b, m_missing := m_missing s + int t - int (m_tLength s)\<rparr>
    \<or> s' = s\<lparr>m_minReq := r, m_preBuf := p, m_inPreBuf := b\<rparr> \<or> s' = s\<lparr>m_preBuf := p, m_inPreBuf := b\<rparr>
    \<or> s' = s\<lparr>m_maxLength := t\<rparr> \<or> s' = s\<lparr>m_maxRewind := t\<rparr> \<or> s' = s\<lparr>m_inPreBuf := b\<rparr>
    \<or> s' = s\<lparr>m_silence := x\<rparr>"
  shows "queue_good k s' = queue_good k s"
  using assms by (elim disjE) (simp_all add: queue_good_def mbq_inv_def credit_def algebra_simps)

lemma setters_good:
  "queue_good k (setPreBuf n s) = queue_good k s" "queue_good k (setMinReq n s) = queue_good k s"
  "queue_good k (setTLength n s) = queue_good k s" "queue_good k (setMaxRewind n s) = queue_good k s"
proof -
  obtain p b where "setPreBuf n s = s\<lparr>m_preBuf := p, m_inPreBuf := b\<rparr>" using setPreBuf_eq by blast
  then show "queue_good k (setPreBuf n s) = queue_good k s" using mbq_frames by blast
  obtain r p b where "setMinReq n s = s\<lparr>m_minReq := r, m_preBuf := p, m_inPreBuf := b\<rparr>" using setMinReq_eq by blast
  then show "queue_good k (setMinReq n s) = queue_good k s" using mbq_frames by blast
  obtain t r p b where "setTLength n s = s\<lparr>m_tLength := t, m_minReq := r, m_preBuf := p, m_inPreBuf := b,
       m_missing := m_missing s + int t - int (m_tLength s)\<rparr>" using setTLength_eq by blast
  then show "queue_good k (setTLength n s) = queue_good k s" using mbq_frames by blast
  show "queue_good k (setMaxRewind n s) = queue_good k s" unfolding setMaxRewind_def using mbq_frames by blast
qed

lemma setMaxLength_good: "queue_good k (setMaxLength n s) = queue_good k s"
proof -
  have "queue_good k (s\<lparr>m_maxLength := l\<rparr>) = queue_good k s" for l using mbq_frames by blast
  then show ?thesis by (simp add: setMaxLength_def Let_def setters_good)
qed

lemma applyAttr_good: "queue_good k (applyAttr a s) = queue_good k s"
  by (simp add: applyAttr_def setters_good setMaxLength_good)

inductive queue_reach :: "int \<Rightarrow> mbq \<Rightarrow> bool" where
  reach_new: "0 < base \<Longrightarrow> queue_reach (- int tlength) (new_mbq idx maxlength tlength base prebuf minreq maxrewind sil)"
| reach_step: "queue_reach k s \<Longrightarrow> queue_step s s' \<Longrightarrow> queue_reach k s'"

lemma fixCurrentRead_good: "queue_good k s \<Longrightarrow> queue_good k (fixCurrentRead s)"
  using same_frame_simps [OF fixCurrentRead_frame [of s]] fixCurrentRead_inv [of s]
  by (auto simp: queue_good_def credit_def)

lemma updatePreBuf_good: "queue_good k (snd (updatePreBuf s)) = queue_good k s"
  using updatePreBuf_eq [of s] mbq_frames by (metis snd_conv)

lemma read_state_good: "queue_good k s \<Longrightarrow> queue_good k (read_state s)"
  by (simp add: read_state_def fixCurrentRead_good updatePreBuf_good)

lemma peek_good: "queue_good k s \<Longrightarrow> queue_good k (snd (mbq_peek s))"
  using peek_ok [of s] read_state_good [of k s] updatePreBuf_good [of k s] by (auto simp: queue_good_def)

lemma peekFixed_snd: "snd (peekFixedSize n s) = snd (mbq_peek s)"
  by (simp add: peekFixedSize_def split: prod.splits peek_result.splits)

lemma dropBacklog_good: "queue_good k s \<Longrightarrow> queue_good k (dropBacklog s)"
  using dropBacklog_spec [of s] by (auto simp: queue_good_def credit_def same_frame_simps)

lemma makeSilence_good: "queue_good k s \<Longrightarrow> queue_good k (makeSilence s)"
  using makeSilence_spec [of s] by (auto simp: queue_good_def credit_def same_frame_simps)

lemma preBufForce_good: "queue_good k (preBufForce s) = queue_good k s"
  using mbq_frames [where k = k and s = s and s' = "s\<lparr>m_inPreBuf := True\<rparr>" and b = True] by (simp add: preBufForce_def)

text \<open>Moving an index and reporting the change keeps the balance.\<close>

lemma writeIndexChanged_good:
  "queue_good k s \<Longrightarrow> queue_good k (snd (writeIndexChanged (m_writeIndex s) account (s\<lparr>m_writeIndex := wi\<rparr>)))"
  by (simp add: queue_good_def writeIndexChanged_def Let_def credit_def)

lemma readIndexChanged_good:
  "queue_good k s \<Longrightarrow> queue_good k (snd (readIndexChanged (m_readIndex s) (s\<lparr>m_readIndex := ri\<rparr>)))"
  by (simp add: queue_good_def readIndexChanged_def Let_def credit_def)

lemma dropBacklog_writeIndex:
  assumes "queue_good k s"
  shows "queue_good k (snd (writeIndexChanged (m_writeIndex s) account (dropBacklog (s\<lparr>m_writeIndex := wi\<rparr>))))"
proof -
  have i: "mbq_inv (s\<lparr>m_writeIndex := wi\<rparr>)" using assms by (simp add: queue_good_def)
  note b = dropBacklog_spec [OF i]
  show ?thesis using assms b(1)
    by (auto simp: queue_good_def writeIndexChanged_def Let_def credit_def same_frame_simps [OF b(2)])
qed

lemma drop_good:
  assumes "queue_good k s" and "mbq_drop n s = Some (d, s')"
  shows "queue_good k s'"
proof -
  have i: "mbq_inv s" using assms(1) by (simp add: queue_good_def)
  obtain s1 where s1: "drop_loop n s = Some s1" "mbq_inv s1" "m_missing s1 = m_missing s"
     "m_writeIndex s1 = m_writeIndex s" "m_requested s1 = m_requested s" "m_tLength s1 = m_tLength s"
     "m_mcalign s1 = m_mcalign s"
    using drop_loop_spec [OF i, of n] by blast
  note b = dropBacklog_spec [OF s1(2)]
  show ?thesis using assms s1 b(1)
    by (auto simp: mbq_drop_def readIndexChanged_def Let_def queue_good_def credit_def same_frame_simps [OF b(2)])
qed

lemma rewind_good: "queue_good k s \<Longrightarrow> queue_good k (snd (mbq_rewind n s))"
  by (simp add: mbq_rewind_def readIndexChanged_good)

lemma seek_good: "queue_good k s \<Longrightarrow> queue_good k (mbq_seek offset mode account s)"
  by (simp add: mbq_seek_def dropBacklog_writeIndex)

lemma flush_good:
  assumes "queue_good k s"
  shows "queue_good k (flushWrite account s)" "queue_good k (flushRead s)"
proof -
  let ?s = "makeSilence s"
  have g: "queue_good k ?s" using assms by (rule makeSilence_good)
  have "preBufForce (?s\<lparr>m_writeIndex := w\<rparr>) = (preBufForce ?s)\<lparr>m_writeIndex := w\<rparr>"
    "preBufForce (?s\<lparr>m_readIndex := w\<rparr>) = (preBufForce ?s)\<lparr>m_readIndex := w\<rparr>"
    "m_writeIndex (preBufForce ?s) = m_writeIndex ?s" "m_readIndex (preBufForce ?s) = m_readIndex ?s" for w
    by (simp_all add: preBufForce_def)
  then show "queue_good k (flushWrite account s)" "queue_good k (flushRead s)"
    using writeIndexChanged_good [of k "preBufForce ?s" account] readIndexChanged_good [of k "preBufForce ?s"] g
    by (simp_all add: flushWrite_def flushRead_def Let_def preBufForce_good)
qed

lemma popMissing_good: "queue_good k s \<Longrightarrow> queue_good k (snd (popMissing s))"
  by (auto simp: popMissing_def queue_good_def mbq_inv_def credit_def)

lemma setSilence_good: "queue_good k (setSilence sil s) = queue_good k s"
  unfolding setSilence_def using mbq_frames by blast

lemma preBufDisable_good: "queue_good k (preBufDisable s) = queue_good k s"
  unfolding preBufDisable_def using mbq_frames by blast

lemmas step_good = rewind_good seek_good flush_good popMissing_good setSilence_good preBufDisable_good
  preBufForce_good peek_good drop_good applyAttr_good setters_good

lemma queue_step_good:
  assumes "queue_step s s'" and "queue_good k s"
  shows "queue_good k s'"
  using assms
proof cases
  case (step_push c r)
  then show ?thesis using push_good [of s c r s'] assms(2) by (auto simp: queue_good_def)
next
  case (step_pushAlign c b r)
  then show ?thesis using pushAlign_good [OF assms(2), of c b] by auto
next
  case (step_peek res)
  then show ?thesis using peek_good [OF assms(2)] by simp
next
  case (step_peekFixed n res)
  then show ?thesis using peek_good [OF assms(2)] peekFixed_snd [of n s] by simp
next
  case (step_rewind n d)
  then show ?thesis using rewind_good [OF assms(2), of n] by simp
next
  case (step_popMissing n)
  then show ?thesis using popMissing_good [OF assms(2)] by simp
qed (use assms(2) in \<open>simp_all add: step_good drop_good\<close>)

lemma new_mbq_good:
  assumes "0 < base"
  shows "queue_good (- int tlength) (new_mbq idx maxlength tlength base prebuf minreq maxrewind sil)"
proof -
  have "queue_good k (s\<lparr>m_silence := x\<rparr>) = queue_good k s" for k s x using mbq_frames by blast
  then show ?thesis using assms
    by (auto simp: new_mbq_def Let_def setters_good setMaxLength_good split: option.splits)
      (simp_all add: queue_good_def mbq_inv_def credit_def new_mcalign_def mc_idle_def)
qed

theorem queue_reach_good: "queue_reach k s \<Longrightarrow> queue_good k s"
  by (induction rule: queue_reach.induct) (auto intro: new_mbq_good queue_step_good)

section \<open>Peeking a fixed number of bytes\<close>

text \<open>res continues acc and shows, from position ri on, what the items hold.\<close>

definition shows_items :: "nat \<Rightarrow> mbq_item list \<Rightarrow> int \<Rightarrow> bytes \<Rightarrow> bytes \<Rightarrow> bool" where
  "shows_items n items ri acc res \<longleftrightarrow>
     length res = n \<and> take (length acc) res = acc \<and>
     (\<forall>i. length acc \<le> i \<and> i < n \<longrightarrow> content items (ri + int i - int (length acc)) \<in> {None, Some (res ! i)})"

lemma shows_items_step:
  assumes "shows_items n items' (ri + int (length t)) (acc @ t) res"
    and "\<And>j. j < length t \<Longrightarrow> content items (ri + int j) \<in> {None, Some (t ! j)}"
    and "length acc + length t < n \<Longrightarrow> \<forall>x\<ge>ri + int (length t). content items' x = content items x"
  shows "shows_items n items ri acc res"
proof -
  have tk: "take (length acc + length t) res = acc @ t" using assms(1) by (simp add: shows_items_def)
  have a: "take (length acc) res = acc" using arg_cong [OF tk, of "take (length acc)"] by (simp add: min_def)
  have "content items (ri + int i - int (length acc)) \<in> {None, Some (res ! i)}" if i: "length acc \<le> i" "i < n" for i
  proof (cases "i < length acc + length t")
    case True
    have "res ! i = (acc @ t) ! i" using tk True by (metis nth_take)
    then show ?thesis using assms(2) [of "i - length acc"] i True by (auto simp: nth_append of_nat_diff algebra_simps)
  next
    case False
    have e: "ri + int (length t) + int i - int (length (acc @ t)) = ri + int i - int (length acc)" by simp
    have "content items' (ri + int i - int (length acc)) \<in> {None, Some (res ! i)}"
      using assms(1) False i(2) unfolding shows_items_def e by (simp add: add_diff_eq)
    then show ?thesis using assms(3) False i(2) by auto
  qed
  then show ?thesis using assms(1) a by (simp add: shows_items_def)
qed

lemma fixed_loop_shows:
  "items_ok items \<Longrightarrow> sil \<noteq> [] \<Longrightarrow> length acc \<le> n \<Longrightarrow>
   \<exists>res. fixed_loop n sil items ri acc = Some res \<and> shows_items n items ri acc res"
proof (induction n sil items ri acc rule: fixed_loop.induct)
  case (1 n sil items ri acc)
  show ?case
  proof (cases "n \<le> length acc")
    case True
    then have "fixed_loop n sil items ri acc = Some acc" by (simp add: fixed_loop.simps [of n])
    moreover have "shows_items n items ri acc acc" using True "1.prems"(3) by (auto simp: shows_items_def)
    ultimately show ?thesis by blast
  next
    case room: False
    show ?thesis
    proof (cases items)
      case Nil
      let ?t = "take (n - length acc) sil"
      have ne: "?t \<noteq> []" using room "1.prems"(2) by simp
      have "\<exists>res. fixed_loop n sil [] (ri + int (length ?t)) (acc @ ?t) = Some res \<and>
          shows_items n [] (ri + int (length ?t)) (acc @ ?t) res"
        using "1.IH"(1) [OF room refl Nil refl ne] "1.prems"(2) room by simp
      then show ?thesis using room Nil ne shows_items_step [where items = "[]" and items' = "[]" and t = ?t and n = n and ri = ri and acc = acc]
        by (subst fixed_loop.simps) (auto simp: Let_def)
    next
      case (Cons q rest)
      have ok: "items_ok rest" "it_index q < it_end q" "\<forall>p\<in>set rest. it_end q \<le> it_index p"
        using "1.prems"(1) Cons by auto
      show ?thesis
      proof (cases "it_index q > ri")
        case True
        let ?t = "take (n - length acc) (take (nat (it_index q - ri)) sil)"
        have ne: "?t \<noteq> []" using room True "1.prems"(2) by simp
        have "\<exists>res. fixed_loop n sil items (ri + int (length ?t)) (acc @ ?t) = Some res \<and>
            shows_items n items (ri + int (length ?t)) (acc @ ?t) res"
          using "1.IH"(2) [OF room refl Cons True refl ne] "1.prems" room by simp
        moreover have "content items (ri + int j) \<in> {None, Some (?t ! j)}" if "j < length ?t" for j
        proof -
          have "ri + int j < it_index q" using that by (auto simp: zless_nat_eq_int_zless)
          then show ?thesis using no_content_before [of q rest "ri + int j"] "1.prems"(1) Cons by (simp del: content.simps)
        qed
        ultimately show ?thesis using room Cons ne True shows_items_step [where items = items and items' = items and t = ?t and n = n and ri = ri and acc = acc]
          by (subst fixed_loop.simps) (auto simp: Let_def)
      next
        case False
        let ?v = "ck_advance (nat (ri - it_index q)) (it_chunk q)"
        let ?t = "take (n - length acc) (ck_bytes ?v)"
        have t: "?t = take (n - length acc) (drop (nat (ri - it_index q)) (ck_bytes (it_chunk q)))"
          by (simp add: ck_advance_def)
        have "\<exists>res. fixed_loop n sil rest (ri + int (length ?t)) (acc @ ?t) = Some res \<and>
            shows_items n rest (ri + int (length ?t)) (acc @ ?t) res"
          using "1.IH"(3) [OF room refl Cons False t] "1.prems" room ok(1) by simp
        moreover have "content items (ri + int j) \<in> {None, Some (?t ! j)}" if "j < length ?t" for j
          using content_chunk_view [of q ri j rest] False that Cons by (simp add: ck_length_def)
        moreover have "\<forall>x\<ge>ri + int (length ?t). content rest x = content items x" if "length acc + length ?t < n"
        proof -
          have "ri + int (length ?t) \<ge> it_end q" using that False
            by (auto simp: item_simps min_def split: if_splits)
          then show ?thesis using Cons by simp
        qed
        ultimately show ?thesis
          using room Cons False t shows_items_step [where items = items and items' = rest and t = ?t and n = n and ri = ri and acc = acc]
          by (subst fixed_loop.simps) (auto simp: Let_def)
      qed
    qed
  qed
qed

lemma peekFixedSize_shows:
  assumes "mbq_inv s" and "\<not> silence_empty s" and "\<not> preBufActive s"
  shows "\<exists>res s'. peekFixedSize n s = (Some (Some res), s') \<and> length res = n \<and>
    (\<forall>i<n. content (m_blocks s) (m_readIndex s + int i) \<in> {None, Some (res ! i)})"
proof -
  have m: "peek_matches (fst (mbq_peek s)) s" "snd (mbq_peek s) = read_state s"
    using peek_ok [OF assms(1)] assms(3) by auto
  then obtain c where c: "mbq_peek s = (PeekData c, read_state s)"
    using assms(2,3) by (cases "mbq_peek s") (auto simp: peek_matches_def split: peek_result.splits)
  have cc: "content (m_blocks s) (m_readIndex s + int i) \<in> {None, Some (ck_bytes c ! i)}" if "i < ck_length c" for i
    using m(1) c that by (auto simp: peek_matches_def)
  show ?thesis
  proof (cases "n \<le> ck_length c")
    case True
    then have "peekFixedSize n s = (Some (Some (take n (ck_bytes c))), read_state s)"
      using c by (simp add: peekFixedSize_def)
    then show ?thesis using True cc by (intro exI [of _ "take n (ck_bytes c)"] exI [of _ "read_state s"]) (auto simp: ck_length_def)
  next
    case False
    obtain sc where sc: "m_silence s = Some sc" "ck_bytes sc \<noteq> []"
      using assms(2) by (auto simp: silence_empty_def ck_length_def split: option.splits)
    have "items_ok (unread s)" by (rule unread_ok [OF assms(1)])
    then obtain res where res: "fixed_loop n (ck_bytes sc) (unread s) (m_readIndex s + int (ck_length c)) (ck_bytes c) = Some res"
      "shows_items n (unread s) (m_readIndex s + int (ck_length c)) (ck_bytes c) res"
      using fixed_loop_shows [of "unread s" "ck_bytes sc" "ck_bytes c" n] sc False by (auto simp: ck_length_def)
    have p: "peekFixedSize n s = (Some (Some res), read_state s)"
      using c False res(1) sc by (simp add: peekFixedSize_def cur_items_read_state [OF assms(1)] read_state_simps)
    have "content (m_blocks s) (m_readIndex s + int i) \<in> {None, Some (res ! i)}" if "i < n" for i
    proof (cases "i < ck_length c")
      case True
      have "take (ck_length c) res = ck_bytes c" using res(2) by (simp add: shows_items_def ck_length_def)
      then have "res ! i = ck_bytes c ! i" using True by (metis nth_take)
      then show ?thesis using cc [OF True] by simp
    next
      case False
      then have "content (unread s) (m_readIndex s + int i) \<in> {None, Some (res ! i)}"
        using res(2) that unfolding shows_items_def ck_length_def by (simp add: add.assoc)
      then show ?thesis using unread_content [of s "m_readIndex s + int i"] by simp
    qed
    then show ?thesis using p res(2) by (intro exI [of _ res] exI [of _ "read_state s"]) (auto simp: shows_items_def)
  qed
qed

section \<open>Metrics\<close>

definition metrics_ok :: "mbq \<Rightarrow> bool" where
  "metrics_ok s \<longleftrightarrow>
     m_base s dvd m_maxLength s \<and> m_base s dvd m_tLength s \<and> m_base s dvd m_minReq s \<and> m_base s dvd m_preBuf s \<and>
     m_base s \<le> m_minReq s \<and> m_minReq s \<le> m_tLength s \<and> m_tLength s \<le> m_maxLength s \<and>
     m_preBuf s \<le> m_tLength s + m_base s - m_minReq s"

lemma sz_up_bound:
  assumes "0 < b" and "x + b \<le> SIZE_MOD"
  shows "sz_up x b = (x + b - 1) div b * b" "x \<le> sz_up x b" "sz_up x b < x + b" "b dvd sz_up x b"
proof -
  have "sz_sub (sz_add x b) 1 = x + b - 1"
  proof (cases "x + b = SIZE_MOD")
    case True then show ?thesis by (simp add: sz_sub_def sz_add_def SIZE_MOD_def)
  next
    case False
    then show ?thesis using assms by (simp add: sz_sub_def sz_add_def SIZE_MOD_def mod_if)
  qed
  then show e: "sz_up x b = (x + b - 1) div b * b" by (simp add: sz_up_def)
  have "(x + b - 1) div b * b + (x + b - 1) mod b = x + b - 1" by simp
  moreover have "(x + b - 1) mod b < b" using assms(1) by simp
  ultimately show "x \<le> sz_up x b" "sz_up x b < x + b" using e assms(1) by linarith+
  show "b dvd sz_up x b" using e by simp
qed

lemma prebuf_limit:
  assumes "minreq \<le> t" and "t + b < SIZE_MOD"
  shows "sz_sub (sz_add t b) minreq = t + b - minreq"
  using assms by (auto simp: sz_sub_def sz_add_def SIZE_MOD_def mod_if)

lemma setPreBuf_value:
  "m_preBuf (setPreBuf n s) \<le> sz_sub (sz_add (m_tLength s) (m_base s)) (m_minReq s)"
  "m_base s dvd sz_sub (sz_add (m_tLength s) (m_base s)) (m_minReq s) \<Longrightarrow> m_base s dvd m_preBuf (setPreBuf n s)"
  by (auto simp: setPreBuf_def Let_def sz_up_def)

lemma setMinReq_value:
  assumes "0 < m_base s" and "m_base s \<le> m_tLength s" and "m_base s dvd m_tLength s"
  shows "m_base s dvd m_minReq (setMinReq n s)" "m_base s \<le> m_minReq (setMinReq n s)"
    "m_minReq (setMinReq n s) \<le> m_tLength s" "m_tLength (setMinReq n s) = m_tLength s"
    "m_base (setMinReq n s) = m_base s" "m_maxLength (setMinReq n s) = m_maxLength s"
proof -
  let ?r = "if sz_down n (m_base s) > m_tLength s then m_tLength s else sz_down n (m_base s)"
  let ?m = "if ?r < m_base s then m_base s else ?r"
  have "m_minReq (setMinReq n s) = ?m \<and> m_tLength (setMinReq n s) = m_tLength s \<and>
     m_base (setMinReq n s) = m_base s \<and> m_maxLength (setMinReq n s) = m_maxLength s"
  proof -
    obtain l b where "setMinReq n s = (if b then setPreBuf l (s\<lparr>m_minReq := ?m\<rparr>) else s\<lparr>m_minReq := ?m\<rparr>)"
      unfolding setMinReq_def Let_def by blast
    then show ?thesis using setPreBuf_eq [of l "s\<lparr>m_minReq := ?m\<rparr>"] by (cases b) auto
  qed
  then show "m_base s dvd m_minReq (setMinReq n s)" "m_base s \<le> m_minReq (setMinReq n s)"
    "m_minReq (setMinReq n s) \<le> m_tLength s" "m_tLength (setMinReq n s) = m_tLength s"
    "m_base (setMinReq n s) = m_base s" "m_maxLength (setMinReq n s) = m_maxLength s"
    using assms by (auto simp: sz_down_def)
qed

lemma setTLength_value:
  assumes "0 < m_base s" and "m_base s dvd m_maxLength s" and "m_base s \<le> m_maxLength s"
    and "m_maxLength s + m_base s < SIZE_MOD" and "n + m_base s < SIZE_MOD"
  shows "m_base s dvd m_tLength (setTLength n s)" "m_base s \<le> m_tLength (setTLength n s)"
    "m_tLength (setTLength n s) \<le> m_maxLength s" "m_base (setTLength n s) = m_base s"
    "m_maxLength (setTLength n s) = m_maxLength s"
proof -
  let ?n = "if n \<le> 0 \<or> n = SIZE_MOD - 1 then m_maxLength s else n"
  let ?u = "sz_up ?n (m_base s)"
  let ?t = "if ?u > m_maxLength s then m_maxLength s else ?u"
  have "m_tLength (setTLength n s) = ?t \<and> m_base (setTLength n s) = m_base s \<and> m_maxLength (setTLength n s) = m_maxLength s"
  proof -
    obtain l2 l3 b2 b3 s2 s3 where
      s2: "s2 = (if b2 then setMinReq l2 (s\<lparr>m_tLength := ?t\<rparr>) else s\<lparr>m_tLength := ?t\<rparr>)" and
      s3: "s3 = (if b3 then setPreBuf l3 s2 else s2)" and
      eq: "setTLength n s = s3\<lparr>m_missing := m_missing s3 + int (m_tLength s3) - int (m_tLength s)\<rparr>"
      unfolding setTLength_def Let_def by blast
    have "m_tLength s2 = ?t \<and> m_base s2 = m_base s \<and> m_maxLength s2 = m_maxLength s"
      using setMinReq_eq [of l2 "s\<lparr>m_tLength := ?t\<rparr>"] s2 by (cases b2) auto
    then have "m_tLength s3 = ?t \<and> m_base s3 = m_base s \<and> m_maxLength s3 = m_maxLength s"
      using setPreBuf_eq [of l3 s2] s3 by (cases b3) auto
    then show ?thesis using eq by simp
  qed
  moreover have "?n + m_base s \<le> SIZE_MOD" "0 < ?n" using assms by auto
  moreover have "m_base s \<le> ?u"
    using sz_up_bound(2,4) [OF assms(1) calculation(2)] calculation(3) by (intro dvd_imp_le) auto
  ultimately show "m_base s dvd m_tLength (setTLength n s)" "m_base s \<le> m_tLength (setTLength n s)"
    "m_tLength (setTLength n s) \<le> m_maxLength s" "m_base (setTLength n s) = m_base s"
    "m_maxLength (setTLength n s) = m_maxLength s"
    using sz_up_bound(4) [OF assms(1), of ?n] assms(2,3) by auto
qed

lemma setMaxLength_value:
  assumes "0 < m_base s" and "n + m_base s \<le> SIZE_MOD"
  shows "m_base s dvd m_maxLength (setMaxLength n s)" "m_base s \<le> m_maxLength (setMaxLength n s)"
    "m_maxLength (setMaxLength n s) < n + m_base s \<or> m_maxLength (setMaxLength n s) = m_base s"
    "m_base (setMaxLength n s) = m_base s"
proof -
  let ?u = "sz_up n (m_base s)"
  let ?l = "if ?u < m_base s then m_base s else ?u"
  have "m_maxLength (setMaxLength n s) = ?l \<and> m_base (setMaxLength n s) = m_base s"
  proof -
    obtain m b where "setMaxLength n s = (if b then setTLength m (s\<lparr>m_maxLength := ?l\<rparr>) else s\<lparr>m_maxLength := ?l\<rparr>)"
      unfolding setMaxLength_def Let_def by blast
    then show ?thesis using setTLength_eq [of m "s\<lparr>m_maxLength := ?l\<rparr>"] by (cases b) auto
  qed
  then show "m_base s dvd m_maxLength (setMaxLength n s)" "m_base s \<le> m_maxLength (setMaxLength n s)"
    "m_maxLength (setMaxLength n s) < n + m_base s \<or> m_maxLength (setMaxLength n s) = m_base s"
    "m_base (setMaxLength n s) = m_base s"
    using sz_up_bound(3,4) [OF assms] by auto
qed

lemma applyAttr_metrics:
  assumes "0 < m_base s" and "m_base s \<le> 2 ^ 31"
  shows "metrics_ok (applyAttr a s)"
proof -
  have u: "unat w < 2 ^ 32" for w :: xuint32 using unsigned_less [of w, where ?'a = nat] by simp
  have small: "unat w + m_base s \<le> SIZE_MOD" "unat w + m_base s < SIZE_MOD" for w :: xuint32
    using u [of w] assms(2) by (simp_all add: SIZE_MOD_def)
  define s1 where "s1 = setMaxLength (unat (ba_maxlength a)) s"
  define s2 where "s2 = setTLength (unat (ba_tlength a)) s1"
  define s3 where "s3 = setMinReq (unat (ba_minreq a)) s2"
  note 1 = setMaxLength_value [OF assms(1) small(1), of "ba_maxlength a", folded s1_def]
  have l: "m_maxLength s1 + m_base s1 < SIZE_MOD" "0 < m_base s1"
    using 1(3,4) u [of "ba_maxlength a"] assms by (auto simp: SIZE_MOD_def)
  note 2 = setTLength_value [OF l(2) _ _ l(1), of "unat (ba_tlength a)", folded s2_def, unfolded 1(4), OF 1(1,2) small(2)]
  have b: "m_base s2 = m_base s" using 2(4) 1(4) by simp
  note 3 = setMinReq_value [of s2 "unat (ba_minreq a)", folded s3_def, unfolded b, OF assms(1) 2(2,1)]
  have lim: "sz_sub (sz_add (m_tLength s3) (m_base s3)) (m_minReq s3) = m_tLength s3 + m_base s3 - m_minReq s3"
    using 3 2(3,5) l(1) 1(4) b by (intro prebuf_limit) auto
  have d: "m_base s3 dvd m_tLength s3 + m_base s3 - m_minReq s3" using 3 2(1) by (simp add: dvd_diff_nat)
  have e: "applyAttr a s = setPreBuf (unat (ba_prebuf a)) s3" by (simp add: applyAttr_def s1_def s2_def s3_def)
  show ?thesis
    using setPreBuf_value [where n = "unat (ba_prebuf a)" and s = s3, unfolded lim] d 3 2 1 setPreBuf_eq [of "unat (ba_prebuf a)" s3]
    by (auto simp: metrics_ok_def e)
qed

end
