(* ===== verification/Queue_Properties.thy ===== *)
theory Queue_Properties imports Queue_Laws begin

text \<open>
  The properties of iMemBlockQueue and iMCAlign (src/core/io/imemblockq.cpp,
  src/core/io/imemchunk.cpp) over the model of Mem_Block_Queue and Mem_Chunk, with the
  queues their witnesses use.
\<close>

section \<open>Sample queues\<close>

definition sample_queue :: mbq where
  "sample_queue = \<lparr>m_blocks = [], m_nextId = 0, m_currentRead = None, m_currentWrite = None, m_nBlocks = 0,
     m_maxLength = 64, m_tLength = 32, m_base = 1, m_preBuf = 0, m_minReq = 1, m_maxRewind = 0,
     m_readIndex = 0, m_writeIndex = 0, m_inPreBuf = False, m_silence = None, m_mcalign = new_mcalign 1,
     m_missing = 0, m_requested = 0\<rparr>"

lemma sample_sizes:
  "sz_up 64 1 = 64" "sz_up 32 1 = 32" "sz_up 0 1 = 0" "sz_down 1 1 = 1" "sz_down 0 1 = 0"
  "sz_sub (sz_add 32 1) 1 = 32" "SIZE_MOD - 1 \<noteq> 32" "SIZE_MOD - 1 \<noteq> 0"
  by (simp_all add: sz_up_def sz_down_def sz_add_def sz_sub_def SIZE_MOD_def)

lemma sample_queue_new: "new_mbq 0 64 32 1 0 1 0 None = sample_queue"
proof -
  let ?s = "\<lambda>b. sample_queue\<lparr>m_inPreBuf := b\<rparr>"
  have "setMaxLength 64 (?s True) = ?s True"
    by (simp add: setMaxLength_def sample_queue_def sample_sizes(1) [simplified] Let_def)
  moreover have "setTLength 32 (?s True) = ?s True"
    using sample_sizes [simplified] by (simp add: setTLength_def sample_queue_def Let_def)
  moreover have "setMinReq 1 (?s True) = ?s True"
    using sample_sizes [simplified] by (simp add: setMinReq_def sample_queue_def Let_def)
  moreover have "setPreBuf 0 (?s True) = ?s False"
    using sample_sizes [simplified] by (simp add: setPreBuf_def sample_queue_def Let_def mbq_length_def)
  moreover have "setMaxRewind 0 (?s False) = ?s False"
    by (simp add: setMaxRewind_def sample_queue_def sz_down_def)
  moreover have "?s False = sample_queue" by (simp add: sample_queue_def)
  ultimately show ?thesis by (simp add: new_mbq_def Let_def) (simp add: sample_queue_def)
qed

definition sample_chunk :: "nat \<Rightarrow> bytes \<Rightarrow> chunk" where
  "sample_chunk b bs = \<lparr>ck_block = Some b, ck_begin = 0, ck_bytes = bs\<rparr>"

lemma sample_reach: "queue_reach (- 32) sample_queue"
  unfolding sample_queue_new [symmetric] using reach_new [of 1 32 0 64 0 1 0 None] by simp

lemma sample_inv: "mbq_inv sample_queue"
  using queue_reach_good [OF sample_reach] by (simp add: queue_good_def)

definition filled_queue :: mbq where
  "filled_queue = snd (mbq_push (sample_chunk 7 [1, 2, 3, 4, 5, 6]) sample_queue)"

lemma filled_queue_value:
  "filled_queue = sample_queue\<lparr>m_blocks := [\<lparr>it_id = 0, it_index = 0, it_chunk = sample_chunk 7 [1, 2, 3, 4, 5, 6]\<rparr>],
     m_nextId := 1, m_nBlocks := 1, m_writeIndex := 6, m_requested := - 6\<rparr>"
  by (simp add: filled_queue_def sample_queue_def mbq_push_def canPush_def blocks_end_def fixCurrentWrite_def
      push_start_def place_chunk_def writeIndexChanged_def Let_def sample_chunk_def ck_length_def)

lemma sample_eval:
  "canPush 6 sample_queue" "m_writeIndex sample_queue = 0" "m_blocks sample_queue = []"
  "m_readIndex sample_queue = 0" "\<not> preBufActive filled_queue" "m_readIndex filled_queue = 0"
  by (simp_all add: filled_queue_value) (simp_all add: sample_queue_def canPush_def preBufActive_def mbq_length_def blocks_end_def)

lemma filled_inv: "mbq_inv filled_queue"
  by (simp add: filled_queue_value sample_queue_def mbq_inv_def item_simps sample_chunk_def)

section \<open>Writing\<close>



text \<open>
  A push inside one stored block damages the bytes after it: the tail block keeps the
  first bytes of the old block instead of its last. Over the stored bytes 1..6, writing
  8, 9 at position 2 leaves 1, 2 where 5, 6 were.
\<close>

theorem push_split_shows_wrong_tail:
  "let s = mbq_seek (- 4) SEEK_RELATIVE True filled_queue;
       s' = snd (mbq_push (sample_chunk 8 [8, 9]) s)
   in map (content (m_blocks s)) [0, 1, 2, 3, 4, 5] = map Some [1, 2, 3, 4, 5, 6] \<and>
      map (content (m_blocks s')) [0, 1, 2, 3, 4, 5] = map Some [1, 2, 8, 9, 1, 2]"
  by code_simp

section \<open>Reading\<close>

text \<open>
  peek on a queue that is not pre-buffering returns at least one byte, each the one
  stored at the read index on or, over a hole, silence; the null chunk it returns without
  silence is as long as a hole; it fails only when nothing is stored and nothing is due.
\<close>

theorem peek_returns_content:
  assumes "mbq_inv s" and "\<not> preBufActive s"
  shows "case fst (mbq_peek s) of
      PeekFail \<Rightarrow> silence_empty s \<and> m_writeIndex s \<le> m_readIndex s \<and> (\<forall>q\<in>set (m_blocks s). it_end q \<le> m_readIndex s)
    | PeekHole n \<Rightarrow> 0 < n \<and> (\<forall>i\<in>{..<n}. content (m_blocks s) (m_readIndex s + int i) = None)
    | PeekData c \<Rightarrow> 0 < ck_length c \<and>
        (\<forall>i\<in>{..<ck_length c}. content (m_blocks s) (m_readIndex s + int i) \<in> {None, Some (ck_bytes c ! i)})"
  using peek_ok [OF assms(1)] assms(2) by (auto simp: peek_matches_def split: peek_result.splits)

theorem peek_returns_content_witness:
  "fst (mbq_peek filled_queue) = PeekData (sample_chunk 7 [1, 2, 3, 4, 5, 6]) \<and>
   (case fst (mbq_peek filled_queue) of PeekData c \<Rightarrow> 0 < ck_length c | _ \<Rightarrow> True)"
proof
  show "fst (mbq_peek filled_queue) = PeekData (sample_chunk 7 [1, 2, 3, 4, 5, 6])"
    by (simp add: mbq_peek_eval [OF filled_inv] sample_eval(5) unread_def [symmetric]) 
      (simp add: unread_def filled_queue_value sample_queue_def item_simps sample_chunk_def)
  show "case fst (mbq_peek filled_queue) of PeekData c \<Rightarrow> 0 < ck_length c | _ \<Rightarrow> True"
    using peek_returns_content [OF filled_inv sample_eval(5)] by (auto split: peek_result.splits)
qed



text \<open>
  drop always returns; it moves the read index by what it reports, at most the length
  asked for and less only when pre-buffering starts, and keeps maxRewind bytes of history.
\<close>

theorem drop_keeps_history:
  assumes "mbq_inv s"
  shows "\<exists>d s'. mbq_drop n s = Some (d, s') \<and> mbq_inv s' \<and> 0 \<le> d \<and> d \<le> int n \<and>
    m_readIndex s' = m_readIndex s + d \<and> m_missing s' = m_missing s + d \<and> m_writeIndex s' = m_writeIndex s \<and>
    (d = int n \<or> preBufActive s') \<and>
    (\<forall>t. m_readIndex s' - int (m_maxRewind s) \<le> t \<longrightarrow> content (m_blocks s') t = content (m_blocks s) t)"
  by (rule drop_ok [OF assms])

theorem drop_keeps_history_witness:
  "\<exists>d s'. mbq_drop 4 filled_queue = Some (d, s') \<and> mbq_inv s' \<and> m_readIndex s' = d"
  using drop_keeps_history [OF filled_inv, of 4] sample_eval(6) by auto

section \<open>All histories\<close>

text \<open>
  In every state a queue can reach, the blocks are sorted, disjoint and non-empty, the
  8-bit block counter is the number of blocks modulo 256, and the bytes missing, requested
  and stored balance: together they are the target length less the tlength the queue was
  constructed with (so a fresh queue with an aligned tlength asks for nothing).
\<close>

theorem reachable_queue_balance:
  assumes "queue_reach k s"
  shows "sorted_wrt (\<lambda>p q. it_end p \<le> it_index q) (m_blocks s) \<and>
    list_all (\<lambda>q. 0 < ck_length (it_chunk q)) (m_blocks s) \<and>
    unat (m_nBlocks s) = length (m_blocks s) mod 256 \<and>
    m_missing s + m_requested s + (m_writeIndex s - m_readIndex s) = int (m_tLength s) + k"
  using queue_reach_good [OF assms]
  by (auto simp: queue_good_def mbq_inv_def items_ok_def it_end_def list_all_iff credit_def unat_of_nat)

theorem reachable_queue_balance_witness:
  "m_missing sample_queue + m_requested sample_queue + (m_writeIndex sample_queue - m_readIndex sample_queue) =
     int (m_tLength sample_queue) - 32 \<and> fst (popMissing sample_queue) = 0"
proof
  show "m_missing sample_queue + m_requested sample_queue + (m_writeIndex sample_queue - m_readIndex sample_queue) =
     int (m_tLength sample_queue) - 32"
    using reachable_queue_balance [OF sample_reach] by simp
  show "fst (popMissing sample_queue) = 0" by (simp add: popMissing_def sample_queue_def)
qed

text \<open>
  For every attribute record a peer sends, applyAttr leaves the metrics consistent:
  multiples of the base, minreq at most the target, the target at most the maximum and
  prebuf within the target plus one base less minreq.
\<close>

theorem applyAttr_makes_metrics_consistent:
  assumes "0 < m_base s" and "m_base s \<le> 2 ^ 31"
  shows "metrics_ok (applyAttr a s)"
  by (rule applyAttr_metrics [OF assms])

theorem applyAttr_makes_metrics_consistent_witness:
  "metrics_ok (applyAttr \<lparr>ba_maxlength = 10, ba_tlength = - 1, ba_prebuf = - 1, ba_minreq = 3\<rparr> sample_queue)"
proof -
  have "m_base sample_queue = 1" by (simp add: sample_queue_def)
  then show ?thesis by (intro applyAttr_makes_metrics_consistent) simp_all
qed

section \<open>The aligner\<close>

text \<open>
  Pushing a chunk into the aligner and popping until nothing comes gives blocks that
  are multiples of the base and, when the chunk continues or fits the leftover, every
  byte: the popped bytes and the new leftover are the old leftover and the chunk.
\<close>

theorem aligner_keeps_bytes:
  assumes "mc_idle m" and "0 < ck_length c" and "keeps_all c m"
  shows "\<exists>cs m'. mc_pops 4 (mc_push b c m) = Some (cs, m') \<and> mc_idle m' \<and>
    list_all (\<lambda>d. mc_base m dvd ck_length d \<and> 0 < ck_length d) cs \<and>
    concat (map ck_bytes cs) @ opt_bytes (mc_leftover m') = opt_bytes (mc_leftover m) @ ck_bytes c"
  using mc_push_idle_cases [OF assms(1,2), of b] assms(3) by (auto simp: list_all_iff)

theorem aligner_keeps_bytes_witness:
  "\<exists>cs m'. mc_pops 4 (mc_push 0 (sample_chunk 7 [1, 2, 3, 4, 5, 6]) (new_mcalign 4)) = Some (cs, m') \<and>
     concat (map ck_bytes cs) @ opt_bytes (mc_leftover m') = [1, 2, 3, 4, 5, 6]"
  using aligner_keeps_bytes [of "new_mcalign 4" "sample_chunk 7 [1, 2, 3, 4, 5, 6]" 0]
  by (auto simp: mc_idle_def new_mcalign_def keeps_all_def sample_chunk_def ck_length_def)

text \<open>
  A chunk of another block that more than completes the leftover loses its rest: what
  comes out and stays is only the first base bytes.
\<close>

theorem aligner_loses_remainder:
  assumes "mc_idle m" and "0 < ck_length c" and "\<not> keeps_all c m"
  shows "\<exists>cs m'. mc_pops 4 (mc_push b c m) = Some (cs, m') \<and>
    concat (map ck_bytes cs) @ opt_bytes (mc_leftover m') = take (mc_base m) (opt_bytes (mc_leftover m) @ ck_bytes c) \<and>
    mc_base m < length (opt_bytes (mc_leftover m) @ ck_bytes c)"
proof -
  have "mc_base m < length (opt_bytes (mc_leftover m) @ ck_bytes c)"
    using assms(3) by (auto simp: keeps_all_def ck_length_def split: option.splits)
  then show ?thesis using mc_push_idle_cases [OF assms(1,2), of b] assms(3) by auto
qed

theorem aligner_loses_remainder_witness:
  "\<exists>cs m'. mc_pops 4 (mc_push 0 (sample_chunk 7 [3, 4, 5, 6, 7]) \<lparr>mc_base = 4, mc_leftover = Some (sample_chunk 8 [1, 2]), mc_current = None\<rparr>)
     = Some (cs, m') \<and> concat (map ck_bytes cs) @ opt_bytes (mc_leftover m') = [1, 2, 3, 4]"
proof -
  let ?m = "\<lparr>mc_base = 4, mc_leftover = Some (sample_chunk 8 [1, 2]), mc_current = None\<rparr>"
  have "mc_idle ?m" "\<not> keeps_all (sample_chunk 7 [3, 4, 5, 6, 7]) ?m" "0 < ck_length (sample_chunk 7 [3, 4, 5, 6, 7])"
    by (simp_all add: mc_idle_def keeps_all_def ck_adjacent_def sample_chunk_def ck_length_def)
  from aligner_loses_remainder [OF this(1,3,2), of 0] show ?thesis by (simp add: sample_chunk_def)
qed

end
