(* ===== verification/Media_Time_Range.thy ===== *)
theory Media_Time_Range imports IX_Prelude begin

text \<open>
  iMediaTimeInterval and iMediaTimeRange (src/multimedia/imediatimerange.cpp). Times are
  mathematical integers within the range of xint64; the code's subtractions and
  additions of one are checked, and an overflow, undefined behaviour of the code, is
  None. The second half adds the store: iSharedDataPointer (include/core/utils/ishareddata.h)
  hands out its pointer without detaching, so copies of a range share their list.
\<close>

section \<open>Intervals\<close>

record time_interval =
  itv_s :: int
  itv_e :: int

definition INT64_MIN :: int where "INT64_MIN = - (2 ^ 63)"
definition INT64_MAX :: int where "INT64_MAX = 2 ^ 63 - 1"

definition checked64 :: "int \<Rightarrow> int option" where
  "checked64 x = (if INT64_MIN \<le> x \<and> x \<le> INT64_MAX then Some x else None)"

definition mk_interval :: "int \<Rightarrow> int \<Rightarrow> time_interval" where
  "mk_interval start finish = \<lparr>itv_s = start, itv_e = finish\<rparr>"

definition isNormal :: "time_interval \<Rightarrow> bool" where
  "isNormal i \<longleftrightarrow> itv_s i \<le> itv_e i"

definition itv_contains :: "time_interval \<Rightarrow> int \<Rightarrow> bool" where
  "itv_contains i t \<longleftrightarrow>
     (if isNormal i then itv_s i \<le> t \<and> t \<le> itv_e i else itv_e i \<le> t \<and> t \<le> itv_s i)"

definition normalized :: "time_interval \<Rightarrow> time_interval" where
  "normalized i = (if itv_s i > itv_e i then mk_interval (itv_e i) (itv_s i) else i)"

definition translated :: "time_interval \<Rightarrow> int \<Rightarrow> time_interval option" where
  "translated i offset =
     (case (checked64 (itv_s i + offset), checked64 (itv_e i + offset)) of
        (Some a, Some b) \<Rightarrow> Some (mk_interval a b)
      | _ \<Rightarrow> None)"

definition itv_eq :: "time_interval \<Rightarrow> time_interval \<Rightarrow> bool" where
  "itv_eq a b \<longleftrightarrow> itv_s a = itv_s b \<and> itv_e a = itv_e b"

section \<open>The list of a range (iMediaTimeRangePrivate)\<close>

definition private_of_interval :: "time_interval \<Rightarrow> time_interval list" where
  "private_of_interval i = (if isNormal i then [i] else [])"

text \<open>The trailing loop of addInterval: \<open>it\<close> swallows what it overlaps or touches.\<close>

fun mergeTrailing :: "time_interval \<Rightarrow> time_interval list \<Rightarrow> time_interval list option" where
  "mergeTrailing it [] = Some [it]"
| "mergeTrailing it (next # rest) =
     (case checked64 (itv_s next - 1) of
        None \<Rightarrow> None
      | Some m \<Rightarrow>
          if itv_e it < m then Some (it # next # rest)
          else mergeTrailing (it\<lparr>itv_e := max (itv_e it) (itv_e next)\<rparr>) rest)"

definition addInterval :: "time_interval \<Rightarrow> time_interval list \<Rightarrow> time_interval list option" where
  "addInterval i xs =
     (if \<not> isNormal i then Some xs
      else
        let before = takeWhile (\<lambda>p. \<not> itv_s i < itv_s p) xs;
            after = dropWhile (\<lambda>p. \<not> itv_s i < itv_s p) xs
        in if before = [] then mergeTrailing i after
           else (case checked64 (itv_s i - 1) of
               None \<Rightarrow> None
             | Some m \<Rightarrow>
                 (let prev = last before in
                  if itv_e prev \<ge> m
                  then map_option ((@) (butlast before))
                         (mergeTrailing (prev\<lparr>itv_e := max (itv_e prev) (itv_e i)\<rparr>) after)
                  else map_option ((@) before) (mergeTrailing i after))))"

text \<open>The loop of removeInterval; \<open>pre\<close> holds the nodes before the iterator.\<close>

fun removeLoop :: "time_interval \<Rightarrow> time_interval list \<Rightarrow> time_interval list \<Rightarrow> time_interval list option" where
  "removeLoop i pre [] = Some pre"
| "removeLoop i pre (r # rest) =
     (if itv_e r < itv_s i then removeLoop i (pre @ [r]) rest
      else if itv_e i < itv_s r then Some (pre @ r # rest)
      else if itv_s r < itv_s i \<and> itv_e i < itv_e r then
        (case (checked64 (itv_s i - 1), checked64 (itv_e i + 1)) of
           (Some a, Some b) \<Rightarrow> addInterval (mk_interval b (itv_e r)) (pre @ r\<lparr>itv_e := a\<rparr> # rest)
         | _ \<Rightarrow> None)
      else if itv_s r < itv_s i then
        (case checked64 (itv_s i - 1) of
           None \<Rightarrow> None
         | Some a \<Rightarrow> removeLoop i (pre @ [r\<lparr>itv_e := a\<rparr>]) rest)
      else if itv_e i < itv_e r then
        (case checked64 (itv_e i + 1) of
           None \<Rightarrow> None
         | Some b \<Rightarrow> Some (pre @ r\<lparr>itv_s := b\<rparr> # rest))
      else removeLoop i pre rest)"

definition removeInterval :: "time_interval \<Rightarrow> time_interval list \<Rightarrow> time_interval list option" where
  "removeInterval i xs = (if \<not> isNormal i then Some xs else removeLoop i [] xs)"

definition earliestTime :: "time_interval list \<Rightarrow> int" where
  "earliestTime xs = (if xs \<noteq> [] then itv_s (hd xs) else 0)"

definition latestTime :: "time_interval list \<Rightarrow> int" where
  "latestTime xs = (if xs \<noteq> [] then itv_e (last xs) else 0)"

fun range_contains :: "time_interval list \<Rightarrow> int \<Rightarrow> bool" where
  "range_contains [] t = False"
| "range_contains (i # xs) t =
     (if itv_contains i t then True
      else if t < itv_s i then False
      else range_contains xs t)"

definition range_isEmpty :: "time_interval list \<Rightarrow> bool" where
  "range_isEmpty xs \<longleftrightarrow> xs = []"

definition isContinuous :: "time_interval list \<Rightarrow> bool" where
  "isContinuous xs \<longleftrightarrow> length xs \<le> 1"

definition range_eq :: "time_interval list \<Rightarrow> time_interval list \<Rightarrow> bool" where
  "range_eq xs ys \<longleftrightarrow> list_all2 itv_eq xs ys"

text \<open>addTimeRange and removeTimeRange: one call per interval of the argument, in order.\<close>

definition addAll :: "time_interval list \<Rightarrow> time_interval list \<Rightarrow> time_interval list option" where
  "addAll is xs = fold_opt addInterval is xs"

definition subtractAll :: "time_interval list \<Rightarrow> time_interval list \<Rightarrow> time_interval list option" where
  "subtractAll is xs = fold_opt removeInterval is xs"

section \<open>Ranges as handles on a store\<close>

text \<open>
  A range is the reference its d pointer holds; the store maps references to lists.
  Copying a range copies the reference. Nothing detaches.
\<close>

type_synonym range_ref = nat

record range_store =
  cells :: "range_ref \<Rightarrow> time_interval list"
  fresh :: range_ref

definition alloc :: "time_interval list \<Rightarrow> range_store \<Rightarrow> range_ref \<times> range_store" where
  "alloc xs h = (fresh h, h\<lparr>cells := (cells h)(fresh h := xs), fresh := fresh h + 1\<rparr>)"

definition new_range :: "range_store \<Rightarrow> range_ref \<times> range_store" where
  "new_range h = alloc [] h"

definition new_range_of :: "time_interval \<Rightarrow> range_store \<Rightarrow> range_ref \<times> range_store" where
  "new_range_of i h = alloc (private_of_interval i) h"

definition copy_range :: "range_ref \<Rightarrow> range_ref" where
  "copy_range r = r"

definition store_intervals :: "range_ref \<Rightarrow> range_store \<Rightarrow> time_interval list" where
  "store_intervals r h = cells h r"

definition store_update ::
  "range_ref \<Rightarrow> (time_interval list \<Rightarrow> time_interval list option) \<Rightarrow> range_store \<Rightarrow> range_store option" where
  "store_update r f h =
     (case f (cells h r) of None \<Rightarrow> None | Some ys \<Rightarrow> Some (h\<lparr>cells := (cells h)(r := ys)\<rparr>))"

definition store_addInterval :: "range_ref \<Rightarrow> time_interval \<Rightarrow> range_store \<Rightarrow> range_store option" where
  "store_addInterval r i h = store_update r (addInterval i) h"

definition store_removeInterval :: "range_ref \<Rightarrow> time_interval \<Rightarrow> range_store \<Rightarrow> range_store option" where
  "store_removeInterval r i h = store_update r (removeInterval i) h"

definition store_addTimeRange :: "range_ref \<Rightarrow> range_ref \<Rightarrow> range_store \<Rightarrow> range_store option" where
  "store_addTimeRange r other h = store_update r (addAll (store_intervals other h)) h"

definition store_removeTimeRange :: "range_ref \<Rightarrow> range_ref \<Rightarrow> range_store \<Rightarrow> range_store option" where
  "store_removeTimeRange r other h = store_update r (subtractAll (store_intervals other h)) h"

definition store_clear :: "range_ref \<Rightarrow> range_store \<Rightarrow> range_store" where
  "store_clear r h = h\<lparr>cells := (cells h)(r := [])\<rparr>"

text \<open>operator+ and operator-: a copy of the left operand, then += or -=.\<close>

definition range_plus :: "range_ref \<Rightarrow> range_ref \<Rightarrow> range_store \<Rightarrow> (range_ref \<times> range_store) option" where
  "range_plus r1 r2 h =
     (let c = copy_range r1
      in map_option (\<lambda>h'. (copy_range c, h')) (store_addTimeRange c r2 h))"

definition range_minus :: "range_ref \<Rightarrow> range_ref \<Rightarrow> range_store \<Rightarrow> (range_ref \<times> range_store) option" where
  "range_minus r1 r2 h =
     (let c = copy_range r1
      in map_option (\<lambda>h'. (copy_range c, h')) (store_removeTimeRange c r2 h))"

section \<open>The set of times\<close>

definition time_set :: "time_interval list \<Rightarrow> int set" where
  "time_set xs = (\<Union>i \<in> set xs. {itv_s i..itv_e i})"

text \<open>Normal, in range, and not starting at the one time whose predecessor overflows.\<close>

definition itv_ok :: "time_interval \<Rightarrow> bool" where
  "itv_ok i \<longleftrightarrow> INT64_MIN < itv_s i \<and> itv_s i \<le> itv_e i \<and> itv_e i \<le> INT64_MAX"

definition apart :: "time_interval \<Rightarrow> time_interval \<Rightarrow> bool" where
  "apart a b \<longleftrightarrow> itv_e a + 1 < itv_s b"

definition valid_range :: "time_interval list \<Rightarrow> bool" where
  "valid_range xs \<longleftrightarrow> sorted_wrt apart xs \<and> list_all itv_ok xs"

lemma time_set_simps [simp]:
  "time_set [] = {}" "time_set (i # xs) = {itv_s i..itv_e i} \<union> time_set xs" "time_set (xs @ ys) = time_set xs \<union> time_set ys"
  by (simp_all add: time_set_def)

lemma checked64_dec: "itv_ok i \<Longrightarrow> checked64 (itv_s i - 1) = Some (itv_s i - 1)"
  by (auto simp: checked64_def itv_ok_def)

lemma valid_Nil [simp]: "valid_range []" by (simp add: valid_range_def)

lemma valid_Cons:
  "valid_range (i # xs) \<longleftrightarrow> itv_ok i \<and> (\<forall>x \<in> set xs. apart i x) \<and> valid_range xs"
  by (auto simp: valid_range_def)

lemma valid_append:
  "valid_range (xs @ ys) \<longleftrightarrow> valid_range xs \<and> valid_range ys \<and> (\<forall>x \<in> set xs. \<forall>y \<in> set ys. apart x y)"
  by (auto simp: valid_range_def sorted_wrt_append)

lemma mergeTrailing_correct:
  assumes "itv_ok it" and "valid_range xs" and "\<forall>x \<in> set xs. itv_s it \<le> itv_s x"
  shows "\<exists>it' ys. mergeTrailing it xs = Some (it' # ys) \<and> itv_s it' = itv_s it \<and>
    valid_range (it' # ys) \<and> time_set (it' # ys) = {itv_s it..itv_e it} \<union> time_set xs"
  using assms
proof (induction xs arbitrary: it)
  case Nil
  then show ?case by (simp add: valid_Cons)
next
  case (Cons nx rest)
  note n = Cons.prems(2) [unfolded valid_Cons]
  have c: "checked64 (itv_s nx - 1) = Some (itv_s nx - 1)" using n by (simp add: checked64_dec)
  show ?case
  proof (cases "itv_e it < itv_s nx - 1")
    case True
    then have "valid_range (it # nx # rest)"
      using Cons.prems n by (fastforce simp: valid_Cons apart_def itv_ok_def)
    with True c show ?thesis by auto
  next
    case False
    let ?it = "it\<lparr>itv_e := max (itv_e it) (itv_e nx)\<rparr>"
    have "itv_ok ?it" using Cons.prems n by (auto simp: itv_ok_def)
    moreover have "\<forall>x \<in> set rest. itv_s ?it \<le> itv_s x" using Cons.prems by simp
    ultimately obtain it' ys where m: "mergeTrailing ?it rest = Some (it' # ys)"
      "itv_s it' = itv_s ?it" "valid_range (it' # ys)"
      "time_set (it' # ys) = {itv_s ?it..itv_e ?it} \<union> time_set rest"
      using Cons.IH [of ?it] n by blast
    have "{itv_s it..max (itv_e it) (itv_e nx)} = {itv_s it..itv_e it} \<union> {itv_s nx..itv_e nx}"
      using False Cons.prems n by (auto simp: itv_ok_def)
    with m False c show ?thesis by (simp add: Un_assoc)
  qed
qed

lemma split_at:
  fixes i xs
  defines "b \<equiv> takeWhile (\<lambda>p. \<not> itv_s i < itv_s p) xs" and "a \<equiv> dropWhile (\<lambda>p. \<not> itv_s i < itv_s p) xs"
  assumes "valid_range xs"
  shows "xs = b @ a" and "\<forall>x \<in> set b. itv_s x \<le> itv_s i" and "\<forall>x \<in> set a. itv_s i < itv_s x"
    and "valid_range b" and "valid_range a"
proof -
  show x: "xs = b @ a" by (simp add: a_def b_def)
  show "\<forall>x \<in> set b. itv_s x \<le> itv_s i" by (auto simp: b_def dest: set_takeWhileD)
  from assms(3) x show v: "valid_range b" "valid_range a" by (simp_all add: valid_append)
  show "\<forall>x \<in> set a. itv_s i < itv_s x"
  proof (cases a)
    case (Cons y ys)
    then have "itv_s i < itv_s y" using hd_dropWhile [of "\<lambda>p. \<not> itv_s i < itv_s p" xs] by (auto simp: a_def)
    with Cons v(2) show ?thesis by (auto simp: valid_Cons apart_def itv_ok_def)
  qed simp
qed

lemma valid_glue:
  "valid_range b \<Longrightarrow> valid_range (it # ys) \<Longrightarrow> \<forall>x \<in> set b. apart x it \<Longrightarrow> valid_range (b @ it # ys)"
  by (fastforce simp: valid_append valid_Cons apart_def itv_ok_def)

lemma addInterval_ok:
  assumes v: "valid_range xs" and i: "itv_ok i"
  shows "\<exists>ys. addInterval i xs = Some ys \<and> valid_range ys \<and> time_set ys = time_set xs \<union> {itv_s i..itv_e i}"
proof -
  let ?b = "takeWhile (\<lambda>p. \<not> itv_s i < itv_s p) xs" and ?a = "dropWhile (\<lambda>p. \<not> itv_s i < itv_s p) xs"
  note sp = split_at [OF v, of i]
  have n: "isNormal i" using i by (simp add: isNormal_def itv_ok_def)
  have t: "time_set xs = time_set ?b \<union> time_set ?a" by (metis sp(1) time_set_simps(3))
  have le: "\<forall>x \<in> set ?a. itv_s i \<le> itv_s x" by (intro ballI less_imp_le bspec [OF sp(3)])
  obtain it' ys where m: "mergeTrailing i ?a = Some (it' # ys)" "itv_s it' = itv_s i"
    "valid_range (it' # ys)" "time_set (it' # ys) = {itv_s i..itv_e i} \<union> time_set ?a"
    using mergeTrailing_correct [OF i sp(5) le] by blast
  show ?thesis
  proof (cases "?b = []")
    case True
    then show ?thesis using m n t by (auto simp: addInterval_def)
  next
    case False
    define bl where "bl = butlast ?b"
    define prev where "prev = last ?b"
    have b: "?b = bl @ [prev]" using False by (simp add: bl_def prev_def)
    have vb: "valid_range (bl @ [prev])" using sp(4) unfolding b .
    then have vbl: "valid_range bl" "itv_ok prev" "\<forall>x \<in> set bl. apart x prev"
      by (simp_all add: valid_append valid_Cons)
    have ps: "itv_s prev \<le> itv_s i" using sp(2) unfolding b by simp
    note c = checked64_dec [OF i]
    show ?thesis
    proof (cases "itv_e prev \<ge> itv_s i - 1")
      case True
      let ?it = "prev\<lparr>itv_e := max (itv_e prev) (itv_e i)\<rparr>"
      have "itv_ok ?it" using vbl(2) i by (auto simp: itv_ok_def)
      moreover have "\<forall>x \<in> set ?a. itv_s ?it \<le> itv_s x" using ps by (auto dest!: bspec [OF le])
      ultimately obtain p' zs where p: "mergeTrailing ?it ?a = Some (p' # zs)" "itv_s p' = itv_s prev"
        "valid_range (p' # zs)" "time_set (p' # zs) = {itv_s prev..max (itv_e prev) (itv_e i)} \<union> time_set ?a"
        using mergeTrailing_correct [of ?it ?a] sp(5) by auto
      have "{itv_s prev..max (itv_e prev) (itv_e i)} = {itv_s prev..itv_e prev} \<union> {itv_s i..itv_e i}"
        using True ps i vbl(2) by (auto simp: itv_ok_def)
      moreover have "valid_range (bl @ p' # zs)"
        using valid_glue [OF vbl(1) p(3)] vbl(3) p(2) by (simp add: apart_def)
      moreover have "addInterval i xs = Some (bl @ p' # zs)"
        using n False c True p(1) by (simp add: addInterval_def Let_def bl_def prev_def)
      ultimately show ?thesis using p(4) t by (auto simp: b)
    next
      case f: False
      have "valid_range (?b @ it' # ys)"
        unfolding b by (rule valid_glue [OF vb m(3)])
          (use f m(2) vbl in \<open>auto simp: apart_def itv_ok_def\<close>)
      moreover have "addInterval i xs = Some (?b @ it' # ys)"
        using n False c f m(1) by (simp add: addInterval_def Let_def prev_def)
      ultimately show ?thesis using m(4) t by auto
    qed
  qed
qed
definition itv_in_range :: "time_interval \<Rightarrow> bool" where
  "itv_in_range i \<longleftrightarrow> INT64_MIN \<le> itv_s i \<and> itv_s i \<le> itv_e i \<and> itv_e i \<le> INT64_MAX"

lemma time_set_after: "\<forall>x \<in> set xs. b < itv_s x \<Longrightarrow> time_set xs \<inter> {a..b} = {}"
  by (auto simp: time_set_def)

lemma time_set_before: "\<forall>x \<in> set xs. itv_e x < a \<Longrightarrow> time_set xs \<inter> {a..b} = {}"
  by (auto simp: time_set_def)

lemma valid_change_tail:
  "valid_range (pre @ r # rest) \<Longrightarrow> itv_s r \<le> a \<Longrightarrow> a \<le> itv_e r \<Longrightarrow>
   valid_range (pre @ r\<lparr>itv_e := a\<rparr> # rest)"
  by (fastforce simp: valid_append valid_Cons apart_def itv_ok_def)

lemma valid_change_head:
  "valid_range (pre @ r # rest) \<Longrightarrow> itv_s r \<le> b \<Longrightarrow> b \<le> itv_e r \<Longrightarrow>
   valid_range (pre @ r\<lparr>itv_s := b\<rparr> # rest)"
  by (fastforce simp: valid_append valid_Cons apart_def itv_ok_def)

lemma removeLoop_correct:
  assumes "itv_in_range i" and "valid_range (pre @ xs)" and "\<forall>p \<in> set pre. itv_e p < itv_s i"
  shows "\<exists>ys. removeLoop i pre xs = Some ys \<and> valid_range ys \<and>
    time_set ys = time_set (pre @ xs) - {itv_s i..itv_e i}"
  using assms
proof (induction i pre xs rule: removeLoop.induct)
  case (1 i pre)
  then show ?case using time_set_before [of pre "itv_s i" "itv_e i"] by auto
next
  case (2 i pre r rest)
  note v = "2.prems"(2) [unfolded valid_append valid_Cons]
  have i: "itv_s i \<le> itv_e i" "itv_e i \<le> INT64_MAX" using "2.prems"(1) by (auto simp: itv_in_range_def)
  have r: "INT64_MIN < itv_s r" "itv_s r \<le> itv_e r" "itv_e r \<le> INT64_MAX" using v by (auto simp: itv_ok_def)
  have pre: "time_set pre \<inter> {itv_s i..itv_e i} = {}" by (rule time_set_before) (rule "2.prems"(3))
  have rest: "\<forall>x \<in> set rest. itv_e r < itv_s x" using v by (auto simp: apart_def)
  consider (before) "itv_e r < itv_s i" | (after) "itv_s i \<le> itv_e r" "itv_e i < itv_s r"
    | (split) "itv_s r < itv_s i" "itv_e i < itv_e r"
    | (tail) "itv_s r < itv_s i" "itv_s i \<le> itv_e r" "itv_e r \<le> itv_e i"
    | (head) "itv_s i \<le> itv_s r" "itv_s r \<le> itv_e i" "itv_e i < itv_e r"
    | (cover) "itv_s i \<le> itv_s r" "itv_s r \<le> itv_e i" "itv_e r \<le> itv_e i"
    using r by linarith
  then show ?case
  proof cases
    case before
    then show ?thesis using "2.IH"(1) "2.prems" by simp
  next
    case after
    then have "time_set (r # rest) \<inter> {itv_s i..itv_e i} = {}"
      using rest r by (intro time_set_after) auto
    with pre after "2.prems"(2) show ?thesis by auto
  next
    case split
    let ?pre' = "pre @ r\<lparr>itv_e := itv_s i - 1\<rparr> # rest"
    have c: "checked64 (itv_s i - 1) = Some (itv_s i - 1)" "checked64 (itv_e i + 1) = Some (itv_e i + 1)"
      using split r i by (auto simp: checked64_def)
    have "valid_range ?pre'"
      by (rule valid_change_tail [OF "2.prems"(2)]) (use split i in auto)
    moreover have "itv_ok (mk_interval (itv_e i + 1) (itv_e r))"
      using split r i by (auto simp: itv_ok_def mk_interval_def)
    ultimately obtain ys where ys: "addInterval (mk_interval (itv_e i + 1) (itv_e r)) ?pre' = Some ys"
      "valid_range ys" "time_set ys = time_set ?pre' \<union> {itv_e i + 1..itv_e r}"
      using addInterval_ok by (fastforce simp: mk_interval_def)
    have "time_set rest \<inter> {itv_s i..itv_e i} = {}" using rest split by (intro time_set_after) auto
    with pre split i have "time_set ?pre' \<union> {itv_e i + 1..itv_e r} = time_set (pre @ r # rest) - {itv_s i..itv_e i}"
      by auto
    with ys split i c show ?thesis by (simp add: mk_interval_def)
  next
    case tail
    let ?r = "r\<lparr>itv_e := itv_s i - 1\<rparr>"
    have c: "checked64 (itv_s i - 1) = Some (itv_s i - 1)"
      using tail r i by (auto simp: checked64_def)
    have "valid_range ((pre @ [?r]) @ rest)"
      using valid_change_tail [OF "2.prems"(2), of "itv_s i - 1"] tail by simp
    moreover have "\<forall>p \<in> set (pre @ [?r]). itv_e p < itv_s i" using "2.prems"(3) by simp
    ultimately obtain ys where ys: "removeLoop i (pre @ [?r]) rest = Some ys" "valid_range ys"
      "time_set ys = time_set ((pre @ [?r]) @ rest) - {itv_s i..itv_e i}"
      using "2.IH"(2) [OF _ _ _ _ c] tail "2.prems"(1) by fastforce
    have "time_set ((pre @ [?r]) @ rest) - {itv_s i..itv_e i} = time_set (pre @ r # rest) - {itv_s i..itv_e i}"
      using tail by auto
    moreover have "removeLoop i pre (r # rest) = removeLoop i (pre @ [?r]) rest"
      using tail c i by simp
    ultimately show ?thesis using ys by simp
  next
    case head
    have c: "checked64 (itv_e i + 1) = Some (itv_e i + 1)"
      using head r i by (auto simp: checked64_def)
    have "valid_range (pre @ r\<lparr>itv_s := itv_e i + 1\<rparr> # rest)"
      by (rule valid_change_head [OF "2.prems"(2)]) (use head in auto)
    moreover have "time_set rest \<inter> {itv_s i..itv_e i} = {}" using rest head by (intro time_set_after) auto
    with pre head have "time_set (pre @ r\<lparr>itv_s := itv_e i + 1\<rparr> # rest) = time_set (pre @ r # rest) - {itv_s i..itv_e i}"
      by auto
    ultimately show ?thesis using head c by simp
  next
    case cover
    have "valid_range (pre @ rest)" using "2.prems"(2) by (auto simp: valid_append valid_Cons)
    then have "\<exists>ys. removeLoop i pre rest = Some ys \<and> valid_range ys \<and>
      time_set ys = time_set (pre @ rest) - {itv_s i..itv_e i}"
      by (intro "2.IH"(3) "2.prems"(1,3)) (use cover r "2.prems"(2) in auto)
    then obtain ys where ys: "removeLoop i pre rest = Some ys" "valid_range ys"
      "time_set ys = time_set (pre @ rest) - {itv_s i..itv_e i}" by blast
    have "{itv_s r..itv_e r} \<subseteq> {itv_s i..itv_e i}" using cover by auto
    then have "time_set (pre @ rest) - {itv_s i..itv_e i} = time_set (pre @ r # rest) - {itv_s i..itv_e i}"
      unfolding time_set_simps by blast
    moreover have "removeLoop i pre (r # rest) = removeLoop i pre rest" using cover r by simp
    ultimately show ?thesis using ys by simp
  qed
qed

lemma removeInterval_ok:
  assumes "valid_range xs" and "itv_in_range i"
  shows "\<exists>ys. removeInterval i xs = Some ys \<and> valid_range ys \<and> time_set ys = time_set xs - {itv_s i..itv_e i}"
  using removeLoop_correct [of i "[]" xs] assms
  by (simp add: removeInterval_def isNormal_def itv_in_range_def)

lemma range_contains_iff: "valid_range xs \<Longrightarrow> range_contains xs t \<longleftrightarrow> t \<in> time_set xs"
proof (induction xs)
  case (Cons i xs)
  then have "itv_ok i" "\<forall>x \<in> set xs. itv_e i < itv_s x" "valid_range xs" by (auto simp: valid_Cons apart_def)
  then show ?case
    using Cons.IH time_set_after [of xs t t] by (force simp: itv_contains_def isNormal_def itv_ok_def time_set_def)
qed simp

text \<open>Valid lists are canonical: equal sets of times have equal lists.\<close>

lemma valid_range_canonical:
  "valid_range xs \<Longrightarrow> valid_range ys \<Longrightarrow> time_set xs = time_set ys \<Longrightarrow> xs = ys"
proof (induction xs arbitrary: ys)
  case Nil
  then show ?case by (cases ys) (auto simp: valid_Cons itv_ok_def)
next
  case (Cons a xs)
  note va = Cons.prems(1) [unfolded valid_Cons]
  obtain b ys' where ys: "ys = b # ys'"
    using Cons.prems(3) va by (cases ys) (auto simp: itv_ok_def)
  note vb = Cons.prems(2) [unfolded ys valid_Cons]
  have eq: "t \<in> {itv_s a..itv_e a} \<or> t \<in> time_set xs \<longleftrightarrow> t \<in> {itv_s b..itv_e b} \<or> t \<in> time_set ys'" for t
    using Cons.prems(3) ys by auto
  have xs: "t \<in> time_set xs \<Longrightarrow> itv_e a + 1 < t" and ys': "t \<in> time_set ys' \<Longrightarrow> itv_e b + 1 < t" for t
    using va vb by (auto simp: time_set_def apart_def)
  have ab: "itv_s a \<le> itv_e a" "itv_s b \<le> itv_e b" using va vb by (auto simp: itv_ok_def)
  have s: "itv_s a = itv_s b"
    using eq [of "itv_s a"] eq [of "itv_s b"] xs [of "itv_s b"] ys' [of "itv_s a"] ab by auto
  have e: "itv_e a = itv_e b"
    using eq [of "itv_e a + 1"] eq [of "itv_e b + 1"] eq [of "itv_e a"] eq [of "itv_e b"]
      xs [of "itv_e a + 1"] ys' [of "itv_e b + 1"] xs [of "itv_e b"] ys' [of "itv_e a"]
      xs [of "itv_e b + 1"] ys' [of "itv_e a + 1"] ab s by auto
  have "time_set xs = time_set ys'"
    using eq xs ys' s e by (auto simp: set_eq_iff) (metis atLeastAtMost_iff order.asym less_add_one order.strict_trans order_le_less_trans)+
  with Cons.IH va vb s e ys show ?case by simp
qed
section \<open>The interface the range class relies on\<close>

text \<open>
  What iMediaTimeRange needs of a list update: on an acceptable interval it succeeds,
  keeps the invariant, and combines the set with the interval's times as \<open>comb\<close> says.
\<close>

locale interval_update =
  fixes upd :: "time_interval \<Rightarrow> 's \<Rightarrow> 's option"
    and abs :: "'s \<Rightarrow> int set"
    and inv :: "'s \<Rightarrow> bool"
    and acc :: "time_interval \<Rightarrow> bool"
    and comb :: "int set \<Rightarrow> int set \<Rightarrow> int set"
  assumes upd_ok: "inv s \<Longrightarrow> acc i \<Longrightarrow>
      \<exists>s'. upd i s = Some s' \<and> inv s' \<and> abs s' = comb (abs s) {itv_s i..itv_e i}"
    and comb_empty: "comb A {} = A"
    and comb_Un: "comb (comb A B) C = comb A (B \<union> C)"
begin

lemma fold_upd_ok:
  assumes "inv s" and "list_all acc is"
  shows "\<exists>s'. fold_opt upd is s = Some s' \<and> inv s' \<and> abs s' = comb (abs s) (time_set is)"
  using assms
proof (induction "is" arbitrary: s)
  case Nil
  then show ?case by (simp add: comb_empty)
next
  case (Cons i "is")
  then obtain s1 where s1: "upd i s = Some s1" "inv s1" "abs s1 = comb (abs s) {itv_s i..itv_e i}"
    using upd_ok by fastforce
  with Cons.IH [of s1] Cons.prems show ?case by (auto simp: comb_Un)
qed

end

interpretation itvadd: interval_update addInterval time_set valid_range itv_ok "(\<union>)"
  by unfold_locales (use addInterval_ok in \<open>auto simp: Un_assoc\<close>)

interpretation itvsub: interval_update removeInterval time_set valid_range itv_in_range "(-)"
  by unfold_locales (use removeInterval_ok in auto)

lemma valid_list_all: "valid_range xs \<Longrightarrow> list_all itv_ok xs \<and> list_all itv_in_range xs"
  by (auto simp: valid_range_def list_all_iff itv_ok_def itv_in_range_def)

lemma itv_eq_iff: "itv_eq a b \<longleftrightarrow> a = b"
  by (cases a, cases b) (auto simp: itv_eq_def)

section \<open>Properties\<close>

text \<open>
  C34. addInterval computes the union and keeps the list sorted, disjoint, without
  touching intervals and within 64 bits; it never overflows on such a list.
\<close>

theorem addInterval_is_union:
  assumes "valid_range xs" and "itv_ok i"
  shows "\<exists>ys. addInterval i xs = Some ys \<and> valid_range ys \<and> time_set ys = time_set xs \<union> {itv_s i..itv_e i}"
  by (rule addInterval_ok [OF assms])

lemmas range_eval = valid_range_def itv_ok_def apart_def itv_in_range_def INT64_MIN_def INT64_MAX_def

theorem addInterval_is_union_witness:
  "\<exists>ys. addInterval (mk_interval 4 9) [mk_interval 1 3, mk_interval 7 8, mk_interval 20 30] = Some ys \<and>
     time_set ys = {1..9} \<union> {20..30}"
proof -
  have "valid_range [mk_interval 1 3, mk_interval 7 8, mk_interval 20 30]" "itv_ok (mk_interval 4 9)"
    by (simp_all add: range_eval mk_interval_def)
  from addInterval_is_union [OF this] obtain ys where
    "addInterval (mk_interval 4 9) [mk_interval 1 3, mk_interval 7 8, mk_interval 20 30] = Some ys"
    "time_set ys = ({1..3} \<union> ({7..8} \<union> {20..30})) \<union> {4..9}"
    by (auto simp: mk_interval_def)
  moreover have "({1..3} \<union> ({7..8} \<union> {20..30})) \<union> {4..9} = {1..9} \<union> {20..30 :: int}" by auto
  ultimately show ?thesis by auto
qed

text \<open>
  removeInterval computes the set difference for every normal interval of 64-bit
  times, trimming, splitting and deleting intervals, and keeps the list valid.
\<close>

theorem removeInterval_is_difference:
  assumes "valid_range xs" and "itv_in_range i"
  shows "\<exists>ys. removeInterval i xs = Some ys \<and> valid_range ys \<and> time_set ys = time_set xs - {itv_s i..itv_e i}"
  by (rule removeInterval_ok [OF assms])

theorem removeInterval_is_difference_witness:
  "\<exists>ys. removeInterval (mk_interval 4 6) [mk_interval 1 9, mk_interval 20 30] = Some ys \<and>
     time_set ys = time_set [mk_interval 1 9, mk_interval 20 30] - {4..6}"
proof -
  have "valid_range [mk_interval 1 9, mk_interval 20 30]" "itv_in_range (mk_interval 4 6)"
    by (simp_all add: range_eval mk_interval_def)
  from removeInterval_is_difference [OF this] show ?thesis by (auto simp: mk_interval_def)
qed

text \<open>
  The observers read the set: contains() with its early exit is membership, and the
  list is canonical, so operator== decides equality of the sets of times.
\<close>

theorem range_observers:
  assumes "valid_range xs" and "valid_range ys"
  shows "(range_contains xs t \<longleftrightarrow> t \<in> time_set xs) \<and> (range_eq xs ys \<longleftrightarrow> time_set xs = time_set ys) \<and>
    (range_isEmpty xs \<longleftrightarrow> time_set xs = {})"
proof -
  have "range_eq xs ys \<longleftrightarrow> xs = ys"
    by (simp add: range_eq_def itv_eq_iff [abs_def] list.rel_eq)
  moreover have "xs = [] \<longleftrightarrow> time_set xs = {}"
    using valid_range_canonical [OF assms(1) valid_Nil] by auto
  ultimately show ?thesis
    using range_contains_iff [OF assms(1)] valid_range_canonical [OF assms] by (auto simp: range_isEmpty_def)
qed

theorem range_observers_witness:
  "range_contains [mk_interval 1 3, mk_interval 7 8] 7 \<longleftrightarrow> 7 \<in> time_set [mk_interval 1 3, mk_interval 7 8]"
proof -
  have "valid_range [mk_interval 1 3, mk_interval 7 8]" by (simp add: range_eval mk_interval_def)
  from range_observers [OF this this] show ?thesis by blast
qed

text \<open>
  operator+ returns the union, but its local copy shares the left operand's list:
  the left operand itself is the union afterwards, and is what is returned.
\<close>

theorem range_plus_aliases:
  assumes "valid_range (cells h r1)" and "valid_range (cells h r2)"
  shows "\<exists>h'. range_plus r1 r2 h = Some (r1, h') \<and> valid_range (cells h' r1) \<and>
    time_set (cells h' r1) = time_set (cells h r1) \<union> time_set (cells h r2)"
  using itvadd.fold_upd_ok [OF assms(1), of "cells h r2"] valid_list_all [OF assms(2)]
  by (auto simp: range_plus_def copy_range_def store_addTimeRange_def store_update_def
      store_intervals_def addAll_def)

theorem range_plus_aliases_witness:
  "\<exists>h'. range_plus 0 1 \<lparr>cells = (\<lambda>r. if r = 0 then [mk_interval 1 3] else [mk_interval 7 8]), fresh = 2\<rparr> = Some (0, h') \<and>
     time_set (cells h' 0) = {1..3} \<union> {7..8}"
proof -
  let ?h = "\<lparr>cells = (\<lambda>r. if r = 0 then [mk_interval 1 3] else [mk_interval 7 8]), fresh = 2\<rparr>"
  have "valid_range (cells ?h 0)" "valid_range (cells ?h 1)" by (simp_all add: range_eval mk_interval_def)
  from range_plus_aliases [OF this] show ?thesis by (auto simp: mk_interval_def)
qed

text \<open>
  operator-= on a whole range removes exactly the other range's times, also when
  both handles share one list (r -= r empties r).
\<close>

theorem removeTimeRange_is_difference:
  assumes "valid_range (cells h r)" and "valid_range (cells h other)"
  shows "\<exists>h'. store_removeTimeRange r other h = Some h' \<and> valid_range (cells h' r) \<and>
    time_set (cells h' r) = time_set (cells h r) - time_set (cells h other)"
  using itvsub.fold_upd_ok [OF assms(1), of "cells h other"] valid_list_all [OF assms(2)]
  by (auto simp: store_removeTimeRange_def store_update_def store_intervals_def subtractAll_def)

theorem removeTimeRange_is_difference_witness:
  "\<exists>h'. store_removeTimeRange 0 0 \<lparr>cells = (\<lambda>r. [mk_interval 1 3, mk_interval 7 8]), fresh = 1\<rparr> = Some h' \<and>
     time_set (cells h' 0) = {}"
proof -
  let ?h = "\<lparr>cells = (\<lambda>r. [mk_interval 1 3, mk_interval 7 8]), fresh = 1\<rparr> :: range_store"
  have "valid_range (cells ?h 0)" by (simp add: range_eval mk_interval_def)
  from removeTimeRange_is_difference [OF this this] show ?thesis by auto
qed

text \<open>
  The one start time addInterval cannot take twice: with an interval that starts at
  the least 64-bit time already in the list, adding another computes the time before it,
  a signed overflow.
\<close>

theorem addInterval_overflows_at_minimum:
  "isNormal i \<Longrightarrow> itv_s i = INT64_MIN \<Longrightarrow> itv_s x = INT64_MIN \<Longrightarrow> addInterval i (x # xs) = None"
  by (simp add: addInterval_def checked64_def Let_def)

theorem addInterval_overflows_at_minimum_witness:
  "addInterval (mk_interval INT64_MIN 5) [mk_interval INT64_MIN 3] = None"
  by (rule addInterval_overflows_at_minimum) (simp_all add: isNormal_def mk_interval_def INT64_MIN_def)
end
