(* ===== verification/Byte_Search.thy ===== *)
theory Byte_Search imports IX_Prelude begin

text \<open>
  Searching in byte arrays and strings: the Boyer-Moore matchers (src/core/utils/ibytearraymatcher.cpp,
  istringmatcher.cpp) and the rolling hashes behind indexOf, lastIndexOf and count (ibytearraymatcher.cpp,
  ibytearray.cpp, istring.cpp), for case-sensitive search. Code units are words of any width, 8 or 16 bits
  in the code. Positions and offsets are integers, since negative ones have meanings of their own; the hashes are
  std::size_t of 64 bits. \<open>conv\<close> is the conversion of a code unit to std::size_t: char is signed or
  not, as the platform has it. What the search is meant to compute is matches_at, first_match and last_match.
\<close>

section \<open>What is searched for\<close>

definition matches_at :: "'a list \<Rightarrow> 'a list \<Rightarrow> nat \<Rightarrow> bool" where
  "matches_at hay needle i \<longleftrightarrow> i + length needle \<le> length hay \<and> take (length needle) (drop i hay) = needle"

definition first_match :: "'a list \<Rightarrow> 'a list \<Rightarrow> nat \<Rightarrow> int" where
  "first_match hay needle start =
     (case filter (matches_at hay needle) [start..<length hay + 1] of [] \<Rightarrow> -1 | i # _ \<Rightarrow> int i)"

definition last_match :: "'a list \<Rightarrow> 'a list \<Rightarrow> nat \<Rightarrow> int" where
  "last_match hay needle bound =
     (case filter (matches_at hay needle) (rev [0..<bound + 1]) of [] \<Rightarrow> -1 | i # _ \<Rightarrow> int i)"

section \<open>Boyer-Moore\<close>

text \<open>
  The skip table has 256 bytes, indexed by the low byte of a code unit: the distance of its last
  occurrence in the last 255 units of the pattern from the pattern's end.
\<close>

fun skip_fill :: "'a::len word list \<Rightarrow> (8 word \<Rightarrow> nat) \<Rightarrow> 8 word \<Rightarrow> nat" where
  "skip_fill [] t = t"
| "skip_fill (c # cs) t = skip_fill cs (t(ucast c := length cs))"

definition bm_init_skiptable :: "'a::len word list \<Rightarrow> 8 word \<Rightarrow> nat" where
  "bm_init_skiptable needle =
     (let l = min (length needle) 255 in skip_fill (drop (length needle - l) needle) (\<lambda>_. l))"

text \<open>The inner loop: how many units match, going back from position i.\<close>

function bm_back :: "'a list \<Rightarrow> 'a list \<Rightarrow> nat \<Rightarrow> nat \<Rightarrow> nat" where
  "bm_back hay needle i skip =
     (if skip < length needle \<and> hay ! (i - skip) = needle ! (length needle - 1 - skip)
      then bm_back hay needle i (skip + 1) else skip)"
  by pat_completeness auto
termination by (relation "measure (\<lambda>(hay, needle, i, skip). length needle - skip)") auto

declare bm_back.simps [simp del]

text \<open>One step at position i: the match's position, or how far to go on.\<close>

definition bm_step :: "'a::len word list \<Rightarrow> 'a word list \<Rightarrow> (8 word \<Rightarrow> nat) \<Rightarrow> nat \<Rightarrow> int + nat" where
  "bm_step hay needle table i =
     (let skip = table (ucast (hay ! i)) in
      if skip \<noteq> 0 then Inr skip
      else
        let s = bm_back hay needle i 0 in
        if s \<ge> length needle then Inl (int i - int s + 1)
        else if table (ucast (hay ! (i - s))) = length needle then Inr (length needle - s)
        else Inr 1)"

lemma bm_step_progress: "bm_step hay needle table i = Inr skip \<Longrightarrow> 0 < skip"
  by (auto simp: bm_step_def Let_def split: if_splits)

function bm_loop :: "'a::len word list \<Rightarrow> 'a word list \<Rightarrow> (8 word \<Rightarrow> nat) \<Rightarrow> nat \<Rightarrow> int" where
  "bm_loop hay needle table i =
     (if i < length hay then
        (case bm_step hay needle table i of
           Inl pos \<Rightarrow> pos
         | Inr skip \<Rightarrow> if int i > int (length hay) - int skip then -1 else bm_loop hay needle table (i + skip))
      else -1)"
  by pat_completeness auto
termination
  by (relation "measure (\<lambda>(hay, needle, table, i). length hay - i)") (auto dest: bm_step_progress)

declare bm_loop.simps [simp del]

definition bm_find :: "'a::len word list \<Rightarrow> int \<Rightarrow> 'a word list \<Rightarrow> (8 word \<Rightarrow> nat) \<Rightarrow> int" where
  "bm_find hay index needle table =
     (if needle = [] then (if index > int (length hay) then -1 else index)
      else bm_loop hay needle table (nat (index + int (length needle) - 1)))"

text \<open>iByteArrayMatcher and the case-sensitive iStringMatcher; the pattern is what p.p and p.l, or ix_sv, show.\<close>

record 'a matcher =
  ix_pattern :: "'a list"
  ix_skiptable :: "8 word \<Rightarrow> nat"

definition new_matcher :: "'a matcher" where
  "new_matcher = \<lparr>ix_pattern = [], ix_skiptable = (\<lambda>_. 0)\<rparr>"

text \<open>
  int parameters, members and results truncate sizes and positions to 32 bits, so that a pattern is cut off. With a
  negative size the filling of the skip table writes past it, which is undefined (None).
\<close>

definition to_int :: "int \<Rightarrow> int" where
  "to_int x = sint (word_of_int x :: 32 word)"

definition int_sized :: "'a list \<Rightarrow> 'a list option" where
  "int_sized xs = (let l = to_int (int (length xs)) in if l < 0 then None else Some (take (nat l) xs))"

definition setPattern :: "8 word list \<Rightarrow> 8 word matcher \<Rightarrow> 8 word matcher option" where
  "setPattern pattern m =
     map_option (\<lambda>q. m\<lparr>ix_pattern := q, ix_skiptable := bm_init_skiptable q\<rparr>) (int_sized pattern)"

definition string_setPattern :: "16 word list \<Rightarrow> 16 word matcher \<Rightarrow> 16 word matcher" where
  "string_setPattern pattern m = m\<lparr>ix_pattern := pattern, ix_skiptable := bm_init_skiptable pattern\<rparr>"

definition indexIn :: "'a::len word list \<Rightarrow> int \<Rightarrow> 'a word matcher \<Rightarrow> int" where
  "indexIn str start m = bm_find str (max start 0) (ix_pattern m) (ix_skiptable m)"

definition iFindByteArrayBoyerMoore :: "8 word list \<Rightarrow> int \<Rightarrow> 8 word list \<Rightarrow> int option" where
  "iFindByteArrayBoyerMoore hay haystackOffset needle =
     map_option (\<lambda>n. bm_find (take (nat (to_int (int (length hay)))) hay) (max haystackOffset 0) n (bm_init_skiptable n))
       (int_sized needle)"

section \<open>Single units\<close>

fun char_loop :: "'a list \<Rightarrow> 'a \<Rightarrow> int \<Rightarrow> int" where
  "char_loop [] c n = -1"
| "char_loop (x # xs) c n = (if x = c then n else char_loop xs c (n + 1))"

text \<open>The position from which a search starts, negative ones counted from the end.\<close>

definition clamp_from :: "int \<Rightarrow> int \<Rightarrow> int" where
  "clamp_from start l = (if start < 0 then max (start + l) 0 else start)"

definition findChar :: "8 word list \<Rightarrow> 8 word \<Rightarrow> int \<Rightarrow> int" where
  "findChar str ch start =
     (let from1 = clamp_from start (int (length str)) in
      if from1 < int (length str) then to_int (char_loop (drop (nat from1) str) ch from1) else -1)"

text \<open>iByteArray::indexOf, findByteArray and findString for one unit.\<close>

definition indexOf_char :: "'a list \<Rightarrow> 'a \<Rightarrow> int \<Rightarrow> int" where
  "indexOf_char str ch start =
     (let from1 = clamp_from start (int (length str)) in
      if from1 < int (length str) then char_loop (drop (nat from1) str) ch from1 else -1)"

definition countCharHelper :: "'a list \<Rightarrow> 'a \<Rightarrow> nat" where
  "countCharHelper hay ch = length (filter (\<lambda>x. x = ch) hay)"

section \<open>Rolling hashes\<close>

definition hash :: "('a \<Rightarrow> 64 word) \<Rightarrow> 'a list \<Rightarrow> 64 word" where
  "hash conv xs = foldl (\<lambda>h x. push_bit 1 h + conv x) 0 xs"

text \<open>The macro REHASH, and the comparison of sums as std::size_t.\<close>

definition rehash :: "64 word \<Rightarrow> nat \<Rightarrow> 64 word \<Rightarrow> 64 word" where
  "rehash a sl_minus_1 h = push_bit 1 (if sl_minus_1 < 64 then h - push_bit sl_minus_1 a else h)"

definition size_greater :: "int \<Rightarrow> int \<Rightarrow> bool" where
  "size_greater a b \<longleftrightarrow> uint (word_of_int a :: 64 word) > uint (word_of_int b :: 64 word)"

function hash_loop :: "('a \<Rightarrow> 64 word) \<Rightarrow> 'a list \<Rightarrow> 'a list \<Rightarrow> 64 word \<Rightarrow> nat \<Rightarrow> int" where
  "hash_loop conv hay needle h i =
     (if i + length needle \<le> length hay then
        let h1 = h + conv (hay ! (i + length needle - 1)) in
        if h1 = hash conv needle \<and> take (length needle) (drop i hay) = needle then int i
        else hash_loop conv hay needle (rehash (conv (hay ! i)) (length needle - 1) h1) (i + 1)
      else -1)"
  by pat_completeness auto
termination by (relation "measure (\<lambda>(conv, hay, needle, h, i). length hay + 1 - i)") auto

declare hash_loop.simps [simp del]

definition hash_find :: "('a \<Rightarrow> 64 word) \<Rightarrow> 'a list \<Rightarrow> 'a list \<Rightarrow> nat \<Rightarrow> int" where
  "hash_find conv hay needle i =
     hash_loop conv hay needle (hash conv (take (length needle) (drop i hay)) - conv (hay ! (i + length needle - 1))) i"

text \<open>What would be read before the haystack is undefined (None).\<close>

definition iFindByteArray :: "(8 word \<Rightarrow> 64 word) \<Rightarrow> 8 word list \<Rightarrow> int \<Rightarrow> 8 word list \<Rightarrow> int option" where
  "iFindByteArray conv hay start needle =
     (let l = int (length hay); sl = int (length needle); from1 = (if start < 0 then start + l else start) in
      if size_greater (sl + from1) l then Some (-1)
      else if sl = 0 then Some from1
      else if l = 0 then Some (-1)
      else if sl = 1 then Some (findChar hay (needle ! 0) from1)
      else if l > 500 \<and> sl > 5 then iFindByteArrayBoyerMoore hay from1 needle
      else if from1 < 0 then None
      else Some (hash_find conv hay needle (nat from1)))"

definition findByteArray :: "(8 word \<Rightarrow> 64 word) \<Rightarrow> 8 word list \<Rightarrow> int \<Rightarrow> 8 word list \<Rightarrow> int option" where
  "findByteArray conv hay start needle =
     (let l = int (length hay); sl = int (length needle); from1 = (if start < 0 then start + l else start) in
      if size_greater (sl + from1) l then Some (-1)
      else if sl = 0 then Some from1
      else if l = 0 then Some (-1)
      else if l > 500 \<and> sl > 5 then iFindByteArrayBoyerMoore hay from1 needle
      else iFindByteArray conv hay from1 needle)"

text \<open>
  Backwards. The hash runs over the reversed units. In ibytearray.cpp the macro REHASH shifts the char as an
  int of 32 bits before it is subtracted, here with the wrap-around of C++20; a shift by 32 bits
  or more is undefined (None); char is signed here. istring.cpp converts to std::size_t first. With
  an empty needle the loop returns at once, so that ol - 1 is never used.
\<close>

definition rehash_byte :: "8 word \<Rightarrow> nat \<Rightarrow> 64 word \<Rightarrow> 64 word option" where
  "rehash_byte c ol_minus_1 h =
     (if ol_minus_1 < 64 then
        if ol_minus_1 < 32 then Some (push_bit 1 (h - scast (push_bit ol_minus_1 (scast c :: 32 word)))) else None
      else Some (push_bit 1 h))"

text \<open>
  The loop goes down to position 0 and then rehashes once more before it ends. \<open>rh\<close> is the
  rehash of the unit that leaves the window.
\<close>

fun last_loop :: "('a \<Rightarrow> nat \<Rightarrow> 64 word \<Rightarrow> 64 word option) \<Rightarrow> ('a \<Rightarrow> 64 word) \<Rightarrow> 'a list \<Rightarrow> 'a list \<Rightarrow> nat \<Rightarrow> 64 word \<Rightarrow> nat \<Rightarrow> int option" where
  "last_loop rh conv hay needle ol_minus_1 h i =
     (let h1 = h + conv (hay ! i) in
      if h1 = hash conv (rev needle) \<and> take (length needle) (drop i hay) = needle then Some (int i)
      else
        (case i of
           0 \<Rightarrow> map_option (\<lambda>_. -1) (rh (hay ! (length needle - 1)) ol_minus_1 h1)
         | Suc k \<Rightarrow>
             (case rh (hay ! (k + length needle)) ol_minus_1 h1 of
                None \<Rightarrow> None
              | Some h2 \<Rightarrow> last_loop rh conv hay needle ol_minus_1 h2 k)))"

declare last_loop.simps [simp del]

definition last_hash :: "('a \<Rightarrow> 64 word) \<Rightarrow> 'a list \<Rightarrow> 'a list \<Rightarrow> nat \<Rightarrow> 64 word" where
  "last_hash conv hay needle i = hash conv (rev (take (length needle) (drop i hay))) - conv (hay ! i)"

definition lastIndexOfHelper :: "8 word list \<Rightarrow> 8 word list \<Rightarrow> int \<Rightarrow> int option" where
  "lastIndexOfHelper hay needle start =
     (let l = int (length hay); delta = l - int (length needle); from1 = (if start < 0 then delta else start) in
      if from1 < 0 \<or> from1 > l then Some (-1)
      else if delta < 0 then None
      else
        let i = nat (min from1 delta)
        in last_loop rehash_byte scast hay needle (length needle - 1) (last_hash scast hay needle i) i)"

fun rev_char_loop :: "'a list \<Rightarrow> 'a \<Rightarrow> nat \<Rightarrow> int" where
  "rev_char_loop s c 0 = -1"
| "rev_char_loop s c (Suc n) = (if s ! n = c then int n else rev_char_loop s c n)"

text \<open>iPrivate::lastIndexOf for a byte, and for bytes.\<close>

definition lastIndexOf_uchar :: "8 word list \<Rightarrow> int \<Rightarrow> 8 word \<Rightarrow> int" where
  "lastIndexOf_uchar hay start needle =
     (let l = int (length hay); from1 = (if start < 0 then max (start + l) 0 else min start (l - 1))
      in rev_char_loop hay needle (nat (from1 + 1)))"

definition lastIndexOf :: "8 word list \<Rightarrow> int \<Rightarrow> 8 word list \<Rightarrow> int option" where
  "lastIndexOf hay start needle =
     (if hay = [] then Some (if needle = [] \<and> start = 0 then 0 else -1)
      else if length needle = 1 then Some (lastIndexOf_uchar hay start (needle ! 0))
      else lastIndexOfHelper hay needle start)"

text \<open>iByteArray::lastIndexOf for a char; the data is followed by a zero byte.\<close>

definition lastIndexOf_char :: "8 word list \<Rightarrow> 8 word \<Rightarrow> int \<Rightarrow> int" where
  "lastIndexOf_char str ch start =
     (let l = int (length str); from1 = (if start < 0 then start + l else if start > l then l - 1 else start)
      in if from1 \<ge> 0 then rev_char_loop (str @ [0]) ch (nat (from1 + 1)) else -1)"

section \<open>Strings\<close>

text \<open>
  iPrivate::findString for a string: a start further than the length before the string's end is not clamped, and what
  is read before the string is undefined (None).
\<close>

definition iFindStringBoyerMoore :: "16 word list \<Rightarrow> int \<Rightarrow> 16 word list \<Rightarrow> int" where
  "iFindStringBoyerMoore hay haystackOffset needle = bm_find hay (max haystackOffset 0) needle (bm_init_skiptable needle)"

definition findString :: "16 word list \<Rightarrow> int \<Rightarrow> 16 word list \<Rightarrow> int option" where
  "findString hay start needle =
     (let l = int (length hay); sl = int (length needle); from1 = (if start < 0 then start + l else start) in
      if sl = 1 then Some (indexOf_char hay (needle ! 0) start)
      else if size_greater (sl + from1) l then Some (-1)
      else if sl = 0 then Some from1
      else if l = 0 then Some (-1)
      else if l > 500 \<and> sl > 5 then Some (iFindStringBoyerMoore hay from1 needle)
      else if from1 < 0 then None
      else Some (hash_find ucast hay needle (nat from1)))"

definition iLastIndexOf_char :: "16 word list \<Rightarrow> 16 word \<Rightarrow> int \<Rightarrow> int" where
  "iLastIndexOf_char hay needle start =
     (let l = int (length hay); from1 = (if start < 0 then start + l else if start > l then l - 1 else start)
      in if l = 0 then -1 else if from1 \<ge> 0 then rev_char_loop (hay @ [0]) needle (nat (from1 + 1)) else -1)"

definition iLastIndexOf :: "16 word list \<Rightarrow> int \<Rightarrow> 16 word list \<Rightarrow> int option" where
  "iLastIndexOf hay start needle =
     (let l = int (length hay); sl = int (length needle); from1 = (if start < 0 then start + l else start); delta = l - sl in
      if sl = 1 then Some (iLastIndexOf_char hay (needle ! 0) start)
      else if from1 = l \<and> sl = 0 then Some from1
      else if size_greater from1 l \<or> delta < 0 then Some (-1)
      else
        let i = nat (min from1 delta)
        in last_loop (\<lambda>c k h. Some (rehash (ucast c) k h)) ucast hay needle (length needle - 1) (last_hash ucast hay needle i) i)"

section \<open>Counting\<close>

text \<open>
  The loop of count, over a search from the position after the last match. None: the search is
  undefined, or does not go on, and the loop does not end.
\<close>

function count_loop :: "(int \<Rightarrow> int option) \<Rightarrow> int \<Rightarrow> int \<Rightarrow> nat option" where
  "count_loop search l i =
     (case search (i + 1) of
        None \<Rightarrow> None
      | Some j \<Rightarrow>
          if j = -1 then Some 0
          else if j \<le> i \<or> l < j then None
          else map_option Suc (count_loop search l j))"
  by pat_completeness auto
termination by (relation "measure (\<lambda>(search, l, i). nat (l - i))") auto

declare count_loop.simps [simp del]

definition count_bytes :: "(8 word \<Rightarrow> 64 word) \<Rightarrow> 8 word list \<Rightarrow> 8 word list \<Rightarrow> nat option" where
  "count_bytes conv hay needle =
     (if length needle = 0 then Some (length hay + 1)
      else if length needle = 1 then Some (countCharHelper hay (needle ! 0))
      else if length hay > 500 \<and> length needle > 5 then
        (case setPattern needle new_matcher of
           None \<Rightarrow> None
         | Some m \<Rightarrow> count_loop (\<lambda>i. Some (indexIn hay i m)) (int (length hay)) (-1))
      else count_loop (\<lambda>i. findByteArray conv hay i needle) (int (length hay)) (-1))"

definition count_string :: "16 word list \<Rightarrow> 16 word list \<Rightarrow> nat option" where
  "count_string hay needle =
     (if length hay > 500 \<and> length needle > 5 then
        count_loop (\<lambda>i. Some (indexIn hay i (string_setPattern needle new_matcher))) (int (length hay)) (-1)
      else count_loop (\<lambda>i. findString hay i needle) (int (length hay)) (-1))"

end
