(* ===== verification/Byte_Search_Laws.thy ===== *)
theory Byte_Search_Laws imports Byte_Search begin

text \<open>
  The searches compute what they are meant to: the first match at or after the start, the last one at or
  before it, and the number of matches; and where they do not.
\<close>

section \<open>First and last matches\<close>

lemma filter_upt_first:
  assumes "\<forall>j. a \<le> j \<and> j < b \<longrightarrow> \<not> P j" and "a \<le> b"
  shows "filter P [a..<n] = filter P [b..<n]"
proof (cases "b \<le> n")
  case True
  then have "[a..<n] = [a..<b] @ [b..<n]" using assms(2) by (metis le_add_diff_inverse upt_add_eq_append)
  moreover have "filter P [a..<b] = []" using assms(1) by (simp add: filter_empty_conv)
  ultimately show ?thesis by simp
next
  case False
  then show ?thesis using assms(1) by (simp add: filter_empty_conv)
qed

lemma first_match_skip:
  "(\<And>j. a \<le> j \<Longrightarrow> j < b \<Longrightarrow> \<not> matches_at hay needle j) \<Longrightarrow> a \<le> b \<Longrightarrow> first_match hay needle a = first_match hay needle b"
  unfolding first_match_def by (subst filter_upt_first [of a b]) auto

lemma first_match_here: "matches_at hay needle i \<Longrightarrow> first_match hay needle i = int i"
  by (simp add: first_match_def matches_at_def upt_conv_Cons del: upt_Suc)

lemma first_match_none: "(\<And>j. a \<le> j \<Longrightarrow> \<not> matches_at hay needle j) \<Longrightarrow> first_match hay needle a = -1"
  by (simp add: first_match_def filter_empty_conv)

lemma first_match_cases:
  obtains i where "first_match hay needle a = int i" and "a \<le> i" and "matches_at hay needle i" and "\<And>j. a \<le> j \<Longrightarrow> j < i \<Longrightarrow> \<not> matches_at hay needle j"
  | "first_match hay needle a = -1" and "\<And>j. a \<le> j \<Longrightarrow> \<not> matches_at hay needle j"
proof (cases "\<exists>j\<ge>a. matches_at hay needle j")
  case True
  define i where "i = (LEAST j. a \<le> j \<and> matches_at hay needle j)"
  have i: "a \<le> i \<and> matches_at hay needle i" unfolding i_def using True LeastI_ex [of "\<lambda>j. a \<le> j \<and> matches_at hay needle j"] by blast
  have l: "\<not> matches_at hay needle j" if "a \<le> j" "j < i" for j using not_less_Least [of j "\<lambda>j. a \<le> j \<and> matches_at hay needle j"] that
    by (auto simp: i_def)
  have "first_match hay needle a = int i" using first_match_skip [of a i hay needle] first_match_here [of hay needle i] i l by simp
  then show thesis using that(1) i l by blast
next
  case False
  then show thesis using that(2) first_match_none by blast
qed

lemma matches_at_nth:
  "matches_at hay needle i \<longleftrightarrow> i + length needle \<le> length hay \<and> (\<forall>k<length needle. hay ! (i + k) = needle ! k)"
proof -
  have "take (length needle) (drop i hay) = needle \<longleftrightarrow> (\<forall>k<length needle. hay ! (i + k) = needle ! k)" if "i + length needle \<le> length hay"
    using that by (auto simp: list_eq_iff_nth_eq)
  then show ?thesis by (auto simp: matches_at_def)
qed

section \<open>Boyer-Moore\<close>

lemma skip_fill_le: "t x \<le> n \<Longrightarrow> length cs \<le> n \<Longrightarrow> skip_fill cs t x \<le> n"
  by (induction cs arbitrary: t) auto

lemma skip_fill_occurs: "k < length cs \<Longrightarrow> skip_fill cs t (ucast (cs ! k)) \<le> length cs - 1 - k"
proof (induction cs arbitrary: t k)
  case (Cons c cs)
  show ?case
  proof (cases k)
    case 0
    then show ?thesis by (simp add: skip_fill_le)
  next
    case (Suc k')
    then show ?thesis using Cons.IH [of k'] Cons.prems by simp
  qed
qed simp

lemma skiptable_le: "bm_init_skiptable needle x \<le> min (length needle) 255"
  by (simp add: bm_init_skiptable_def Let_def skip_fill_le)

text \<open>The table never goes past an occurrence.\<close>

lemma skiptable_occurs:
  assumes "k < length needle" and "length needle - 1 - k < 255"
  shows "bm_init_skiptable needle (ucast (needle ! k)) \<le> length needle - 1 - k"
proof -
  let ?l = "min (length needle) 255"
  let ?cs = "drop (length needle - ?l) needle" and ?j = "k - (length needle - ?l)"
  have j: "?j < length ?cs" "?cs ! ?j = needle ! k" "length ?cs - 1 - ?j = length needle - 1 - k" using assms by auto
  show ?thesis using skip_fill_occurs [OF j(1), of "\<lambda>_. ?l"] j(2,3) by (simp add: bm_init_skiptable_def Let_def)
qed

lemma bm_back_props:
  assumes "skip \<le> length needle"
  shows "bm_back hay needle i skip \<le> length needle \<and> skip \<le> bm_back hay needle i skip \<and>
    (\<forall>s. skip \<le> s \<and> s < bm_back hay needle i skip \<longrightarrow> hay ! (i - s) = needle ! (length needle - 1 - s)) \<and>
    (bm_back hay needle i skip < length needle \<longrightarrow>
       hay ! (i - bm_back hay needle i skip) \<noteq> needle ! (length needle - 1 - bm_back hay needle i skip))"
  using assms
proof (induction hay needle i skip rule: bm_back.induct)
  case (1 hay needle i skip)
  show ?case
  proof (cases "skip < length needle \<and> hay ! (i - skip) = needle ! (length needle - 1 - skip)")
    case True
    have eq: "bm_back hay needle i skip = bm_back hay needle i (skip + 1)" using True by (subst bm_back.simps) simp
    have "skip + 1 \<le> length needle" using True by simp
    note ih = "1.IH" [OF True this]
    have "hay ! (i - s) = needle ! (length needle - 1 - s)" if "skip \<le> s" "s < bm_back hay needle i (skip + 1)" for s
      using ih True that by (cases "s = skip") simp_all
    then show ?thesis unfolding eq using ih by simp
  next
    case False
    then have eq: "bm_back hay needle i skip = skip" unfolding bm_back.simps [of hay needle i skip] by (simp only: if_False)
    have "\<not> (skip \<le> s \<and> s < skip)" for s by simp
    then show ?thesis unfolding eq using False "1.prems" by (auto simp: le_less)
  qed
qed

text \<open>What one step of the search passes over is no match.\<close>

lemma bm_step_skips:
  assumes "needle \<noteq> []" and "length needle - 1 \<le> i" and "i < length hay" and "bm_step hay needle (bm_init_skiptable needle) i = Inr skip"
    and "i - (length needle - 1) \<le> j" and "j < i + skip - (length needle - 1)"
  shows "\<not> matches_at hay needle j"
proof
  let ?pl = "length needle" and ?t = "bm_init_skiptable needle"
  assume "matches_at hay needle j"
  then have m: "j + ?pl \<le> length hay" "\<And>k. k < ?pl \<Longrightarrow> hay ! (j + k) = needle ! k" by (auto simp: matches_at_nth)
  define e where "e = j + ?pl - 1"
  have e: "i \<le> e" "e < i + skip" "j = e + 1 - ?pl" "?pl \<le> e + 1" using assms(1,2,5,6) by (auto simp: e_def length_greater_0_conv [symmetric] simp del: length_greater_0_conv)
  have at: "hay ! x = needle ! (x - j)" if "j \<le> x" "x \<le> e" for x
  proof -
    have "x - j < ?pl" using that e by linarith
    then show ?thesis using m(2) [of "x - j"] that by simp
  qed
  show False
  proof (cases "?t (ucast (hay ! i)) = 0")
    case False
    then have sk: "skip = ?t (ucast (hay ! i))" using assms(4) by (simp add: bm_step_def Let_def)
    have ji: "j \<le> i" and "e - i < ?pl" and "e - i < 255" using e sk skiptable_le [of needle "ucast (hay ! i)"] by auto
    then have "?t (ucast (needle ! (i - j))) \<le> ?pl - 1 - (i - j)" using e by (intro skiptable_occurs) auto
    then show False using at [OF ji e(1)] sk e ji by simp
  next
    case True
    let ?s = "bm_back hay needle i 0"
    note b = bm_back_props [of 0 needle hay i, simplified]
    have s: "?s < ?pl" using assms(4) True by (auto simp: bm_step_def Let_def split: if_splits)
    have mis: "hay ! (i - ?s) \<noteq> needle ! (?pl - 1 - ?s)" using b s by simp
    show False
    proof (cases "?t (ucast (hay ! (i - ?s))) = ?pl")
      case True
      then have sk: "skip = ?pl - ?s" using assms(4) \<open>?t (ucast (hay ! i)) = 0\<close> s by (simp add: bm_step_def Let_def)
      have r: "j \<le> i - ?s" "i - ?s \<le> e" using e sk s by auto
      have "?pl \<le> 255" using True skiptable_le [of needle "ucast (hay ! (i - ?s))"] by simp
      then have "?t (ucast (needle ! (i - ?s - j))) \<le> ?pl - 1 - (i - ?s - j)" using r e assms(1) by (intro skiptable_occurs) auto
      then show False using at [OF r] True assms(1) s by simp
    next
      case False
      then have "skip = 1" using assms(4) \<open>?t (ucast (hay ! i)) = 0\<close> s by (simp add: bm_step_def Let_def)
      then have "e = i" using e by simp
      then have "hay ! (i - ?s) = needle ! (i - ?s - j)" using at [of "i - ?s"] e s by simp
      moreover have "i - ?s - j = ?pl - 1 - ?s" using \<open>e = i\<close> e s by simp
      ultimately show False using mis by simp
    qed
  qed
qed

lemma bm_step_match:
  assumes "needle \<noteq> []" and "length needle - 1 \<le> i" and "i < length hay" and "bm_step hay needle table i = Inl pos"
  shows "pos = int (i - (length needle - 1)) \<and> matches_at hay needle (i - (length needle - 1))"
proof -
  let ?s = "bm_back hay needle i 0"
  note b = bm_back_props [of 0 needle hay i, simplified]
  have s: "?s = length needle" "pos = int i - int ?s + 1" using assms(4) b by (auto simp: bm_step_def Let_def split: if_splits)
  have "hay ! (i - (length needle - 1) + k) = needle ! k" if "k < length needle" for k
  proof -
    let ?x = "length needle - Suc k"
    have "?x < length needle" using that by simp
    then have "hay ! (i - ?x) = needle ! (length needle - Suc ?x)" using b unfolding s(1) by blast
    moreover have "length needle - Suc ?x = k" "i - ?x = i - (length needle - 1) + k" using that assms(2) by linarith+
    ultimately show ?thesis by metis
  qed
  then show ?thesis using s assms(1,2,3) by (auto simp: matches_at_nth of_nat_diff Suc_leI)
qed

lemma bm_loop_first:
  assumes "needle \<noteq> []" and "length needle - 1 \<le> i"
  shows "bm_loop hay needle (bm_init_skiptable needle) i = first_match hay needle (i - (length needle - 1))"
  using assms(2)
proof (induction "length hay - i" arbitrary: i rule: less_induct)
  case less
  let ?t = "bm_init_skiptable needle" and ?m = "length needle - 1"
  have out: "\<not> matches_at hay needle j" if "length hay - ?m \<le> j" for j
    using that assms(1) by (cases needle) (auto simp: matches_at_def)
  show ?case
  proof (cases "i < length hay")
    case False
    then have "first_match hay needle (i - ?m) = -1" using out by (intro first_match_none) auto
    then show ?thesis using False by (subst bm_loop.simps) simp
  next
    case True
    show ?thesis
    proof (cases "bm_step hay needle ?t i")
      case (Inl pos)
      note m = bm_step_match [OF assms(1) less.prems True Inl]
      then show ?thesis using True Inl first_match_here [of hay needle "i - ?m"] by (subst bm_loop.simps) simp
    next
      case (Inr skip)
      note sk = bm_step_skips [OF assms(1) less.prems True Inr]
      have p: "0 < skip" by (rule bm_step_progress [OF Inr])
      have f: "first_match hay needle (i - ?m) = first_match hay needle (i + skip - ?m)"
        by (rule first_match_skip) (use sk less.prems in auto)
      show ?thesis
      proof (cases "int i > int (length hay) - int skip")
        case gone: True
        then have "first_match hay needle (i + skip - ?m) = -1" using out by (intro first_match_none) auto
        then show ?thesis using True Inr gone f by (subst bm_loop.simps) simp
      next
        case False
        have "bm_loop hay needle ?t (i + skip) = first_match hay needle (i + skip - ?m)"
          by (rule less.hyps) (use True p less.prems in auto)
        then show ?thesis using True Inr False f by (subst bm_loop.simps) simp
      qed
    qed
  qed
qed

lemma first_match_empty: "i \<le> length hay \<Longrightarrow> first_match hay [] i = int i" "length hay < i \<Longrightarrow> first_match hay [] i = -1"
  by (rule first_match_here, simp add: matches_at_def) (rule first_match_none, simp add: matches_at_def)

lemma bm_find_first:
  assumes "0 \<le> index"
  shows "bm_find hay index needle (bm_init_skiptable needle) = first_match hay needle (nat index)"
proof (cases "needle = []")
  case True
  then show ?thesis using assms first_match_empty(1) [of "nat index" hay] first_match_empty(2) [of hay "nat index"] by (auto simp: bm_find_def)
next
  case False
  then have "nat (index + int (length needle) - 1) - (length needle - 1) = nat index" "length needle - 1 \<le> nat (index + int (length needle) - 1)"
    using assms by (cases needle; simp)+
  then show ?thesis using bm_loop_first [OF False, of "nat (index + int (length needle) - 1)" hay] False by (simp add: bm_find_def)
qed

section \<open>Rolling hashes\<close>

lemma hash_snoc: "hash conv (xs @ [x]) = push_bit 1 (hash conv xs) + conv x"
  by (simp add: hash_def)

lemma hash_Cons: "hash conv (x # xs) = push_bit (length xs) (conv x) + hash conv xs"
proof (induction xs rule: rev_induct)
  case (snoc y ys)
  have "hash conv (x # ys @ [y]) = push_bit 1 (hash conv (x # ys)) + conv y" using hash_snoc [of conv "x # ys" y] by simp
  then show ?case using snoc by (simp add: hash_snoc push_bit_add push_bit_push_bit)
qed (simp add: hash_def)

lemma power_past_size: "64 \<le> n \<Longrightarrow> push_bit n a = (0 :: 64 word)"
  by (rule bit_word_eqI) (simp add: bit_push_bit_iff)

lemma rehash_drops_first: "length xs = k \<Longrightarrow> rehash (conv x) k (hash conv (x # xs)) = push_bit 1 (hash conv xs)"
  using power_past_size [of k "conv x"] by (auto simp: rehash_def hash_Cons not_less)

text \<open>A window and the next one.\<close>

lemma window_Cons: "i < length hay \<Longrightarrow> 0 < m \<Longrightarrow> take m (drop i hay) = hay ! i # take (m - 1) (drop (i + 1) hay)"
  by (cases m) (simp_all add: Cons_nth_drop_Suc [symmetric])

lemma window_snoc: "i + m < length hay \<Longrightarrow> take (m + 1) (drop i hay) = take m (drop i hay) @ [hay ! (i + m)]"
  by (simp add: take_Suc_conv_app_nth)

lemma hash_loop_first:
  assumes "needle \<noteq> []" and "i + length needle \<le> length hay \<Longrightarrow>
      h = hash conv (take (length needle) (drop i hay)) - conv (hay ! (i + length needle - 1))"
  shows "hash_loop conv hay needle h i = first_match hay needle i"
  using assms(2)
proof (induction "length hay - i" arbitrary: i h rule: less_induct)
  case less
  let ?m = "length needle"
  have m: "0 < ?m" using assms(1) by simp
  show ?case
  proof (cases "i + ?m \<le> length hay")
    case False
    then have "first_match hay needle i = -1" by (intro first_match_none) (auto simp: matches_at_def)
    then show ?thesis using False by (subst hash_loop.simps) simp
  next
    case True
    let ?w = "take (?m - 1) (drop (i + 1) hay)"
    have h: "h + conv (hay ! (i + ?m - 1)) = hash conv (take ?m (drop i hay))" using less.prems [OF True] by simp
    show ?thesis
    proof (cases "matches_at hay needle i")
      case m: True
      then have "take ?m (drop i hay) = needle" by (simp add: matches_at_def)
      then show ?thesis using True h first_match_here [OF m] by (subst hash_loop.simps) simp
    next
      case no: False
      then have ne: "take ?m (drop i hay) \<noteq> needle" using True by (simp add: matches_at_def)
      have "take ?m (drop i hay) = hay ! i # ?w" using window_Cons [of i hay ?m] True m by linarith
      moreover have "length ?w = ?m - 1" using True by simp
      ultimately have re: "rehash (conv (hay ! i)) (?m - 1) (hash conv (take ?m (drop i hay))) = push_bit 1 (hash conv ?w)"
        using rehash_drops_first [of ?w "?m - 1" conv "hay ! i"] by simp
      have "hash_loop conv hay needle (push_bit 1 (hash conv ?w)) (i + 1) = first_match hay needle (i + 1)"
      proof (rule less.hyps)
        show "length hay - (i + 1) < length hay - i" using True m by linarith
        assume "i + 1 + ?m \<le> length hay"
        then have "i + 1 + (?m - 1) < length hay" "?m - 1 + 1 = ?m" using m by linarith+
        from window_snoc [OF this(1)] this(2) have "take ?m (drop (i + 1) hay) = ?w @ [hay ! (i + 1 + (?m - 1))]" by simp
        moreover have "i + 1 + (?m - 1) = i + 1 + ?m - 1" using m by linarith
        ultimately have "take ?m (drop (i + 1) hay) = ?w @ [hay ! (i + 1 + ?m - 1)]" by metis
        then show "push_bit 1 (hash conv ?w) = hash conv (take ?m (drop (i + 1) hay)) - conv (hay ! (i + 1 + ?m - 1))"
          using m by (simp add: hash_snoc)
      qed
      moreover have "first_match hay needle i = first_match hay needle (i + 1)"
        by (rule first_match_skip) (use no in \<open>auto simp: less_Suc_eq_le dest: le_antisym\<close>)
      ultimately show ?thesis using True h ne re by (subst hash_loop.simps) (simp add: Let_def)
    qed
  qed
qed

lemma hash_find_first: "needle \<noteq> [] \<Longrightarrow> hash_find conv hay needle i = first_match hay needle i"
  unfolding hash_find_def by (rule hash_loop_first) simp_all

lemma last_match_simps:
  "last_match hay needle 0 = (if matches_at hay needle 0 then 0 else -1)"
  "last_match hay needle (Suc k) = (if matches_at hay needle (Suc k) then int (Suc k) else last_match hay needle k)"
  by (simp_all add: last_match_def)

lemma last_loop_last:
  assumes "needle \<noteq> []" and "i + length needle \<le> length hay" and "h + conv (hay ! i) = hash conv (rev (take (length needle) (drop i hay)))"
    and "\<And>c g. rh c (length needle - 1) g = Some (rehash (conv c) (length needle - 1) g)"
  shows "last_loop rh conv hay needle (length needle - 1) h i = Some (last_match hay needle i)"
  using assms(2,3)
proof (induction i arbitrary: h)
  case 0
  have "matches_at hay needle 0 \<longleftrightarrow> take (length needle) (drop 0 hay) = needle" using "0.prems"(1) by (simp add: matches_at_def)
  then show ?case using "0.prems" assms(4) by (subst last_loop.simps) (auto simp: last_match_simps Let_def)
next
  case (Suc k)
  let ?m = "length needle"
  have m: "0 < ?m" using assms(1) by simp
  have mt: "matches_at hay needle (Suc k) \<longleftrightarrow> take ?m (drop (Suc k) hay) = needle" using Suc.prems(1) by (simp add: matches_at_def)
  let ?w = "take (?m - 1) (drop (Suc k) hay)"
  have "Suc k + (?m - 1) < length hay" "?m - 1 + 1 = ?m" using m Suc.prems(1) by linarith+
  from window_snoc [OF this(1)] this(2) have "take ?m (drop (Suc k) hay) = ?w @ [hay ! (Suc k + (?m - 1))]" by simp
  moreover have "Suc k + (?m - 1) = k + ?m" using m by linarith
  ultimately have rv: "rev (take ?m (drop (Suc k) hay)) = hay ! (k + ?m) # rev ?w" by (metis rev_append append.simps rev.simps)
  have "length (rev ?w) = ?m - 1" using Suc.prems(1) by simp
  then have re: "rehash (conv (hay ! (k + ?m))) (?m - 1) (hash conv (rev (take ?m (drop (Suc k) hay)))) = push_bit 1 (hash conv (rev ?w))"
    unfolding rv by (rule rehash_drops_first)
  have "take ?m (drop k hay) = hay ! k # ?w" using window_Cons [of k hay ?m] m Suc.prems(1) by simp
  then have "last_loop rh conv hay needle (?m - 1) (push_bit 1 (hash conv (rev ?w))) k = Some (last_match hay needle k)"
    using Suc.IH [of "push_bit 1 (hash conv (rev ?w))"] Suc.prems(1) by (simp add: hash_snoc)
  then show ?case using Suc.prems mt re assms(4) [of "hay ! (k + ?m)"] by (subst last_loop.simps) (auto simp: last_match_simps Let_def)
qed

section \<open>Positions\<close>

lemma size_greater_iff:
  "0 \<le> a \<Longrightarrow> a < 2 ^ 64 \<Longrightarrow> 0 \<le> b \<Longrightarrow> b < 2 ^ 64 \<Longrightarrow> size_greater a b \<longleftrightarrow> a > b"
  "- (2 ^ 63) \<le> a \<Longrightarrow> a < 0 \<Longrightarrow> 0 \<le> b \<Longrightarrow> b < 2 ^ 63 \<Longrightarrow> size_greater a b"
proof -
  show "0 \<le> a \<Longrightarrow> a < 2 ^ 64 \<Longrightarrow> 0 \<le> b \<Longrightarrow> b < 2 ^ 64 \<Longrightarrow> size_greater a b \<longleftrightarrow> a > b"
    by (simp add: size_greater_def uint_word_of_int)
  assume a: "- (2 ^ 63) \<le> a" "a < 0" "0 \<le> b" "b < 2 ^ 63"
  have "a mod 2 ^ 64 = (a + 2 ^ 64) mod 2 ^ 64" by simp
  also have "\<dots> = a + 2 ^ 64" by (rule mod_pos_pos_trivial) (use a in simp_all)
  finally show "size_greater a b" using a by (simp add: size_greater_def uint_word_of_int)
qed

lemma to_int_small: "- (2 ^ 31) \<le> x \<Longrightarrow> x < 2 ^ 31 \<Longrightarrow> to_int x = x"
  by (simp add: to_int_def sint_sbintrunc' signed_take_bit_int_eq_self)

lemma matches_one: "matches_at hay [c] i \<longleftrightarrow> i < length hay \<and> hay ! i = c"
  by (auto simp: matches_at_nth)

lemma first_match_range: "first_match hay needle a = -1 \<or> int a \<le> first_match hay needle a \<and> first_match hay needle a \<le> int (length hay)"
  by (rule first_match_cases [of hay needle a]) (auto simp: matches_at_def)

lemma char_loop_first: "char_loop (drop n hay) c (int n) = first_match hay [c] n"
proof (induction "length hay - n" arbitrary: n)
  case 0
  then have "first_match hay [c] n = -1" by (intro first_match_none) (auto simp: matches_one)
  then show ?case using 0 by simp
next
  case (Suc k)
  then have n: "n < length hay" by linarith
  have d: "drop n hay = hay ! n # drop (n + 1) hay" using n by (simp add: Cons_nth_drop_Suc)
  show ?case
  proof (cases "hay ! n = c")
    case True
    then show ?thesis using d n first_match_here [of hay "[c]" n] by (simp add: matches_one)
  next
    case False
    have "first_match hay [c] n = first_match hay [c] (n + 1)"
      by (rule first_match_skip) (use False in \<open>auto simp: matches_one less_Suc_eq_le dest: le_antisym\<close>)
    moreover have "char_loop (drop (n + 1) hay) c (int (n + 1)) = first_match hay [c] (n + 1)" by (rule Suc.hyps(1)) (use Suc.hyps(2) in simp)
    ultimately show ?thesis using d False by (simp add: add.commute)
  qed
qed

lemma indexOf_char_first:
  "indexOf_char hay c start = first_match hay [c] (nat (clamp_from start (int (length hay))))"
proof -
  let ?n = "nat (clamp_from start (int (length hay)))"
  have n: "int ?n = clamp_from start (int (length hay))" by (simp add: clamp_from_def)
  show ?thesis
  proof (cases "?n < length hay")
    case True
    then have "clamp_from start (int (length hay)) < int (length hay)" using n by linarith
    then show ?thesis using char_loop_first [of ?n hay c] unfolding n by (simp add: indexOf_char_def Let_def)
  next
    case False
    then have "\<not> clamp_from start (int (length hay)) < int (length hay)" using n by linarith
    moreover have "first_match hay [c] ?n = -1" using False by (intro first_match_none) (auto simp: matches_one)
    ultimately show ?thesis by (simp add: indexOf_char_def Let_def)
  qed
qed

lemma findChar_first:
  "length hay < 2 ^ 31 \<Longrightarrow> 0 \<le> start \<Longrightarrow> findChar hay c start = first_match hay [c] (nat start)"
proof -
  assume a: "length hay < 2 ^ 31" "0 \<le> start"
  have "findChar hay c start = to_int (indexOf_char hay c start)" by (simp add: findChar_def indexOf_char_def Let_def to_int_def)
  moreover have "indexOf_char hay c start = first_match hay [c] (nat start)" using a(2) by (simp add: indexOf_char_first clamp_from_def)
  moreover have "to_int (first_match hay [c] (nat start)) = first_match hay [c] (nat start)"
  proof (rule to_int_small)
    have "-1 \<le> first_match hay [c] (nat start)" using first_match_range [of hay "[c]" "nat start"] by linarith
    then show "- (2 ^ 31) \<le> first_match hay [c] (nat start)" by simp
    have "int (length hay) < 2 ^ 31" using a(1) by simp
    then show "first_match hay [c] (nat start) < 2 ^ 31" using first_match_range [of hay "[c]" "nat start"] by linarith
  qed
  ultimately show ?thesis by simp
qed

lemma int_sized_small: "length xs < 2 ^ 31 \<Longrightarrow> int_sized xs = Some xs"
proof -
  assume "length xs < 2 ^ 31"
  then have "int (length xs) < 2 ^ 31" by simp
  then show ?thesis using to_int_small [of "int (length xs)"] by (simp add: int_sized_def)
qed

lemma bm_bytes_first:
  "length hay < 2 ^ 31 \<Longrightarrow> length needle < 2 ^ 31 \<Longrightarrow> iFindByteArrayBoyerMoore hay start needle = Some (first_match hay needle (nat start))"
proof -
  assume a: "length hay < 2 ^ 31" "length needle < 2 ^ 31"
  then have "int (length hay) < 2 ^ 31" by simp
  then have t: "take (nat (to_int (int (length hay)))) hay = hay" using to_int_small [of "int (length hay)"] by simp
  have "nat (max start 0) = nat start" by simp
  then show ?thesis unfolding iFindByteArrayBoyerMoore_def t int_sized_small [OF a(2)] using bm_find_first [of "max start 0" hay needle] by simp
qed

section \<open>Counting\<close>

lemma matches_after:
  assumes "first_match hay needle (nat (i + 1)) = int j" and "-1 \<le> i"
  shows "card {k. matches_at hay needle k \<and> i < int k} = Suc (card {k. matches_at hay needle k \<and> int j < int k})"
proof -
  have fin: "finite {k. matches_at hay needle k \<and> int j < int k}" by (rule finite_subset [of _ "{..length hay}"]) (auto simp: matches_at_def)
  have "{k. matches_at hay needle k \<and> i < int k} = insert j {k. matches_at hay needle k \<and> int j < int k}"
  proof (cases rule: first_match_cases [of hay needle "nat (i + 1)"])
    case (1 m)
    then have j: "m = j" using assms(1) by simp
    have "k = j \<or> j < k" if "matches_at hay needle k" "i < int k" for k
    proof -
      have "nat (i + 1) \<le> k" using that(2) by linarith
      then show ?thesis using 1(4) [of k] that(1) j by (cases "k < j") auto
    qed
    then show ?thesis using 1 j assms(2) by auto
  qed (use assms in simp)
  then show ?thesis using fin by simp
qed

lemma count_loop_card:
  assumes "\<And>i. -1 \<le> i \<Longrightarrow> i \<le> int (length hay) \<Longrightarrow> search (i + 1) = Some (first_match hay needle (nat (i + 1)))"
    and "-1 \<le> i" and "i \<le> int (length hay)"
  shows "count_loop search (int (length hay)) i = Some (card {k. matches_at hay needle k \<and> i < int k})"
  using assms(2,3)
proof (induction "nat (int (length hay) - i)" arbitrary: i rule: less_induct)
  case less
  have s: "search (i + 1) = Some (first_match hay needle (nat (i + 1)))" by (rule assms(1)) (use less.prems in simp_all)
  show ?case
  proof (cases rule: first_match_cases [of hay needle "nat (i + 1)"])
    case (1 j)
    have j: "i < int j" "int j \<le> int (length hay)" using 1(2,3) less.prems by (auto simp: matches_at_def)
    have "count_loop search (int (length hay)) (int j) = Some (card {k. matches_at hay needle k \<and> int j < int k})"
      by (rule less.hyps) (use j less.prems in auto)
    then show ?thesis using s 1(1) j matches_after [OF 1(1) less.prems(1)] by (subst count_loop.simps) simp
  next
    case 2
    have no: "\<not> (matches_at hay needle k \<and> i < int k)" for k
    proof (cases "i < int k")
      case True
      then have "nat (i + 1) \<le> k" by linarith
      then show ?thesis using 2(2) by simp
    qed simp
    have none: "{k. matches_at hay needle k \<and> i < int k} = {}" using no by blast
    show ?thesis unfolding none using s 2(1) by (subst count_loop.simps) simp
  qed
qed

text \<open>A matcher with its pattern set.\<close>

lemma indexIn_first: "indexIn hay start (m\<lparr>ix_pattern := needle, ix_skiptable := bm_init_skiptable needle\<rparr>) = first_match hay needle (nat start)"
proof -
  have "nat (max start 0) = nat start" by simp
  then show ?thesis using bm_find_first [of "max start 0" hay needle] by (simp add: indexIn_def)
qed

lemma setPattern_small: "length needle < 2 ^ 31 \<Longrightarrow> setPattern needle m = Some (m\<lparr>ix_pattern := needle, ix_skiptable := bm_init_skiptable needle\<rparr>)"
  by (simp add: setPattern_def int_sized_small)

lemma count_matcher_card:
  "count_loop (\<lambda>i. Some (indexIn hay i (m\<lparr>ix_pattern := needle, ix_skiptable := bm_init_skiptable needle\<rparr>))) (int (length hay)) (-1) =
     Some (card {k. matches_at hay needle k \<and> - 1 < int k})"
  by (rule count_loop_card) (simp_all add: indexIn_first)

lemma matches_from_start: "{k. matches_at hay needle k \<and> - 1 < int k} = {k. matches_at hay needle k}" by auto

lemma count_char_card: "countCharHelper hay c = card {k. matches_at hay [c] k}"
proof -
  have "{k. matches_at hay [c] k} = {i. i < length hay \<and> hay ! i = c}" by (auto simp: matches_one)
  then show ?thesis by (simp add: countCharHelper_def length_filter_conv_card)
qed

lemma count_empty_card: "card {k. matches_at hay [] k} = length hay + 1"
proof -
  have "{k. matches_at hay [] k} = {..length hay}" by (auto simp: matches_at_def)
  then show ?thesis by simp
qed

section \<open>Backwards\<close>

lemma last_match_range: "last_match hay needle i = -1 \<or> 0 \<le> last_match hay needle i \<and> last_match hay needle i \<le> int i"
  by (induction i) (auto simp: last_match_simps)

lemma rev_char_loop_last: "n < length hay \<Longrightarrow> rev_char_loop hay c (Suc n) = last_match hay [c] n"
  by (induction n) (auto simp: last_match_simps matches_one)

lemma last_match_beyond:
  "length hay < i + length needle \<Longrightarrow> last_match hay needle i = last_match hay needle (length hay - length needle)"
proof (induction i)
  case (Suc i)
  then have "last_match hay needle (Suc i) = last_match hay needle i" by (simp add: last_match_simps matches_at_def)
  moreover have "i = length hay - length needle" if "\<not> length hay < i + length needle" using that Suc.prems by linarith
  ultimately show ?case using Suc.IH by metis
qed simp

lemma rehash_byte_small:
  assumes "k \<le> 24"
  shows "rehash_byte c k h = Some (rehash (scast c) k h)"
proof -
  have c: "- 128 \<le> sint c" "sint c < 128" using sint_range_size [of c] by (auto simp: word_size)
  have k: "(2::int) ^ k \<le> 2 ^ 24" using assms by (intro power_increasing) auto
  have lo: "- (2 ^ 31) \<le> sint c * 2 ^ k"
  proof -
    have "- 128 * 2 ^ k \<le> sint c * 2 ^ k" using c(1) by (intro mult_right_mono) auto
    then show ?thesis using k by simp
  qed
  have hi: "sint c * 2 ^ k < 2 ^ 31"
  proof -
    have "sint c * 2 ^ k \<le> 127 * 2 ^ k" using c(2) by (intro mult_right_mono) auto
    also have "127 * 2 ^ k \<le> 127 * (2::int) ^ 24" by (rule mult_left_mono [OF k]) simp
    also have "127 * (2::int) ^ 24 < 2 ^ 31" by simp
    finally show ?thesis .
  qed
  have "push_bit k (scast c :: 32 word) = word_of_int (sint c * 2 ^ k)"
    unfolding push_bit_eq_mult scast_eq by (simp only: wi_hom_mult [symmetric] word_of_int_2p)
  then have "sint (push_bit k (scast c :: 32 word)) = sint c * 2 ^ k"
    using to_int_small [OF lo hi] by (simp only: to_int_def)
  moreover have "push_bit k (scast c :: 64 word) = word_of_int (sint c * 2 ^ k)"
    unfolding push_bit_eq_mult scast_eq by (simp only: wi_hom_mult [symmetric] word_of_int_2p)
  ultimately have "scast (push_bit k (scast c :: 32 word)) = push_bit k (scast c :: 64 word)" by (simp only: scast_eq)
  then show ?thesis using assms by (simp add: rehash_byte_def rehash_def)
qed


lemma lastIndexOf_uchar_last:
  "hay \<noteq> [] \<Longrightarrow> lastIndexOf_uchar hay start c = last_match hay [c] (nat (if start < 0 then max (start + int (length hay)) 0 else start))"
proof -
  assume ne: "hay \<noteq> []"
  let ?b = "nat (if start < 0 then max (start + int (length hay)) 0 else start)"
  define f where "f = (if start < 0 then max (start + int (length hay)) 0 else min start (int (length hay) - 1))"
  have l: "0 < length hay" using ne by simp
  have f: "0 \<le> f" "f < int (length hay)" using l by (auto simp: f_def)
  have "nat (f + 1) = Suc (nat f)" using f by simp
  then have "lastIndexOf_uchar hay start c = last_match hay [c] (nat f)"
    using rev_char_loop_last [of "nat f" hay c] f by (simp add: lastIndexOf_uchar_def f_def [symmetric])
  moreover have "last_match hay [c] (nat f) = last_match hay [c] ?b"
  proof (cases "?b < length hay")
    case True
    then have "nat f = ?b" by (auto simp: f_def)
    then show ?thesis by simp
  next
    case False
    then have "nat f = length hay - 1" using l by (auto simp: f_def)
    then show ?thesis using last_match_beyond [of hay ?b "[c]"] False by simp
  qed
  ultimately show ?thesis by simp
qed

lemma last_hash_last:
  assumes "i + length needle \<le> length hay" and "\<And>c g. rh c (length needle - 1) g = Some (rehash (conv c) (length needle - 1) g)"
  shows "last_loop rh conv hay needle (length needle - 1) (last_hash conv hay needle i) i = Some (last_match hay needle i)"
proof (cases "needle = []")
  case True
  have "last_match hay [] i = int i" using assms(1) True by (cases i) (auto simp: last_match_simps matches_at_def)
  then show ?thesis using True by (subst last_loop.simps) (simp add: last_hash_def Let_def hash_def)
next
  case False
  then show ?thesis using assms by (intro last_loop_last) (simp_all add: last_hash_def)
qed

lemma lastIndexOfHelper_last:
  assumes "length needle \<le> 25" and "length needle \<le> length hay" and "start \<le> int (length hay)"
  shows "lastIndexOfHelper hay needle start = Some (last_match hay needle (if start < 0 then length hay else nat start))"
proof -
  define f where "f = (if start < 0 then length hay - length needle else min (nat start) (length hay - length needle))"
  have f: "f + length needle \<le> length hay" using assms(2) by (auto simp: f_def)
  have "lastIndexOfHelper hay needle start = last_loop rehash_byte scast hay needle (length needle - 1) (last_hash scast hay needle f) f"
    using assms(2,3) by (auto simp: lastIndexOfHelper_def Let_def f_def min_def nat_diff_distrib)
  also have "\<dots> = Some (last_match hay needle f)"
    by (rule last_hash_last) (use f assms(1) rehash_byte_small in auto)
  also have "last_match hay needle f = last_match hay needle (if start < 0 then length hay else nat start)"
  proof (cases "f = (if start < 0 then length hay else nat start)")
    case False
    then have "f = length hay - length needle" and "length hay < (if start < 0 then length hay else nat start) + length needle"
      by (auto simp: f_def min_def split: if_splits)
    then show ?thesis using last_match_beyond by metis
  qed metis
  finally show ?thesis .
qed

end
