(* ===== verification/Byte_Search_Properties.thy ===== *)
theory Byte_Search_Properties imports Byte_Search_Laws begin

text \<open>
  The properties of the byte array and string searches.
\<close>


lemma findByteArray_naive:
  assumes "length hay < 2 ^ 31" and "length needle < 2 ^ 62" and "- int (length hay) \<le> start" and "start < 2 ^ 62"
  shows "findByteArray conv hay start needle =
    Some (first_match hay needle (nat (if start < 0 then start + int (length hay) else start)))"
proof -
  let ?l = "int (length hay)" and ?sl = "int (length needle)"
  define from1 where "from1 = (if start < 0 then start + ?l else start)"
  have f: "0 \<le> from1" "from1 < 2 ^ 62" using assms by (auto simp: from1_def)
  have sz: "size_greater (?sl + from1) ?l \<longleftrightarrow> ?sl + from1 > ?l" using f assms(1,2) by (intro size_greater_iff(1)) auto
  have none: "first_match hay needle (nat from1) = -1" if "?sl + from1 > ?l"
    using that f by (intro first_match_none) (auto simp: matches_at_def)
  have short: "length needle < 2 ^ 31" if "\<not> ?sl + from1 > ?l" using that f assms(1) by linarith
  have one: "findChar hay (needle ! 0) from1 = first_match hay needle (nat from1)" if "?sl = 1"
  proof -
    have "needle = [needle ! 0]" using that by (cases needle) auto
    then show ?thesis using findChar_first [OF assms(1) f(1)] by metis
  qed
  have i: "iFindByteArray conv hay from1 needle = Some (first_match hay needle (nat from1))" if "\<not> ?sl + from1 > ?l" "needle \<noteq> []" "hay \<noteq> []"
    using that sz f one hash_find_first [OF that(2)] bm_bytes_first [OF assms(1) short [OF that(1)]]
    by (auto simp: iFindByteArray_def Let_def)
 have e: "first_match hay [] (nat from1) = from1" if "from1 \<le> ?l" using that f first_match_empty(1) [of "nat from1" hay] by simp
  show ?thesis
  proof (cases "?sl + from1 > ?l")
    case True
    then show ?thesis using sz none by (simp add: findByteArray_def Let_def from1_def [symmetric])
  next
    case False
    show ?thesis
    proof (cases "needle = []")
      case True
      then show ?thesis using sz False e by (simp add: findByteArray_def Let_def from1_def [symmetric])
    next
      case ne: False
      then have "hay \<noteq> []" using False f ne by (cases needle) auto
      then show ?thesis using sz False ne i [OF False ne \<open>hay \<noteq> []\<close>] bm_bytes_first [OF assms(1) short [OF False], of from1]
        by (simp add: findByteArray_def Let_def from1_def [symmetric])
    qed
  qed
qed


text \<open>
  C36. The search of iByteArray::indexOf is the naive one: for an array of less than 2 GiB and a start within it or after
  it, from the front or counted from the end, it returns the position of the first match at or after the start, or -1.
  This holds for single bytes, the rolling hash and Boyer-Moore alike, with signed and unsigned char.
\<close>

theorem findByteArray_is_naive:
  assumes "length hay < 2 ^ 31" and "length needle < 2 ^ 62" and "- int (length hay) \<le> start" and "start < 2 ^ 62"
  shows "findByteArray conv hay start needle =
    Some (first_match hay needle (nat (if start < 0 then start + int (length hay) else start)))"
  using assms by (rule findByteArray_naive)

theorem findByteArray_is_naive_witness:
  "findByteArray scast [1, 2, 3, 2, 3] (-4) [2, 3] = Some (first_match [1, 2, 3, 2, 3] [2, 3 :: 8 word] 1)"
  using findByteArray_is_naive [of "[1, 2, 3, 2, 3]" "[2, 3]" "-4" scast] by simp

lemma findString_naive:
  assumes "length hay < 2 ^ 62" and "length needle < 2 ^ 62" and "- int (length hay) \<le> start" and "start < 2 ^ 62"
  shows "findString hay start needle = Some (first_match hay needle (nat (if start < 0 then start + int (length hay) else start)))"
proof -
  let ?l = "int (length hay)" and ?sl = "int (length needle)"
  define from1 where "from1 = (if start < 0 then start + ?l else start)"
  have f: "0 \<le> from1" "from1 < 2 ^ 62" using assms by (auto simp: from1_def)
  have c: "clamp_from start ?l = from1" using assms(3) by (auto simp: clamp_from_def from1_def)
  have sz: "size_greater (?sl + from1) ?l \<longleftrightarrow> ?sl + from1 > ?l" using f assms(1,2) by (intro size_greater_iff(1)) auto
  have none: "first_match hay needle (nat from1) = -1" if "?sl + from1 > ?l"
    using that f by (intro first_match_none) (auto simp: matches_at_def)
  have bm: "iFindStringBoyerMoore hay from1 needle = first_match hay needle (nat from1)"
    using bm_find_first [of "max from1 0" hay needle] f by (simp add: iFindStringBoyerMoore_def)
  consider (one) "length needle = 1" | (far) "length needle \<noteq> 1" "?sl + from1 > ?l" | (empty) "needle = []" "from1 \<le> ?l"
    | (search) "needle \<noteq> []" "length needle \<noteq> 1" "\<not> ?sl + from1 > ?l" by force
  then show ?thesis
  proof cases
    case one
    then have "needle = [needle ! 0]" by (cases needle) auto
    then have "indexOf_char hay (needle ! 0) start = first_match hay needle (nat from1)" using indexOf_char_first c by metis
    then show ?thesis using one by (simp add: findString_def Let_def from1_def [symmetric])
  next
    case far
    then show ?thesis using sz none by (simp add: findString_def Let_def from1_def [symmetric])
  next
    case empty
    then show ?thesis using sz f first_match_empty(1) [of "nat from1" hay] by (simp add: findString_def Let_def from1_def [symmetric])
  next
    case search
    then have "hay \<noteq> []" using f by (cases needle) auto
    then show ?thesis using search sz f bm hash_find_first [OF search(1), of ucast hay "nat from1"]
      by (simp add: findString_def Let_def from1_def [symmetric])
  qed
qed

text \<open>
  The same search over strings of code units, which are not truncated to int.
\<close>

theorem findString_is_naive:
  assumes "length hay < 2 ^ 62" and "length needle < 2 ^ 62" and "- int (length hay) \<le> start" and "start < 2 ^ 62"
  shows "findString hay start needle = Some (first_match hay needle (nat (if start < 0 then start + int (length hay) else start)))"
  using assms by (rule findString_naive)

text \<open>
  C37. iByteArray::count counts the matches, overlapping ones included: for an array and a needle of less than
  2 GiB it ends and returns the number of positions at which the needle occurs, length + 1 for an empty one.
\<close>

theorem count_counts_matches:
  assumes "length hay < 2 ^ 31" and "length needle < 2 ^ 31"
  shows "count_bytes conv hay needle = Some (card {i. matches_at hay needle i})"
proof -
  have h: "int (length hay) < 2 ^ 31" using assms(1) by simp
  have n: "length needle < 2 ^ 62" using assms(2) by simp
  have search: "findByteArray conv hay (i + 1) needle = Some (first_match hay needle (nat (i + 1)))" if "-1 \<le> i" "i \<le> int (length hay)" for i
    using findByteArray_naive [OF assms(1) n, of "i + 1" conv] that h by simp
  have loop: "count_loop (\<lambda>i. findByteArray conv hay i needle) (int (length hay)) (-1) = Some (card {i. matches_at hay needle i})"
    using count_loop_card [of hay "\<lambda>i. findByteArray conv hay i needle" needle "-1"] search by (simp add: matches_from_start)
  note bm = count_matcher_card [of hay needle new_matcher, unfolded matches_from_start]
  have one: "needle = [needle ! 0]" if "length needle = 1" using that by (cases needle) auto
  have "countCharHelper hay (needle ! 0) = card {i. matches_at hay needle i}" if "length needle = 1"
    using count_char_card [of hay "needle ! 0"] one [OF that] by simp
  then show ?thesis using loop bm count_empty_card [of hay] by (auto simp: count_bytes_def setPattern_small [OF assms(2)])
qed

theorem count_counts_matches_witness:
  "count_bytes scast [1, 1, 1, 2, 1, 1] [1, 1] = Some (card {i. matches_at [1, 1, 1, 2, 1, 1] [1, 1 :: 8 word] i})"
  using count_counts_matches [of "[1, 1, 1, 2, 1, 1]" "[1, 1]" scast] by simp

theorem count_string_counts_matches:
  assumes "length hay < 2 ^ 61" and "length needle < 2 ^ 62"
  shows "count_string hay needle = Some (card {i. matches_at hay needle i})"
proof -
  have h: "int (length hay) < 2 ^ 61" using assms(1) by simp
  have h2: "length hay < 2 ^ 62" using assms(1) by simp
  have search: "findString hay (i + 1) needle = Some (first_match hay needle (nat (i + 1)))" if "-1 \<le> i" "i \<le> int (length hay)" for i
    using findString_naive [OF h2 assms(2), of "i + 1"] that h by simp
  have "count_loop (\<lambda>i. findString hay i needle) (int (length hay)) (-1) = Some (card {i. matches_at hay needle i})"
    using count_loop_card [of hay "\<lambda>i. findString hay i needle" needle "-1"] search by (simp add: matches_from_start)
  then show ?thesis using count_matcher_card [of hay needle new_matcher]
    by (simp add: count_string_def string_setPattern_def matches_from_start)
qed





theorem long_needle_missed:
  "lastIndexOf (replicate 26 97 @ [98]) (-1) (replicate 26 97) = Some (-1) \<and>
   last_match (replicate 26 97 @ [98 :: 8 word]) (replicate 26 97) 27 = 0"
  by code_simp



section \<open>Boundary cases\<close>

text \<open>Starts before the front: the array is searched from its end again, or read before its front.\<close>

theorem findByteArray_far_starts:
  "findByteArray scast [120, 97, 98] (-5) [97, 98] = Some 1 \<and> findByteArray scast [120, 97, 98] (-4) [97, 98] = Some (-1) \<and>
   findByteArray scast [1] (-3) [1, 2] = None"
  by code_simp

text \<open>A needle longer than the array is read before its front; with one byte the terminating zero is found.\<close>

theorem lastIndexOf_edges:
  "lastIndexOf [1] 0 [1, 2] = None \<and> lastIndexOf_char [1, 2] 0 2 = 2 \<and> iLastIndexOf_char [1, 2] 0 2 = 2"
  by code_simp

theorem new_matcher_matches: "0 \<le> start \<Longrightarrow> start \<le> int (length hay) \<Longrightarrow> indexIn hay start new_matcher = start"
  by (simp add: indexIn_def new_matcher_def bm_find_def)

text \<open>A pattern of 4 GiB and more is cut off: the matcher searches for its first bytes.\<close>

theorem matcher_cuts_pattern:
  "length rest = 2 ^ 32 \<Longrightarrow> length pattern < 2 ^ 31 \<Longrightarrow> setPattern (pattern @ rest) m = setPattern pattern m"
proof -
  assume a: "length rest = 2 ^ 32" "length pattern < 2 ^ 31"
  then have l: "int (length pattern) < 2 ^ 31" by simp
  have "(word_of_int (int (length pattern) + 2 ^ 32) :: 32 word) = word_of_int (int (length pattern))"
    by (simp flip: wi_hom_add)
  moreover have "int (length (pattern @ rest)) = int (length pattern) + 2 ^ 32" using a(1) by simp
  moreover have "to_int (int (length pattern)) = int (length pattern)" using l by (intro to_int_small) simp_all
  ultimately have "to_int (int (length (pattern @ rest))) = int (length pattern)" by (simp only: to_int_def)
  then show ?thesis using int_sized_small [OF a(2)] by (simp add: setPattern_def int_sized_def)
qed

end
