(* ===== verification/Spec2Isabelle.thy ===== *)
theory Spec2Isabelle
  imports Channel_Properties Router_Properties Rtp_Laws Queue_Properties Media_Time_Range Byte_Search_Properties
begin

text \<open>
  iMediaPlayer (src/): a multimedia framework in C++ with its own core library and the INC
  middleware (inter-node communication). This development models INC, from the encoded payload
  to the client and the server that call each other over a socket, the packets of its RTP devices,
  the buffering of media streams and the value types they use.

  Parts and how they interact. A message (iINCMessage) carries a payload written and read as
  tagged fields (iINCTagStruct), whose strings are UTF-8 (iUtf8). The devices iTcpDevice and
  iUnixDevice frame messages on a byte stream: a 32-byte header and the payload, written in
  pieces, and cut out of the receive buffer again; the Unix device also carries file
  descriptors. The protocol (iINCProtocol) queues messages, drives the device, tracks each
  request by an operation (iINCOperation), completes it by the reply and hands binary data
  on, in the message or by reference into shared memory. A connection (iINCConnection) puts
  subscriptions and channels around a protocol. The server (iINCServer) accepts connections,
  agrees with each on versions and capabilities (iINCHandshake), dispatches their requests and
  broadcasts events; a context (iINCContext) is a client's side: it connects, calls methods,
  and connects again after errors; a stream (iINCStream) is a channel of a context for
  binary data. A router (iINCRouter) is a server that opens a connection of its own to
  another server for each client and forwards what comes in on either side. Media streams are cut
  into RTP packets (irtp.cpp) or buffered in iMemBlockQueue, whose input iMCAlign cuts to whole frames;
  iMediaTimeRange keeps the parts of a media that are buffered. Byte arrays and strings are searched by
  Boyer-Moore or a rolling hash (iByteArray, iByteArrayMatcher, iString, iStringMatcher).

  Theories.
  - IX_Prelude: machine integers as words, big-endian byte layout, shared lemmas.
  - Utf8_Codec (src/core/utils/istringconverter.cpp, istringconverter_p.h): UTF-16 and UTF-8.
  - Tag_Struct (src/core/inc/iinctagstruct.cpp): tagged fields in a byte buffer.
  - Inc_Message (src/core/inc/iincmessage.cpp): message, header, header parsing.
  - Inc_Stream (itcpdevice.cpp, iunixdevice.cpp): writing and parsing of the stream.
  - Inc_Operation (iincoperation.cpp): life of a request and the races of its finishers.
  - Inc_Protocol (iincprotocol.cpp, iincmetrics.h): send queue, operations, binary data.
  - Inc_Protocol_Laws: the contract of a stream device (locale stream_sender), interpreted
    on both devices, and what the protocol guarantees over it; Inc_Ownership: its table and
    reference counts; Protocol_Properties: both composed with the devices.
  - Inc_Handshake (iinchandshake.cpp, iinccontextconfig.cpp, iincserverconfig.cpp): the data the
    two sides exchange and the verdict on it.
  - Inc_Connection (iincconnection.cpp), Inc_Server (iincserver.cpp), Inc_Context
    (iinccontext.cpp), Inc_Channel (iincstream.cpp): the objects above the protocol.
  - Application_Laws: payloads that round trip and the wire of a connection (locale
    transport_sender, interpreted on the TCP and the Unix transport); Server_Laws,
    Context_Laws, Channel_Laws: the invariants of server, context and stream;
    Server_Properties, Context_Properties, Channel_Properties: their promises, alone and composed.
  - Inc_Router (iincrouter.cpp), Router_Laws, Router_Properties: routes, bridges and forwarding, what
    every operation keeps (locale downstream_call, interpreted on each call that the router makes on a
    client's connection), and what passes through.
  - Rtp_Codec (src/core/inc/irtp.cpp), Rtp_Laws: packets, fragmentation and reassembly of
    H.264 and H.265 access units.
  - Mem_Chunk, Mem_Block_Queue (src/core/io/imemchunk.cpp, imemblockq.cpp): the aligner and
    the queue; Queue_Laws, Queue_Properties: its invariant, content and promises.
  - Media_Time_Range (src/multimedia/imediatimerange.cpp): sets of instants as intervals.
  - Byte_Search, Byte_Search_Laws, Byte_Search_Properties (src/core/utils/ibytearraymatcher.cpp,
    istringmatcher.cpp, ibytearray.cpp, istring.cpp): indexOf, lastIndexOf and count, case-sensitive,
    against the first and the last match.

  How state corresponds. A class is a record with its members' names, an operation a
  function from the old record to the result and the new one; results that the code returns
  through references are components of the tuple. Fixed-width members are words where
  wrap-around matters; counts of bytes are nat. An error return is None, a negative number
  or an error event, as in the code. Loops over lists and buffers are recursive functions
  with their termination proved; no model needs fuel. Signals are lists of events in the
  order they are emitted. The two threads that can finish an operation are the steps of
  race_step. Server, router, context and stream are modelled as they run without the I/O thread, where
  invokeMethod is a direct call: server_run, router_run, ctx_run and stream_run execute lists of commands, one
  for each call of the user, message, write event, error, timer and alarm, so that the event loop
  is any order of commands; in them the result None is a failed assertion or an invalid iterator
  that is dereferenced. Operations are numbers in the heap of the protocol that made them.

  Parameters. The kernel's answers to send and recv, the receiver's file descriptors, the
  host's byte order, the shared memory pool (the outcome of exporting and importing a block, and of
  creating a pool), the generated node ids, the outcome of creating a transport, the matching of a route's
  pattern, the address of a device, the clock and the
  transport under the protocol are arguments of the definitions; the laws a transport needs are
  the assumptions of stream_sender.

  What the lemmas show. The codecs round trip and never read outside their buffer; the
  parser of the stream recovers the messages whatever the cuts; the Unix device is the TCP
  device when descriptors are ignored, and no descriptor is lost while it is open; an
  operation finishes once, and the protocol's table never names a dead one; two sides agree on
  the handshake; a context connects to a server, its calls come back with the reply of their number,
  its streams attach, and events reach exactly the subscribers; through a router it connects to the
  routed server and what is forwarded arrives unchanged, and routing loops end; server, router, context and stream
  keep their invariants over every run of commands; reassembled frames are those that were cut
  into packets; the queue shows what was written last, its cursors and counters
  stay consistent and requests follow their formula; interval lists stay sorted and denote
  the union and difference of their instants; the searches find the first or last match and count them
  all. Where the code does something else than it
  means to, a property states what it does, in particular which messages and calls stop a
  server or a client.

  Not modelled. The object system, event loop, threads and timers (src/core/kernel,
  src/core/thread), strings, dates, locales, URLs and regular expressions with their
  generated tables (src/core/utils but for the searches, src/core/io/iurl*.cpp), the shared memory allocator
  (imemblock.cpp, isharemem.cpp), the sockets of the datagram devices
  (iudpdevice.cpp, irtpdevice.cpp), and the media players, frames and GStreamer plugins: later
  extensions or bindings to other systems.
\<close>

end
